(* ===== verification/Prelude.thy ===== *)
theory Prelude
  imports Main "HOL-Library.Word" "HOL-Library.Sublist" "HOL-Library.Char_ord"
    "HOL-Library.List_Lexorder" "HOL-Library.Signed_Division"
begin

text \<open>
  The vocabulary every component shares: bytes and byte strings (\<open>std::string\<close> is a
  \<^typ>\<open>string\<close>, one \<^typ>\<open>char\<close> per byte), searching in a byte string the way
  \<open>std::string::find\<close> does, decimal numerals as a reference for the convertors, C's
  truncating division, and the fact collections the component proofs use.
\<close>

named_theorems seq_simps \<open>search and split of byte strings\<close>
named_theorems dec_simps \<open>decimal digits and numerals\<close>

section \<open>Bytes\<close>

abbreviation SOH :: char where "SOH \<equiv> CHR 0x01"

definition is_digit :: "char \<Rightarrow> bool" where
  "is_digit c \<longleftrightarrow> 48 \<le> (of_char c :: nat) \<and> (of_char c :: nat) \<le> 57"

definition digit_char :: "nat \<Rightarrow> char" where
  "digit_char d = char_of (48 + d)"

definition digit_val :: "char \<Rightarrow> nat" where
  "digit_val c = of_char c - 48"

lemma of_char_digit_char [dec_simps]: "d < 10 \<Longrightarrow> (of_char (digit_char d) :: nat) = 48 + d"
  by (simp add: digit_char_def of_char_of)

lemma is_digit_digit_char [dec_simps, simp]: "d < 10 \<Longrightarrow> is_digit (digit_char d)"
  by (simp add: is_digit_def of_char_digit_char)

lemma digit_val_digit_char [dec_simps, simp]: "d < 10 \<Longrightarrow> digit_val (digit_char d) = d"
  by (simp add: digit_val_def of_char_digit_char)

lemma digit_val_less [dec_simps]: "is_digit c \<Longrightarrow> digit_val c < 10"
  by (auto simp: is_digit_def digit_val_def)

lemma not_digit [dec_simps, simp]:
  "\<not> is_digit SOH" "\<not> is_digit CHR ''=''" "\<not> is_digit CHR ''-''" "\<not> is_digit CHR ''.''"
  "\<not> is_digit CHR '':''" "\<not> is_digit CHR 0x00" "\<not> is_digit CHR '' ''"
  by (simp_all add: is_digit_def)

section \<open>Searching in byte strings\<close>

text \<open>\<open>find_sub pat s\<close> is \<open>s.find(pat)\<close>; \<^const>\<open>None\<close> stands for \<open>npos\<close>.\<close>

fun find_sub :: "string \<Rightarrow> string \<Rightarrow> nat option" where
  "find_sub pat [] = (if pat = [] then Some 0 else None)"
| "find_sub pat (c # cs) =
     (if prefix pat (c # cs) then Some 0 else map_option Suc (find_sub pat cs))"

text \<open>\<open>find_from pat s pos\<close> is \<open>s.find(pat, pos)\<close>.\<close>

definition find_from :: "string \<Rightarrow> string \<Rightarrow> nat \<Rightarrow> nat option" where
  "find_from pat s pos =
     (if pos \<le> length s then map_option ((+) pos) (find_sub pat (drop pos s)) else None)"

lemma find_sub_Some_prefix: "find_sub pat s = Some i \<Longrightarrow> prefix pat (drop i s)"
  by (induction pat s arbitrary: i rule: find_sub.induct) (auto split: if_splits)

lemma find_sub_Some_length: "find_sub pat s = Some i \<Longrightarrow> i + length pat \<le> length s"
  by (induction pat s arbitrary: i rule: find_sub.induct)
    (auto split: if_splits dest: prefix_length_le)

lemma find_sub_least: "find_sub pat s = Some i \<Longrightarrow> j < i \<Longrightarrow> \<not> prefix pat (drop j s)"
proof (induction pat s arbitrary: i j rule: find_sub.induct)
  case (2 pat c cs)
  then show ?case by (cases j) (auto split: if_splits)
qed (auto split: if_splits)

lemma find_sub_None: "find_sub pat s = None \<Longrightarrow> i \<le> length s \<Longrightarrow> \<not> prefix pat (drop i s)"
proof (induction pat s arbitrary: i rule: find_sub.induct)
  case (2 pat c cs)
  then show ?case by (cases i) (auto split: if_splits)
qed (auto split: if_splits)

text \<open>The first match is found where the pattern occurs and nowhere before.\<close>

lemma find_sub_at:
  assumes "prefix pat (drop i s)" "i \<le> length s" "\<And>j. j < i \<Longrightarrow> \<not> prefix pat (drop j s)"
  shows "find_sub pat s = Some i"
proof (cases "find_sub pat s")
  case None
  with assms(1,2) show ?thesis by (auto dest: find_sub_None)
next
  case (Some k)
  have "\<not> k < i" using assms(3) find_sub_Some_prefix [OF Some] by blast
  moreover have "\<not> i < k" using find_sub_least [OF Some] assms(1) by blast
  ultimately show ?thesis using Some by simp
qed

text \<open>A pattern whose first byte does not occur in \<open>xs\<close> is first found after \<open>xs\<close>.\<close>

lemma find_sub_skip [seq_simps]:
  assumes "c \<notin> set xs"
  shows "find_sub (c # pat) (xs @ (c # pat) @ ys) = Some (length xs)"
  using assms by (induction xs) auto

lemma find_sub_char_None [seq_simps]: "find_sub [c] s = None \<longleftrightarrow> c \<notin> set s"
  by (induction s) auto

lemma find_sub_absent [seq_simps]: "c \<notin> set s \<Longrightarrow> find_sub (c # pat) s = None"
  by (induction s) auto

section \<open>Splitting at a separator\<close>

lemma takeWhile_sep [seq_simps]:
  "c \<notin> set xs \<Longrightarrow> takeWhile (\<lambda>x. x \<noteq> c) (xs @ c # ys) = xs"
  by (induction xs) auto

lemma dropWhile_sep [seq_simps]:
  "c \<notin> set xs \<Longrightarrow> dropWhile (\<lambda>x. x \<noteq> c) (xs @ c # ys) = c # ys"
  by (induction xs) auto

section \<open>Decimal numerals (the reference for the convertors)\<close>

fun dec_digits :: "nat \<Rightarrow> string" where
  "dec_digits n = (if n < 10 then [digit_char n] else dec_digits (n div 10) @ [digit_char (n mod 10)])"

declare dec_digits.simps [simp del]

fun dec_val_from :: "nat \<Rightarrow> string \<Rightarrow> nat" where
  "dec_val_from x [] = x"
| "dec_val_from x (c # cs) = dec_val_from (10 * x + digit_val c) cs"

text \<open>The natural number a nonempty digit string denotes.\<close>

definition dec_nat :: "string \<Rightarrow> nat option" where
  "dec_nat s = (if s \<noteq> [] \<and> list_all is_digit s then Some (dec_val_from 0 s) else None)"

text \<open>An integer: an optional minus sign and a digit string.\<close>

fun dec_int :: "string \<Rightarrow> int option" where
  "dec_int [] = None"
| "dec_int (c # cs) =
     (if c = CHR ''-'' then map_option (\<lambda>n. - int n) (dec_nat cs) else map_option int (dec_nat (c # cs)))"

definition int_digits :: "int \<Rightarrow> string" where
  "int_digits i = (if i < 0 then CHR ''-'' # dec_digits (nat (- i)) else dec_digits (nat i))"

lemma dec_digits_all [dec_simps, simp]: "list_all is_digit (dec_digits n)"
proof (induction n rule: dec_digits.induct)
  case (1 n)
  then show ?case by (subst dec_digits.simps) auto
qed

lemma dec_digits_one [dec_simps]: "n < 10 \<Longrightarrow> dec_digits n = [digit_char n]"
  by (subst dec_digits.simps) simp

lemma dec_digits_step [dec_simps]:
  "10 \<le> n \<Longrightarrow> dec_digits n = dec_digits (n div 10) @ [digit_char (n mod 10)]"
  by (subst dec_digits.simps) simp

lemma dec_digits_set [dec_simps]: "c \<in> set (dec_digits n) \<Longrightarrow> is_digit c"
  using dec_digits_all [of n] by (auto simp: list_all_iff)

lemma dec_digits_notin [dec_simps, simp]: "\<not> is_digit c \<Longrightarrow> c \<notin> set (dec_digits n)"
  using dec_digits_set by blast

lemma dec_digits_Nil [dec_simps, simp]: "dec_digits n \<noteq> []"
  by (subst dec_digits.simps) simp

lemma dec_val_from_append [dec_simps]: "dec_val_from x (s @ t) = dec_val_from (dec_val_from x s) t"
  by (induction x s rule: dec_val_from.induct) auto

lemma dec_val_from_linear: "dec_val_from x s = x * 10 ^ length s + dec_val_from 0 s"
proof (induction s arbitrary: x)
  case (Cons c cs)
  have "dec_val_from x (c # cs) = (10 * x + digit_val c) * 10 ^ length cs + dec_val_from 0 cs"
    using Cons [of "10 * x + digit_val c"] by simp
  moreover have "dec_val_from 0 (c # cs) = digit_val c * 10 ^ length cs + dec_val_from 0 cs"
    using Cons [of "digit_val c"] by simp
  ultimately show ?case by (simp add: algebra_simps)
qed simp

lemma dec_val_from_mono: "x \<le> dec_val_from x s"
  by (subst dec_val_from_linear) (simp add: trans_le_add1)

lemma dec_val_dec_digits [dec_simps, simp]: "dec_val_from 0 (dec_digits n) = n"
proof (induction n rule: dec_digits.induct)
  case (1 n)
  then show ?case by (subst dec_digits.simps) (auto simp: dec_val_from_append)
qed

lemma dec_nat_dec_digits [dec_simps, simp]: "dec_nat (dec_digits n) = Some n"
  by (simp add: dec_nat_def)

lemma dec_int_int_digits [dec_simps, simp]: "dec_int (int_digits i) = Some i"
proof (cases "i < 0")
  case True
  then show ?thesis by (simp add: int_digits_def)
next
  case False
  obtain c cs where s: "dec_digits (nat i) = c # cs" by (cases "dec_digits (nat i)") auto
  then have "is_digit c" using dec_digits_set [of c "nat i"] by simp
  moreover have "dec_nat (c # cs) = Some (nat i)" using s by (metis dec_nat_dec_digits)
  ultimately show ?thesis using False s by (auto simp: int_digits_def)
qed

lemma dec_digits_length: "n < 10 ^ k \<Longrightarrow> 0 < k \<Longrightarrow> length (dec_digits n) \<le> k"
proof (induction k arbitrary: n)
  case (Suc k)
  show ?case
  proof (cases "n < 10")
    case False
    then have "0 < k" using Suc.prems(1) by (cases k) auto
    moreover have "n div 10 < 10 ^ k" using Suc.prems(1) by (simp add: less_mult_imp_div_less mult.commute)
    ultimately show ?thesis using Suc.IH [of "n div 10"] False by (simp add: dec_digits_step)
  qed (simp add: dec_digits_one)
qed simp

lemma int_digits_length: "\<bar>i\<bar> < 10 ^ k \<Longrightarrow> 0 < k \<Longrightarrow> length (int_digits i) \<le> Suc k"
  using dec_digits_length [of "nat \<bar>i\<bar>" k] by (auto simp: int_digits_def nat_less_iff)

lemma int_digits_neq [dec_simps]:
  "CHR ''='' \<notin> set (int_digits i)" "SOH \<notin> set (int_digits i)"
  by (auto simp: int_digits_def)

lemma int_digits_Nil [simp]: "int_digits i \<noteq> []"
  by (simp add: int_digits_def)

section \<open>C's truncating division\<close>

lemma sdiv_nonneg [simp]: "0 \<le> a \<Longrightarrow> 0 < b \<Longrightarrow> (a :: int) sdiv b = a div b"
  by (simp add: signed_divide_int_def sgn_if)

lemma smod_nonneg [simp]: "0 \<le> a \<Longrightarrow> 0 < b \<Longrightarrow> (a :: int) smod b = a mod b"
  by (simp add: signed_modulo_int_def sgn_if)

section \<open>Narrowing to \<open>int\<close>\<close>

text \<open>A conversion to the 32-bit \<open>int\<close>: the value modulo \<open>2 ^ 32\<close>.\<close>

definition to_int :: "int \<Rightarrow> int" where
  "to_int i = signed_take_bit 31 i"

lemma to_int_id [simp]: "- (2 ^ 31) \<le> i \<Longrightarrow> i < 2 ^ 31 \<Longrightarrow> to_int i = i"
  by (simp add: to_int_def signed_take_bit_int_eq_self)

section \<open>Ordered containers\<close>

text \<open>
  \<open>std::map\<close> is an association list with increasing keys, \<open>std::set\<close> a strictly
  increasing list (\<^const>\<open>insort_insert\<close> inserts). Both are iterated in that order.
\<close>

fun map_put :: "'k::linorder \<Rightarrow> 'v \<Rightarrow> ('k \<times> 'v) list \<Rightarrow> ('k \<times> 'v) list" where
  "map_put k v [] = [(k, v)]"
| "map_put k v ((k', v') # gs) =
     (if k < k' then (k, v) # (k', v') # gs
      else if k = k' then (k, v) # gs
      else (k', v') # map_put k v gs)"

definition map_erase :: "'k \<Rightarrow> ('k \<times> 'v) list \<Rightarrow> ('k \<times> 'v) list" where
  "map_erase k gs = filter (\<lambda>(k', _). k' \<noteq> k) gs"

definition map_sorted :: "('k::linorder \<times> 'v) list \<Rightarrow> bool" where
  "map_sorted gs \<longleftrightarrow> sorted_wrt (<) (map fst gs)"

lemma map_put_keys: "fst ` set (map_put k v gs) = insert k (fst ` set gs)"
proof (induction gs)
  case (Cons g gs)
  then show ?case by (cases g) auto
qed simp

lemma set_map_put: "set (map_put k v m) \<subseteq> insert (k, v) (set m)"
  by (induction k v m rule: map_put.induct) auto

lemma map_put_sorted [simp]: "map_sorted gs \<Longrightarrow> map_sorted (map_put k v gs)"
proof (induction gs)
  case (Cons g gs)
  obtain k' v' where g: "g = (k', v')" by (cases g)
  have s: "map_sorted gs" "\<forall>x\<in>fst ` set gs. k' < x" using Cons(2) g by (auto simp: map_sorted_def)
  have "\<forall>x\<in>fst ` set (map_put k v gs). k' < x" if "k' < k" using s(2) that by (simp add: map_put_keys)
  then show ?case using Cons s g by (auto simp: map_sorted_def dest: order.strict_trans)
qed (simp add: map_sorted_def)

lemma map_of_map_put [simp]: "map_sorted gs \<Longrightarrow> map_of (map_put k v gs) = (map_of gs)(k \<mapsto> v)"
proof (induction gs)
  case (Cons g gs)
  obtain k' v' where g: "g = (k', v')" by (cases g)
  have s: "map_sorted gs" using Cons(2) g by (auto simp: map_sorted_def)
  show ?case using Cons s g by auto
qed simp

lemma map_of_map_erase [simp]: "map_of (map_erase k gs) = (map_of gs)(k := None)"
  by (induction gs) (auto simp: map_erase_def)

lemma map_erase_sorted [simp]: "map_sorted gs \<Longrightarrow> map_sorted (map_erase k gs)"
  unfolding map_sorted_def sorted_wrt_map map_erase_def by (rule sorted_wrt_filter)

end
