(* ===== verification/FieldNumbers.thy ===== *)
theory FieldNumbers
  imports Prelude
begin

text \<open>
  The tag numbers of \<open>FixFieldNumbers.h\<close> (namespace \<open>FIELD\<close>) that the engine's own code
  names: the session level fields, the header and the trailer.
\<close>

abbreviation F_BeginString :: int where "F_BeginString \<equiv> 8"
abbreviation F_BodyLength :: int where "F_BodyLength \<equiv> 9"
abbreviation F_MsgType :: int where "F_MsgType \<equiv> 35"
abbreviation F_CheckSum :: int where "F_CheckSum \<equiv> 10"
abbreviation F_Signature :: int where "F_Signature \<equiv> 89"
abbreviation F_SignatureLength :: int where "F_SignatureLength \<equiv> 93"
abbreviation F_SenderCompID :: int where "F_SenderCompID \<equiv> 49"
abbreviation F_TargetCompID :: int where "F_TargetCompID \<equiv> 56"
abbreviation F_SenderSubID :: int where "F_SenderSubID \<equiv> 50"
abbreviation F_SenderLocationID :: int where "F_SenderLocationID \<equiv> 142"
abbreviation F_TargetSubID :: int where "F_TargetSubID \<equiv> 57"
abbreviation F_TargetLocationID :: int where "F_TargetLocationID \<equiv> 143"
abbreviation F_OnBehalfOfCompID :: int where "F_OnBehalfOfCompID \<equiv> 115"
abbreviation F_DeliverToCompID :: int where "F_DeliverToCompID \<equiv> 128"
abbreviation F_OnBehalfOfSubID :: int where "F_OnBehalfOfSubID \<equiv> 116"
abbreviation F_OnBehalfOfLocationID :: int where "F_OnBehalfOfLocationID \<equiv> 144"
abbreviation F_DeliverToSubID :: int where "F_DeliverToSubID \<equiv> 129"
abbreviation F_DeliverToLocationID :: int where "F_DeliverToLocationID \<equiv> 145"
abbreviation F_OnBehalfOfSendingTime :: int where "F_OnBehalfOfSendingTime \<equiv> 370"
abbreviation F_NoHops :: int where "F_NoHops \<equiv> 627"
abbreviation F_MsgSeqNum :: int where "F_MsgSeqNum \<equiv> 34"
abbreviation F_PossDupFlag :: int where "F_PossDupFlag \<equiv> 43"
abbreviation F_SendingTime :: int where "F_SendingTime \<equiv> 52"
abbreviation F_OrigSendingTime :: int where "F_OrigSendingTime \<equiv> 122"
abbreviation F_PossResend :: int where "F_PossResend \<equiv> 97"
abbreviation F_HeartBtInt :: int where "F_HeartBtInt \<equiv> 108"
abbreviation F_EncryptMethod :: int where "F_EncryptMethod \<equiv> 98"
abbreviation F_BeginSeqNo :: int where "F_BeginSeqNo \<equiv> 7"
abbreviation F_EndSeqNo :: int where "F_EndSeqNo \<equiv> 16"
abbreviation F_NewSeqNo :: int where "F_NewSeqNo \<equiv> 36"
abbreviation F_GapFillFlag :: int where "F_GapFillFlag \<equiv> 123"
abbreviation F_TestReqID :: int where "F_TestReqID \<equiv> 112"
abbreviation F_Text :: int where "F_Text \<equiv> 58"
abbreviation F_RefSeqNum :: int where "F_RefSeqNum \<equiv> 45"
abbreviation F_RefTagID :: int where "F_RefTagID \<equiv> 371"
abbreviation F_RefMsgType :: int where "F_RefMsgType \<equiv> 372"
abbreviation F_SessionRejectReason :: int where "F_SessionRejectReason \<equiv> 373"
abbreviation F_BusinessRejectReason :: int where "F_BusinessRejectReason \<equiv> 380"
abbreviation F_BusinessRejectRefID :: int where "F_BusinessRejectRefID \<equiv> 379"
abbreviation F_ResetSeqNumFlag :: int where "F_ResetSeqNumFlag \<equiv> 141"
abbreviation F_DefaultApplVerID :: int where "F_DefaultApplVerID \<equiv> 1137"
abbreviation F_ApplVerID :: int where "F_ApplVerID \<equiv> 1128"
abbreviation F_CstmApplVerID :: int where "F_CstmApplVerID \<equiv> 1129"
abbreviation F_RawData :: int where "F_RawData \<equiv> 96"
abbreviation F_RawDataLength :: int where "F_RawDataLength \<equiv> 95"
abbreviation F_Username :: int where "F_Username \<equiv> 553"
abbreviation F_Password :: int where "F_Password \<equiv> 554"
abbreviation F_NextExpectedMsgSeqNum :: int where "F_NextExpectedMsgSeqNum \<equiv> 789"
abbreviation F_LastMsgSeqNumProcessed :: int where "F_LastMsgSeqNumProcessed \<equiv> 369"
abbreviation F_MessageEncoding :: int where "F_MessageEncoding \<equiv> 347"
abbreviation F_SecureData :: int where "F_SecureData \<equiv> 91"
abbreviation F_SecureDataLen :: int where "F_SecureDataLen \<equiv> 90"
abbreviation F_XmlData :: int where "F_XmlData \<equiv> 213"
abbreviation F_XmlDataLen :: int where "F_XmlDataLen \<equiv> 212"

abbreviation F_UserMin :: int where "F_UserMin \<equiv> 5000"

end
