(* ===== verification/Exceptions.thy ===== *)
theory Exceptions
  imports Prelude
begin

text \<open>
  The exceptions of \<open>Exceptions.h\<close> as values. A fallible function of the code returns
  \<open>exn + 'a\<close>: \<^const>\<open>Inl\<close> the exception it throws, \<^const>\<open>Inr\<close> its result;
  \<open>rbind\<close> runs the rest of a function after a call that returned. The
  constructors carry what the structs carry: the field number and the detail text.
\<close>

datatype exn =
    DataDictionaryNotFound string string
  | FieldNotFound int
  | FieldConvertError string
  | MessageParseError string
  | InvalidMessage string
  | ConfigError string
  | RuntimeError string
  | InvalidTagNumber int
  | RequiredTagMissing int
  | TagNotDefinedForMessage int
  | NoTagValue int
  | IncorrectTagValue int
  | IncorrectDataFormat int string
  | IncorrectMessageStructure
  | DuplicateFieldNumber string
  | InvalidMessageType
  | UnsupportedMessageType
  | UnsupportedVersion
  | TagOutOfOrder int
  | RepeatedTag int
  | RepeatingGroupCountMismatch int
  | DoNotSend
  | RejectLogon string
  | SessionNotFound
  | IOException string
  | LogicError string
  | StdRuntimeError string
  | InvalidArgument string

type_synonym 'a result = "exn + 'a"

text \<open>\<open>std::logic_error(detail.size() ? type + ": " + detail : type)\<close>\<close>

definition exception_text :: "string \<Rightarrow> string \<Rightarrow> string" where
  "exception_text type detail = (if detail \<noteq> [] then type @ '': '' @ detail else type)"

fun exn_what :: "exn \<Rightarrow> string" where
  "exn_what (DataDictionaryNotFound v d) = exception_text ''Could not find data dictionary'' d"
| "exn_what (FieldNotFound f) = ''Field not found: '' @ int_digits f"
| "exn_what (FieldConvertError d) = exception_text ''Could not convert field'' d"
| "exn_what (MessageParseError d) = exception_text ''Could not parse message'' d"
| "exn_what (InvalidMessage d) = exception_text ''Invalid message'' d"
| "exn_what (ConfigError d) = exception_text ''Configuration failed'' d"
| "exn_what (RuntimeError d) = exception_text ''Runtime error'' d"
| "exn_what (InvalidTagNumber f) = ''Invalid tag number: '' @ int_digits f"
| "exn_what (RequiredTagMissing f) = ''Required tag missing: '' @ int_digits f"
| "exn_what (TagNotDefinedForMessage f) =
     ''Tag not defined for this message type: '' @ int_digits f"
| "exn_what (NoTagValue f) = ''Tag specified without a value: '' @ int_digits f"
| "exn_what (IncorrectTagValue f) =
     ''Value is incorrect (out of range) for this tag: '' @ int_digits f"
| "exn_what (IncorrectDataFormat f d) =
     exception_text (''Incorrect data format for value with tag: '' @ int_digits f) d"
| "exn_what IncorrectMessageStructure = ''Incorrect message structure''"
| "exn_what (DuplicateFieldNumber d) = exception_text ''Duplicate field number'' d"
| "exn_what InvalidMessageType = ''Invalid Message Type''"
| "exn_what UnsupportedMessageType = ''Unsupported Message Type''"
| "exn_what UnsupportedVersion = ''Unsupported Version''"
| "exn_what (TagOutOfOrder f) = ''Tag specified out of required order''"
| "exn_what (RepeatedTag f) = ''Repeated tag not part of repeating group''"
| "exn_what (RepeatingGroupCountMismatch f) = ''Repeating group count mismatch''"
| "exn_what DoNotSend = ''Do Not Send Message''"
| "exn_what (RejectLogon d) = exception_text ''Rejected Logon Attempt'' d"
| "exn_what SessionNotFound = ''Session Not Found''"
| "exn_what (IOException d) = exception_text ''IO Error'' d"
| "exn_what (LogicError d) = d"
| "exn_what (StdRuntimeError d) = d"
| "exn_what (InvalidArgument d) = d"

definition rbind :: "'e + 'a \<Rightarrow> ('a \<Rightarrow> 'e + 'b) \<Rightarrow> 'e + 'b" where
  "rbind r k = (case r of Inl e \<Rightarrow> Inl e | Inr a \<Rightarrow> k a)"

lemma rbind_simps [simp]: "rbind (Inl e) k = Inl e" "rbind (Inr a) k = k a"
  by (simp_all add: rbind_def)

lemma rbind_Inr: "rbind r k = Inr b \<longleftrightarrow> (\<exists>a. r = Inr a \<and> k a = Inr b)"
  by (cases r) simp_all

lemma rbind_Inl: "rbind r k = Inl e \<longleftrightarrow> r = Inl e \<or> (\<exists>a. r = Inr a \<and> k a = Inl e)"
  by (cases r) simp_all

text \<open>A check that throws or lets the function go on.\<close>

definition throw_if :: "bool \<Rightarrow> 'e \<Rightarrow> 'e + unit" where
  "throw_if b e = (if b then Inl e else Inr ())"

lemma throw_if_simps [simp]: "throw_if True e = Inl e" "throw_if False e = Inr ()"
  "throw_if b e = Inr u \<longleftrightarrow> \<not> b" "throw_if b e = Inl e' \<longleftrightarrow> b \<and> e' = e"
  by (auto simp: throw_if_def)

text \<open>A range-for whose body throws or goes on.\<close>

fun each :: "('a \<Rightarrow> 'e + unit) \<Rightarrow> 'a list \<Rightarrow> 'e + unit" where
  "each f [] = Inr ()"
| "each f (x # xs) = rbind (f x) (\<lambda>_. each f xs)"

lemma each_Inr [simp]: "each f xs = Inr () \<longleftrightarrow> (\<forall>x\<in>set xs. f x = Inr ())"
  by (induction xs) (auto simp: rbind_Inr)

lemma each_cong [fundef_cong]:
  "xs = ys \<Longrightarrow> (\<And>x. x \<in> set ys \<Longrightarrow> f x = g x) \<Longrightarrow> each f xs = each g ys"
  by (induction xs arbitrary: ys) auto

end
