(* ===== verification/Convertors.thy ===== *)
theory Convertors
  imports Exceptions
begin

text \<open>
  \<open>FieldConvertors.h\<close>: integers, checksums, doubles, characters and booleans to and
  from the bytes of a FIX field. An integer type \<open>T\<close> of the code is a word of its width
  and a flag saying whether it is signed; \<open>IntConvertor\<close> is the 32-bit signed one,
  \<open>Int64Convertor\<close> the 64-bit signed one and \<open>UInt64Convertor\<close> the 64-bit unsigned
  one, which sequence numbers use. The lemmas relate each convertor to the decimal
  numerals of the prelude: what it prints, exactly which strings it accepts, that nothing
  wraps around, and that printing and parsing are inverse.
\<close>

section \<open>Reading a word as a value of the code's type\<close>

definition value_of :: "bool \<Rightarrow> 'w::len word \<Rightarrow> int" where
  "value_of sgnd x = (if sgnd then sint x else uint x)"

text \<open>\<open>_UNSIGNED_VALUE_OF\<close>: the magnitude, as the unsigned type.\<close>

definition unsigned_value_of :: "bool \<Rightarrow> 'w::len word \<Rightarrow> 'w word" where
  "unsigned_value_of sgnd x = (if value_of sgnd x < 0 then - x else x)"

section \<open>Integers to bytes\<close>

text \<open>
  The loop of \<open>number_of_symbols_in\<close>. The number is unsigned and only divided, so it is a
  \<^typ>\<open>nat\<close> here.
\<close>

fun count_symbols :: "nat \<Rightarrow> nat \<Rightarrow> nat" where
  "count_symbols number symbols =
     (if number > 9999 then count_symbols (number div 10000) (symbols + 4)
      else if number > 99 then (if number > 999 then symbols + 4 else symbols + 3)
      else (if number > 9 then symbols + 2 else symbols + 1))"

declare count_symbols.simps [simp del]

definition number_of_symbols_in :: "bool \<Rightarrow> 'w::len word \<Rightarrow> nat" where
  "number_of_symbols_in sgnd x =
     (let symbols = count_symbols (unat (unsigned_value_of sgnd x)) 0
      in if value_of sgnd x < 0 then symbols + 1 else symbols)"

definition digit_pairs :: string where
  "digit_pairs =
     ''00010203040506070809'' @ ''10111213141516171819'' @
     ''20212223242526272829'' @ ''30313233343536373839'' @
     ''40414243444546474849'' @ ''50515253545556575859'' @
     ''60616263646566676869'' @ ''70717273747576777879'' @
     ''80818283848586878889'' @ ''90919293949596979899''"

text \<open>
  \<open>integer_to_string\<close> writes from the end of its buffer; \<open>buf\<close> is what it has
  written so far.
\<close>

fun write_digits :: "nat \<Rightarrow> string \<Rightarrow> string" where
  "write_digits number buf =
     (if number > 99 then
        (let pos = number mod 100 in
         write_digits (number div 100) (digit_pairs ! (2 * pos) # digit_pairs ! (2 * pos + 1) # buf))
      else if number > 9 then digit_pairs ! (2 * number) # digit_pairs ! (2 * number + 1) # buf
      else char_of (48 + number) # buf)"

declare write_digits.simps [simp del]

definition integer_to_string :: "bool \<Rightarrow> 'w::len word \<Rightarrow> string" where
  "integer_to_string sgnd t =
     (let s = write_digits (unat (unsigned_value_of sgnd t)) []
      in if value_of sgnd t < 0 then CHR ''-'' # s else s)"

text \<open>\<open>integer_to_string_padded\<close>: the bytes left of the number are filled with zeros.\<close>

definition integer_to_string_padded :: "nat \<Rightarrow> bool \<Rightarrow> 'w::len word \<Rightarrow> string" where
  "integer_to_string_padded len sgnd t =
     (let s = integer_to_string sgnd t in replicate (len - length s) (CHR ''0'') @ s)"

section \<open>Bytes to integers\<close>

definition VALUE_MAX :: "bool \<Rightarrow> 'w::len itself \<Rightarrow> 'w word" where
  "VALUE_MAX sgnd T = (if sgnd then of_nat (2 ^ (LENGTH('w) - 1) - 1) else - 1)"

definition VALUE_MIN :: "bool \<Rightarrow> 'w::len itself \<Rightarrow> 'w word" where
  "VALUE_MIN sgnd T = (if sgnd then of_nat (2 ^ (LENGTH('w) - 1)) else 0)"

definition OVERFLOW_MAX :: "bool \<Rightarrow> 'w::len itself \<Rightarrow> 'w word" where
  "OVERFLOW_MAX sgnd T = VALUE_MAX sgnd T div 10"

text \<open>\<open>const unsigned char c = *str - '0'\<close>, a subtraction that wraps at eight bits.\<close>

definition char_minus_zero :: "char \<Rightarrow> nat" where
  "char_minus_zero ch = (of_char ch + 208) mod 256"

fun convert_loop :: "'w::len word \<Rightarrow> 'w word \<Rightarrow> string \<Rightarrow> 'w word option" where
  "convert_loop ovmax x [] = Some x"
| "convert_loop ovmax x (ch # cs) =
     (if x > ovmax then None
      else let c = char_minus_zero ch in
        if c > 9 then None
        else let nx = 10 * x + of_nat c in
          if nx < x then None else convert_loop ovmax nx cs)"

definition int_convert :: "bool \<Rightarrow> string \<Rightarrow> 'w::len word option" where
  "int_convert sgnd str =
     (case str of
        [] \<Rightarrow> None
      | ch # cs \<Rightarrow>
          if ch = CHR ''-'' \<and> \<not> sgnd then None
          else let isNegative = (ch = CHR ''-''); digits = (if isNegative then cs else str) in
            if digits = [] then None
            else (case convert_loop (OVERFLOW_MAX sgnd TYPE('w)) 0 digits of
                    None \<Rightarrow> None
                  | Some nx \<Rightarrow>
                      if isNegative then
                        (if nx > unsigned_value_of sgnd (VALUE_MIN sgnd TYPE('w)) then None else Some (- nx))
                      else if nx > VALUE_MAX sgnd TYPE('w) then None else Some nx))"

text \<open>The three instances, over the integers the code's types range over.\<close>

definition IntConvertor_to :: "int \<Rightarrow> string" where
  "IntConvertor_to v = integer_to_string True (word_of_int v :: 32 word)"

definition IntConvertor_from :: "string \<Rightarrow> int option" where
  "IntConvertor_from s = map_option sint (int_convert True s :: 32 word option)"

definition UInt64Convertor_to :: "64 word \<Rightarrow> string" where
  "UInt64Convertor_to v = integer_to_string False v"

definition UInt64Convertor_from :: "string \<Rightarrow> 64 word option" where
  "UInt64Convertor_from s = int_convert False s"

definition Int64Convertor_to :: "int \<Rightarrow> string" where
  "Int64Convertor_to v = integer_to_string True (word_of_int v :: 64 word)"

definition Int64Convertor_from :: "string \<Rightarrow> int option" where
  "Int64Convertor_from s = map_option sint (int_convert True s :: 64 word option)"

definition IntConvertor_convert :: "string \<Rightarrow> int result" where
  "IntConvertor_convert s =
     (case IntConvertor_from s of None \<Rightarrow> Inl (FieldConvertError s) | Some v \<Rightarrow> Inr v)"

definition UInt64Convertor_convert :: "string \<Rightarrow> 64 word result" where
  "UInt64Convertor_convert s =
     (case UInt64Convertor_from s of None \<Rightarrow> Inl (FieldConvertError s) | Some v \<Rightarrow> Inr v)"

section \<open>Checksums, characters, booleans\<close>

definition CheckSumConvertor_to :: "int \<Rightarrow> string result" where
  "CheckSumConvertor_to v =
     (if v > 255 \<or> v < 0 then Inl (FieldConvertError [])
      else Inr (integer_to_string_padded 3 True (word_of_int v :: 32 word)))"

definition CheckSumConvertor_from :: "string \<Rightarrow> int option" where
  "CheckSumConvertor_from s = IntConvertor_from s"

definition CharConvertor_to :: "char \<Rightarrow> string" where
  "CharConvertor_to c = (if c = CHR 0x00 then [] else [c])"

definition CharConvertor_from :: "string \<Rightarrow> char option" where
  "CharConvertor_from s = (if length s \<noteq> 1 then None else Some (hd s))"

definition BoolConvertor_to :: "bool \<Rightarrow> string" where
  "BoolConvertor_to b = [if b then CHR ''Y'' else CHR ''N'']"

definition BoolConvertor_from :: "string \<Rightarrow> bool option" where
  "BoolConvertor_from s =
     (if length s \<noteq> 1 then None
      else if hd s = CHR ''Y'' then Some True
      else if hd s = CHR ''N'' then Some False
      else None)"

section \<open>Doubles\<close>

text \<open>
  \<open>value.c_str()\<close> is read up to its first zero byte. The syntax check is the code's; the
  value itself comes from the vendored double-conversion library, the parameter
  \<open>fast_strtod\<close>.
\<close>

definition scan_decimal :: "string \<Rightarrow> bool" where
  "scan_decimal i1 =
     (let haveDigit = is_digit (hd i1);
          i2 = (if haveDigit then dropWhile is_digit i1 else i1);
          point = (i2 \<noteq> [] \<and> hd i2 = CHR ''.'');
          i3 = (if point then tl i2 else i2);
          fraction = (point \<and> i3 \<noteq> [] \<and> is_digit (hd i3));
          i4 = (if fraction then dropWhile is_digit i3 else i3)
      in i4 = [] \<and> (haveDigit \<or> fraction))"

definition double_syntax :: "string \<Rightarrow> bool" where
  "double_syntax value =
     (let i = takeWhile (\<lambda>c. c \<noteq> CHR 0x00) value in
      if i = [] then False
      else let i1 = (if hd i = CHR ''-'' then tl i else i)
           in if i1 = [] then False else scan_decimal i1)"

definition DoubleConvertor_from :: "(string \<Rightarrow> 'd) \<Rightarrow> string \<Rightarrow> 'd option" where
  "DoubleConvertor_from fast_strtod value =
     (if double_syntax value then Some (fast_strtod value) else None)"

section \<open>What the convertors print\<close>

lemma digit_pairs_nth:
  assumes "p < 100"
  shows "digit_pairs ! (2 * p) = digit_char (p div 10) \<and> digit_pairs ! (2 * p + 1) = digit_char (p mod 10)"
proof -
  have "list_all (\<lambda>p. digit_pairs ! (2 * p) = digit_char (p div 10)
           \<and> digit_pairs ! (2 * p + 1) = digit_char (p mod 10)) [0..<100]"
    by code_simp
  then show ?thesis using assms by (simp add: list_all_iff)
qed

lemma write_digits_dec [simp]: "write_digits n buf = dec_digits n @ buf"
proof (induction n buf rule: write_digits.induct)
  case (1 n buf)
  show ?case
  proof (cases "n > 99")
    case True
    have "dec_digits n = dec_digits (n div 100) @ [digit_char (n div 10 mod 10), digit_char (n mod 10)]"
      using True by (simp add: dec_digits_step [of n] dec_digits_step [of "n div 10"] div_mult2_eq [symmetric])
    moreover have "n mod 100 div 10 = n div 10 mod 10" "n mod 100 mod 10 = n mod 10"
      using mod_mult2_eq[of n 10 10] by (simp_all add: mod_mod_cancel)
    ultimately show ?thesis
      using True 1 digit_pairs_nth [of "n mod 100"] by (subst write_digits.simps) (simp add: Let_def)
  next
    case False
    then show ?thesis
      using digit_pairs_nth [of n]
      by (subst write_digits.simps) (auto simp: dec_digits_one dec_digits_step digit_char_def)
  qed
qed

lemma count_symbols_dec: "count_symbols n s = s + length (dec_digits n)"
proof (induction n s rule: count_symbols.induct)
  case (1 n s)
  have four: "length (dec_digits n) = length (dec_digits (n div 10000)) + 4" if "n > 9999"
    using that by (simp add: dec_digits_step [of n] dec_digits_step [of "n div 10"]
        dec_digits_step [of "n div 100"] dec_digits_step [of "n div 1000"] div_mult2_eq [symmetric])
  show ?case
  proof (cases "n > 9999")
    case True
    then show ?thesis using 1 four by (subst count_symbols.simps) simp
  next
    case False
    then show ?thesis
      by (subst count_symbols.simps) (auto simp: dec_digits_one dec_digits_step)
  qed
qed

lemma uint_word_of_int_range: "0 \<le> i \<Longrightarrow> i < 2 ^ LENGTH('w) \<Longrightarrow> uint (word_of_int i :: 'w::len word) = i"
  by (simp add: uint_word_of_int)

lemma uint_sint_nonneg: "0 \<le> sint x \<Longrightarrow> uint x = sint (x :: 'w::len word)"
proof -
  assume "0 \<le> sint x"
  moreover have "sint x < 2 ^ LENGTH('w)"
    using sint_lt [of x] by (rule less_le_trans) simp
  ultimately have "uint (word_of_int (sint x) :: 'w word) = sint x" by (rule uint_word_of_int_range)
  then show ?thesis by simp
qed

lemma uint_minus_sint_neg: "sint x < 0 \<Longrightarrow> uint (- x) = - sint (x :: 'w::len word)"
proof -
  assume "sint x < 0"
  moreover have "- sint x < 2 ^ LENGTH('w)"
  proof -
    have "- sint x \<le> 2 ^ (LENGTH('w) - 1)" using sint_ge [of x] by simp
    also have "(2::int) ^ (LENGTH('w) - 1) < 2 ^ LENGTH('w)" by simp
    finally show ?thesis .
  qed
  ultimately have "uint (word_of_int (- sint x) :: 'w word) = - sint x"
    by (intro uint_word_of_int_range) auto
  moreover have "word_of_int (- sint x) = - x" by simp
  ultimately show ?thesis by metis
qed

lemma unat_unsigned_value_of [simp]:
  "unat (unsigned_value_of sgnd (x :: 'w::len word)) = nat \<bar>value_of sgnd x\<bar>"
proof -
  have n: "unat y = nat (uint y)" for y :: "'w word" by simp
  show ?thesis
    unfolding unsigned_value_of_def value_of_def n
    using uint_minus_sint_neg [of x] uint_sint_nonneg [of x] uint_ge_0 [of x]
    by (cases sgnd; cases "sint x < 0") simp_all
qed

lemma integer_to_string_digits [simp]: "integer_to_string sgnd t = int_digits (value_of sgnd t)"
  by (auto simp: integer_to_string_def int_digits_def Let_def)

lemma number_of_symbols_in_length: "number_of_symbols_in sgnd t = length (integer_to_string sgnd t)"
  by (auto simp: number_of_symbols_in_def count_symbols_dec int_digits_def Let_def)

section \<open>What the integer convertors accept\<close>

text \<open>One byte of the parse loop: a digit or a rejection.\<close>

lemma char_minus_zero_digit: "char_minus_zero ch \<le> 9 \<longleftrightarrow> is_digit ch"
  "is_digit ch \<Longrightarrow> char_minus_zero ch = digit_val ch"
proof -
  have l: "(of_char ch :: nat) < 256" by simp
  have big: "char_minus_zero ch = of_char ch - 48" if ge: "\<not> (of_char ch :: nat) < 48"
  proof -
    obtain n where n: "(of_char ch :: nat) = n + 48" using ge by (metis add.commute le_iff_add linorder_not_less)
    then have "n < 256" using l by simp
    then show ?thesis by (simp add: char_minus_zero_def n)
  qed
  show "char_minus_zero ch \<le> 9 \<longleftrightarrow> is_digit ch"
  proof (cases "(of_char ch :: nat) < 48")
    case True
    then show ?thesis by (simp add: char_minus_zero_def is_digit_def)
  next
    case False
    then show ?thesis using big by (auto simp: is_digit_def)
  qed
  show "is_digit ch \<Longrightarrow> char_minus_zero ch = digit_val ch"
    using big by (simp add: is_digit_def digit_val_def)
qed

text \<open>The guards of the loop exclude a wrap-around.\<close>

lemma convert_step_exact:
  fixes x ov :: "'w::len word"
  assumes w: "7 \<le> LENGTH('w)" and ov: "10 * unat ov < 2 ^ LENGTH('w)" and x: "\<not> x > ov"
    and c: "c \<le> 9" and nx: "\<not> 10 * x + of_nat c < x"
  shows "unat (10 * x + of_nat c) = 10 * unat x + c"
proof -
  let ?N = "(2::nat) ^ LENGTH('w)"
  have "(2::nat) ^ 7 \<le> ?N" using w by (intro power_increasing) auto
  then have N: "128 \<le> ?N" by simp
  have "unat x \<le> unat ov" using x by (simp add: word_le_nat_alt linorder_not_less)
  then have hi: "10 * unat x + c < ?N + 9" using ov c by linarith
  have eq: "unat (10 * x + of_nat c) = (10 * unat x + c) mod ?N"
    using unat_of_nat [where x = "10 * unat x + c" and 'a = 'w] by simp
  show ?thesis
  proof (cases "10 * unat x + c < ?N")
    case True
    then show ?thesis using eq by simp
  next
    case False
    then have "unat (10 * x + of_nat c) = 10 * unat x + c - ?N"
      using eq hi N by (simp add: mod_if)
    moreover have "unat x \<le> unat (10 * x + of_nat c)"
      using nx by (simp add: word_le_nat_alt linorder_not_less)
    ultimately show ?thesis using False hi N c by linarith
  qed
qed

lemma convert_loop_sound:
  fixes x ov :: "'w::len word"
  assumes "convert_loop ov x cs = Some y" "7 \<le> LENGTH('w)" "10 * unat ov < 2 ^ LENGTH('w)"
  shows "list_all is_digit cs \<and> unat y = dec_val_from (unat x) cs"
  using assms
proof (induction ov x cs rule: convert_loop.induct)
  case (2 ov x ch cs)
  have d: "\<not> x > ov" "is_digit ch" "\<not> 10 * x + of_nat (digit_val ch) < x"
    and r: "convert_loop ov (10 * x + of_nat (digit_val ch)) cs = Some y"
    using 2(2) char_minus_zero_digit [of ch] by (auto simp: Let_def split: if_splits)
  have e: "unat (10 * x + of_nat (digit_val ch)) = 10 * unat x + digit_val ch"
    using convert_step_exact [OF 2(3,4) d(1) _ d(3)] digit_val_less [OF d(2)] by simp
  show ?case
    using 2(1) [OF d(1) refl _ refl d(3)[folded char_minus_zero_digit(2) [OF d(2)]]] d r e 2(3,4)
      char_minus_zero_digit [of ch]  by simp
qed simp


lemma convert_loop_complete:
  fixes x ov :: "'w::len word"
  assumes "list_all is_digit cs" "dec_val_from (unat x) cs \<le> 10 * unat ov + 9"
    "dec_val_from (unat x) cs < 2 ^ LENGTH('w)"
  shows "convert_loop ov x cs = Some (of_nat (dec_val_from (unat x) cs))"
  using assms
proof (induction cs arbitrary: x)
  case (Cons ch cs)
  let ?d = "digit_val ch" and ?nx = "10 * x + of_nat (digit_val ch)"
  have d: "is_digit ch" using Cons(2) by simp
  have m: "10 * unat x + ?d \<le> dec_val_from (10 * unat x + ?d) cs" by (rule dec_val_from_mono)
  then have "10 * unat x + ?d \<le> 10 * unat ov + 9" "10 * unat x + ?d < 2 ^ LENGTH('w)"
    using Cons(3,4) by simp_all
  then have le: "unat x \<le> unat ov" and u: "unat ?nx = 10 * unat x + ?d"
    using unat_of_nat [where x = "10 * unat x + ?d" and 'a = 'w] by simp_all
  have "\<not> x > ov" "\<not> ?nx < x" using le u by (simp_all add: word_less_nat_alt)
  then show ?case
    using Cons.IH [of ?nx] Cons(2,3,4) d u digit_val_less [OF d] char_minus_zero_digit(2) [OF d]
    by (simp add: Let_def)
qed simp

lemma unat_OVERFLOW_MAX:
  assumes "7 \<le> LENGTH('w::len)"
  shows "unat (OVERFLOW_MAX sgnd TYPE('w)) = unat (VALUE_MAX sgnd TYPE('w)) div 10"
proof -
  have "(2::nat) ^ 7 \<le> 2 ^ LENGTH('w)" using assms by (intro power_increasing) auto
  then have "take_bit LENGTH('w) (10::nat) = 10" by (simp add: take_bit_nat_eq_self_iff)
  then show ?thesis by (simp add: OVERFLOW_MAX_def unat_div)
qed

lemma unat_VALUE_MAX:
  "unat (VALUE_MAX sgnd TYPE('w::len)) = (if sgnd then 2 ^ (LENGTH('w) - 1) else 2 ^ LENGTH('w)) - 1"
proof -
  have "(2::nat) ^ (LENGTH('w) - 1) - 1 < 2 ^ LENGTH('w)"
    by (rule le_less_trans [of _ "2 ^ (LENGTH('w) - 1)"]) simp_all
  moreover have "unat (- 1 :: 'w word) = 2 ^ LENGTH('w) - 1"
    by (simp add: unat_eq_nat_uint nat_diff_distrib unsigned_minus_1_eq_mask mask_eq_exp_minus_1 nat_power_eq)
  ultimately show ?thesis
    by (simp add: VALUE_MAX_def unat_of_nat del: of_nat_diff)
qed

text \<open>The digits between the sign and the end, against a bound the type can hold.\<close>

lemma convert_digits:
  fixes ov :: "'w::len word"
  assumes "7 \<le> LENGTH('w)" "10 * unat ov < 2 ^ LENGTH('w)" "unat B \<le> 10 * unat ov + 9"
  shows "(case convert_loop ov 0 ds of None \<Rightarrow> None | Some y \<Rightarrow> if y > B then None else Some y) =
    (if list_all is_digit ds \<and> dec_val_from 0 ds \<le> unat B then Some (of_nat (dec_val_from 0 ds)) else None)"
proof (cases "list_all is_digit ds \<and> dec_val_from 0 ds \<le> unat B")
  case True
  then have "dec_val_from 0 ds < 2 ^ LENGTH('w)"
    using unsigned_less [of B, where 'a = nat] by (meson le_less_trans)
  moreover from this have "unat (of_nat (dec_val_from 0 ds) :: 'w word) = dec_val_from 0 ds"
    by (simp add: unat_of_nat)
  ultimately show ?thesis
    using True assms convert_loop_complete [of ds 0 ov] by (simp add: word_less_nat_alt)
next
  case False
  then have "unat y > unat B" if "convert_loop ov 0 ds = Some y" for y
    using convert_loop_sound [OF that assms(1,2)] by auto
  then show ?thesis
    using False by (cases "convert_loop ov 0 ds") (auto simp: word_less_nat_alt)
qed

lemma hd_digit_neq_minus: "list_all is_digit (c # cs) \<Longrightarrow> c \<noteq> CHR ''-''"
  by auto

lemma le_minus_one: "0 < p \<Longrightarrow> (n \<le> p - 1) = (n < (p :: nat))"
  by linarith

lemma int_less_power: "(int n < 2 ^ k) = (n < 2 ^ k)"
  using of_nat_less_iff [of n "2 ^ k", where 'a = int] by simp

lemma int_le_power: "(int n \<le> 2 ^ k) = (n \<le> 2 ^ k)"
  using of_nat_le_iff [of n "2 ^ k", where 'a = int] by simp

lemma minus_int_less_power [simp]: "- int n < 2 ^ k" 
  by (rule le_less_trans [of _ 0]) simp_all

lemma minus_power_le_int [simp]: "- (2 ^ k) \<le> int n"
  by (rule order_trans [of _ 0]) simp_all

text \<open>The unsigned convertor accepts exactly the digit strings whose value fits.\<close>

lemma int_convert_unsigned:
  assumes "7 \<le> LENGTH('w::len)"
  shows "(int_convert False s :: 'w word option) =
    (case dec_nat s of Some n \<Rightarrow> if n < 2 ^ LENGTH('w) then Some (of_nat n) else None | None \<Rightarrow> None)"
proof (cases s)
  case (Cons ch cs)
  let ?ov = "OVERFLOW_MAX False TYPE('w)" and ?B = "VALUE_MAX False TYPE('w)"
  have B: "unat ?B = 2 ^ LENGTH('w) - 1" by (simp add: unat_VALUE_MAX)
  have ov: "unat ?ov = unat ?B div 10" using assms by (rule unat_OVERFLOW_MAX)
  have "10 * unat ?ov \<le> unat ?B" "unat ?B \<le> 10 * unat ?ov + 9" unfolding ov by linarith+
  moreover have "unat ?B < 2 ^ LENGTH('w)" by (rule unsigned_less)
  ultimately have c: "(case convert_loop ?ov 0 s of None \<Rightarrow> None | Some y \<Rightarrow> if y > ?B then None else Some y) =
    (if list_all is_digit s \<and> dec_val_from 0 s \<le> unat ?B then Some (of_nat (dec_val_from 0 s)) else None)"
    using assms by (intro convert_digits) linarith+
  have "n \<le> unat ?B \<longleftrightarrow> n < 2 ^ LENGTH('w)" for n
    unfolding B by (rule le_minus_one) simp
  then have "(if list_all is_digit s \<and> dec_val_from 0 s \<le> unat ?B then Some (of_nat (dec_val_from 0 s)) else None) =
    (case dec_nat s of Some n \<Rightarrow> if n < 2 ^ LENGTH('w) then Some (of_nat n :: 'w word) else None | None \<Rightarrow> None)"
    using Cons by (simp add: dec_nat_def del: dec_val_from.simps)
  moreover have "int_convert False s = (if ch = CHR ''-'' then None else
      case convert_loop ?ov 0 s of None \<Rightarrow> None | Some y \<Rightarrow> if y > ?B then None else Some y)"
    using Cons by (auto simp: int_convert_def Let_def simp del: convert_loop.simps split: option.split)
  moreover have "\<not> list_all is_digit s" if "ch = CHR ''-''" using Cons that by simp
  ultimately show ?thesis using c by (cases "ch = CHR ''-''") simp_all
qed (simp add: int_convert_def dec_nat_def)

text \<open>The signed convertors accept exactly the signed decimal strings whose value fits.\<close>

lemma int_convert_signed:
  assumes w: "7 \<le> LENGTH('w::len)"
    and m: "unat (unsigned_value_of True (VALUE_MIN True TYPE('w))) = 2 ^ (LENGTH('w) - 1)"
    and ten: "(2::nat) ^ (LENGTH('w) - 1) \<le> 10 * ((2 ^ (LENGTH('w) - 1) - 1) div 10) + 9"
  shows "(int_convert True s :: 'w word option) =
    (case dec_int s of
       Some v \<Rightarrow> if - (2 ^ (LENGTH('w) - 1)) \<le> v \<and> v < 2 ^ (LENGTH('w) - 1) then Some (word_of_int v) else None
     | None \<Rightarrow> None)"
proof (cases s)
  case (Cons ch cs)
  let ?P = "2 ^ (LENGTH('w) - 1)"
  let ?ov = "OVERFLOW_MAX True TYPE('w)" and ?B = "VALUE_MAX True TYPE('w)"
  let ?M = "unsigned_value_of True (VALUE_MIN True TYPE('w))"
  have B: "unat ?B = ?P - 1" by (simp add: unat_VALUE_MAX)
  have ov: "unat ?ov = (?P - 1) div 10" using unat_OVERFLOW_MAX [OF w, of True] B by simp
  have lt: "10 * unat ?ov < 2 ^ LENGTH('w)"
    using unsigned_less [of ?B, where 'a = nat] B ov by linarith
  have c: "(case convert_loop ?ov 0 ds of None \<Rightarrow> None | Some y \<Rightarrow> if y > B then None else Some y) =
    (if list_all is_digit ds \<and> dec_val_from 0 ds \<le> unat B then Some (of_nat (dec_val_from 0 ds)) else None)"
    if "B = ?B \<or> B = ?M" for B :: "'w word" and ds
  proof (rule convert_digits [OF w lt])
    have "unat B \<le> ?P" using that B m by (elim disjE) (simp_all only: diff_le_self)
    then show "unat B \<le> 10 * unat ?ov + 9" using ten unfolding ov by (rule order_trans)
  qed
  have le: "n \<le> unat ?B \<longleftrightarrow> int n < ?P" "n \<le> unat ?M \<longleftrightarrow> - ?P \<le> - int n" for n
    unfolding B m by (simp_all only: le_minus_one zero_less_power zero_less_numeral int_less_power
        neg_le_iff_le int_le_power)
  show ?thesis
  proof (cases "ch = CHR ''-''")
    case True
    have "int_convert True s = (if cs = [] then None else
       map_option uminus (case convert_loop ?ov 0 cs of None \<Rightarrow> None | Some y \<Rightarrow> if y > ?M then None else Some y))"
      using True Cons by (auto simp: int_convert_def Let_def split: option.split)
    then show ?thesis using True Cons c [of ?M cs] le(2) [of "dec_val_from 0 cs"]
      by (auto simp: dec_nat_def)
  next
    case False
    have "int_convert True s =
       (case convert_loop ?ov 0 s of None \<Rightarrow> None | Some y \<Rightarrow> if y > ?B then None else Some y)"
      using False Cons by (auto simp: int_convert_def Let_def split: option.split)
    moreover have "dec_int s = (if list_all is_digit s then Some (int (dec_val_from 0 s)) else None)"
      using False Cons by (simp add: dec_nat_def)
    ultimately show ?thesis using c [of ?B s] le(1) [of "dec_val_from 0 s"] by simp
  qed
qed (simp add: int_convert_def)

lemma sint_of_int_range:
  "- (2 ^ (LENGTH('w) - 1)) \<le> v \<Longrightarrow> v < 2 ^ (LENGTH('w) - 1) \<Longrightarrow> sint (word_of_int v :: 'w::len word) = v"
  by (simp add: signed_of_int signed_take_bit_int_eq_self_iff)

lemma IntConvertor_from_spec:
  "IntConvertor_from s =
    (case dec_int s of Some v \<Rightarrow> if - (2 ^ 31) \<le> v \<and> v < 2 ^ 31 then Some v else None | None \<Rightarrow> None)"
proof -
  have "(int_convert True s :: 32 word option) =
    (case dec_int s of Some v \<Rightarrow> if - (2 ^ (LENGTH(32) - 1)) \<le> v \<and> v < 2 ^ (LENGTH(32) - 1)
       then Some (word_of_int v) else None | None \<Rightarrow> None)"
    by (rule int_convert_signed) (simp_all add: VALUE_MIN_def value_of_def)
  then show ?thesis
    by (auto simp: IntConvertor_from_def sint_of_int_range split: option.split)
qed

lemma Int64Convertor_from_spec:
  "Int64Convertor_from s =
    (case dec_int s of Some v \<Rightarrow> if - (2 ^ 63) \<le> v \<and> v < 2 ^ 63 then Some v else None | None \<Rightarrow> None)"
proof -
  have "(int_convert True s :: 64 word option) =
    (case dec_int s of Some v \<Rightarrow> if - (2 ^ (LENGTH(64) - 1)) \<le> v \<and> v < 2 ^ (LENGTH(64) - 1)
       then Some (word_of_int v) else None | None \<Rightarrow> None)"
    by (rule int_convert_signed) (simp_all add: VALUE_MIN_def value_of_def)
  then show ?thesis
    by (auto simp: Int64Convertor_from_def sint_of_int_range split: option.split)
qed

lemma UInt64Convertor_from_spec:
  "UInt64Convertor_from s =
    (case dec_nat s of Some n \<Rightarrow> if n < 2 ^ 64 then Some (of_nat n) else None | None \<Rightarrow> None)"
  using int_convert_unsigned [where 'w = 64, of s] by (simp add: UInt64Convertor_from_def cong: option.case_cong)

lemma IntConvertor_to_digits: "- (2 ^ 31) \<le> v \<Longrightarrow> v < 2 ^ 31 \<Longrightarrow> IntConvertor_to v = int_digits v"
  by (simp add: IntConvertor_to_def value_of_def sint_of_int_range)

lemma UInt64Convertor_to_digits: "UInt64Convertor_to v = dec_digits (unat v)"
  by (simp add: UInt64Convertor_to_def value_of_def int_digits_def)

section \<open>Round trips\<close>

text \<open>Printing and reading are inverse on the range of the type.\<close>

lemma IntConvertor_roundtrip [simp]:
  "- (2 ^ 31) \<le> v \<Longrightarrow> v < 2 ^ 31 \<Longrightarrow> IntConvertor_from (IntConvertor_to v) = Some v"
  by (simp add: IntConvertor_to_digits IntConvertor_from_spec)

lemma UInt64Convertor_roundtrip [simp]: "UInt64Convertor_from (UInt64Convertor_to v) = Some v"
  using unsigned_less [of v, where 'a = nat]
  by (simp add: UInt64Convertor_to_digits UInt64Convertor_from_spec)

lemma dec_int_nonneg: "dec_nat s = Some n \<Longrightarrow> dec_int s = Some (int n)"
  by (cases s) (auto simp: dec_nat_def split: if_splits)

lemma three_digits:
  assumes "n \<le> 255"
  shows "replicate (3 - length (dec_digits n)) (CHR ''0'') @ dec_digits n =
     [digit_char (n div 100), digit_char (n div 10 mod 10), digit_char (n mod 10)]"
proof -
  have z: "CHR ''0'' = digit_char 0" by code_simp
  consider "n < 10" | "10 \<le> n" "n < 100" | "100 \<le> n" by linarith
  then show ?thesis
  proof cases
    case 1
    then show ?thesis by (simp add: dec_digits_one z numeral_2_eq_2)
  next
    case 2
    then have "n div 10 < 10" by simp
    then show ?thesis using 2 by (simp add: dec_digits_step [of n] dec_digits_one z)
  next
    case 3
    then have "10 \<le> n div 10" "n div 100 < 10" "n div 10 div 10 = n div 100"
      using assms by (simp_all add: div_mult2_eq [symmetric])
    then show ?thesis using 3 by (simp add: dec_digits_step [of n] dec_digits_step [of "n div 10"] dec_digits_one)
  qed
qed

lemma CheckSumConvertor_to_padded:
  "0 \<le> v \<Longrightarrow> v \<le> 255 \<Longrightarrow>
   CheckSumConvertor_to v = Inr [digit_char (nat v div 100), digit_char (nat v div 10 mod 10), digit_char (nat v mod 10)]"
proof -
  assume a: "0 \<le> v" "v \<le> 255"
  obtain n where n: "v = int n" "n \<le> 255" using a by (metis nat_le_iff nonneg_int_cases nat_int of_nat_numeral)
  have "sint (word_of_int v :: 32 word) = v" using a by (intro sint_of_int_range) simp_all
  then have "CheckSumConvertor_to v = Inr (replicate (3 - length (dec_digits n)) (CHR ''0'') @ dec_digits n)"
    using a n by (simp add: CheckSumConvertor_to_def integer_to_string_padded_def value_of_def int_digits_def Let_def)
  also have "replicate (3 - length (dec_digits n)) (CHR ''0'') @ dec_digits n =
     [digit_char (n div 100), digit_char (n div 10 mod 10), digit_char (n mod 10)]"
    using n(2) by (rule three_digits)
  finally show ?thesis using n by simp
qed

section \<open>What the double convertor accepts\<close>

lemma dropWhile_digits [simp]: "list_all is_digit ds \<Longrightarrow> dropWhile is_digit (ds @ xs) = dropWhile is_digit xs"
  by (induction ds) auto

lemma takeWhile_list_all: "list_all is_digit (takeWhile is_digit s)"
  by (induction s) auto

text \<open>The unsigned part of a double: digits, then optionally a point and digits.\<close>

definition unsigned_decimal :: "string \<Rightarrow> bool" where
  "unsigned_decimal s \<longleftrightarrow> (\<exists>ds es. list_all is_digit ds \<and> list_all is_digit es \<and>
     (s = ds \<and> ds \<noteq> [] \<or> s = ds @ CHR ''.'' # es \<and> (ds \<noteq> [] \<or> es \<noteq> [])))"

lemma scan_decimal_iff: "i1 \<noteq> [] \<Longrightarrow> scan_decimal i1 \<longleftrightarrow> unsigned_decimal i1"
proof
  assume ne: "i1 \<noteq> []" and s: "scan_decimal i1"
  let ?ds = "takeWhile is_digit i1" and ?r = "dropWhile is_digit i1"
  have i: "i1 = ?ds @ ?r" by simp
  have d: "list_all is_digit ?ds" by (rule takeWhile_list_all)
  show "unsigned_decimal i1"
  proof (cases ?r)
    case Nil
    then show ?thesis using ne i d unfolding unsigned_decimal_def by (metis append_Nil2)
  next
    case (Cons c es)
    have hd: "is_digit (hd i1) \<longleftrightarrow> ?ds \<noteq> []" using ne by (cases i1) auto
    have c: "\<not> is_digit c" using Cons by (metis hd_dropWhile list.distinct(1) list.sel(1))
    have i2: "(if is_digit (hd i1) then ?r else i1) = c # es" using hd i Cons by auto
    have "(let point = c = CHR ''.''; i3 = (if point then es else c # es);
           fraction = (point \<and> i3 \<noteq> [] \<and> is_digit (hd i3));
           i4 = (if fraction then dropWhile is_digit i3 else i3) in i4 = [] \<and> (?ds \<noteq> [] \<or> fraction))"
      using s by (simp add: scan_decimal_def i2 hd [symmetric] Let_def cong: if_cong)
    then have "c = CHR ''.'' \<and> list_all is_digit es \<and> (?ds \<noteq> [] \<or> es \<noteq> [])"
      by (cases es) (auto simp: list_all_iff dropWhile_eq_Nil_conv Let_def split: if_splits)
    then show ?thesis using i d Cons unfolding unsigned_decimal_def by metis
  qed
next
  assume ne: "i1 \<noteq> []" and "unsigned_decimal i1"
  then obtain ds es where "list_all is_digit ds" "list_all is_digit es"
    "i1 = ds \<and> ds \<noteq> [] \<or> i1 = ds @ CHR ''.'' # es \<and> (ds \<noteq> [] \<or> es \<noteq> [])"
    unfolding unsigned_decimal_def by blast
  then show "scan_decimal i1"
    by (cases ds; cases es) (auto simp: scan_decimal_def Let_def dropWhile_eq_Nil_conv list_all_iff)
qed

text \<open>The syntax check accepts an optional minus sign and an unsigned decimal.\<close>

lemma scan_signed:
  "i \<noteq> [] \<and> (if hd i = CHR ''-'' then tl i \<noteq> [] \<and> scan_decimal (tl i) else scan_decimal i) \<longleftrightarrow>
    (\<exists>s. i \<in> {s, CHR ''-'' # s} \<and> unsigned_decimal s)"
proof (cases i)
  case (Cons c cs)
  have e: "\<not> unsigned_decimal []" "\<not> unsigned_decimal (CHR ''-'' # cs)"
    by (auto simp: unsigned_decimal_def Cons_eq_append_conv)
  show ?thesis
    unfolding Cons using e scan_decimal_iff [of cs] scan_decimal_iff [of "c # cs"]
    by (cases "c = CHR ''-''") auto
qed (simp add: unsigned_decimal_def)

lemma double_syntax_iff:
  "double_syntax value \<longleftrightarrow>
    (\<exists>s. takeWhile (\<lambda>c. c \<noteq> CHR 0x00) value \<in> {s, CHR ''-'' # s} \<and> unsigned_decimal s)"
  unfolding scan_signed [symmetric] by (simp add: double_syntax_def Let_def)

section \<open>Properties\<close>

text \<open>C24: the integer convertors accept exactly the decimal numerals (with a minus sign
  only where the type is signed) whose value the type can hold, and return that value:
  the guards of the loop reject every overflow, also the one in the last digit.\<close>

theorem int_convertors_exact:
  "(IntConvertor_from s = Some v \<longleftrightarrow> dec_int s = Some v \<and> - (2 ^ 31) \<le> v \<and> v < 2 ^ 31) \<and>
   (Int64Convertor_from s = Some v \<longleftrightarrow> dec_int s = Some v \<and> - (2 ^ 63) \<le> v \<and> v < 2 ^ 63) \<and>
   (UInt64Convertor_from s = Some u \<longleftrightarrow> dec_nat s = Some (unat u))"
proof (intro conjI)
  have "n = unat u" if "u = of_nat n" "n < 2 ^ 64" for n
    using that by (simp add: unat_of_nat)
  moreover have "unat u < 2 ^ 64" using unsigned_less [of u, where 'a = nat] by simp
  ultimately show "UInt64Convertor_from s = Some u \<longleftrightarrow> dec_nat s = Some (unat u)"
    by (auto simp: UInt64Convertor_from_spec split: option.split)
qed (auto simp: IntConvertor_from_spec Int64Convertor_from_spec split: option.split)

text \<open>C25: every integer type prints to its decimal numeral, the symbol count computed in
  advance is the length of what is printed, the fixed buffers are never exceeded, and
  reading the numeral back gives the number.\<close>

theorem int_convertors_roundtrip:
  "integer_to_string sgnd (t :: 'w::len word) = int_digits (value_of sgnd t) \<and>
   number_of_symbols_in sgnd t = length (integer_to_string sgnd t) \<and>
   IntConvertor_from (IntConvertor_to (sint (x :: 32 word))) = Some (sint x) \<and>
   length (IntConvertor_to (sint x)) \<le> 9 + 2 \<and>
   UInt64Convertor_from (UInt64Convertor_to u) = Some u \<and>
   length (UInt64Convertor_to u) \<le> 19 + 2"
proof -
  have x: "- (2 ^ 31) \<le> sint x" "sint x < 2 ^ 31" using sint_ge [of x] sint_lt [of x] by simp_all
  have "length (int_digits (sint x)) \<le> Suc 10" using x by (intro int_digits_length) auto
  moreover have "unat u < 2 ^ 64" using unsigned_less [of u, where 'a = nat] by simp
  then have "length (dec_digits (unat u)) \<le> 20" by (intro dec_digits_length) auto
  ultimately show ?thesis
    using x IntConvertor_roundtrip [OF x] UInt64Convertor_roundtrip [of u]
    by (simp add: number_of_symbols_in_length IntConvertor_to_digits UInt64Convertor_to_digits)
qed

end
