(* ===== verification/DateTimes.thy ===== *)
theory DateTimes
  imports Convertors
begin

text \<open>
  \<open>DateTime\<close> of \<open>FieldTypes.h\<close> (a Julian day number and the nanoseconds since midnight)
  and the timestamp, time and date convertors of \<open>FieldConvertors.h\<close>. The members are
  the code's machine integers read as \<^typ>\<open>int\<close>: the arithmetic of days, years and fractions wraps
  around like a 32-bit \<open>int\<close>, that of times of day stays in 64 bits; divisions are C's
  (\<open>sdiv\<close>, \<open>smod\<close>).
  The lemmas: the Julian day number of a Gregorian date and back, the weekday, the normal
  form of the time of day, and the round trip of a printed timestamp.
\<close>

unbundle bit_operations_syntax

record date_time =
  m_date :: int
  m_time :: int

abbreviation DateTime :: "int \<Rightarrow> int \<Rightarrow> date_time" where
  "DateTime d t \<equiv> \<lparr>m_date = d, m_time = t\<rparr>"

definition SECONDS_PER_DAY :: int where "SECONDS_PER_DAY = 86400"
definition NANOS_PER_SEC :: int where "NANOS_PER_SEC = 1000000000"
definition NANOS_PER_DAY :: int where "NANOS_PER_DAY = 86400000000000"
definition JULIAN_19700101 :: int where "JULIAN_19700101 = 2440588"

definition PRECISION_FACTOR :: "int list" where
  "PRECISION_FACTOR = [1000000000, 100000000, 10000000, 1000000, 100000, 10000, 1000, 100, 10, 1]"

text \<open>The \<open>switch\<close> over the precision; 9 and every other value share the last case.\<close>

definition precision_factor :: "int \<Rightarrow> int" where
  "precision_factor precision =
     (if 0 \<le> precision \<and> precision \<le> 8 then PRECISION_FACTOR ! nat precision else PRECISION_FACTOR ! 9)"

definition convertToNanos :: "int \<Rightarrow> int \<Rightarrow> int" where
  "convertToNanos fraction precision = to_int (fraction * precision_factor precision)"

definition makeHMS :: "int \<Rightarrow> int \<Rightarrow> int \<Rightarrow> int \<Rightarrow> int" where
  "makeHMS hour minute second nanos = NANOS_PER_SEC * (3600 * hour + 60 * minute + second) + nanos"

text \<open>
  The arithmetic of days is that of the 32-bit \<open>int\<close>: \<^const>\<open>to_int\<close> wraps around. It is written
  where a value is divided, stored or returned; between these places wrapping every single
  sum and product would give the same.
\<close>

definition julianDate :: "int \<Rightarrow> int \<Rightarrow> int \<Rightarrow> int" where
  "julianDate year month day =
     (let a = to_int (14 - month) sdiv 12; y = to_int (year + 4800 - a); m = to_int (month + 12 * a - 3)
      in to_int (day + to_int (153 * m + 2) sdiv 5 + y * 365 + y sdiv 4 - y sdiv 100 + y sdiv 400 - 32045))"

definition getYMD :: "int \<Rightarrow> int \<times> int \<times> int" where
  "getYMD jday =
     (let a = to_int (jday + 32044);
          b = to_int (4 * a + 3) sdiv 146097;
          c = to_int (a - to_int (b * 146097) sdiv 4);
          d = to_int (4 * c + 3) sdiv 1461;
          e = to_int (c - to_int (1461 * d) sdiv 4);
          m = to_int (5 * e + 2) sdiv 153
      in (to_int (b * 100 + d - 4800 + m sdiv 10), to_int (m + 3 - 12 * (m sdiv 10)),
          to_int (e - to_int (153 * m + 2) sdiv 5 + 1)))"

text \<open>\<open>static_cast<uint64_t>(m_time) % NANOS_PER_SEC\<close>\<close>

definition getNanosecond :: "date_time \<Rightarrow> int" where
  "getNanosecond t = (m_time t mod 2 ^ 64) mod NANOS_PER_SEC"

definition getFraction :: "date_time \<Rightarrow> int \<Rightarrow> int" where
  "getFraction t precision = getNanosecond t sdiv precision_factor precision"

definition getMillisecond :: "date_time \<Rightarrow> int" where
  "getMillisecond t = getNanosecond t sdiv PRECISION_FACTOR ! 3"

definition getHour :: "date_time \<Rightarrow> int" where
  "getHour t = to_int (m_time t sdiv 3600000000000)"

definition getMinute :: "date_time \<Rightarrow> int" where
  "getMinute t = (m_time t sdiv 60000000000) smod 60"

definition getSecond :: "date_time \<Rightarrow> int" where
  "getSecond t = (m_time t sdiv NANOS_PER_SEC) smod 60"

definition getHMS :: "date_time \<Rightarrow> int \<times> int \<times> int" where
  "getHMS t =
     (let ticks = to_int (m_time t sdiv NANOS_PER_SEC)
      in (ticks sdiv 3600, (ticks sdiv 60) smod 60, ticks smod 60))"

text \<open>
  \<open>int(2.6 * m - 0.2)\<close> is taken for \<open>m\<close> from 1 to 12 only; for these twelve values the
  double product truncates to \<open>(13 * m - 1) div 5\<close>.
\<close>

definition getWeekDay :: "date_time \<Rightarrow> int" where
  "getWeekDay t =
     (let (Y, M, D) = getYMD (m_date t);
          m = (if M \<ge> 3 then M - 2 else M + 10);
          Yprime = (if M \<ge> 3 then Y else to_int (Y - 1));
          y = Yprime smod 100;
          c = Yprime sdiv 100;
          wd = to_int (D + (13 * m - 1) sdiv 5 + y + y sdiv 4 + c sdiv 4 - 2 * c) smod 7
      in 1 + (if wd < 0 then 7 + wd else wd))"

definition getTimeT :: "date_time \<Rightarrow> int" where
  "getTimeT t = SECONDS_PER_DAY * (m_date t - JULIAN_19700101) + m_time t sdiv NANOS_PER_SEC"

definition make_date_time :: "int \<Rightarrow> int \<Rightarrow> int \<Rightarrow> int \<Rightarrow> int \<Rightarrow> int \<Rightarrow> int \<Rightarrow> int \<Rightarrow> date_time" where
  "make_date_time year month day hour minute second fraction precision =
     DateTime (julianDate year month day) (makeHMS hour minute second (convertToNanos fraction precision))"

definition setHMS :: "int \<Rightarrow> int \<Rightarrow> int \<Rightarrow> int \<Rightarrow> int \<Rightarrow> date_time \<Rightarrow> date_time" where
  "setHMS hour minute second fraction precision t =
     t\<lparr>m_time := makeHMS hour minute second (convertToNanos fraction precision)\<rparr>"

definition setSecond :: "int \<Rightarrow> date_time \<Rightarrow> date_time" where
  "setSecond sec t =
     (let (hour, min, old_sec) = getHMS t in setHMS hour min sec (getMillisecond t) 3 t)"

definition setMillisecond :: "int \<Rightarrow> date_time \<Rightarrow> date_time" where
  "setMillisecond millis t = (let (hour, min, sec) = getHMS t in setHMS hour min sec millis 3 t)"

definition clearDate :: "date_time \<Rightarrow> date_time" where "clearDate t = t\<lparr>m_date := 0\<rparr>"
definition clearTime :: "date_time \<Rightarrow> date_time" where "clearTime t = t\<lparr>m_time := 0\<rparr>"

text \<open>\<open>operator+=\<close> and \<open>operator-\<close>\<close>

definition add_seconds :: "int \<Rightarrow> date_time \<Rightarrow> date_time" where
  "add_seconds seconds t =
     (let date = to_int (m_date t + seconds sdiv SECONDS_PER_DAY);
          time = m_time t + (seconds smod SECONDS_PER_DAY) * NANOS_PER_SEC
      in if time \<ge> NANOS_PER_DAY then DateTime (to_int (date + 1)) (time smod NANOS_PER_DAY)
         else if time < 0 then DateTime (to_int (date - 1)) (time + NANOS_PER_DAY)
         else DateTime date time)"

definition diff_seconds :: "date_time \<Rightarrow> date_time \<Rightarrow> int" where
  "diff_seconds lhs rhs =
     to_int (SECONDS_PER_DAY * to_int (m_date lhs - m_date rhs) + to_int (m_time lhs sdiv NANOS_PER_SEC)
       - to_int (m_time rhs sdiv NANOS_PER_SEC))"

definition date_time_less :: "date_time \<Rightarrow> date_time \<Rightarrow> bool" where
  "date_time_less lhs rhs =
     (if m_date lhs < m_date rhs then True
      else if m_date lhs > m_date rhs then False
      else if m_time lhs < m_time rhs then True
      else False)"

definition date_time_greater :: "date_time \<Rightarrow> date_time \<Rightarrow> bool" where
  "date_time_greater lhs rhs = (\<not> (lhs = rhs \<or> date_time_less lhs rhs))"

definition date_time_le :: "date_time \<Rightarrow> date_time \<Rightarrow> bool" where
  "date_time_le lhs rhs = (lhs = rhs \<or> date_time_less lhs rhs)"

definition date_time_ge :: "date_time \<Rightarrow> date_time \<Rightarrow> bool" where
  "date_time_ge lhs rhs = (lhs = rhs \<or> date_time_greater lhs rhs)"

section \<open>Calendar\<close>

text \<open>The two conversions on integers without bounds, the reference for those of the code.\<close>

definition julian_number :: "int \<Rightarrow> int \<Rightarrow> int \<Rightarrow> int" where
  "julian_number year month day =
     (let a = (14 - month) sdiv 12; y = year + 4800 - a; m = month + 12 * a - 3
      in day + (153 * m + 2) sdiv 5 + y * 365 + y sdiv 4 - y sdiv 100 + y sdiv 400 - 32045)"

definition ymd_of :: "int \<Rightarrow> int \<times> int \<times> int" where
  "ymd_of jday =
     (let a = jday + 32044;
          b = (4 * a + 3) sdiv 146097;
          c = a - (b * 146097) sdiv 4;
          d = (4 * c + 3) sdiv 1461;
          e = c - (1461 * d) sdiv 4;
          m = (5 * e + 2) sdiv 153
      in (b * 100 + d - 4800 + m sdiv 10, m + 3 - 12 * (m sdiv 10), e - (153 * m + 2) sdiv 5 + 1))"

text \<open>The Julian day number, in terms of the shifted year and month.\<close>

definition shifted_day :: "int \<Rightarrow> int \<Rightarrow> int" where
  "shifted_day y e = e + 365 * y + y div 4 - y div 100 + y div 400"

lemma shifted_day_split:
  "0 \<le> d \<Longrightarrow> d \<le> 99 \<Longrightarrow>
   shifted_day (100 * b + d) e = e + 365 * d + d div 4 + (146097 * b) div 4"
proof -
  assume d: "0 \<le> d" "d \<le> 99"
  have q: "(100 * b + d) div 4 = 25 * b + d div 4" "(100 * b + d) div 100 = b"
    "(100 * b + d) div 400 = b div 4" "(146097 * b) div 4 = 36524 * b + b div 4"
    using d by linarith+
  show ?thesis unfolding shifted_day_def q by simp
qed

lemma julian_number_shifted:
  assumes "1 \<le> month" "month \<le> 12" "-4800 \<le> year" "month \<le> 2 \<Longrightarrow> -4799 \<le> year"
  shows "julian_number year month day =
    (let a = (if month \<le> 2 then 1 else 0); m = month + 12 * a - 3
     in shifted_day (year + 4800 - a) (day - 1 + (153 * m + 2) div 5) - 32044)"
proof -
  have a: "(14 - month) sdiv 12 = (if month \<le> 2 then 1 else 0)"
  proof (cases "month \<le> 2")
    case True
    then have "(14 - month) div 12 = 1" using assms(1) by presburger
    then show ?thesis using True assms by simp
  next
    case False
    then have "(14 - month) div 12 = 0" using assms(2) by presburger
    then show ?thesis using False assms by simp
  qed
  show ?thesis
    using assms unfolding julian_number_def a shifted_day_def Let_def by (cases "month \<le> 2") simp_all
qed

lemma ymd_of_div:
  assumes "-32044 \<le> jday"
  defines "a \<equiv> jday + 32044"
  defines "b \<equiv> (4 * a + 3) div 146097"
  defines "c \<equiv> a - (146097 * b) div 4"
  defines "d \<equiv> (4 * c + 3) div 1461"
  defines "e \<equiv> c - (1461 * d) div 4"
  defines "m \<equiv> (5 * e + 2) div 153"
  shows "ymd_of jday = (100 * b + d - 4800 + m div 10, m + 3 - 12 * (m div 10), e - (153 * m + 2) div 5 + 1)"
    and "0 \<le> b" and "0 \<le> d" and "d \<le> 99" and "0 \<le> e" and "e \<le> 365"
    and "146097 * b \<le> 4 * a + 3" and "0 \<le> c" and "c \<le> 36524"
proof -
  have a: "0 \<le> a" using assms(1) by (simp add: a_def)
  have b: "146097 * b \<le> 4 * a + 3" "4 * a + 3 < 146097 * b + 146097" "0 \<le> b"
    using a unfolding b_def by linarith+
  have c: "0 \<le> c" "c \<le> 36524" using b unfolding c_def by linarith+
  have d: "1461 * d \<le> 4 * c + 3" "4 * c + 3 < 1461 * d + 1461" "0 \<le> d" "d \<le> 99"
    using c unfolding d_def by linarith+
  have e: "0 \<le> e" "e \<le> 365" using d unfolding e_def by linarith+
  have m: "0 \<le> m" using e unfolding m_def by linarith
  have q1: "(4 * a + 3) sdiv 146097 = b" unfolding b_def using a by (intro sdiv_nonneg) simp_all
  have q2: "a - (b * 146097) sdiv 4 = c"
    unfolding c_def mult.commute [of b] using b(3) by (subst sdiv_nonneg) simp_all
  have q3: "(4 * c + 3) sdiv 1461 = d" unfolding d_def using c(1) by (intro sdiv_nonneg) simp_all
  have q4: "c - (1461 * d) sdiv 4 = e" unfolding e_def using d(3) by (subst sdiv_nonneg) simp_all
  have q5: "(5 * e + 2) sdiv 153 = m" unfolding m_def using e(1) by (intro sdiv_nonneg) simp_all
  have q6: "m sdiv 10 = m div 10" "(153 * m + 2) sdiv 5 = (153 * m + 2) div 5" "b * 100 = 100 * b"
    using m by simp_all
  note q = q1 q2 q3 q4 q5 q6
  show "ymd_of jday = (100 * b + d - 4800 + m div 10, m + 3 - 12 * (m div 10), e - (153 * m + 2) div 5 + 1)"
    unfolding ymd_of_def Let_def a_def [symmetric] q ..
  show "0 \<le> b" "0 \<le> d" "d \<le> 99" "0 \<le> e" "e \<le> 365" "146097 * b \<le> 4 * a + 3" "0 \<le> c" "c \<le> 36524"
    using b c d e by simp_all
qed

lemma ymd_of_shifted:
  assumes "-32044 \<le> jday"
  shows "\<exists>y m e. ymd_of jday = (y - 4800 + m div 10, m + 3 - 12 * (m div 10), e - (153 * m + 2) div 5 + 1) \<and>
    jday + 32044 = shifted_day y e \<and> 0 \<le> y \<and> 0 \<le> e \<and> e \<le> 365 \<and> m = (5 * e + 2) div 153"
proof -
  define a where "a = jday + 32044"
  define b where "b = (4 * a + 3) div 146097"
  define c where "c = a - (146097 * b) div 4"
  define d where "d = (4 * c + 3) div 1461"
  define e where "e = c - (1461 * d) div 4"
  define m where "m = (5 * e + 2) div 153"
  note f = ymd_of_div [OF assms, folded a_def, folded b_def, folded c_def, folded d_def,
      folded e_def, folded m_def]
  have "a = shifted_day (100 * b + d) e"
  proof -
    have "a = c + (146097 * b) div 4" "c = e + (1461 * d) div 4" by (simp_all add: c_def e_def)
    moreover have "(1461 * d) div 4 = 365 * d + d div 4" by linarith
    ultimately show ?thesis using shifted_day_split [OF f(3,4)] by simp
  qed
  then show ?thesis
    using f m_def a_def by (intro exI [of _ "100 * b + d"] exI [of _ m] exI [of _ e]) simp
qed

lemma month_of_day:
  "0 \<le> e \<Longrightarrow> e \<le> 365 \<Longrightarrow> m = (5 * e + 2) div 153 \<Longrightarrow>
   0 \<le> m \<and> m \<le> 11 \<and> 1 \<le> e - (153 * m + 2) div 5 + 1 \<and> e - (153 * m + 2) div 5 + 1 \<le> (31 :: int)"
  by (intro conjI) linarith+

lemma julian_number_ymd_of:
  assumes "-32044 \<le> jday" "ymd_of jday = (y, m, d)"
  shows "julian_number y m d = jday \<and> 1 \<le> m \<and> m \<le> 12 \<and> 1 \<le> d \<and> d \<le> 31"
proof -
  obtain ys ms e where g: "ymd_of jday =
      (ys - 4800 + ms div 10, ms + 3 - 12 * (ms div 10), e - (153 * ms + 2) div 5 + 1)"
    and j: "jday + 32044 = shifted_day ys e" and r: "0 \<le> ys" "0 \<le> e" "e \<le> 365" "ms = (5 * e + 2) div 153"
    using ymd_of_shifted [OF assms(1)] by auto
  have ms: "0 \<le> ms" "ms \<le> 11" "1 \<le> d" "d \<le> 31"
    and ymd: "y = ys - 4800 + ms div 10" "m = ms + 3 - 12 * (ms div 10)" "d = e - (153 * ms + 2) div 5 + 1"
    using month_of_day [OF r(2-4)] g assms(2) by simp_all
  have t: "ms div 10 = (if m \<le> 2 then 1 else 0) \<and> 1 \<le> m \<and> m \<le> 12"
    using ms unfolding ymd by (cases "ms \<le> 9") (simp_all add: div_pos_geq)
  have "julian_number y m d = shifted_day ys e - 32044"
    using r(1) t ymd ms by (subst julian_number_shifted) (auto simp: Let_def pos_imp_zdiv_nonneg_iff)
  then show ?thesis using j t ms by simp
qed


text \<open>A day of the proleptic Gregorian calendar.\<close>

definition leap_year :: "int \<Rightarrow> bool" where
  "leap_year y \<longleftrightarrow> y mod 4 = 0 \<and> (y mod 100 \<noteq> 0 \<or> y mod 400 = 0)"

definition month_days :: "int \<Rightarrow> int \<Rightarrow> int" where
  "month_days y m = (if m = 2 then (if leap_year y then 29 else 28) else if m \<in> {4, 6, 9, 11} then 30 else 31)"

definition valid_date :: "int \<Rightarrow> int \<Rightarrow> int \<Rightarrow> bool" where
  "valid_date y m d \<longleftrightarrow> 1 \<le> m \<and> m \<le> 12 \<and> 1 \<le> d \<and> d \<le> month_days y m"

lemma shifted_day_unique:
  assumes y: "0 \<le> y" and e: "0 \<le> e" "e \<le> 365" and l: "e = 365 \<longrightarrow> leap_year (y + 1)"
    and eq: "a = shifted_day y e"
  shows "(4 * a + 3) div 146097 = y div 100"
    "(4 * (a - (146097 * (y div 100)) div 4) + 3) div 1461 = y mod 100"
    "a - (146097 * (y div 100)) div 4 - (1461 * (y mod 100)) div 4 = e"
proof -
  define b d where bd: "b = y div 100" "d = y mod 100"
  have d: "0 \<le> d" "d \<le> 99" and yy: "y = 100 * b + d" and b: "0 \<le> b" using y by (auto simp: bd)
  have a: "a = e + 365 * d + d div 4 + (146097 * b) div 4"
    using shifted_day_split [OF d] eq yy by simp
  have leap: "d mod 4 = 3 \<and> (d = 99 \<longrightarrow> b mod 4 = 3)" if "e = 365"
  proof -
    have "leap_year (100 * b + d + 1)" using l that unfolding yy by iprover
    note lp = this [unfolded leap_year_def]
    note m = conjunct1 [OF lp] and n = conjunct2 [OF lp]
    have "d mod 4 = 3" using m by presburger
    moreover have "b mod 4 = 3" if "d = 99"
    proof -
      have h: "100 * b + d + 1 = 100 * (b + 1)" using that by simp
      have "100 * (b + 1) mod 400 = 100 * ((b + 1) mod 4)" using mult_mod_right [of 100 "b + 1" 4] by simp
      moreover have "100 * (b + 1) mod 100 = 0" by simp
      ultimately have "(b + 1) mod 4 = 0" using n unfolding h by simp
      then show ?thesis by presburger
    qed
    ultimately show ?thesis by blast
  qed
  have c: "0 \<le> e + 365 * d + d div 4"  using d e by simp
  define k where "k = e + 365 * d + d div 4"
  define t where "t = (146097 * b) div 4"
  have t: "4 * t \<le> 146097 * b" "146097 * b \<le> 4 * t + 3" unfolding t_def by linarith+
  have a': "a = k + t" unfolding k_def t_def by (rule a)
  have "146097 * b \<le> 4 * a + 3" using c t unfolding a' k_def [symmetric] by (simp add: algebra_simps)
  moreover have "4 * a + 3 < 146097 * b + 146097"
  proof (cases "e = 365 \<and> d = 99")
    case True
    then have "b mod 4 = 3" using leap by simp
    then have "4 * (b div 4) + 3 = b" by presburger
    moreover have "t = 36524 * b + b div 4" unfolding t_def by linarith
    ultimately have "4 * t + 3 = 146097 * b" by simp
    moreover have "k = 36524" using True by (simp add: k_def)
    ultimately show ?thesis unfolding a' by (simp add: algebra_simps)
  next
    case False
    then have "k \<le> 36523" using d e unfolding k_def by linarith
    then show ?thesis using t unfolding a' by (simp add: algebra_simps)
  qed
  ultimately show "(4 * a + 3) div 146097 = y div 100" unfolding bd [symmetric] by linarith
  have "1461 * d \<le> 4 * k + 3" "4 * k + 3 < 1461 * d + 1461"
  proof -
    have k: "4 * k = 4 * e + 1460 * d + 4 * (d div 4)" by (simp add: k_def)
    have q: "4 * (d div 4) \<le> d" "d \<le> 4 * (d div 4) + 3" by linarith+
    show "1461 * d \<le> 4 * k + 3" using e(1) k q by linarith
    show "4 * k + 3 < 1461 * d + 1461"
    proof (cases "e = 365")
      case True
      then have "d = 4 * (d div 4) + 3" using leap by presburger
      then show ?thesis using k True by linarith
    next
      case False
      then show ?thesis using e(2) k q by linarith
    qed
  qed
  moreover have s: "a - (146097 * (y div 100)) div 4 = k" unfolding bd [symmetric] t_def [symmetric] a' by simp
  ultimately show "(4 * (a - (146097 * (y div 100)) div 4) + 3) div 1461 = y mod 100"
    unfolding s unfolding bd [symmetric] by linarith
  show "a - (146097 * (y div 100)) div 4 - (1461 * (y mod 100)) div 4 = e"
    unfolding s unfolding bd [symmetric] k_def by linarith
qed

lemma month_start:
  fixes m :: int
  assumes "0 \<le> m" "m \<le> 11"
  shows "m \<in> {0, 1, 2, 3, 4, 5, 6, 7, 8, 9, 10, 11}"
  using assms unfolding insert_iff empty_iff by presburger

lemma ymd_of_julian_number:
  assumes v: "valid_date y m d" and y: "-4799 \<le> y"
  shows "ymd_of (julian_number y m d) = (y, m, d)" "- 32044 \<le> julian_number y m d"
proof -
  define a' :: int where "a' = (if m \<le> 2 then 1 else 0)"
  define ms where "ms = m + 12 * a' - 3"
  define ys where "ys = y + 4800 - a'"
  define e where "e = d - 1 + (153 * ms + 2) div 5"
  have m: "1 \<le> m" "m \<le> 12" and d: "1 \<le> d" "d \<le> month_days y m" using v by (auto simp: valid_date_def)
  have ms: "ms \<in> {0, 1, 2, 3, 4, 5, 6, 7, 8, 9, 10, 11}" and m': "m = ms + 3 - 12 * a'"
    and a': "a' = ms div 10"
  proof -
    have "0 \<le> ms" "ms \<le> 11" "m = ms + 3 - 12 * a'" using m by (auto simp: ms_def a'_def)
    then show "ms \<in> {0, 1, 2, 3, 4, 5, 6, 7, 8, 9, 10, 11}" "m = ms + 3 - 12 * a'"
      using month_start [of ms] by blast+
    show "a' = ms div 10" 
    proof (cases "m \<le> 2")
      case True
      then have "(m + 9) div 10 = 1" using m by presburger
      then show ?thesis using True by (simp add: ms_def a'_def)
    next
      case False
      then have "(m - 3) div 10 = 0" using m by presburger
      then show ?thesis using False by (simp add: ms_def a'_def)
    qed
  qed
  have len: "d \<le> (if ms = 11 then (if leap_year (ys + 1) then 29 else 28)
     else if ms \<in> {1, 3, 6, 8} then 30 else 31)"
  proof -
    have "ms = 11 \<longleftrightarrow> m = 2" "ms \<in> {1, 3, 6, 8} \<longleftrightarrow> m \<in> {4, 6, 9, 11}"
      using m by (auto simp: ms_def a'_def)
    moreover have "leap_year (ys + 1) = leap_year y" if "m = 2"
    proof -
      have "(y + 4800) mod 4 = y mod 4" "(y + 4800) mod 100 = y mod 100" "(y + 4800) mod 400 = y mod 400"
        using mod_mult_self1 [of y 1200 4] mod_mult_self1 [of y 48 100] mod_mult_self1 [of y 12 400] by (simp_all add: add.commute)
      moreover have "ys + 1 = y + 4800" using that by (simp add: ys_def a'_def)
      ultimately show ?thesis unfolding leap_year_def by (simp only:)
    qed
    ultimately show ?thesis using d(2) unfolding month_days_def by auto
  qed
  have e: "0 \<le> e" "e \<le> 365" "e = 365 \<longrightarrow> leap_year (ys + 1)" "(5 * e + 2) div 153 = ms"
    using ms len d(1) unfolding e_def by (auto split: if_splits)
  have ys: "0 \<le> ys" using y by (simp add: ys_def a'_def)
  have "julian_number y m d = shifted_day ys e - 32044"
    using m y by (subst julian_number_shifted) (auto simp: Let_def ys_def e_def ms_def a'_def)
  moreover from this have "julian_number y m d + 32044 = shifted_day ys e" by simp
  moreover show low: "- 32044 \<le> julian_number y m d"
  proof -
    have "ys div 100 \<le> 365 * ys" "0 \<le> ys div 4" "0 \<le> ys div 400" using ys by linarith+
    then have "0 \<le> shifted_day ys e" using e(1) unfolding shifted_day_def by linarith
    then show ?thesis using calculation by simp
  qed
  note f = ymd_of_div(1) [OF low]
  have "ymd_of (julian_number y m d) = (ys - 4800 + ms div 10, ms + 3 - 12 * (ms div 10), e - (153 * ms + 2) div 5 + 1)"
    using f unfolding calculation(2) shifted_day_unique [OF ys e(1-3) refl] e(4) mult_div_mod_eq .
  then show "ymd_of (julian_number y m d) = (y, m, d)" unfolding a' [symmetric] using m' by (simp add: ys_def e_def)
qed

text \<open>The code computes the same as long as \<open>4 * a + 3\<close> is an \<open>int\<close>, which is the first to overflow,
  for dates up to the end of the year 1465000.\<close>

lemma getYMD_number:
  assumes "-32044 \<le> jday" "jday \<le> 536838867"
  shows "getYMD jday = ymd_of jday"
proof -
  define a where "a = jday + 32044"
  define b where "b = (4 * a + 3) div 146097"
  define c where "c = a - (146097 * b) div 4"
  define d where "d = (4 * c + 3) div 1461"
  define e where "e = c - (1461 * d) div 4"
  define m where "m = (5 * e + 2) div 153"
  note f = ymd_of_div [OF assms(1), folded a_def, folded b_def, folded c_def, folded d_def, folded e_def, folded m_def]
  have a: "0 \<le> a" "a \<le> 536870911" using assms by (simp_all add: a_def)
  have m: "0 \<le> m" "m \<le> 11" using month_of_day [OF f(5,6) m_def] by simp_all
  have md: "0 \<le> m div 10" "m div 10 \<le> 1" using m by linarith+
  have t: "to_int (jday + 32044) = a" "to_int (4 * a + 3) sdiv 146097 = b" "to_int (b * 146097) sdiv 4 = (146097 * b) div 4"
    "to_int (4 * c + 3) sdiv 1461 = d" "to_int (1461 * d) sdiv 4 = (1461 * d) div 4" "to_int (5 * e + 2) sdiv 153 = m"
    "to_int (153 * m + 2) sdiv 5 = (153 * m + 2) div 5" "m sdiv 10 = m div 10"
  proof -
    show "to_int (jday + 32044) = a" using a by (simp add: a_def)
    show "to_int (4 * a + 3) sdiv 146097 = b" unfolding b_def using a by simp
    show "to_int (b * 146097) sdiv 4 = (146097 * b) div 4" using a f(2,7) by (simp add: mult.commute [of b])
    show "to_int (4 * c + 3) sdiv 1461 = d" unfolding d_def using f(8,9) by simp
    show "to_int (1461 * d) sdiv 4 = (1461 * d) div 4" using f(3,4) by simp
    show "to_int (5 * e + 2) sdiv 153 = m" unfolding m_def using f(5,6) by simp
    show "to_int (153 * m + 2) sdiv 5 = (153 * m + 2) div 5" "m sdiv 10 = m div 10" using m by simp_all
  qed
  have r: "to_int (a - (146097 * b) div 4) = c" "to_int (c - (1461 * d) div 4) = e"
    "to_int (b * 100 + d - 4800 + m div 10) = 100 * b + d - 4800 + m div 10"
    "to_int (m + 3 - 12 * (m div 10)) = m + 3 - 12 * (m div 10)"
    "to_int (e - (153 * m + 2) div 5 + 1) = e - (153 * m + 2) div 5 + 1"
    using a f(2-9) m md month_of_day [OF f(5,6) m_def] by (simp_all add: c_def [symmetric] e_def [symmetric])
  show ?thesis unfolding f(1) unfolding getYMD_def Let_def t r ..
qed

lemma julianDate_number:
  assumes "-4800 \<le> year" "year \<le> 1465000" "1 \<le> month" "month \<le> 12" "1 \<le> day" "day \<le> 31" "month \<le> 2 \<Longrightarrow> -4799 \<le> year"
  shows "julianDate year month day = julian_number year month day" "julian_number year month day \<le> 536838867"
proof -
  define a where "a = (14 - month) sdiv 12"
  define y where "y = year + 4800 - a"
  define m where "m = month + 12 * a - 3"
  have a: "a = (if month \<le> 2 then 1 else 0)"
  proof (cases "month \<le> 2")
    case True
    then have "(14 - month) div 12 = 1" using assms(3) by presburger
    then show ?thesis using True assms by (simp add: a_def)
  next
    case False
    then have "(14 - month) div 12 = 0" using assms(4) by presburger
    then show ?thesis using False assms by (simp add: a_def)
  qed
  have m: "0 \<le> m" "m \<le> 11" using assms(3,4) by (auto simp: m_def a)
  have y: "0 \<le> y" "y \<le> 1469800" using assms(1,2,7) by (auto simp: y_def a)
  have q: "0 \<le> (153 * m + 2) div 5" "(153 * m + 2) div 5 \<le> 337" using m by linarith+
  have s: "day + (153 * m + 2) div 5 + y * 365 + y div 4 - y div 100 + y div 400 - 32045 \<le> 536838867"
    "- 32045 \<le> day + (153 * m + 2) div 5 + y * 365 + y div 4 - y div 100 + y div 400 - 32045"
    using assms(5,6) q y by linarith+
  have t: "to_int (14 - month) = 14 - month" "to_int (year + 4800 - a) = y" "to_int (month + 12 * a - 3) = m"
    "to_int (153 * m + 2) = 153 * m + 2"
    using assms(3,4) y m by (simp_all add: y_def [symmetric] m_def [symmetric])
  have n: "julian_number year month day = day + (153 * m + 2) div 5 + y * 365 + y div 4 - y div 100 + y div 400 - 32045"
    unfolding julian_number_def Let_def a_def [symmetric] y_def [symmetric] m_def [symmetric] using y m by simp
  show "julian_number year month day \<le> 536838867" unfolding n using s(1) .
  have "julianDate year month day = to_int (day + (153 * m + 2) div 5 + y * 365 + y div 4 - y div 100 + y div 400 - 32045)"
    unfolding julianDate_def Let_def t(1) a_def [symmetric] t(2-4) using y m by simp
  then show "julianDate year month day = julian_number year month day" unfolding n using s by simp
qed

lemma valid_date_number:
  assumes "valid_date y m d" "-4799 \<le> y" "y \<le> 1465000"
  shows "julianDate y m d = julian_number y m d" "julian_number y m d \<le> 536838867"
  using assms julianDate_number [of y m d] by (auto simp: valid_date_def month_days_def split: if_splits)

lemma getYMD_julianDate:
  assumes "valid_date y m d" "-4799 \<le> y" "y \<le> 1465000"
  shows "getYMD (julianDate y m d) = (y, m, d)"
  using getYMD_number [of "julian_number y m d"] valid_date_number [OF assms] ymd_of_julian_number [OF assms(1,2)]
  by simp

text \<open>Zeller's congruence is the day number modulo seven.\<close>

lemma zeller_month:
  "m \<in> {1, 2, 3, 4, 5, 6, 7, 8, 9, 10, 11, 12} \<Longrightarrow>
   (153 * (m - 1) + 2) div 5 = 28 * (m - 1) + (13 * m - 1) div 5 - (2 :: int)"
  by auto

lemma smod_wrap: "(let wd = x smod 7 in 1 + (if wd < 0 then 7 + wd else wd)) = 1 + x mod (7 :: int)"
proof (cases "0 \<le> x")
  case False
  define r where "r = (- x) mod 7"
  have r: "0 \<le> r" "r < 7" by (simp_all add: r_def)
  have "x smod 7 = - r" using False by (simp add: signed_modulo_int_def r_def)
  moreover have "x mod 7 = (if r = 0 then 0 else 7 - r)" unfolding r_def by presburger
  ultimately show ?thesis using r by (simp add: Let_def)
qed (simp add: Let_def)

lemma getWeekDay_julian:
  assumes v: "valid_date Y M D" and y: "1 \<le> Y" "Y \<le> 1465000"
  shows "getWeekDay (DateTime (julianDate Y M D) t) = 1 + (julianDate Y M D + 1) mod 7"
proof -
  define m where "m = (if M \<ge> 3 then M - 2 else M + 10)"
  define Yp where "Yp = (if M \<ge> 3 then Y else Y - 1)"
  define c yy where "c = Yp div 100" and "yy = Yp mod 100"
  have M: "1 \<le> M" "M \<le> 12" using v by (auto simp: valid_date_def)
  have Yp: "0 \<le> Yp" using y by (simp add: Yp_def)
  have c: "0 \<le> c" "0 \<le> yy" "yy \<le> 99" and split: "Yp + 4800 = 100 * (c + 48) + yy" using Yp by (auto simp: c_def yy_def)
  have lower: "-4799 \<le> Y" using y by simp
  have "c \<le> 14650" using y(2) unfolding c_def Yp_def by (auto split: if_splits)
  then have cb: "0 \<le> c div 4" "c div 4 \<le> 14650" "c \<le> 14650" using c(1) by linarith+
  have m: "m \<in> {1, 2, 3, 4, 5, 6, 7, 8, 9, 10, 11, 12}"
    using M month_start [of "m - 1"] unfolding m_def by auto
  have m1: "1 \<le> m" using m by auto
  have "julian_number Y M D = shifted_day (Yp + 4800) (D - 1 + (153 * (m - 1) + 2) div 5) - 32044"
  proof -
    define a :: int where "a = (if M \<le> 2 then 1 else 0)"
    have "M + 12 * a - 3 = m - 1" "Y + 4800 - a = Yp + 4800" by (simp_all add: a_def m_def Yp_def)
    moreover have "julian_number Y M D = shifted_day (Y + 4800 - a) (D - 1 + (153 * (M + 12 * a - 3) + 2) div 5) - 32044"
      unfolding a_def using M y julian_number_shifted [of M Y D] by (simp only: Let_def)
    ultimately show ?thesis by (simp only:)
  qed
  also have "\<dots> = D - 1 + (28 * (m - 1) + (13 * m - 1) div 5 - 2) + 365 * yy + yy div 4 + 146097 * (c + 48) div 4 - 32044"
    unfolding split shifted_day_split [OF c(2,3)] zeller_month [OF m] ..
  also have "146097 * (c + 48) div 4 = 36524 * c + c div 4 + 1753164"
  proof -
    have "146097 * (c + 48) = 146097 * c + 7012656" by simp
    moreover have "(146097 * c + 7012656) div 4 = 36524 * c + c div 4 + 1753164" by linarith
    ultimately show ?thesis by (simp only:)
  qed
  finally have j: "julian_number Y M D + 1 =
     (D + (13 * m - 1) div 5 + yy + yy div 4 + c div 4 - 2 * c) + 7 * (4 * m + 52 * yy + 5218 * c + 245870)"
    by simp
  have g: "getYMD (julianDate Y M D) = (Y, M, D)" using getYMD_julianDate [OF v] y by simp
  have q: "Yp smod 100 = yy" "Yp sdiv 100 = c" "(13 * m - 1) sdiv 5 = (13 * m - 1) div 5"
    "yy sdiv 4 = yy div 4" "c sdiv 4 = c div 4"
    using Yp m1 c by (simp_all add: c_def yy_def)
  have z: "to_int (D + (13 * m - 1) div 5 + yy + yy div 4 + c div 4 - 2 * c) = D + (13 * m - 1) div 5 + yy + yy div 4 + c div 4 - 2 * c"
    "to_int (Y - 1) = Y - 1"
  proof -
    have "m \<le> 12" using M by (simp add: m_def)
    then have k: "0 \<le> (13 * m - 1) div 5" "(13 * m - 1) div 5 \<le> 31" "0 \<le> yy div 4" "yy div 4 \<le> 24" using m1 c by linarith+
    have "1 \<le> D" "D \<le> 31" using v by (auto simp: valid_date_def month_days_def split: if_splits)
    then show "to_int (D + (13 * m - 1) div 5 + yy + yy div 4 + c div 4 - 2 * c) = D + (13 * m - 1) div 5 + yy + yy div 4 + c div 4 - 2 * c"
      using k c cb by (intro to_int_id; simp)
    show "to_int (Y - 1) = Y - 1" using y by simp
  qed
  have "getWeekDay (DateTime (julianDate Y M D) t) =
     1 + (D + (13 * m - 1) div 5 + yy + yy div 4 + c div 4 - 2 * c) mod 7"
    unfolding getWeekDay_def date_time.simps g Let_def prod.case m_def [symmetric] z(2) Yp_def [symmetric] q z(1)
    by (rule smod_wrap [unfolded Let_def])
  then show ?thesis unfolding valid_date_number(1) [OF v lower y(2)] j mod_mult_self2 .
qed


section \<open>Time of day\<close>

text \<open>A normal time of day, and the instant a pair denotes as one number of nanoseconds.\<close>

definition day_time :: "date_time \<Rightarrow> bool" where
  "day_time t \<longleftrightarrow> 0 \<le> m_time t \<and> m_time t < NANOS_PER_DAY"

definition instant :: "date_time \<Rightarrow> int" where
  "instant t = m_date t * NANOS_PER_DAY + m_time t"

lemma smod_bounds: "0 < b \<Longrightarrow> - b < a smod b \<and> a smod b < (b :: int)"
proof -
  assume b: "0 < b"
  have "a smod b = a mod b \<or> a smod b = - ((- a) mod b)"
    using b by (cases "0 \<le> a") (auto simp: signed_modulo_int_def sgn_if abs_if)
  moreover have "0 \<le> a mod b" "a mod b < b" "0 \<le> (- a) mod b" "(- a) mod b < b" using b by simp_all
  ultimately show ?thesis using b by linarith
qed

lemma add_seconds_day_time:
  assumes "day_time t"
  shows "day_time (add_seconds s t)"
  using smod_bounds [of SECONDS_PER_DAY s] assms
  by (auto simp: add_seconds_def day_time_def Let_def NANOS_PER_DAY_def NANOS_PER_SEC_def SECONDS_PER_DAY_def)

lemma add_seconds_instant:
  assumes "day_time t" "\<bar>s\<bar> < 2 ^ 31" "\<bar>m_date t\<bar> \<le> 2 ^ 31 - 2 ^ 15"
  shows "instant (add_seconds s t) = instant t + s * NANOS_PER_SEC"
proof -
  define q r where "q = s sdiv SECONDS_PER_DAY" and "r = s smod SECONDS_PER_DAY"
  define x where "x = m_time t + r * NANOS_PER_SEC"
  have s: "s = q * 86400 + r" using sdiv_mult_smod_eq [of s SECONDS_PER_DAY] by (simp add: q_def r_def SECONDS_PER_DAY_def)
  have r: "- 86400 < r" "r < 86400" using smod_bounds [of SECONDS_PER_DAY s] by (simp_all add: r_def SECONDS_PER_DAY_def)
  then have q: "\<bar>q\<bar> < 2 ^ 15 - 1" using s assms(2) by (simp; linarith)
  then have n: "to_int (m_date t + q) = m_date t + q" "to_int (m_date t + q + 1) = m_date t + q + 1"
    "to_int (m_date t + q - 1) = m_date t + q - 1"
    using assms(3) by (simp_all add: abs_le_iff abs_less_iff)
  from r have x: "x < 2 * NANOS_PER_DAY"
    using assms by (simp add: x_def day_time_def NANOS_PER_DAY_def NANOS_PER_SEC_def)
  have m: "x smod NANOS_PER_DAY = x - NANOS_PER_DAY" if "NANOS_PER_DAY \<le> x"
  proof -
    have "x mod NANOS_PER_DAY = (x - NANOS_PER_DAY) mod NANOS_PER_DAY" by simp
    also have "\<dots> = x - NANOS_PER_DAY" using that x by (intro mod_pos_pos_trivial) simp_all
    finally show ?thesis using that by (simp add: NANOS_PER_DAY_def)
  qed
  have e: "instant t + s * NANOS_PER_SEC = (m_date t + q) * NANOS_PER_DAY + x"
    by (simp add: instant_def x_def s NANOS_PER_DAY_def NANOS_PER_SEC_def)
  show ?thesis
    unfolding e using m
    by (simp add: add_seconds_def q_def [symmetric] r_def [symmetric] x_def [symmetric] Let_def instant_def n
        distrib_right left_diff_distrib)
qed

lemma day_time_sec: "day_time t \<Longrightarrow> 0 \<le> m_time t sdiv NANOS_PER_SEC \<and> m_time t sdiv NANOS_PER_SEC < 86400"
  by (auto simp: day_time_def NANOS_PER_SEC_def NANOS_PER_DAY_def)

lemma diff_seconds_add:
  assumes "day_time t" "\<bar>s\<bar> < 2 ^ 31" "\<bar>m_date t\<bar> \<le> 2 ^ 31 - 2 ^ 15"
  shows "diff_seconds (add_seconds s t) t = s"
proof -
  let ?u = "add_seconds s t"
  have d: "day_time ?u" using assms(1) by (rule add_seconds_day_time)
  have u: "0 \<le> m_time ?u" "0 \<le> m_time t" using d assms(1) by (simp_all add: day_time_def)
  have i: "m_date ?u * NANOS_PER_DAY + m_time ?u = m_date t * NANOS_PER_DAY + m_time t + s * NANOS_PER_SEC"
    using add_seconds_instant [OF assms] by (simp add: instant_def)
  have "(m_date ?u * NANOS_PER_DAY + m_time ?u) div NANOS_PER_SEC = m_date ?u * 86400 + m_time ?u div NANOS_PER_SEC"
    "(m_date t * NANOS_PER_DAY + m_time t + s * NANOS_PER_SEC) div NANOS_PER_SEC =
       m_date t * 86400 + m_time t div NANOS_PER_SEC + s"
    unfolding NANOS_PER_DAY_def NANOS_PER_SEC_def by linarith+
  then have "m_date ?u * 86400 + m_time ?u div NANOS_PER_SEC = m_date t * 86400 + m_time t div NANOS_PER_SEC + s"
    using i by simp
  then have "SECONDS_PER_DAY * (m_date ?u - m_date t) + m_time ?u sdiv NANOS_PER_SEC - m_time t sdiv NANOS_PER_SEC = s"
    using u by (simp add: SECONDS_PER_DAY_def NANOS_PER_SEC_def)
  moreover from this have "\<bar>m_date ?u - m_date t\<bar> < 2 ^ 31"
    using day_time_sec [OF d] day_time_sec [OF assms(1)] assms(2) by (simp add: SECONDS_PER_DAY_def abs_less_iff; linarith)
  ultimately show ?thesis
    using day_time_sec [OF d] day_time_sec [OF assms(1)] assms(2) by (simp add: diff_seconds_def abs_less_iff)
qed


section \<open>Timestamp, time and date convertors\<close>

abbreviation padded :: "nat \<Rightarrow> int \<Rightarrow> string" where
  "padded len v \<equiv> integer_to_string_padded len True (word_of_int v :: 32 word)"

definition clamp_of :: "int \<Rightarrow> int \<Rightarrow> int \<Rightarrow> int" where
  "clamp_of value lowerBound upperBound =
     (if value < lowerBound then lowerBound else if value > upperBound then upperBound else value)"

definition print_hms :: "date_time \<Rightarrow> int \<Rightarrow> string" where
  "print_hms t precision =
     (let (hour, minute, second) = getHMS t; fraction = getFraction t precision
      in padded 2 hour @ '':'' @ padded 2 minute @ '':'' @ padded 2 second @
         (if precision \<noteq> 0 then ''.'' @ padded (nat precision) fraction else []))"

definition UtcDateConvertor_to :: "date_time \<Rightarrow> string" where
  "UtcDateConvertor_to t =
     (let (year, month, day) = getYMD (m_date t) in padded 4 year @ padded 2 month @ padded 2 day)"

definition UtcTimeOnlyConvertor_to :: "date_time \<Rightarrow> int \<Rightarrow> string" where
  "UtcTimeOnlyConvertor_to t precision = print_hms t (clamp_of precision 0 9)"

definition UtcTimeStampConvertor_to :: "date_time \<Rightarrow> int \<Rightarrow> string" where
  "UtcTimeStampConvertor_to t precision =
     (let (year, month, day) = getYMD (m_date t)
      in padded 4 year @ padded 2 month @ padded 2 day @ ''-'' @ print_hms t (clamp_of precision 0 9))"

text \<open>\<open>10 * (value[i] - '0') + value[i + 1] - '0'\<close>, and four such digits.\<close>

definition two_at :: "string \<Rightarrow> nat \<Rightarrow> int" where
  "two_at v i = 10 * int (digit_val (v ! i)) + int (digit_val (v ! (i + 1)))"

definition four_at :: "string \<Rightarrow> nat \<Rightarrow> int" where
  "four_at v i = 100 * two_at v i + two_at v (i + 2)"

definition digits_at :: "string \<Rightarrow> nat \<Rightarrow> nat \<Rightarrow> bool" where
  "digits_at v i n = list_all (\<lambda>c. is_digit (v ! c)) [i..<i + n]"

text \<open>
  The tests are the code's, in the code's order; each failure throws
  \<open>FieldConvertError(value)\<close>, written here as a test that fails.
\<close>

definition date_ok :: "string \<Rightarrow> bool" where
  "date_ok v =
     (digits_at v 0 8 \<and> 1 \<le> two_at v 4 \<and> two_at v 4 \<le> 12 \<and> 1 \<le> two_at v 6 \<and> two_at v 6 \<le> 31)"

definition hms_ok :: "string \<Rightarrow> nat \<Rightarrow> bool" where
  "hms_ok v i =
     (digits_at v i 2 \<and> v ! (i + 2) = CHR '':'' \<and> digits_at v (i + 3) 2 \<and> v ! (i + 5) = CHR '':'' \<and>
      digits_at v (i + 6) 2 \<and> two_at v i \<le> 23 \<and> two_at v (i + 3) \<le> 59 \<and> two_at v (i + 6) \<le> 60)"

definition fraction_ok :: "string \<Rightarrow> nat \<Rightarrow> bool" where
  "fraction_ok v i = (v ! i = CHR ''.'' \<and> list_all is_digit (drop (i + 1) v))"

definition UtcTimeStampConvertor_from :: "string \<Rightarrow> date_time result" where
  "UtcTimeStampConvertor_from v =
     (if length v < 17 \<or> length v > 27 then Inl (FieldConvertError v)
      else if \<not> (date_ok v \<and> v ! 8 = CHR ''-'' \<and> hms_ok v 9) then Inl (FieldConvertError v)
      else if length v = 17 then
        Inr (make_date_time (four_at v 0) (two_at v 4) (two_at v 6) (two_at v 9) (two_at v 12) (two_at v 15) 0 3)
      else if \<not> fraction_ok v 17 then Inl (FieldConvertError v)
      else Inr (make_date_time (four_at v 0) (two_at v 4) (two_at v 6) (two_at v 9) (two_at v 12) (two_at v 15)
             (int (dec_val_from 0 (drop 18 v))) (int (length v) - 17 - 1)))"

definition UtcTimeOnlyConvertor_from :: "string \<Rightarrow> date_time result" where
  "UtcTimeOnlyConvertor_from v =
     (if length v < 8 \<or> length v > 18 then Inl (FieldConvertError v)
      else if \<not> hms_ok v 0 then Inl (FieldConvertError v)
      else if length v = 8 then
        Inr (setHMS (two_at v 0) (two_at v 3) (two_at v 6) 0 3 (DateTime 0 0))
      else if \<not> fraction_ok v 8 then Inl (FieldConvertError v)
      else Inr (setHMS (two_at v 0) (two_at v 3) (two_at v 6)
             (int (dec_val_from 0 (drop 9 v))) (int (length v) - 8 - 1) (DateTime 0 0)))"

definition UtcDateConvertor_from :: "string \<Rightarrow> date_time result" where
  "UtcDateConvertor_from v =
     (if length v \<noteq> 8 then Inl (FieldConvertError v)
      else if \<not> date_ok v then Inl (FieldConvertError v)
      else Inr (make_date_time (four_at v 0) (two_at v 4) (two_at v 6) 0 0 0 0 3))"

section \<open>Round trip of timestamps\<close>

lemma padded_digits:
  assumes "0 \<le> v" "v < 10 ^ n" "0 < n" "n \<le> 9"
  shows "length (padded n v) = n" "list_all is_digit (padded n v)" "int (dec_val_from 0 (padded n v)) = v"
proof -
  have "(10::int) ^ n \<le> 10 ^ 9" using assms(4) by (intro power_increasing) auto
  then have "v < 2 ^ 31" using assms(2) by simp
  then have "sint (word_of_int v :: 32 word) = v" using assms(1) by (intro sint_of_int_range) simp_all
  then have p: "padded n v = replicate (n - length (dec_digits (nat v))) (CHR ''0'') @ dec_digits (nat v)"
    using assms(1) by (simp add: integer_to_string_padded_def value_of_def int_digits_def Let_def)
  have "nat v < 10 ^ n" using assms(1,2) by (simp add: nat_less_iff)
  then have l: "length (dec_digits (nat v)) \<le> n" using assms(3) by (rule dec_digits_length)
  have z: "is_digit (CHR ''0'')" "digit_val (CHR ''0'') = 0" by (simp_all add: is_digit_def digit_val_def)
  have r: "dec_val_from 0 (replicate k (CHR ''0'')) = 0" for k by (induction k) (simp_all add: z)
  show "length (padded n v) = n" unfolding p using l by simp
  show "list_all is_digit (padded n v)" unfolding p by (auto simp: list_all_iff z dec_digits_set set_replicate_conv_if)
  show "int (dec_val_from 0 (padded n v)) = v" unfolding p using assms(1) by (simp add: dec_val_from_append r)
qed

lemma padded2:
  assumes "0 \<le> v" "v < 100"
  obtains a b where "padded 2 v = [a, b]" "is_digit a" "is_digit b" "v = 10 * int (digit_val a) + int (digit_val b)"
  using padded_digits [of v 2] assms
  by (cases "padded 2 v"; cases "tl (padded 2 v)") (auto simp: numeral_2_eq_2 length_Suc_conv)

lemma padded4:
  assumes "0 \<le> v" "v < 10000"
  obtains a b c d where "padded 4 v = [a, b, c, d]" "is_digit a" "is_digit b" "is_digit c" "is_digit d"
    "v = 1000 * int (digit_val a) + 100 * int (digit_val b) + 10 * int (digit_val c) + int (digit_val d)"
proof -
  note p = padded_digits [of v 4]
  have "length (padded 4 v) = Suc (Suc (Suc (Suc 0)))" using p(1) assms by simp
  then obtain a b c d where "padded 4 v = [a, b, c, d]" by (auto simp: length_Suc_conv)
  then show ?thesis using that p assms by (auto simp: algebra_simps)
qed

lemma getHMS_bounds:
  assumes "day_time t" "getHMS t = (h, m, s)"
  shows "0 \<le> h \<and> h \<le> 23 \<and> 0 \<le> m \<and> m \<le> 59 \<and> 0 \<le> s \<and> s \<le> 59 \<and>
    makeHMS h m s n = m_time t - m_time t mod NANOS_PER_SEC + n"
proof -
  define k where "k = m_time t sdiv NANOS_PER_SEC"
  have k: "0 \<le> k" "k < 86400" using day_time_sec [OF assms(1)] by (simp_all add: k_def)
  have kd: "NANOS_PER_SEC * k = m_time t - m_time t mod NANOS_PER_SEC"
    using assms(1) by (simp add: k_def day_time_def NANOS_PER_SEC_def minus_mod_eq_mult_div [symmetric])
  have v: "h = k div 3600" "m = k div 60 mod 60" "s = k mod 60"
    using assms(2) k by (auto simp: getHMS_def k_def [symmetric] Let_def)
  have "k = 3600 * h + 60 * m + s"
  proof -
    have "k div 3600 = k div 60 div 60" using zdiv_zmult2_eq [of 60 k 60] by simp
    then show ?thesis
      unfolding v using mult_div_mod_eq [of 60 k] mult_div_mod_eq [of 60 "k div 60"] by linarith
  qed
  then have "makeHMS h m s n = NANOS_PER_SEC * k + n" by (simp add: makeHMS_def)
  moreover have "0 \<le> h" "h \<le> 23" using k unfolding v by linarith+
  moreover have "0 \<le> m" "m < 60" "0 \<le> s" "s < 60" unfolding v by simp_all
  ultimately show ?thesis using kd by linarith
qed

lemma zdiv_less: "0 < f \<Longrightarrow> x < f * q \<Longrightarrow> x div f < (q :: int)"
  by (smt (verit) minus_mod_eq_mult_div mod_int_pos_iff mult_le_cancel_left_pos)

lemma getFraction_bounds:
  assumes "day_time t" "0 \<le> p" "p \<le> 9"
  shows "0 \<le> getFraction t p \<and> getFraction t p < 10 ^ nat p"
    "getFraction t p * precision_factor p = m_time t mod NANOS_PER_SEC - m_time t mod precision_factor p"
proof -
  have n: "getNanosecond t = m_time t mod NANOS_PER_SEC"
    using assms(1) by (simp add: getNanosecond_def day_time_def NANOS_PER_DAY_def)
  have f: "precision_factor p = 10 ^ (9 - nat p)" and d: "NANOS_PER_SEC = precision_factor p * 10 ^ nat p"
  proof -
    have "p \<in> {0,1,2,3,4,5,6,7,8,9}" using assms(2,3) unfolding insert_iff empty_iff by presburger
    then show "precision_factor p = 10 ^ (9 - nat p)" "NANOS_PER_SEC = precision_factor p * 10 ^ nat p"
      by (auto simp: precision_factor_def PRECISION_FACTOR_def NANOS_PER_SEC_def)
  qed
  have pos: "0 < precision_factor p" unfolding f by simp
  have g: "getFraction t p = (m_time t mod NANOS_PER_SEC) div precision_factor p"
    using pos by (simp add: getFraction_def n NANOS_PER_SEC_def)
  have "m_time t mod NANOS_PER_SEC < precision_factor p * 10 ^ nat p"
    unfolding d [symmetric] by (simp add: NANOS_PER_SEC_def)
  then have "getFraction t p < 10 ^ nat p" unfolding g using pos by (simp add: zdiv_less mult.commute)
  moreover have "0 \<le> getFraction t p"
    unfolding g using pos by (simp add: pos_imp_zdiv_nonneg_iff NANOS_PER_SEC_def)
  ultimately show "0 \<le> getFraction t p \<and> getFraction t p < 10 ^ nat p" by simp
  show "getFraction t p * precision_factor p = m_time t mod NANOS_PER_SEC - m_time t mod precision_factor p"
    unfolding g minus_mod_eq_div_mult [symmetric] by (simp add: d mod_mod_cancel)
qed


lemma print_hms_form:
  assumes "day_time t" "0 \<le> p" "p \<le> 9"
  obtains a b c d e f fr where
    "print_hms t p = [a, b, CHR '':'', c, d, CHR '':'', e, f] @ (if p \<noteq> 0 then CHR ''.'' # fr else [])"
    "list_all is_digit [a, b, c, d, e, f]" "list_all is_digit fr" "int (length fr) = p"
    "getHMS t = (10 * int (digit_val a) + int (digit_val b), 10 * int (digit_val c) + int (digit_val d),
       10 * int (digit_val e) + int (digit_val f))"
    "int (dec_val_from 0 fr) = getFraction t p"
proof -
  obtain h m s where g: "getHMS t = (h, m, s)" by (cases "getHMS t") auto
  note fb = getFraction_bounds(1) [OF assms]
  have b: "0 \<le> h" "h < 100" "0 \<le> m" "m < 100" "0 \<le> s" "s < 100"
    using getHMS_bounds [OF assms(1) g, of 0] by simp_all
  obtain a b where h: "padded 2 h = [a, b]" "is_digit a" "is_digit b" "h = 10 * int (digit_val a) + int (digit_val b)"
    using b(1,2) by (rule padded2)
  obtain c d where m: "padded 2 m = [c, d]" "is_digit c" "is_digit d" "m = 10 * int (digit_val c) + int (digit_val d)"
    using b(3,4) by (rule padded2)
  obtain e f where s: "padded 2 s = [e, f]" "is_digit e" "is_digit f" "s = 10 * int (digit_val e) + int (digit_val f)"
    using b(5,6) by (rule padded2)
  define fr where "fr = (if p = 0 then [] else padded (nat p) (getFraction t p))"
  have fr: "list_all is_digit fr" "int (length fr) = p" "int (dec_val_from 0 fr) = getFraction t p"
    using padded_digits [of "getFraction t p" "nat p"] fb assms(2,3) unfolding fr_def by (cases "p = 0"; simp)+
  have "print_hms t p = padded 2 h @ '':'' @ padded 2 m @ '':'' @ padded 2 s @ (if p \<noteq> 0 then ''.'' @ fr else [])"
    unfolding print_hms_def g fr_def by (simp add: Let_def)
  then have "print_hms t p = [a, b, CHR '':'', c, d, CHR '':'', e, f] @ (if p \<noteq> 0 then CHR ''.'' # fr else [])"
    unfolding h(1) m(1) s(1) by simp
  moreover have "getHMS t = (10 * int (digit_val a) + int (digit_val b), 10 * int (digit_val c) + int (digit_val d),
       10 * int (digit_val e) + int (digit_val f))"
    unfolding g h(4) m(4) s(4) ..
  ultimately show ?thesis
    using h(2,3) m(2,3) s(2,3) fr by (intro that [of a b c d e f fr]) simp_all
qed

text \<open>The time of day that a printed timestamp keeps.\<close>

definition truncate_time :: "int \<Rightarrow> date_time \<Rightarrow> date_time" where
  "truncate_time p t = t\<lparr>m_time := m_time t - m_time t mod precision_factor p\<rparr>"

lemma make_truncated:
  assumes "day_time t" "0 \<le> p" "p \<le> 9" "getHMS t = (h, m, s)"
  shows "makeHMS h m s (convertToNanos (getFraction t p) p) = m_time (truncate_time p t)"
proof -
  have f: "0 \<le> precision_factor p" using assms(2,3)
    by (auto simp: precision_factor_def PRECISION_FACTOR_def nth_Cons' )
  have "0 \<le> m_time t mod precision_factor p" using f by (cases "precision_factor p = 0") (use assms(1) in \<open>auto simp: day_time_def\<close>)
  moreover have "m_time t mod NANOS_PER_SEC < 1000000000" by (simp add: NANOS_PER_SEC_def)
  moreover have "0 \<le> getFraction t p * precision_factor p" using getFraction_bounds(1) [OF assms(1-3)] f by simp
  ultimately have "to_int (getFraction t p * precision_factor p) = getFraction t p * precision_factor p"
    using getFraction_bounds(2) [OF assms(1-3)] by (intro to_int_id) simp_all
  then show ?thesis
    using getHMS_bounds [OF assms(1,4)] getFraction_bounds(2) [OF assms(1-3)] by (simp add: truncate_time_def convertToNanos_def)
qed

lemma UtcTimeStamp_roundtrip:
  assumes t: "day_time t" and p: "0 \<le> p" "p \<le> 9"
    and d: "m_date t = julianDate y mo d" "valid_date y mo d" "0 \<le> y" "y \<le> 9999"
  shows "UtcTimeStampConvertor_from (UtcTimeStampConvertor_to t p) = Inr (truncate_time p t)"
proof -
  have g: "getYMD (m_date t) = (y, mo, d)" using getYMD_julianDate [OF d(2)] d(1,3,4) by simp
  have mo: "1 \<le> mo" "mo \<le> 12" "1 \<le> d" "d \<le> 31"
    using d(2) by (auto simp: valid_date_def month_days_def split: if_splits)
  obtain y1 y2 y3 y4 where y: "padded 4 y = [y1, y2, y3, y4]" "is_digit y1" "is_digit y2" "is_digit y3" "is_digit y4"
    "y = 1000 * int (digit_val y1) + 100 * int (digit_val y2) + 10 * int (digit_val y3) + int (digit_val y4)"
    using d(3) by (rule padded4) (use d(4) in simp)
  obtain m1 m2 where m: "padded 2 mo = [m1, m2]" "is_digit m1" "is_digit m2" "mo = 10 * int (digit_val m1) + int (digit_val m2)"
    by (rule padded2 [of mo]) (use mo in simp_all)
  obtain d1 d2 where dd: "padded 2 d = [d1, d2]" "is_digit d1" "is_digit d2" "d = 10 * int (digit_val d1) + int (digit_val d2)"
    by (rule padded2 [of d]) (use mo in simp_all)
  obtain a b c d' e f fr where
    pr: "print_hms t p = [a, b, CHR '':'', c, d', CHR '':'', e, f] @ (if p \<noteq> 0 then CHR ''.'' # fr else [])"
    and dg: "list_all is_digit [a, b, c, d', e, f]" and fr: "list_all is_digit fr" "int (length fr) = p"
    and hms: "getHMS t = (10 * int (digit_val a) + int (digit_val b), 10 * int (digit_val c) + int (digit_val d'),
       10 * int (digit_val e) + int (digit_val f))" (is "_ = (?h, ?m, ?s)")
    and fv: "int (dec_val_from 0 fr) = getFraction t p"
    using print_hms_form [OF t p] by metis
  note hb = getHMS_bounds [OF t hms, of 0]
  let ?v = "UtcTimeStampConvertor_to t p"
  have cl: "clamp_of p 0 9 = p" using p by (simp add: clamp_of_def)
  have v: "?v = [y1, y2, y3, y4, m1, m2, d1, d2, CHR ''-'', a, b, CHR '':'', c, d', CHR '':'', e, f] @
      (if p \<noteq> 0 then CHR ''.'' # fr else [])"
    unfolding UtcTimeStampConvertor_to_def g Let_def prod.case y(1) m(1) dd(1) cl pr by simp
  have l: "int (length ?v) = (if p \<noteq> 0 then 18 + p else 17)" using fr(2) unfolding v by simp
  have f0: "fr = []" if "p = 0" using that fr(2) by simp
  have "four_at ?v 0 = y" "two_at ?v 4 = mo" "two_at ?v 6 = d" "two_at ?v 9 = ?h" "two_at ?v 12 = ?m" "two_at ?v 15 = ?s"
    unfolding v y(6) m(4) dd(4) by (simp_all add: four_at_def two_at_def nth_append)
  note at = this
  have dt: "date_ok ?v" using y m dd mo at unfolding date_ok_def by (simp add: v digits_at_def upt_rec nth_append)
  have ht: "hms_ok ?v 9" using hb dg at unfolding hms_ok_def by (simp add: v digits_at_def upt_rec nth_append)
  have fo: "fraction_ok ?v 17" if "p \<noteq> 0" using fr that unfolding fraction_ok_def by (simp add: v nth_append)
  have s: "?v ! 8 = CHR ''-''" by (simp add: v nth_append)
  have dr: "drop 18 ?v = fr" using f0 by (simp add: v)
  have fz: "getFraction t p = 0" if "p = 0" using fv f0 [OF that] by simp
  have mk: "make_date_time y mo d ?h ?m ?s (getFraction t p) p = truncate_time p t"
    using make_truncated [OF t p hms] d(1) by (simp add: make_date_time_def truncate_time_def)
  show ?thesis
  proof (cases "p = 0")
    case True
    have "make_date_time y mo d ?h ?m ?s 0 3 = make_date_time y mo d ?h ?m ?s (getFraction t p) p"
      using fz True by (simp add: make_date_time_def convertToNanos_def)
    then show ?thesis using True l dt ht s mk unfolding UtcTimeStampConvertor_from_def at by simp
  next
    case False
    then have "\<not> (length ?v < 17 \<or> length ?v > 27)" "length ?v \<noteq> 17" "int (length ?v) - 17 - 1 = p" using l p by auto
    then show ?thesis using False dt ht s mk fo fv dr unfolding UtcTimeStampConvertor_from_def at by simp
  qed
qed


section \<open>Properties\<close>

text \<open>C26: in the 32-bit arithmetic of the code the day number of every date of the Gregorian
  calendar from the year 1 to the year 1465000 (leap years and the four hundred year rule
  included) is turned back into that date, and the weekday formula counts the days of the
  week without a break: it is the day number plus one modulo seven. (In the year 1465103
  \<open>getYMD\<close> overflows.)\<close>

theorem calendar_roundtrip:
  assumes "valid_date y m d" "1 \<le> y" "y \<le> 1465000"
  shows "getYMD (julianDate y m d) = (y, m, d) \<and>
    getWeekDay (DateTime (julianDate y m d) t) = 1 + (julianDate y m d + 1) mod 7"
  using assms getYMD_julianDate [OF assms(1)] getWeekDay_julian [OF assms] by simp

theorem calendar_roundtrip_witness:
  "getYMD (julianDate 2000 2 29) = (2000, 2, 29) \<and> getWeekDay (DateTime (julianDate 2000 2 29) 0) = 3"
  using calendar_roundtrip [of 2000 2 29 0]
  by (simp add: valid_date_def month_days_def leap_year_def julianDate_def)

text \<open>C27: adding an \<open>int\<close> of seconds to a date and time of day, where the date is at least
  \<open>2 ^ 15\<close> days away from the ends of its 32-bit \<open>int\<close>, moves the instant it denotes by
  exactly that many seconds, keeps the time of day normal across midnight in both
  directions, and the difference of the two values gives the seconds back.\<close>

theorem add_seconds_exact:
  assumes "day_time t" "\<bar>s\<bar> < 2 ^ 31" "\<bar>m_date t\<bar> \<le> 2 ^ 31 - 2 ^ 15"
  shows "day_time (add_seconds s t) \<and> instant (add_seconds s t) = instant t + s * NANOS_PER_SEC \<and>
    diff_seconds (add_seconds s t) t = s"
  using add_seconds_day_time [OF assms(1)] add_seconds_instant [OF assms] diff_seconds_add [OF assms] by simp

theorem add_seconds_exact_witness:
  "diff_seconds (add_seconds (- 5) (DateTime 2451545 1000000000)) (DateTime 2451545 1000000000) = - 5"
  using add_seconds_exact [of "DateTime 2451545 1000000000" "- 5"]
  by (simp add: day_time_def NANOS_PER_DAY_def)

text \<open>C28: a timestamp printed with any precision from seconds to nanoseconds is accepted by
  the parser and read back as the same instant, truncated to that precision, for every date
  of the years 0 to 9999.\<close>

theorem timestamp_roundtrip:
  assumes "day_time t" "0 \<le> p" "p \<le> 9"
    and "m_date t = julianDate y mo d" "valid_date y mo d" "0 \<le> y" "y \<le> 9999"
  shows "UtcTimeStampConvertor_from (UtcTimeStampConvertor_to t p) = Inr (truncate_time p t)"
  using assms by (rule UtcTimeStamp_roundtrip)

theorem timestamp_roundtrip_witness:
  "UtcTimeStampConvertor_from (UtcTimeStampConvertor_to (DateTime (julianDate 2024 2 29) 86399123456789) 3) =
    Inr (DateTime (julianDate 2024 2 29) 86399123000000)"
  using timestamp_roundtrip [of "DateTime (julianDate 2024 2 29) 86399123456789" 3 2024 2 29]
  by (simp add: day_time_def NANOS_PER_DAY_def valid_date_def month_days_def leap_year_def
      truncate_time_def precision_factor_def PRECISION_FACTOR_def)

end
