(* ===== verification/FieldBases.thy ===== *)
theory FieldBases
  imports FieldNumbers DateTimes
begin

text \<open>
  \<open>Field.h\<close>: a field is a tag, the text of its value and the cached metrics (length and byte
  sum of its wire form), \<open>(0, 0)\<close> while they have not been computed. The cache of the wire
  form itself (\<open>m_data\<close>) is a pure cache and is recomputed here. A typed field is its tag
  and the text its convertor prints.
\<close>

record field_base =
  m_tag :: int
  m_string :: string
  m_metrics :: "int \<times> int"

definition no_metrics :: "int \<times> int" where "no_metrics = (0, 0)"

definition FieldBase :: "int \<Rightarrow> string \<Rightarrow> field_base" where
  "FieldBase tag s = \<lparr>m_tag = tag, m_string = s, m_metrics = no_metrics\<rparr>"

definition byte_sum :: "string \<Rightarrow> int" where
  "byte_sum s = sum_list (map of_char s)"

definition calculateMetrics :: "string \<Rightarrow> int \<times> int" where
  "calculateMetrics s = (int (length s), byte_sum s)"

text \<open>The constructor of the decoder: the metrics are those of the bytes the field was read from.\<close>

definition FieldBase_decoded :: "int \<Rightarrow> string \<Rightarrow> string \<Rightarrow> field_base" where
  "FieldBase_decoded tag value raw = \<lparr>m_tag = tag, m_string = value, m_metrics = calculateMetrics raw\<rparr>"

definition field_setString :: "string \<Rightarrow> field_base \<Rightarrow> field_base" where
  "field_setString s f = f\<lparr>m_string := s, m_metrics := no_metrics\<rparr>"

definition field_setTag :: "int \<Rightarrow> field_base \<Rightarrow> field_base" where
  "field_setTag tag f = f\<lparr>m_tag := tag, m_metrics := no_metrics\<rparr>"

text \<open>\<open>encodeTo\<close>\<close>

definition getFixString :: "field_base \<Rightarrow> string" where
  "getFixString f = IntConvertor_to (m_tag f) @ ''='' @ m_string f @ [SOH]"

definition field_metrics :: "field_base \<Rightarrow> int \<times> int" where
  "field_metrics f = (if fst (m_metrics f) > 0 then m_metrics f else calculateMetrics (getFixString f))"

definition getLength :: "field_base \<Rightarrow> int" where "getLength f = fst (field_metrics f)"
definition getTotal :: "field_base \<Rightarrow> int" where "getTotal f = snd (field_metrics f)"

section \<open>Typed fields\<close>

definition IntField :: "int \<Rightarrow> int \<Rightarrow> field_base" where
  "IntField tag v = FieldBase tag (IntConvertor_to v)"

definition SeqNumField :: "int \<Rightarrow> 64 word \<Rightarrow> field_base" where
  "SeqNumField tag v = FieldBase tag (UInt64Convertor_to v)"

definition BoolField :: "int \<Rightarrow> bool \<Rightarrow> field_base" where
  "BoolField tag b = FieldBase tag (BoolConvertor_to b)"

definition CharField :: "int \<Rightarrow> char \<Rightarrow> field_base" where
  "CharField tag c = FieldBase tag (CharConvertor_to c)"

definition UtcTimeStampField :: "int \<Rightarrow> date_time \<Rightarrow> int \<Rightarrow> field_base" where
  "UtcTimeStampField tag t precision = FieldBase tag (UtcTimeStampConvertor_to t precision)"

definition CheckSumField :: "int \<Rightarrow> int \<Rightarrow> field_base result" where
  "CheckSumField tag v = rbind (CheckSumConvertor_to v) (\<lambda>s. Inr (FieldBase tag s))"

text \<open>\<open>getValue\<close>: a failed conversion is reported as \<open>IncorrectDataFormat\<close> of the field.\<close>

definition IntField_getValue :: "field_base \<Rightarrow> int result" where
  "IntField_getValue f =
     (case IntConvertor_from (m_string f) of
        None \<Rightarrow> Inl (IncorrectDataFormat (m_tag f) (m_string f)) | Some v \<Rightarrow> Inr v)"

definition SeqNumField_getValue :: "field_base \<Rightarrow> 64 word result" where
  "SeqNumField_getValue f =
     (case UInt64Convertor_from (m_string f) of
        None \<Rightarrow> Inl (IncorrectDataFormat (m_tag f) (m_string f)) | Some v \<Rightarrow> Inr v)"

definition BoolField_getValue :: "field_base \<Rightarrow> bool result" where
  "BoolField_getValue f =
     (case BoolConvertor_from (m_string f) of
        None \<Rightarrow> Inl (IncorrectDataFormat (m_tag f) (m_string f)) | Some v \<Rightarrow> Inr v)"

definition UtcTimeStampField_getValue :: "field_base \<Rightarrow> date_time result" where
  "UtcTimeStampField_getValue f =
     (case UtcTimeStampConvertor_from (m_string f) of
        Inl _ \<Rightarrow> Inl (IncorrectDataFormat (m_tag f) (m_string f)) | Inr t \<Rightarrow> Inr t)"

end
