(* ===== verification/Sorters.thy ===== *)
theory Sorters
  imports FieldNumbers
begin

text \<open>
  \<open>MessageSorters\<close>: the orders in which a field map keeps its fields. \<open>message_order\<close>
  selects the order of a header, of a trailer, of the tags by number, or the order a
  repeating group prescribes. Everything a field map needs of such an order is the
  interface \<open>tag_order\<close> (a strict linear order on tags); the orders of the code are shown
  to provide it, the order of a group for every list of tags it can be built from.
\<close>

section \<open>The comparisons\<close>

definition header_position :: "int \<Rightarrow> int" where
  "header_position field =
     (if field = F_BeginString then 1 else if field = F_BodyLength then 2
      else if field = F_MsgType then 3 else 0)"

definition compare_ordered :: "int \<Rightarrow> int \<Rightarrow> int \<Rightarrow> int \<Rightarrow> bool" where
  "compare_ordered orderedX orderedY x y =
     (if orderedX \<noteq> 0 \<and> orderedY \<noteq> 0 then orderedX < orderedY
      else if orderedX \<noteq> 0 then True
      else if orderedY \<noteq> 0 then False
      else x < y)"

definition header_order_compare :: "int \<Rightarrow> int \<Rightarrow> bool" where
  "header_order_compare x y = compare_ordered (header_position x) (header_position y) x y"

definition trailer_position :: "int \<Rightarrow> int" where
  "trailer_position field =
     (if field = F_SignatureLength then 1 else if field = F_Signature then 2 else 0)"

definition trailer_order_compare :: "int \<Rightarrow> int \<Rightarrow> bool" where
  "trailer_order_compare x y =
     (if x = F_CheckSum then False
      else if y = F_CheckSum then True
      else compare_ordered (trailer_position x) (trailer_position y) x y)"

text \<open>
  \<open>order[x]\<close> of a group's array. The code reads the array for every tag up to the largest;
  for a negative tag (or for 0 when the array is empty) that read is outside the array, here
  it is 0.
\<close>

definition order_at :: "int list \<Rightarrow> int \<Rightarrow> int" where
  "order_at order x = (if 0 \<le> x \<and> x < int (length order) then order ! nat x else 0)"

definition group_order_compare :: "int \<Rightarrow> int \<Rightarrow> int list \<Rightarrow> int \<Rightarrow> bool" where
  "group_order_compare x y order largest =
     (if x \<le> largest \<and> y \<le> largest then
        (let iX = order_at order x; iY = order_at order y
         in if iX = 0 \<and> iY = 0 then x < y
            else if iX = 0 then False
            else if iY = 0 then True
            else iX < iY)
      else if x \<le> largest then True
      else if y \<le> largest then False
      else x < y)"

section \<open>message_order\<close>

datatype cmp_mode = mode_header | mode_trailer | mode_normal | mode_group

record message_order =
  m_mode :: cmp_mode
  m_delim :: int
  m_groupOrder :: "int list"
  m_largest :: int

definition message_order_of_mode :: "cmp_mode \<Rightarrow> message_order" where
  "message_order_of_mode mode = \<lparr>m_mode = mode, m_delim = 0, m_groupOrder = [], m_largest = 0\<rparr>"

text \<open>\<open>setOrder\<close>: positions count from one, 0 marks a tag that is not of the group.\<close>

fun assign_positions :: "int \<Rightarrow> int list \<Rightarrow> int list \<Rightarrow> int list" where
  "assign_positions i [] order = order"
| "assign_positions i (tag # tags) order = assign_positions (i + 1) tags (order[nat tag := i + 1])"

definition setOrder :: "int list \<Rightarrow> message_order" where
  "setOrder order =
     (case order of
        [] \<Rightarrow> \<lparr>m_mode = mode_group, m_delim = 0, m_groupOrder = [], m_largest = 0\<rparr>
      | first # rest \<Rightarrow>
          let largest = foldl max first rest
          in \<lparr>m_mode = mode_group, m_delim = first,
              m_groupOrder = assign_positions 0 order (replicate (nat (largest + 1)) 0),
              m_largest = largest\<rparr>)"

text \<open>The constructor from a zero terminated array, and the variadic constructor.\<close>

definition message_order_of_array :: "int list \<Rightarrow> message_order" where
  "message_order_of_array order = setOrder (takeWhile (\<lambda>f. f \<noteq> 0) order)"

definition order_less :: "message_order \<Rightarrow> int \<Rightarrow> int \<Rightarrow> bool" where
  "order_less mo x y =
     (case m_mode mo of
        mode_header \<Rightarrow> header_order_compare x y
      | mode_trailer \<Rightarrow> trailer_order_compare x y
      | mode_group \<Rightarrow> group_order_compare x y (m_groupOrder mo) (m_largest mo)
      | mode_normal \<Rightarrow> x < y)"

section \<open>What a field map needs of an order\<close>

locale tag_order =
  fixes less :: "int \<Rightarrow> int \<Rightarrow> bool"
  assumes less_irrefl: "\<not> less x x"
    and less_trans: "less x y \<Longrightarrow> less y z \<Longrightarrow> less x z"
    and less_total: "x \<noteq> y \<Longrightarrow> less x y \<or> less y x"
begin

lemma less_asym: "less x y \<Longrightarrow> \<not> less y x"
  using less_irrefl less_trans by blast

lemma not_less_iff: "\<not> less y x \<longleftrightarrow> less x y \<or> x = y"
  using less_total less_asym less_irrefl by blast

lemma not_less_trans: "\<not> less y x \<Longrightarrow> \<not> less z y \<Longrightarrow> \<not> less z x"
  using not_less_iff less_trans by blast

lemma not_less_antisym: "\<not> less y x \<Longrightarrow> \<not> less x y \<Longrightarrow> x = y"
  using less_total by blast

end

text \<open>An order given by an injective rank is one.\<close>

lemma tag_order_of_rank:
  fixes less :: "int \<Rightarrow> int \<Rightarrow> bool" and rank :: "int \<Rightarrow> int \<times> int"
  assumes "\<And>x y. less x y \<longleftrightarrow> fst (rank x) < fst (rank y) \<or> fst (rank x) = fst (rank y) \<and> snd (rank x) < snd (rank y)"
    and "\<And>x y. rank x = rank y \<Longrightarrow> x = y"
  shows "tag_order less"
proof
  show "less x y \<or> less y x" if "x \<noteq> y" for x y
  proof -
    have "fst (rank x) \<noteq> fst (rank y) \<or> snd (rank x) \<noteq> snd (rank y)"
      using assms(2) [of x y] that by (auto simp: prod_eq_iff)
    then show ?thesis unfolding assms(1) by linarith
  qed
qed (auto simp: assms(1))

lemma header_tag_order: "tag_order header_order_compare"
  by (rule tag_order_of_rank [where rank =
        "\<lambda>x. if header_position x \<noteq> 0 then (0, header_position x) else (1, x)"])
    (auto simp: header_order_compare_def compare_ordered_def header_position_def split: if_splits)

lemma trailer_tag_order: "tag_order trailer_order_compare"
  by (rule tag_order_of_rank [where rank =
        "\<lambda>x. if x = F_CheckSum then (2, 0) else if trailer_position x \<noteq> 0 then (0, trailer_position x) else (1, x)"])
    (auto simp: trailer_order_compare_def compare_ordered_def trailer_position_def split: if_splits)

text \<open>A group's order is linear when no two tags share a position.\<close>

definition order_injective :: "int list \<Rightarrow> bool" where
  "order_injective order \<longleftrightarrow>
     (\<forall>x\<in>{0..<length order}. \<forall>y\<in>{0..<length order}. order ! x = order ! y \<longrightarrow> order ! x \<noteq> 0 \<longrightarrow> x = y)"

lemma group_tag_order:
  assumes i: "order_injective order" and l: "int (length order) \<le> largest + 1 \<or> order = []"
  shows "tag_order (\<lambda>x y. group_order_compare x y order largest)"
proof (rule tag_order_of_rank [where rank =
        "\<lambda>x. if order_at order x \<noteq> 0 then (0, order_at order x) else (1, x)"])
  have big: "order_at order x = 0" if "largest < x" for x
    using l that by (auto simp: order_at_def)
  show "group_order_compare x y order largest \<longleftrightarrow>
      fst (if order_at order x \<noteq> 0 then (0, order_at order x) else (1, x)) <
      fst (if order_at order y \<noteq> 0 then (0, order_at order y) else ((1::int), y)) \<or>
      fst (if order_at order x \<noteq> 0 then (0, order_at order x) else (1, x)) =
      fst (if order_at order y \<noteq> 0 then (0, order_at order y) else ((1::int), y)) \<and>
      snd (if order_at order x \<noteq> 0 then (0, order_at order x) else ((1::int), x)) <
      snd (if order_at order y \<noteq> 0 then (0, order_at order y) else ((1::int), y))" for x y
    using big [of x] big [of y] by (auto simp: group_order_compare_def Let_def)
  show "x = y" if "(if order_at order x \<noteq> 0 then (0, order_at order x) else (1, x)) =
      (if order_at order y \<noteq> 0 then (0, order_at order y) else ((1::int), y))" for x y
  proof (cases "order_at order x = 0")
    case False
    then have "order_at order x = order_at order y" "order_at order y \<noteq> 0" using that by (auto split: if_splits)
    then have "nat x = nat y" "0 \<le> x" "0 \<le> y"
      using i False unfolding order_injective_def order_at_def by (auto split: if_splits)
    then show ?thesis by simp
  qed (use that in \<open>auto split: if_splits\<close>)
qed


lemma assign_positions_length [simp]: "length (assign_positions i tags order) = length order"
  by (induction i tags order rule: assign_positions.induct) auto

lemma assign_positions_injective:
  "order_injective order \<Longrightarrow> 0 \<le> i \<Longrightarrow> (\<forall>v\<in>set order. v \<le> i) \<Longrightarrow> order_injective (assign_positions i tags order)"
proof (induction i tags order rule: assign_positions.induct)
  case (2 i tag tags order)
  let ?o = "order[nat tag := i + 1]"
  have b: "\<forall>v\<in>set ?o. v \<le> i + 1"
    using 2(4) set_update_subset_insert [of order "nat tag" "i + 1"] by fastforce
  have "order_injective ?o"
    unfolding order_injective_def
  proof (intro ballI impI)
    fix x y assume xy: "x \<in> {0..<length ?o}" "y \<in> {0..<length ?o}" and e: "?o ! x = ?o ! y" "?o ! x \<noteq> 0"
    have "order ! z \<le> i" if "z < length order" for z using 2(4) that by simp
    then show "x = y" using xy e 2(2) unfolding order_injective_def
      by (cases "x = nat tag"; cases "y = nat tag") fastforce+
  qed
  then show ?case using 2 b by simp
qed simp

lemma foldl_max_ge: "(first :: int) \<le> foldl max first rest"
proof (induction rest arbitrary: first)
  case (Cons a rest)
  then have "max first a \<le> foldl max first (a # rest)" using Cons [of "max first a"] by simp
  then show ?case by (rule order_trans [OF max.cobounded1])
qed simp

text \<open>The orders a field map can be built with: one of the three fixed ones, or a group's.\<close>

definition order_ok :: "message_order \<Rightarrow> bool" where
  "order_ok mo \<longleftrightarrow> m_mode mo = mode_group \<longrightarrow>
     order_injective (m_groupOrder mo) \<and>
     (int (length (m_groupOrder mo)) \<le> m_largest mo + 1 \<or> m_groupOrder mo = [])"

lemma order_ok_mode [simp]: "mode \<noteq> mode_group \<Longrightarrow> order_ok (message_order_of_mode mode)"
  by (simp add: order_ok_def message_order_of_mode_def)

lemma order_ok_setOrder [simp]: "order_ok (setOrder order)"
proof (cases order)
  case (Cons first rest)
  let ?z = "replicate (nat (foldl max first rest + 1)) (0::int)"
  have "order_injective (assign_positions 0 order ?z)"
    by (rule assign_positions_injective) (auto simp: order_injective_def)
  moreover have "assign_positions 0 (first # rest) [] = []" by (metis assign_positions_length length_0_conv)
  ultimately show ?thesis
    using Cons foldl_max_ge [of first rest]
    by (auto simp: order_ok_def setOrder_def Let_def simp del: assign_positions.simps)
qed (simp add: order_ok_def setOrder_def order_injective_def)

lemma order_ok_tag_order: "order_ok mo \<Longrightarrow> tag_order (order_less mo)"
  using header_tag_order trailer_tag_order group_tag_order [of "m_groupOrder mo" "m_largest mo"]
  by (cases "m_mode mo") (auto simp: order_less_def order_ok_def tag_order_def)

interpretation header_fields: tag_order "order_less (message_order_of_mode mode_header)"
  by (simp add: order_ok_tag_order)

interpretation trailer_fields: tag_order "order_less (message_order_of_mode mode_trailer)"
  by (simp add: order_ok_tag_order)

interpretation body_fields: tag_order "order_less (message_order_of_mode mode_normal)"
  by (simp add: order_ok_tag_order)

interpretation group_fields: tag_order "order_less (setOrder order)" for order
  by (simp add: order_ok_tag_order)

end
