(* ===== verification/FieldMaps.thy ===== *)
theory FieldMaps
  imports FieldBases Sorters "HOL-Library.Multiset"
begin

text \<open>
  \<open>FieldMap\<close>: a vector of fields kept in the order of its \<open>message_order\<close>, and for each
  group tag the vector of its instances, which are field maps again. \<open>std::map\<close> is an
  association list with increasing keys. The lookups return the index of a field, as the
  iterators of the code do. The lemmas: every operation keeps the fields sorted, the linear
  and the binary search find the same field, and what a field map holds after each operation.
\<close>

section \<open>Data\<close>

datatype fieldmap =
  FieldMap (m_fields: "field_base list") (m_groups: "(int \<times> fieldmap list) list") (m_order: message_order)

definition FieldMap_new :: "message_order \<Rightarrow> fieldmap" where
  "FieldMap_new order = FieldMap [] [] order"

definition set_fields :: "field_base list \<Rightarrow> fieldmap \<Rightarrow> fieldmap" where
  "set_fields fs fm = FieldMap fs (m_groups fm) (m_order fm)"

definition set_groups :: "(int \<times> fieldmap list) list \<Rightarrow> fieldmap \<Rightarrow> fieldmap" where
  "set_groups gs fm = FieldMap (m_fields fm) gs (m_order fm)"

section \<open>Searching\<close>

text \<open>\<open>std::find_if\<close> with \<open>finder\<close>, and the partition points \<open>std::lower_bound\<close> and
  \<open>std::upper_bound\<close> return on a range partitioned by the sorter.\<close>

fun find_index :: "('a \<Rightarrow> bool) \<Rightarrow> 'a list \<Rightarrow> nat option" where
  "find_index P [] = None"
| "find_index P (x # xs) = (if P x then Some 0 else map_option Suc (find_index P xs))"

definition lower_bound :: "(int \<Rightarrow> int \<Rightarrow> bool) \<Rightarrow> field_base list \<Rightarrow> int \<Rightarrow> nat" where
  "lower_bound cmp fs tag = length (takeWhile (\<lambda>f. cmp (m_tag f) tag) fs)"

definition upper_bound :: "(int \<Rightarrow> int \<Rightarrow> bool) \<Rightarrow> field_base list \<Rightarrow> int \<Rightarrow> nat" where
  "upper_bound cmp fs tag = length (takeWhile (\<lambda>f. \<not> cmp tag (m_tag f)) fs)"

definition lookup :: "(int \<Rightarrow> int \<Rightarrow> bool) \<Rightarrow> field_base list \<Rightarrow> int \<Rightarrow> nat option" where
  "lookup cmp fs tag =
     (if length fs < 16 then find_index (\<lambda>f. m_tag f = tag) fs
      else let i = lower_bound cmp fs tag
           in if i < length fs \<and> m_tag (fs ! i) = tag then Some i else None)"

definition findPositionFor :: "(int \<Rightarrow> int \<Rightarrow> bool) \<Rightarrow> field_base list \<Rightarrow> int \<Rightarrow> nat" where
  "findPositionFor cmp fs tag =
     (if fs = [] then length fs
      else if cmp (m_tag (last fs)) tag \<or> m_tag (last fs) = tag then length fs
      else upper_bound cmp fs tag)"

definition findTag :: "fieldmap \<Rightarrow> int \<Rightarrow> nat option" where
  "findTag fm tag = lookup (order_less (m_order fm)) (m_fields fm) tag"

section \<open>Fields\<close>

definition insert_at :: "nat \<Rightarrow> 'a \<Rightarrow> 'a list \<Rightarrow> 'a list" where
  "insert_at i x xs = take i xs @ x # drop i xs"

definition erase_at :: "nat \<Rightarrow> 'a list \<Rightarrow> 'a list" where
  "erase_at i xs = take i xs @ drop (Suc i) xs"

definition addField :: "field_base \<Rightarrow> fieldmap \<Rightarrow> fieldmap" where
  "addField f fm =
     set_fields (insert_at (findPositionFor (order_less (m_order fm)) (m_fields fm) (m_tag f)) f (m_fields fm)) fm"

definition setField :: "field_base \<Rightarrow> bool \<Rightarrow> fieldmap \<Rightarrow> fieldmap" where
  "setField f overwrite fm =
     (if \<not> overwrite then addField f fm
      else case findTag fm (m_tag f) of
        None \<Rightarrow> addField f fm
      | Some i \<Rightarrow> set_fields ((m_fields fm)[i := field_setString (m_string f) (m_fields fm ! i)]) fm)"

definition setField_tag :: "int \<Rightarrow> string \<Rightarrow> fieldmap \<Rightarrow> fieldmap" where
  "setField_tag tag v fm = setField (FieldBase tag v) True fm"

definition getFieldIfSet :: "int \<Rightarrow> fieldmap \<Rightarrow> field_base option" where
  "getFieldIfSet tag fm = map_option (\<lambda>i. m_fields fm ! i) (findTag fm tag)"

definition getFieldRef :: "int \<Rightarrow> fieldmap \<Rightarrow> field_base result" where
  "getFieldRef tag fm =
     (case findTag fm tag of None \<Rightarrow> Inl (FieldNotFound tag) | Some i \<Rightarrow> Inr (m_fields fm ! i))"

definition getField :: "int \<Rightarrow> fieldmap \<Rightarrow> string result" where
  "getField tag fm = rbind (getFieldRef tag fm) (\<lambda>f. Inr (m_string f))"

definition isSetField :: "int \<Rightarrow> fieldmap \<Rightarrow> bool" where
  "isSetField tag fm \<longleftrightarrow> findTag fm tag \<noteq> None"

text \<open>The most recent field with a tag, while fields are still in arrival order.\<close>

definition reverse_find :: "int \<Rightarrow> fieldmap \<Rightarrow> field_base result" where
  "reverse_find tag fm =
     (case find_index (\<lambda>f. m_tag f = tag) (rev (m_fields fm)) of
        None \<Rightarrow> Inl (FieldNotFound tag) | Some i \<Rightarrow> Inr (rev (m_fields fm) ! i))"

definition appendField :: "field_base \<Rightarrow> fieldmap \<Rightarrow> fieldmap" where
  "appendField f fm = set_fields (m_fields fm @ [f]) fm"

text \<open>
  \<open>std::sort\<close> leaves the relative order of fields with equal tags unspecified; here equal
  tags keep their order.
\<close>

fun sort_insert :: "(int \<Rightarrow> int \<Rightarrow> bool) \<Rightarrow> field_base \<Rightarrow> field_base list \<Rightarrow> field_base list" where
  "sort_insert cmp f [] = [f]"
| "sort_insert cmp f (g # gs) = (if cmp (m_tag g) (m_tag f) then g # sort_insert cmp f gs else f # g # gs)"

definition sort_fields :: "(int \<Rightarrow> int \<Rightarrow> bool) \<Rightarrow> field_base list \<Rightarrow> field_base list" where
  "sort_fields cmp fs = foldr (sort_insert cmp) fs []"

definition sortFields :: "fieldmap \<Rightarrow> fieldmap" where
  "sortFields fm = set_fields (sort_fields (order_less (m_order fm)) (m_fields fm)) fm"

section \<open>Groups\<close>

definition groups_of :: "int \<Rightarrow> fieldmap \<Rightarrow> fieldmap list option" where
  "groups_of tag fm = map_of (m_groups fm) tag"

text \<open>
  Removing a field removes its group and removing a group removes its field, so the two call
  each other; \<open>erase_field\<close> is \<open>removeField\<close> when there is no group left to remove.
\<close>

definition erase_field :: "int \<Rightarrow> fieldmap \<Rightarrow> fieldmap" where
  "erase_field tag fm =
     (case findTag fm tag of None \<Rightarrow> fm | Some i \<Rightarrow> set_fields (erase_at i (m_fields fm)) fm)"

definition removeGroups :: "int \<Rightarrow> fieldmap \<Rightarrow> fieldmap" where
  "removeGroups tag fm =
     (case groups_of tag fm of
        None \<Rightarrow> fm
      | Some _ \<Rightarrow> erase_field tag (set_groups (map_erase tag (m_groups fm)) fm))"

definition removeField :: "int \<Rightarrow> fieldmap \<Rightarrow> fieldmap" where
  "removeField tag fm =
     (case findTag fm tag of
        None \<Rightarrow> fm
      | Some i \<Rightarrow> removeGroups tag (set_fields (erase_at i (m_fields fm)) fm))"

definition addGroup :: "int \<Rightarrow> fieldmap \<Rightarrow> bool \<Rightarrow> fieldmap \<Rightarrow> fieldmap" where
  "addGroup tag grp setCount fm =
     (let gs = (case groups_of tag fm of None \<Rightarrow> [] | Some gs \<Rightarrow> gs) @ [grp];
          fm' = set_groups (map_put tag gs (m_groups fm)) fm
      in if setCount then setField (IntField tag (int (length gs))) True fm' else fm')"

definition replaceGroup :: "int \<Rightarrow> int \<Rightarrow> fieldmap \<Rightarrow> fieldmap \<Rightarrow> fieldmap" where
  "replaceGroup num tag grp fm =
     (case groups_of tag fm of
        None \<Rightarrow> fm
      | Some gs \<Rightarrow>
          if num \<le> 0 then fm
          else if int (length gs) < num then fm
          else set_groups (map_put tag (gs[nat num - 1 := grp]) (m_groups fm)) fm)"

definition getGroupRef :: "int \<Rightarrow> int \<Rightarrow> fieldmap \<Rightarrow> fieldmap result" where
  "getGroupRef num tag fm =
     (case groups_of tag fm of
        None \<Rightarrow> Inl (FieldNotFound tag)
      | Some gs \<Rightarrow>
          if num \<le> 0 then Inl (FieldNotFound tag)
          else if int (length gs) < num then Inl (FieldNotFound tag)
          else Inr (gs ! (nat num - 1)))"

definition removeGroup :: "int \<Rightarrow> int \<Rightarrow> fieldmap \<Rightarrow> fieldmap" where
  "removeGroup num tag fm =
     (case groups_of tag fm of
        None \<Rightarrow> fm
      | Some gs \<Rightarrow>
          if num \<le> 0 then fm
          else if int (length gs) < num then fm
          else let gs' = erase_at (nat num - 1) gs
               in if gs' = [] then removeField tag (set_groups (map_erase tag (m_groups fm)) fm)
                  else setField (IntField tag (int (length gs'))) True
                         (set_groups (map_put tag gs' (m_groups fm)) fm))"

definition groupCount :: "int \<Rightarrow> fieldmap \<Rightarrow> nat" where
  "groupCount tag fm = (case groups_of tag fm of None \<Rightarrow> 0 | Some gs \<Rightarrow> length gs)"

definition hasGroup :: "int \<Rightarrow> fieldmap \<Rightarrow> bool" where
  "hasGroup tag fm \<longleftrightarrow> groups_of tag fm \<noteq> None"

definition hasGroup_num :: "int \<Rightarrow> int \<Rightarrow> fieldmap \<Rightarrow> bool" where
  "hasGroup_num num tag fm \<longleftrightarrow> to_int (int (groupCount tag fm)) \<ge> num"

definition clear :: "fieldmap \<Rightarrow> fieldmap" where
  "clear fm = FieldMap [] [] (m_order fm)"

definition isEmpty :: "fieldmap \<Rightarrow> bool" where
  "isEmpty fm \<longleftrightarrow> m_fields fm = []"

section \<open>Traversals\<close>

fun totalFields :: "fieldmap \<Rightarrow> nat" where
  "totalFields (FieldMap fs gs mo) =
     length fs + sum_list (map (\<lambda>(_, g). sum_list (map totalFields g)) gs)"

text \<open>\<open>calculateString\<close> appends to its argument; here it returns what it appends.\<close>

fun calculateString :: "fieldmap \<Rightarrow> string" where
  "calculateString (FieldMap fs gs mo) =
     (let strings = map (\<lambda>(k, g). (k, concat (map calculateString g))) gs
      in concat (map (\<lambda>f. getFixString f @ (case map_of strings (m_tag f) of None \<Rightarrow> [] | Some s \<Rightarrow> s)) fs))"

fun calculateLength :: "int \<Rightarrow> int \<Rightarrow> int \<Rightarrow> fieldmap \<Rightarrow> int" where
  "calculateLength beginStringField bodyLengthField checkSumField (FieldMap fs gs mo) =
     sum_list (map getLength (filter (\<lambda>f. m_tag f \<noteq> beginStringField \<and> m_tag f \<noteq> bodyLengthField
       \<and> m_tag f \<noteq> checkSumField) fs))
     + sum_list (map (\<lambda>(_, g). sum_list (map (calculateLength F_BeginString F_BodyLength F_CheckSum) g)) gs)"

fun calculateTotal :: "int \<Rightarrow> fieldmap \<Rightarrow> int" where
  "calculateTotal checkSumField (FieldMap fs gs mo) =
     sum_list (map getTotal (filter (\<lambda>f. m_tag f \<noteq> checkSumField) fs))
     + sum_list (map (\<lambda>(_, g). sum_list (map (calculateTotal F_CheckSum) g)) gs)"

text \<open>One pass over the fields with two accumulators.\<close>

fun add_length_total :: "int \<Rightarrow> int \<Rightarrow> int \<Rightarrow> field_base \<Rightarrow> int \<times> int \<Rightarrow> int \<times> int" where
  "add_length_total beginStringField bodyLengthField checkSumField f (len, tot) =
     (let tag = m_tag f in
      if tag = checkSumField \<or> tag = bodyLengthField then (len, tot)
      else ((if tag \<noteq> beginStringField then len + getLength f else len), tot + getTotal f))"

definition add_pair :: "int \<times> int \<Rightarrow> int \<times> int \<Rightarrow> int \<times> int" where
  "add_pair p q = (fst p + fst q, snd p + snd q)"

fun calculateLengthAndTotal :: "int \<Rightarrow> int \<Rightarrow> int \<Rightarrow> fieldmap \<Rightarrow> int \<times> int" where
  "calculateLengthAndTotal beginStringField bodyLengthField checkSumField (FieldMap fs gs mo) =
     foldl add_pair
       (foldl (\<lambda>acc f. add_length_total beginStringField bodyLengthField checkSumField f acc) (0, 0) fs)
       (concat (map (\<lambda>(_, g). map (calculateLengthAndTotal beginStringField bodyLengthField checkSumField) g) gs))"

section \<open>Searching, independent of the order\<close>

lemma find_index_Some: "find_index P xs = Some i \<longleftrightarrow> i < length xs \<and> P (xs ! i) \<and> (\<forall>j<i. \<not> P (xs ! j))"
proof (induction xs arbitrary: i)
  case (Cons x xs)
  show ?case
  proof (cases i)
    case (Suc k)
    then show ?thesis using Cons [of k] by (auto simp: less_Suc_eq_0_disj)
  qed auto
qed simp

lemma find_index_None: "find_index P xs = None \<longleftrightarrow> (\<forall>x\<in>set xs. \<not> P x)"
  by (induction xs) auto

lemma set_insert_at [simp]: "set (insert_at i x xs) = insert x (set xs)"
  by (metis (no_types) Un_insert_right append_take_drop_id insert_at_def list.simps(15) set_append)

lemma length_insert_at [simp]: "length (insert_at i x xs) = Suc (length xs)"
  by (simp add: insert_at_def)

lemma mset_insert_at: "mset (insert_at i x xs) = add_mset x (mset xs)"
proof -
  have "mset (take i xs @ drop i xs) = mset xs" by simp
  then show ?thesis unfolding insert_at_def mset_append by simp
qed

lemma set_erase_at_subset: "set (erase_at i xs) \<subseteq> set xs"
  by (auto simp: erase_at_def dest: in_set_takeD in_set_dropD)

text \<open>The fields in the order of a comparison: no field is before a smaller one.\<close>

definition sorted_tags :: "(int \<Rightarrow> int \<Rightarrow> bool) \<Rightarrow> field_base list \<Rightarrow> bool" where
  "sorted_tags cmp fs = sorted_wrt (\<lambda>a b. \<not> cmp (m_tag b) (m_tag a)) fs"

lemma sorted_tags_Nil [simp]: "sorted_tags cmp []"
  by (simp add: sorted_tags_def)

lemma sorted_tags_map: "sorted_tags cmp fs = sorted_wrt (\<lambda>a b. \<not> cmp b a) (map m_tag fs)"
  by (simp add: sorted_tags_def sorted_wrt_map)

lemma sorted_tags_erase:
  assumes "sorted_tags cmp fs"
  shows "sorted_tags cmp (erase_at i fs)"
proof (cases "i < length fs")
  case True
  have "sorted_tags cmp (take i fs @ fs ! i # drop (Suc i) fs)"
    using assms id_take_nth_drop [OF True] by simp
  then show ?thesis by (auto simp: sorted_tags_def erase_at_def sorted_wrt_append)
qed (use assms in \<open>simp add: erase_at_def\<close>)

text \<open>The fields with one tag, in order.\<close>

definition fields_with :: "int \<Rightarrow> field_base list \<Rightarrow> field_base list" where
  "fields_with tag fs = filter (\<lambda>f. m_tag f = tag) fs"

context tag_order
begin

lemma sorted_insert_at:
  assumes "sorted_tags less fs" "\<forall>g\<in>set (take p fs). \<not> less (m_tag f) (m_tag g)"
    "\<forall>g\<in>set (drop p fs). \<not> less (m_tag g) (m_tag f)"
  shows "sorted_tags less (insert_at p f fs)"
proof -
  have "sorted_tags less (take p fs @ drop p fs)" using assms(1) by simp
  then show ?thesis using assms(2,3) unfolding sorted_tags_def insert_at_def sorted_wrt_append by auto
qed

lemma after_takeWhile:
  assumes s: "sorted_tags less fs" and P: "P = (\<lambda>f. \<not> less tag (m_tag f)) \<or> P = (\<lambda>f. less (m_tag f) tag)"
    and g: "g \<in> set (drop (length (takeWhile P fs)) fs)"
  shows "\<not> P g"
  using s g
proof (induction fs)
  case (Cons f fs)
  have le: "\<forall>h\<in>set fs. \<not> less (m_tag h) (m_tag f)" and s: "sorted_tags less fs"
    using Cons(2) by (auto simp: sorted_tags_def)
  show ?case
  proof (cases "P f")
    case True
    then show ?thesis using Cons s by simp
  next
    case False
    then have "g = f \<or> g \<in> set fs" using Cons(3) by simp
    then show ?thesis
      using False le P by (auto dest: less_trans not_less_trans less_asym)
  qed
qed simp

lemma findPositionFor_insert:
  assumes s: "sorted_tags less fs"
  shows "sorted_tags less (insert_at (findPositionFor less fs (m_tag f)) f fs)"
proof (rule sorted_insert_at [OF s])
  let ?p = "findPositionFor less fs (m_tag f)"
  have u: "upper_bound less fs (m_tag f) \<le> length fs" unfolding upper_bound_def by (rule length_takeWhile_le)
  have e: "?p = length fs \<or> ?p = upper_bound less fs (m_tag f)" by (auto simp: findPositionFor_def)
  show "\<forall>g\<in>set (take ?p fs). \<not> less (m_tag f) (m_tag g)"
  proof (cases "fs \<noteq> [] \<and> \<not> (less (m_tag (last fs)) (m_tag f) \<or> m_tag (last fs) = m_tag f)")
    case True
    then have "take ?p fs = takeWhile (\<lambda>g. \<not> less (m_tag f) (m_tag g)) fs"
      by (simp add: findPositionFor_def upper_bound_def takeWhile_eq_take [symmetric])
    then show ?thesis using set_takeWhileD by fastforce
  next
    case False
    have "\<not> less (m_tag f) (m_tag g)" if "g \<in> set fs" for g
    proof -
      have ne: "fs \<noteq> []" using that by auto
      have "g = last fs \<or> \<not> less (m_tag (last fs)) (m_tag g)"
        using s that ne unfolding sorted_tags_def
        by (metis append_butlast_last_id in_set_conv_decomp rotate1.simps(2) set_ConsD set_rotate1 sorted_wrt_append list.set_intros(1))
      then show ?thesis using False ne that less_irrefl less_asym not_less_iff less_trans by metis
    qed
    then show ?thesis by (auto dest: in_set_takeD)
  qed
  show "\<forall>g\<in>set (drop ?p fs). \<not> less (m_tag g) (m_tag f)"
  proof
    fix g assume "g \<in> set (drop ?p fs)"
    then have "less (m_tag f) (m_tag g)"
      using e after_takeWhile [OF s, of "\<lambda>g. \<not> less (m_tag f) (m_tag g)" "m_tag f" g] by (auto simp: upper_bound_def)
    then show "\<not> less (m_tag g) (m_tag f)" by (rule less_asym)
  qed
qed

end


context tag_order
begin

text \<open>The binary search finds what the linear search finds.\<close>

lemma lookup_sorted:
  assumes s: "sorted_tags less fs"
  shows "lookup less fs tag = find_index (\<lambda>f. m_tag f = tag) fs"
proof -
  let ?i = "lower_bound less fs tag"
  have before: "less (m_tag (fs ! j)) tag" if "j < ?i" for j
  proof -
    have "fs ! j \<in> set (takeWhile (\<lambda>f. less (m_tag f) tag) fs)"
      using that nth_mem [of j "takeWhile (\<lambda>f. less (m_tag f) tag) fs"]
      by (simp add: lower_bound_def takeWhile_nth)
    then show ?thesis by (rule set_takeWhileD [THEN conjunct2])
  qed
  have after: "\<not> less (m_tag (fs ! j)) tag" if "?i \<le> j" "j < length fs" for j
  proof -
    have "fs ! j = drop ?i fs ! (j - ?i)" using that by simp
    moreover have "j - ?i < length (drop ?i fs)" using that by simp
    ultimately have "fs ! j \<in> set (drop ?i fs)" using nth_mem by metis
    then show ?thesis by (rule after_takeWhile [OF s disjI2 [OF refl], folded lower_bound_def])
  qed
  have "(if ?i < length fs \<and> m_tag (fs ! ?i) = tag then Some ?i else None) = find_index (\<lambda>f. m_tag f = tag) fs"
  proof (cases "find_index (\<lambda>f. m_tag f = tag) fs")
    case None
    then have "\<forall>f\<in>set fs. m_tag f \<noteq> tag" by (simp add: find_index_None)
    then show ?thesis unfolding None by auto
  next
    case (Some k)
    then have k: "k < length fs" "m_tag (fs ! k) = tag" by (simp_all add: find_index_Some)
    have "?i \<le> k" using before [of k] k less_irrefl by (metis linorder_not_less)
    moreover have "\<not> ?i < k"
    proof
      assume lt: "?i < k"
      then have "\<not> less (m_tag (fs ! k)) (m_tag (fs ! ?i))"
        using sorted_wrt_nth_less [OF s [unfolded sorted_tags_def] lt k(1)] by simp
      then have "m_tag (fs ! ?i) = tag"
        using after [of ?i] lt k not_less_antisym by auto
      then show False using Some lt by (simp add: find_index_Some)
    qed
    ultimately have "?i = k" by simp
    then show ?thesis using Some k by simp
  qed
  then show ?thesis by (simp add: lookup_def Let_def)
qed

lemma sort_insert_set: "set (sort_insert cmp f fs) = insert f (set fs)"
  by (induction fs) auto

lemma sort_insert_sorted: "sorted_tags less fs \<Longrightarrow> sorted_tags less (sort_insert less f fs)"
proof (induction fs)
  case (Cons g gs)
  have g: "\<forall>h\<in>set gs. \<not> less (m_tag h) (m_tag g)" and s: "sorted_tags less gs"
    using Cons(2) by (simp_all add: sorted_tags_def)
  show ?case
  proof (cases "less (m_tag g) (m_tag f)")
    case True
    then show ?thesis using Cons(1) [OF s] g less_asym by (auto simp: sorted_tags_def sort_insert_set)
  next
    case False
    then show ?thesis using Cons(2) g not_less_trans by (auto simp: sorted_tags_def)
  qed
qed (simp add: sorted_tags_def)

lemma sort_fields_sorted: "sorted_tags less (sort_fields less fs)"
  by (induction fs) (simp_all add: sort_fields_def sort_insert_sorted)

end

lemma sort_insert_mset: "mset (sort_insert cmp f fs) = add_mset f (mset fs)"
  by (induction fs) auto

lemma sort_fields_mset [simp]: "mset (sort_fields cmp fs) = mset fs"
  by (induction fs) (simp_all add: sort_fields_def sort_insert_mset)

lemma sort_fields_set [simp]: "set (sort_fields cmp fs) = set fs"
  by (metis set_mset_mset sort_fields_mset)

context tag_order
begin

lemma sort_insert_fields_with:
  "fields_with tag (sort_insert less f fs) = (if m_tag f = tag then f # fields_with tag fs else fields_with tag fs)"
  by (induction fs) (auto simp: fields_with_def less_irrefl)

text \<open>Sorting keeps the fields of one tag in their order.\<close>

lemma sort_fields_stable: "fields_with tag (sort_fields less fs) = fields_with tag fs"
  by (induction fs) (simp_all add: sort_fields_def sort_insert_fields_with, simp_all add: fields_with_def)

end

section \<open>A field map as a map\<close>

text \<open>The first field of a tag is what a lookup in a sorted field map returns.\<close>

definition fm_sorted :: "fieldmap \<Rightarrow> bool" where
  "fm_sorted fm \<longleftrightarrow> order_ok (m_order fm) \<and> sorted_tags (order_less (m_order fm)) (m_fields fm)"

definition field_value :: "int \<Rightarrow> fieldmap \<Rightarrow> string option" where
  "field_value tag fm = map_option m_string (getFieldIfSet tag fm)"

lemma find_index_find: "map_option ((!) xs) (find_index P xs) = find P xs"
  by (induction xs) (auto simp: option.map_comp comp_def)

lemma findTag_sorted: "fm_sorted fm \<Longrightarrow> findTag fm tag = find_index (\<lambda>f. m_tag f = tag) (m_fields fm)"
  by (simp add: findTag_def fm_sorted_def tag_order.lookup_sorted order_ok_tag_order)

lemma getFieldIfSet_sorted: "fm_sorted fm \<Longrightarrow> getFieldIfSet tag fm = find (\<lambda>f. m_tag f = tag) (m_fields fm)"
  by (simp add: getFieldIfSet_def findTag_sorted find_index_find)

lemma fieldmap_sel [simp]:
  "m_fields (set_fields fs fm) = fs" "m_groups (set_fields fs fm) = m_groups fm" "m_order (set_fields fs fm) = m_order fm"
  "m_fields (set_groups gs fm) = m_fields fm" "m_groups (set_groups gs fm) = gs" "m_order (set_groups gs fm) = m_order fm"
  by (simp_all add: set_fields_def set_groups_def)

lemma fm_sorted_set_groups [simp]: "fm_sorted (set_groups gs fm) = fm_sorted fm"
  by (simp add: fm_sorted_def)

lemma fm_sorted_addField: "fm_sorted fm \<Longrightarrow> fm_sorted (addField f fm)"
  by (simp add: fm_sorted_def addField_def tag_order.findPositionFor_insert order_ok_tag_order)

lemma fm_sorted_setField: "fm_sorted fm \<Longrightarrow> fm_sorted (setField f b fm)"
proof (cases "findTag fm (m_tag f)")
  case (Some i)
  assume s: "fm_sorted fm"
  have "i < length (m_fields fm)"
    using Some findTag_sorted [OF s] by (simp add: find_index_Some)
  then have "map m_tag ((m_fields fm)[i := field_setString v (m_fields fm ! i)]) = map m_tag (m_fields fm)" for v
    by (simp add: map_update field_setString_def list_update_same_conv)
  then show ?thesis
    using s fm_sorted_addField [OF s] Some unfolding setField_def fm_sorted_def by (simp add: sorted_tags_map)
qed (simp add: setField_def fm_sorted_addField)

lemma fm_sorted_erase_field: "fm_sorted fm \<Longrightarrow> fm_sorted (erase_field tag fm)"
  by (auto simp: erase_field_def fm_sorted_def sorted_tags_erase split: option.split)

lemma fm_sorted_removeGroups: "fm_sorted fm \<Longrightarrow> fm_sorted (removeGroups tag fm)"
  by (auto simp: removeGroups_def fm_sorted_erase_field split: option.split)

lemma fm_sorted_removeField: "fm_sorted fm \<Longrightarrow> fm_sorted (removeField tag fm)"
  by (auto simp: removeField_def fm_sorted_def sorted_tags_erase
      intro!: fm_sorted_removeGroups [unfolded fm_sorted_def] split: option.split)

lemma fm_sorted_sortFields: "order_ok (m_order fm) \<Longrightarrow> fm_sorted (sortFields fm)"
  by (simp add: fm_sorted_def sortFields_def tag_order.sort_fields_sorted order_ok_tag_order)

lemma fm_sorted_addGroup: "fm_sorted fm \<Longrightarrow> fm_sorted (addGroup tag g b fm)"
  by (simp add: addGroup_def Let_def fm_sorted_setField)

lemma fm_sorted_removeGroup: "fm_sorted fm \<Longrightarrow> fm_sorted (removeGroup num tag fm)"
  by (auto simp: removeGroup_def Let_def fm_sorted_setField fm_sorted_removeField split: option.split)

lemma fm_sorted_replaceGroup: "fm_sorted fm \<Longrightarrow> fm_sorted (replaceGroup num tag g fm)"
  by (auto simp: replaceGroup_def split: option.split)

lemma fm_sorted_clear [simp]: "order_ok (m_order fm) \<Longrightarrow> fm_sorted (clear fm)"
  by (simp add: fm_sorted_def clear_def)

lemma fm_sorted_new [simp]: "order_ok mo \<Longrightarrow> fm_sorted (FieldMap_new mo)"
  by (simp add: fm_sorted_def FieldMap_new_def)

lemmas fm_sorted_ops = fm_sorted_addField fm_sorted_setField fm_sorted_removeField fm_sorted_removeGroups
  fm_sorted_addGroup fm_sorted_removeGroup fm_sorted_replaceGroup fm_sorted_sortFields


lemma find_insert_at:
  "\<forall>g\<in>set (take p fs). m_tag g \<noteq> m_tag f \<Longrightarrow>
   find (\<lambda>g. m_tag g = t) (insert_at p f fs) = (if t = m_tag f then Some f else find (\<lambda>g. m_tag g = t) fs)"
  for f :: field_base
proof -
  have app: "find P (xs @ ys) = (case find P xs of None \<Rightarrow> find P ys | Some x \<Rightarrow> Some x)" for P and xs ys :: "field_base list"
    by (induction xs) auto
  assume a: "\<forall>g\<in>set (take p fs). m_tag g \<noteq> m_tag f"
  then have "find (\<lambda>g. m_tag g = m_tag f) (take p fs) = None" by (auto simp: find_None_iff)
  moreover have "find P fs = (case find P (take p fs) of None \<Rightarrow> find P (drop p fs) | Some x \<Rightarrow> Some x)" for P
    using app [of P "take p fs" "drop p fs"] by simp
  ultimately show ?thesis by (auto simp: insert_at_def app split: option.split)
qed

lemma find_update:
  assumes "find_index (\<lambda>g. m_tag g = tag) fs = Some i" "m_tag f = tag"
  shows "find (\<lambda>g. m_tag g = t) (fs[i := f]) = (if t = tag then Some f else find (\<lambda>g. m_tag g = t) fs)"
  using assms
proof (induction fs arbitrary: i)
  case (Cons g gs)
  then show ?case by (cases "m_tag g = tag") auto
qed simp

text \<open>After a field is set its tag has its value; every other tag is unchanged.\<close>

lemma field_value_setField:
  assumes s: "fm_sorted fm"
  shows "field_value t (setField f True fm) = (if t = m_tag f then Some (m_string f) else field_value t fm)"
proof (cases "findTag fm (m_tag f)")
  case None
  then have "\<forall>g\<in>set (m_fields fm). m_tag g \<noteq> m_tag f" using findTag_sorted [OF s] by (simp add: find_index_None)
  then have "find (\<lambda>g. m_tag g = t) (m_fields (addField f fm)) =
      (if t = m_tag f then Some f else find (\<lambda>g. m_tag g = t) (m_fields fm))"
    by (auto simp: addField_def intro!: find_insert_at [THEN trans] dest: in_set_takeD)
  then show ?thesis
    using None s fm_sorted_addField [OF s, of f]
    by (simp add: setField_def field_value_def getFieldIfSet_sorted)
next
  case (Some i)
  let ?g = "field_setString (m_string f) (m_fields fm ! i)"
  have i: "find_index (\<lambda>g. m_tag g = m_tag f) (m_fields fm) = Some i" using Some findTag_sorted [OF s] by simp
  then have "m_tag ?g = m_tag f" "m_string ?g = m_string f" by (simp_all add: find_index_Some field_setString_def)
  then show ?thesis
    using find_update [OF i, of ?g t] Some s fm_sorted_setField [OF s, of f True]
    by (simp add: setField_def field_value_def getFieldIfSet_sorted)
qed

lemma field_value_isSet: "isSetField t fm \<longleftrightarrow> field_value t fm \<noteq> None"
  by (simp add: isSetField_def field_value_def getFieldIfSet_def)

lemma getField_value: "getField t fm = (case field_value t fm of None \<Rightarrow> Inl (FieldNotFound t) | Some v \<Rightarrow> Inr v)"
  by (auto simp: getField_def getFieldRef_def field_value_def getFieldIfSet_def split: option.split)

text \<open>No two fields of a map share a tag.\<close>

definition distinct_tags :: "fieldmap \<Rightarrow> bool" where
  "distinct_tags fm \<longleftrightarrow> distinct (map m_tag (m_fields fm))"

lemma distinct_tags_addField:
  "distinct_tags fm \<Longrightarrow> m_tag f \<notin> m_tag ` set (m_fields fm) \<Longrightarrow> distinct_tags (addField f fm)"
proof -
  assume a: "distinct_tags fm" "m_tag f \<notin> m_tag ` set (m_fields fm)"
  have "mset (map m_tag (insert_at p f (m_fields fm))) = mset (map m_tag (f # m_fields fm))" for p
    by (simp add: mset_insert_at)
  then have "distinct (map m_tag (insert_at p f (m_fields fm)))" for p
    using a mset_eq_imp_distinct_iff by (fastforce simp: distinct_tags_def)
  then show ?thesis unfolding distinct_tags_def addField_def by simp
qed

lemma distinct_tags_setField:
  assumes s: "fm_sorted fm" and d: "distinct_tags fm"
  shows "distinct_tags (setField f True fm)"
proof (cases "findTag fm (m_tag f)")
  case None
  then have "m_tag f \<notin> m_tag ` set (m_fields fm)" using findTag_sorted [OF s] by (auto simp: find_index_None)
  then show ?thesis using None d by (simp add: setField_def distinct_tags_addField)
next
  case (Some i)
  have "i < length (m_fields fm)" using Some findTag_sorted [OF s] by (simp add: find_index_Some)
  then have "map m_tag ((m_fields fm)[i := field_setString v (m_fields fm ! i)]) = map m_tag (m_fields fm)" for v
    by (simp add: map_update field_setString_def list_update_same_conv)
  then show ?thesis using Some d by (simp add: setField_def distinct_tags_def)
qed

lemma erase_first:
  assumes "find_index (\<lambda>g. m_tag g = tag) fs = Some i" "distinct (map m_tag fs)"
  shows "find (\<lambda>g. m_tag g = t) (erase_at i fs) = (if t = tag then None else find (\<lambda>g. m_tag g = t) fs) \<and>
    distinct (map m_tag (erase_at i fs)) \<and> tag \<notin> m_tag ` set (erase_at i fs)"
  using assms
proof (induction fs arbitrary: i)
  case (Cons g gs)
  show ?case
  proof (cases "m_tag g = tag")
    case True
    then have "i = 0" using Cons(2) by simp
    moreover have "m_tag ` set gs \<subseteq> - {tag}" using Cons(3) True by simp
    then have "\<forall>h\<in>set gs. m_tag h \<noteq> tag" by blast
    ultimately have "i = 0" "\<forall>h\<in>set gs. m_tag h \<noteq> tag" by simp_all
    then show ?thesis using True Cons(3) by (auto simp: erase_at_def find_None_iff)
  next
    case False
    then obtain k where k: "i = Suc k" "find_index (\<lambda>g. m_tag g = tag) gs = Some k" using Cons(2) by auto
    have e: "erase_at i (g # gs) = g # erase_at k gs" by (simp add: k erase_at_def)
    show ?thesis
      using Cons(1) [OF k(2)] Cons(3) False set_erase_at_subset [of k gs] unfolding e by auto
  qed
qed simp

lemma removeField_fields:
  assumes s: "fm_sorted fm" and d: "distinct_tags fm"
  shows "m_fields (removeField tag fm) =
    (case findTag fm tag of None \<Rightarrow> m_fields fm | Some i \<Rightarrow> erase_at i (m_fields fm))"
proof (cases "findTag fm tag")
  case (Some i)
  let ?fm = "set_fields (erase_at i (m_fields fm)) fm"
  have i: "find_index (\<lambda>g. m_tag g = tag) (m_fields fm) = Some i" using Some findTag_sorted [OF s] by simp
  have s': "fm_sorted (set_groups gs ?fm)" for gs using s by (simp add: fm_sorted_def sorted_tags_erase)
  have "tag \<notin> m_tag ` set (erase_at i (m_fields fm))" using erase_first [OF i] d by (simp add: distinct_tags_def)
  then have "findTag (set_groups gs ?fm) tag = None" for gs using findTag_sorted [OF s'] by (auto simp: find_index_None)
  then show ?thesis using Some by (simp add: removeField_def removeGroups_def erase_field_def split: option.split)
qed (simp add: removeField_def)

text \<open>A removed tag is gone with its group; every other tag keeps its value.\<close>

lemma field_value_removeField:
  assumes s: "fm_sorted fm" and d: "distinct_tags fm"
  shows "field_value t (removeField tag fm) = (if t = tag then None else field_value t fm)"
proof (cases "findTag fm tag")
  case None
  then show ?thesis using field_value_isSet [of tag fm] by (auto simp: removeField_def isSetField_def)
next
  case (Some i)
  have i: "find_index (\<lambda>g. m_tag g = tag) (m_fields fm) = Some i" using Some findTag_sorted [OF s] by simp
  show ?thesis
    using erase_first [OF i, of t] d Some removeField_fields [OF s d, of tag] fm_sorted_removeField [OF s, of tag] s
    by (simp add: field_value_def getFieldIfSet_sorted distinct_tags_def)
qed

lemma distinct_tags_removeField:
  assumes s: "fm_sorted fm" and d: "distinct_tags fm"
  shows "distinct_tags (removeField tag fm)"
proof (cases "findTag fm tag")
  case (Some i)
  have i: "find_index (\<lambda>g. m_tag g = tag) (m_fields fm) = Some i" using Some findTag_sorted [OF s] by simp
  show ?thesis
    using erase_first [OF i] d Some removeField_fields [OF s d, of tag] by (simp add: distinct_tags_def)
qed (use d in \<open>simp add: removeField_def\<close>)


section \<open>The fields in the order of the wire\<close>

fun wire_fields :: "fieldmap \<Rightarrow> field_base list" where
  "wire_fields (FieldMap fs gs mo) =
     (let ws = map (\<lambda>(k, g). (k, concat (map wire_fields g))) gs
      in concat (map (\<lambda>f. f # (case map_of ws (m_tag f) of None \<Rightarrow> [] | Some w \<Rightarrow> w)) fs))"

text \<open>Every group belongs to exactly one counter field, in the map and in its groups.\<close>

fun groups_counted :: "fieldmap \<Rightarrow> bool" where
  "groups_counted (FieldMap fs gs mo) \<longleftrightarrow>
     distinct (map fst gs) \<and>
     list_all (\<lambda>(k, g). length (fields_with k fs) = 1 \<and> list_all groups_counted g) gs"

text \<open>The cached metrics of a field are those of its wire form.\<close>

definition metrics_ok :: "field_base \<Rightarrow> bool" where
  "metrics_ok f \<longleftrightarrow> fst (m_metrics f) > 0 \<longrightarrow> m_metrics f = calculateMetrics (getFixString f)"

lemma metrics_okD: "metrics_ok f \<Longrightarrow> field_metrics f = calculateMetrics (getFixString f)"
  by (simp add: metrics_ok_def field_metrics_def)

lemma metrics_ok_FieldBase [simp]: "metrics_ok (FieldBase tag v)" "metrics_ok (field_setString v f)"
  by (simp_all add: metrics_ok_def FieldBase_def field_setString_def no_metrics_def)

lemma map_of_map_snd: "map_of (map (\<lambda>(k, g). (k, h g)) gs) k = map_option h (map_of gs k)"
  by (induction gs) auto

lemma calculateString_wire: "calculateString fm = concat (map getFixString (wire_fields fm))"
proof (induction fm rule: calculateString.induct)
  case (1 fs gs mo)
  have i: "(\<forall>m\<in>set g. calculateString m = concat (map getFixString (wire_fields m))) \<Longrightarrow>
      concat (map calculateString g) = concat (map getFixString (concat (map wire_fields g)))" for g
    by (induction g) auto
  have g: "concat (map calculateString g) = concat (map getFixString (concat (map wire_fields g)))"
    if "(k, g) \<in> set gs" for k g
    using 1 that by (intro i) fastforce
  have "(case map_of (map (\<lambda>(k, g). (k, concat (map calculateString g))) gs) k of None \<Rightarrow> [] | Some s \<Rightarrow> s) =
    concat (map getFixString (case map_of (map (\<lambda>(k, g). (k, concat (map wire_fields g))) gs) k of None \<Rightarrow> [] | Some w \<Rightarrow> w))" for k
    using g by (auto simp: map_of_map_snd dest: map_of_SomeD split: option.split)
  then show ?case by (induction fs) (simp_all add: Let_def)
qed

text \<open>Summing over the wire order is summing over the fields and then over the groups.\<close>

lemma sum_groups:
  fixes h :: "'a \<Rightarrow> int"
  assumes "distinct (map fst gs)" "\<forall>k\<in>fst ` set gs. length (fields_with k fs) = 1"
  shows "(\<Sum>f\<leftarrow>fs. case map_of gs (m_tag f) of None \<Rightarrow> 0 | Some x \<Rightarrow> h x) = (\<Sum>(k, x)\<leftarrow>gs. h x)"
  using assms
proof (induction gs)
  case (Cons p gs)
  obtain k x where p: "p = (k, x)" by (cases p)
  let ?b = "\<lambda>f. case map_of gs (m_tag f) of None \<Rightarrow> 0 | Some y \<Rightarrow> h y"
  have b: "?b f = 0" if "m_tag f = k" for f :: field_base
  proof -
    have "map_of gs k = None" using Cons(2) p by (simp add: map_of_eq_None_iff)
    then show ?thesis using that by simp
  qed
  have "(\<Sum>f\<leftarrow>fs. case map_of (p # gs) (m_tag f) of None \<Rightarrow> 0 | Some y \<Rightarrow> h y)
      = int (length (fields_with k fs)) * h x + (\<Sum>f\<leftarrow>fs. ?b f)"
    using b by (induction fs) (auto simp: p fields_with_def algebra_simps)
  then show ?case using Cons p by simp
qed simp

lemma sum_list_filter_concat: "sum_list (map (h :: _ \<Rightarrow> int) (filter P (concat xss))) = (\<Sum>xs\<leftarrow>xss. sum_list (map h (filter P xs)))"
  by (induction xss) auto

lemma wire_sum:
  fixes h :: "field_base \<Rightarrow> int"
  assumes "groups_counted (FieldMap fs gs mo)"
  shows "sum_list (map h (filter P (wire_fields (FieldMap fs gs mo)))) =
    sum_list (map h (filter P fs)) + (\<Sum>(k, g)\<leftarrow>gs. \<Sum>m\<leftarrow>g. sum_list (map h (filter P (wire_fields m))))"
proof -
  let ?ws = "map (\<lambda>(k, g). (k, concat (map wire_fields g))) gs"
  let ?H = "\<lambda>w. sum_list (map h (filter P w))"
  have "?H (wire_fields (FieldMap fs gs mo)) =
     ?H fs + (\<Sum>f\<leftarrow>fs. case map_of ?ws (m_tag f) of None \<Rightarrow> 0 | Some w \<Rightarrow> ?H w)"
    by (simp add: Let_def, induction fs) (auto split: option.split)
  also have "(\<Sum>f\<leftarrow>fs. case map_of ?ws (m_tag f) of None \<Rightarrow> 0 | Some w \<Rightarrow> ?H w) = (\<Sum>(k, w)\<leftarrow>?ws. ?H w)"
    using assms by (intro sum_groups) (auto simp: list_all_iff comp_def case_prod_beta)
  also have "\<dots> = (\<Sum>(k, g)\<leftarrow>gs. \<Sum>m\<leftarrow>g. ?H (wire_fields m))"
    by (induction gs) (auto simp: sum_list_filter_concat comp_def)
  finally show ?thesis .
qed

lemma foldl_add_pair: "foldl add_pair p ps = add_pair p (sum_list (map fst ps), sum_list (map snd ps))"
  by (induction ps arbitrary: p) (auto simp: add_pair_def algebra_simps)

lemma sum_pairs:
  "sum_list (map fst (concat (map (\<lambda>(k, g). map (\<lambda>m. (A m, B m)) g) gs))) = (\<Sum>(k, g)\<leftarrow>gs. \<Sum>m\<leftarrow>g. A m)"
  "sum_list (map snd (concat (map (\<lambda>(k, g). map (\<lambda>m. (A m, B m)) g) gs))) = (\<Sum>(k, g)\<leftarrow>gs. \<Sum>m\<leftarrow>g. B m)"
  by (induction gs) (auto simp: comp_def)

lemma foldl_add_length_total:
  "foldl (\<lambda>acc f. add_length_total b l c f acc) p fs =
    (fst p + sum_list (map getLength (filter (\<lambda>f. m_tag f \<noteq> b \<and> m_tag f \<noteq> l \<and> m_tag f \<noteq> c) fs)),
     snd p + sum_list (map getTotal (filter (\<lambda>f. m_tag f \<noteq> l \<and> m_tag f \<noteq> c) fs)))"
proof (induction fs arbitrary: p)
  case (Cons f fs)
  show ?case by (cases p) (auto simp: Cons Let_def)
qed simp

text \<open>
  The single pass computes the byte length and the byte sum of what \<open>calculateString\<close>
  prints, without the fields that are left out of each.
\<close>

lemma calculateLengthAndTotal_wire:
  "groups_counted fm \<Longrightarrow> calculateLengthAndTotal b l c fm =
    (sum_list (map getLength (filter (\<lambda>f. m_tag f \<noteq> b \<and> m_tag f \<noteq> l \<and> m_tag f \<noteq> c) (wire_fields fm))),
     sum_list (map getTotal (filter (\<lambda>f. m_tag f \<noteq> l \<and> m_tag f \<noteq> c) (wire_fields fm))))"
proof (induction b l c fm rule: calculateLengthAndTotal.induct)
  case (1 b l c fs gs mo)
  let ?A = "\<lambda>m. sum_list (map getLength (filter (\<lambda>f. m_tag f \<noteq> b \<and> m_tag f \<noteq> l \<and> m_tag f \<noteq> c) (wire_fields m)))"
  let ?B = "\<lambda>m. sum_list (map getTotal (filter (\<lambda>f. m_tag f \<noteq> l \<and> m_tag f \<noteq> c) (wire_fields m)))"
  have e: "map (calculateLengthAndTotal b l c) g = map (\<lambda>m. (?A m, ?B m)) g" if "(k, g) \<in> set gs" for k g
    using 1 that by (fastforce simp: list_all_iff)
  then have c: "concat (map (\<lambda>(_, g). map (calculateLengthAndTotal b l c) g) gs) =
      concat (map (\<lambda>(_, g). map (\<lambda>m. (?A m, ?B m)) g) gs)"
    by (intro arg_cong [of _ _ concat] map_cong) auto
  show ?case
    unfolding calculateLengthAndTotal.simps c foldl_add_pair foldl_add_length_total wire_sum [OF 1(2)] sum_pairs
    by (simp add: add_pair_def)
qed


text \<open>
  Metrics that are those of the printed fields make the sums the length and the byte sum of
  what is printed. The cache of a field the decoder made is that of the bytes it was read from,
  which are not the printed ones when the tag had leading zeros.
\<close>

lemma byte_sum_append [simp]: "byte_sum (xs @ ys) = byte_sum xs + byte_sum ys"
  "byte_sum (c # xs) = of_char c + byte_sum xs" "byte_sum [] = 0"
  by (simp_all add: byte_sum_def)

lemma of_char_int: "(of_char c :: int) = int (of_char c)"
  by (rule of_nat_of_char [symmetric])

lemma byte_sum_nonneg [simp]: "0 \<le> byte_sum s"
  by (induction s) (simp_all add: of_char_int del: of_nat_of_char)

lemma metrics_sums:
  assumes "list_all metrics_ok fs"
  shows "sum_list (map getLength fs) = int (length (concat (map getFixString fs)))"
    "sum_list (map getTotal fs) = byte_sum (concat (map getFixString fs))"
  using assms by (induction fs) (simp_all add: getLength_def getTotal_def metrics_okD calculateMetrics_def)

lemma metrics_ok_decoded:
  "metrics_ok (FieldBase_decoded tag v raw) \<longleftrightarrow> raw = [] \<or> calculateMetrics raw = calculateMetrics (getFixString (FieldBase tag v))"
  by (auto simp: metrics_ok_def FieldBase_decoded_def getFixString_def FieldBase_def calculateMetrics_def)

lemma list_all_filter: "list_all P xs \<Longrightarrow> list_all P (filter Q xs)"
  by (auto simp: list_all_iff)

section \<open>The interface its clients use\<close>

text \<open>
  Messages and sessions write and read header fields by tag. What they rely on is that a
  field map is a map from tags to values; the interface states it, the field maps provide it.
\<close>

locale tag_store =
  fixes inv :: "'m \<Rightarrow> bool"
    and get :: "int \<Rightarrow> 'm \<Rightarrow> string option"
    and put :: "int \<Rightarrow> string \<Rightarrow> 'm \<Rightarrow> 'm"
    and remove :: "int \<Rightarrow> 'm \<Rightarrow> 'm"
  assumes inv_put: "inv m \<Longrightarrow> inv (put t v m)"
    and inv_remove: "inv m \<Longrightarrow> inv (remove t m)"
    and get_put: "inv m \<Longrightarrow> get t (put t' v m) = (if t = t' then Some v else get t m)"
    and get_remove: "inv m \<Longrightarrow> get t (remove t' m) = (if t = t' then None else get t m)"
begin

lemma inv_put_all: "inv m \<Longrightarrow> inv (fold (\<lambda>(t, v). put t v) kvs m)"
  by (induction kvs arbitrary: m) (auto simp: inv_put)

text \<open>Of several writes to a tag the last one counts.\<close>

lemma get_put_all:
  "inv m \<Longrightarrow> get t (fold (\<lambda>(t, v). put t v) kvs m) = (case map_of (rev kvs) t of None \<Rightarrow> get t m | Some v \<Rightarrow> Some v)"
proof (induction kvs arbitrary: m)
  case (Cons p kvs)
  obtain t' v where p: "p = (t', v)" by (cases p)
  show ?case using Cons(1) [of "put t' v m"] Cons(2)
    by (auto simp: p inv_put get_put map_add_def split: option.split)
qed simp

lemma inv_remove_all: "inv m \<Longrightarrow> inv (fold remove ts m)"
  by (induction ts arbitrary: m) (auto simp: inv_remove)

lemma get_remove_all: "inv m \<Longrightarrow> get t (fold remove ts m) = (if t \<in> set ts then None else get t m)"
  by (induction ts arbitrary: m) (auto simp: get_remove inv_remove)

end

definition fm_inv :: "fieldmap \<Rightarrow> bool" where
  "fm_inv fm \<longleftrightarrow> fm_sorted fm \<and> distinct_tags fm"

interpretation fm: tag_store fm_inv field_value setField_tag removeField
  by unfold_locales
    (auto simp: fm_inv_def setField_tag_def fm_sorted_setField distinct_tags_setField fm_sorted_removeField
      distinct_tags_removeField field_value_setField field_value_removeField FieldBase_def)

lemma fm_inv_setField [simp]: "fm_inv fm \<Longrightarrow> fm_inv (setField f True fm)"
  by (simp add: fm_inv_def fm_sorted_setField distinct_tags_setField)

lemma fm_inv_new [simp]: "order_ok mo \<Longrightarrow> fm_inv (FieldMap_new mo)"
  by (simp add: fm_inv_def distinct_tags_def) (simp add: FieldMap_new_def)

lemma fm_inv_clear [simp]: "order_ok (m_order fm) \<Longrightarrow> fm_inv (clear fm)"
  by (simp add: fm_inv_def distinct_tags_def) (simp add: clear_def)

lemma field_value_new [simp]: "field_value t (FieldMap_new mo) = None"
  by (simp add: field_value_def getFieldIfSet_def findTag_def FieldMap_new_def lookup_def)

section \<open>Properties\<close>

text \<open>C19: every operation of a field map, in every order of the code (header, trailer, by tag,
  or the order of a repeating group), keeps the fields sorted in that order; so do the group
  operations that update or remove the counter field.\<close>

theorem fieldmap_ops_sorted:
  assumes "fm_sorted fm"
  shows "fm_sorted (setField f b fm) \<and> fm_sorted (addField f fm) \<and> fm_sorted (removeField t fm) \<and>
    fm_sorted (removeGroups t fm) \<and> fm_sorted (removeGroup n t fm) \<and> fm_sorted (replaceGroup n t g fm) \<and>
    fm_sorted (addGroup t g b fm) \<and> fm_sorted (sortFields (appendField f fm))"
proof -
  have "order_ok (m_order (appendField f fm))" using assms by (simp add: appendField_def fm_sorted_def)
  then have "fm_sorted (sortFields (appendField f fm))" by (rule fm_sorted_sortFields)
  then show ?thesis using assms by (simp add: fm_sorted_ops)
qed

theorem fieldmap_ops_sorted_witness:
  "fm_sorted (setField (FieldBase 35 ''A'') True (FieldMap_new (message_order_of_mode mode_header)))"
  using fieldmap_ops_sorted [of "FieldMap_new (message_order_of_mode mode_header)"] by simp

text \<open>C20: a field map is a map from tags to values: after a field is set its tag has its value,
  after it is removed it has none, and every other tag keeps the value it had; the lookup
  reports an absent tag as \<open>FieldNotFound\<close>.\<close>

theorem fieldmap_set_remove:
  assumes "fm_inv fm"
  shows "getField t (setField_tag t' v fm) = (if t = t' then Inr v else getField t fm) \<and>
    getField t (removeField t' fm) = (if t = t' then Inl (FieldNotFound t) else getField t fm) \<and>
    fm_inv (setField_tag t' v fm) \<and> fm_inv (removeField t' fm)"
  using assms by (simp add: getField_value fm.get_put fm.get_remove fm.inv_put fm.inv_remove)

theorem fieldmap_set_remove_witness:
  "getField 35 (removeField 8 (setField_tag 35 ''A'' (setField_tag 8 ''FIX.4.2''
     (FieldMap_new (message_order_of_mode mode_header))))) = Inr ''A''"
proof -
  let ?m = "setField_tag 8 ''FIX.4.2'' (FieldMap_new (message_order_of_mode mode_header))"
  have i: "fm_inv ?m" by (simp add: fm.inv_put)
  show ?thesis
    using fieldmap_set_remove [OF i, of 35 35 "''A''"]
      fieldmap_set_remove [of "setField_tag 35 ''A'' ?m" 35 8] i by (simp add: fm.inv_put)
qed

text \<open>C29: the binary search the code switches to at sixteen fields finds the same field as the
  linear search, on every sorted vector, duplicates and absent tags included.\<close>

theorem lookup_binary_linear:
  assumes "fm_sorted fm"
  shows "findTag fm tag = find_index (\<lambda>f. m_tag f = tag) (m_fields fm)"
  using assms by (rule findTag_sorted)

theorem lookup_binary_linear_witness:
  "findTag (FieldMap (map (\<lambda>i. FieldBase (int i) []) [1..<20]) [] (message_order_of_mode mode_normal)) 17 = Some 16"
proof -
  let ?m = "FieldMap (map (\<lambda>i. FieldBase (int i) []) [1..<20]) [] (message_order_of_mode mode_normal)"
  have "fm_sorted ?m"
    by (simp add: fm_sorted_def sorted_tags_def sorted_wrt_map order_less_def message_order_of_mode_def FieldBase_def order_ok_def
        sorted_wrt_iff_nth_less)
  then show ?thesis using lookup_binary_linear [of ?m 17] by (simp add: FieldBase_def upt_rec)
qed

text \<open>C30: the single pass over a message computes the number and the sum of the bytes that are
  printed, nested groups included, for the fields each counts: all but those of the three frame
  tags for the length, all but body length and checksum for the sum. It needs that every
  counted field occurs once and that a cached length and sum is that of the printed field,
  which is so for fields made by the constructors and setters and not for one that was read
  from a text with a leading zero in its tag.\<close>

theorem length_and_total_of_wire:
  assumes "groups_counted fm" "list_all metrics_ok (wire_fields fm)"
  shows "calculateLengthAndTotal b l c fm =
      (int (length (concat (map getFixString (filter (\<lambda>f. m_tag f \<notin> {b, l, c}) (wire_fields fm))))),
       byte_sum (concat (map getFixString (filter (\<lambda>f. m_tag f \<notin> {l, c}) (wire_fields fm))))) \<and>
    calculateString fm = concat (map getFixString (wire_fields fm)) \<and>
    (list_all (\<lambda>f. m_tag f \<notin> {b, l, c}) (wire_fields fm) \<longrightarrow>
       calculateLengthAndTotal b l c fm = (int (length (calculateString fm)), byte_sum (calculateString fm)))"
proof -
  have s: "calculateLengthAndTotal b l c fm =
      (int (length (concat (map getFixString (filter (\<lambda>f. m_tag f \<notin> {b, l, c}) (wire_fields fm))))),
       byte_sum (concat (map getFixString (filter (\<lambda>f. m_tag f \<notin> {l, c}) (wire_fields fm)))))"
    using calculateLengthAndTotal_wire [OF assms(1), of b l c]
    by (simp add: metrics_sums [OF list_all_filter [OF assms(2)]])
  moreover have "filter (\<lambda>f. m_tag f \<notin> {b, l, c}) (wire_fields fm) = wire_fields fm \<and>
      filter (\<lambda>f. m_tag f \<notin> {l, c}) (wire_fields fm) = wire_fields fm"
    if "list_all (\<lambda>f. m_tag f \<notin> {b, l, c}) (wire_fields fm)"
    using that by (auto simp: filter_id_conv list_all_iff)
  ultimately show ?thesis using calculateString_wire [of fm] by presburger
qed

theorem length_and_total_of_wire_witness:
  "calculateLengthAndTotal 8 9 10 (FieldMap [FieldBase 453 ''1''] [(453, [FieldMap [FieldBase 448 ''X''] []
     (setOrder [448, 447])])] (message_order_of_mode mode_normal)) =
    (int (length (calculateString (FieldMap [FieldBase 453 ''1''] [(453, [FieldMap [FieldBase 448 ''X''] []
       (setOrder [448, 447])])] (message_order_of_mode mode_normal)))),
     byte_sum (calculateString (FieldMap [FieldBase 453 ''1''] [(453, [FieldMap [FieldBase 448 ''X''] []
       (setOrder [448, 447])])] (message_order_of_mode mode_normal))))"
proof -
  let ?m = "FieldMap [FieldBase 453 ''1''] [(453, [FieldMap [FieldBase 448 ''X''] []
     (setOrder [448, 447])])] (message_order_of_mode mode_normal)"
  have "groups_counted ?m" by (simp add: fields_with_def FieldBase_def)
  moreover have "wire_fields ?m = [FieldBase 453 ''1'', FieldBase 448 ''X'']" by (simp add: FieldBase_def)
  moreover have "m_tag (FieldBase t v) = t" for t v by (simp add: FieldBase_def)
  ultimately show ?thesis using length_and_total_of_wire [of ?m 8 9 10] by simp
qed

end
