(* ===== verification/DataDicts.thy ===== *)
theory DataDicts
  imports FieldMaps
begin

text \<open>
  \<open>DataDictionary\<close>: what a dictionary stores and its storage functions and lookups. A
  group of a message type is a delimiter and a dictionary of its own, so a dictionary is a
  record of flat data and, per group tag and message type, the dictionary of the group.
  The maps and sets of the code are ordered lists. The orders the code builds once and
  caches are recomputed here. Reading a dictionary from XML is not part of this theory.
\<close>

section \<open>Data\<close>

datatype field_type =
    TYPE_Unknown | TYPE_String | TYPE_Char | TYPE_Price | TYPE_Int | TYPE_Amt | TYPE_Qty
  | TYPE_Currency | TYPE_MultipleValueString | TYPE_MultipleStringValue | TYPE_MultipleCharValue
  | TYPE_Exchange | TYPE_UtcTimeStamp | TYPE_Boolean | TYPE_LocalMktTime | TYPE_LocalMktDate
  | TYPE_Data | TYPE_Float | TYPE_PriceOffset | TYPE_MonthYear | TYPE_DayOfMonth | TYPE_UtcDate
  | TYPE_UtcTimeOnly | TYPE_NumInGroup | TYPE_Percentage | TYPE_SeqNum | TYPE_TagNum | TYPE_Length
  | TYPE_Country | TYPE_TzTimeOnly | TYPE_TzTimeStamp | TYPE_XmlData | TYPE_Language | TYPE_Xid
  | TYPE_XidRef

record dictionary =
  m_hasVersion :: bool
  m_checkFieldsOutOfOrder :: bool
  m_checkFieldsHaveValues :: bool
  m_checkUserDefinedFields :: bool
  m_allowUnknownMessageFields :: bool
  m_storeMsgFieldsOrder :: bool
  m_beginString :: string
  m_messageFields :: "(string \<times> int list) list"
  m_requiredFields :: "(string \<times> int list) list"
  m_messages :: "string list"
  m_dd_fields :: "int list"
  m_orderedFields :: "int list"
  m_headerFields :: "(int \<times> bool) list"
  m_trailerFields :: "(int \<times> bool) list"
  m_fieldTypes :: "(int \<times> field_type) list"
  m_fieldValues :: "(int \<times> string list) list"
  m_fieldNames :: "(int \<times> string) list"
  m_names :: "(string \<times> int) list"
  m_valueNames :: "((int \<times> string) \<times> string) list"
  m_nameValues :: "((int \<times> string) \<times> string) list"
  m_dataFields :: "int list"
  m_headerOrderedFields :: "int list"
  m_trailerOrderedFields :: "int list"
  m_messageOrderedFields :: "(string \<times> int list) list"

datatype data_dictionary =
  DataDictionary (dd: dictionary) (dd_groups: "(int \<times> (string \<times> (int \<times> data_dictionary)) list) list")

definition DataDictionary_new :: data_dictionary where
  "DataDictionary_new = DataDictionary
     \<lparr>m_hasVersion = False, m_checkFieldsOutOfOrder = True, m_checkFieldsHaveValues = True,
      m_checkUserDefinedFields = True, m_allowUnknownMessageFields = False, m_storeMsgFieldsOrder = False,
      m_beginString = [], m_messageFields = [], m_requiredFields = [], m_messages = [], m_dd_fields = [],
      m_orderedFields = [], m_headerFields = [], m_trailerFields = [], m_fieldTypes = [], m_fieldValues = [],
      m_fieldNames = [], m_names = [], m_valueNames = [], m_nameValues = [], m_dataFields = [],
      m_headerOrderedFields = [], m_trailerOrderedFields = [], m_messageOrderedFields = []\<rparr> []"

definition dd_update :: "(dictionary \<Rightarrow> dictionary) \<Rightarrow> data_dictionary \<Rightarrow> data_dictionary" where
  "dd_update f d = DataDictionary (f (dd d)) (dd_groups d)"

text \<open>\<open>m[key]\<close> of a map of sets or vectors: the element, default constructed when absent.\<close>

definition map_at :: "'k \<Rightarrow> ('k \<times> 'v list) list \<Rightarrow> 'v list" where
  "map_at k m = (case map_of m k of None \<Rightarrow> [] | Some v \<Rightarrow> v)"

definition set_in_map :: "'k::linorder \<Rightarrow> 'v::linorder \<Rightarrow> ('k \<times> 'v list) list \<Rightarrow> ('k \<times> 'v list) list" where
  "set_in_map k v m = map_put k (insort_insert v (map_at k m)) m"

definition in_map :: "'k \<Rightarrow> 'v \<Rightarrow> ('k \<times> 'v list) list \<Rightarrow> bool" where
  "in_map k v m = (case map_of m k of None \<Rightarrow> False | Some vs \<Rightarrow> v \<in> set vs)"

section \<open>Storage functions\<close>

definition setVersion :: "string \<Rightarrow> data_dictionary \<Rightarrow> data_dictionary" where
  "setVersion beginString = dd_update (\<lambda>d. d\<lparr>m_beginString := beginString, m_hasVersion := True\<rparr>)"

definition getVersion :: "data_dictionary \<Rightarrow> string" where
  "getVersion d = m_beginString (dd d)"

definition dd_addField :: "int \<Rightarrow> data_dictionary \<Rightarrow> data_dictionary" where
  "dd_addField field = dd_update (\<lambda>d. d\<lparr>m_dd_fields := insort_insert field (m_dd_fields d),
      m_orderedFields := m_orderedFields d @ [field]\<rparr>)"

definition addFieldName :: "int \<Rightarrow> string \<Rightarrow> data_dictionary \<Rightarrow> data_dictionary result" where
  "addFieldName field name d =
     (if map_of (m_names (dd d)) name \<noteq> None
      then Inl (ConfigError (''Field named '' @ name @ '' defined multiple times''))
      else Inr (dd_update (\<lambda>d. d\<lparr>m_names := map_put name field (m_names d),
             m_fieldNames := map_put field name (m_fieldNames d)\<rparr>) d))"

definition getFieldName :: "int \<Rightarrow> data_dictionary \<Rightarrow> string option" where
  "getFieldName field d = map_of (m_fieldNames (dd d)) field"

definition getFieldTag :: "string \<Rightarrow> data_dictionary \<Rightarrow> int option" where
  "getFieldTag name d = map_of (m_names (dd d)) name"

definition pair_put :: "int \<times> string \<Rightarrow> 'v \<Rightarrow> ((int \<times> string) \<times> 'v) list \<Rightarrow> ((int \<times> string) \<times> 'v) list" where
  "pair_put k v m = (k, v) # filter (\<lambda>(k', _). k' \<noteq> k) m"

definition addValueName :: "int \<Rightarrow> string \<Rightarrow> string \<Rightarrow> data_dictionary \<Rightarrow> data_dictionary" where
  "addValueName field value name = dd_update (\<lambda>d. d\<lparr>m_valueNames := pair_put (field, value) name (m_valueNames d),
      m_nameValues := pair_put (field, name) value (m_nameValues d)\<rparr>)"

definition getValueName :: "int \<Rightarrow> string \<Rightarrow> data_dictionary \<Rightarrow> string option" where
  "getValueName field value d = map_of (m_valueNames (dd d)) (field, value)"

definition getNameValue :: "int \<Rightarrow> string \<Rightarrow> data_dictionary \<Rightarrow> string option" where
  "getNameValue field name d = map_of (m_nameValues (dd d)) (field, name)"

definition isField :: "int \<Rightarrow> data_dictionary \<Rightarrow> bool" where
  "isField field d \<longleftrightarrow> field \<in> set (m_dd_fields (dd d))"

definition addMsgType :: "string \<Rightarrow> data_dictionary \<Rightarrow> data_dictionary" where
  "addMsgType msgType = dd_update (\<lambda>d. d\<lparr>m_messages := insort_insert msgType (m_messages d)\<rparr>)"

definition isMsgType :: "string \<Rightarrow> data_dictionary \<Rightarrow> bool" where
  "isMsgType msgType d \<longleftrightarrow> msgType \<in> set (m_messages (dd d))"

definition addMsgField :: "string \<Rightarrow> int \<Rightarrow> data_dictionary \<Rightarrow> data_dictionary" where
  "addMsgField msgType field = dd_update (\<lambda>d.
     (if m_storeMsgFieldsOrder d
      then d\<lparr>m_messageOrderedFields :=
             map_put msgType (map_at msgType (m_messageOrderedFields d) @ [field]) (m_messageOrderedFields d)\<rparr>
      else d)\<lparr>m_messageFields := set_in_map msgType field (m_messageFields d)\<rparr>)"

definition isMsgField :: "string \<Rightarrow> int \<Rightarrow> data_dictionary \<Rightarrow> bool" where
  "isMsgField msgType field d = in_map msgType field (m_messageFields (dd d))"

definition addHeaderField :: "int \<Rightarrow> bool \<Rightarrow> data_dictionary \<Rightarrow> data_dictionary" where
  "addHeaderField field required = dd_update (\<lambda>d.
     (if m_storeMsgFieldsOrder d then d\<lparr>m_headerOrderedFields := m_headerOrderedFields d @ [field]\<rparr> else d)
       \<lparr>m_headerFields := map_put field required (m_headerFields d)\<rparr>)"

definition dd_isHeaderField :: "int \<Rightarrow> data_dictionary \<Rightarrow> bool" where
  "dd_isHeaderField field d \<longleftrightarrow> map_of (m_headerFields (dd d)) field \<noteq> None"

definition addTrailerField :: "int \<Rightarrow> bool \<Rightarrow> data_dictionary \<Rightarrow> data_dictionary" where
  "addTrailerField field required = dd_update (\<lambda>d.
     (if m_storeMsgFieldsOrder d then d\<lparr>m_trailerOrderedFields := m_trailerOrderedFields d @ [field]\<rparr> else d)
       \<lparr>m_trailerFields := map_put field required (m_trailerFields d)\<rparr>)"

definition dd_isTrailerField :: "int \<Rightarrow> data_dictionary \<Rightarrow> bool" where
  "dd_isTrailerField field d \<longleftrightarrow> map_of (m_trailerFields (dd d)) field \<noteq> None"

definition addFieldType :: "int \<Rightarrow> field_type \<Rightarrow> data_dictionary \<Rightarrow> data_dictionary" where
  "addFieldType field type = dd_update (\<lambda>d.
     (d\<lparr>m_fieldTypes := map_put field type (m_fieldTypes d)\<rparr>)
       \<lparr>m_dataFields := (if type = TYPE_Data then insort_insert field (m_dataFields d) else m_dataFields d)\<rparr>)"

definition getFieldType :: "int \<Rightarrow> data_dictionary \<Rightarrow> field_type option" where
  "getFieldType field d = map_of (m_fieldTypes (dd d)) field"

definition addRequiredField :: "string \<Rightarrow> int \<Rightarrow> data_dictionary \<Rightarrow> data_dictionary" where
  "addRequiredField msgType field = dd_update (\<lambda>d. d\<lparr>m_requiredFields := set_in_map msgType field (m_requiredFields d)\<rparr>)"

definition isRequiredField :: "string \<Rightarrow> int \<Rightarrow> data_dictionary \<Rightarrow> bool" where
  "isRequiredField msgType field d = in_map msgType field (m_requiredFields (dd d))"

definition addFieldValue :: "int \<Rightarrow> string \<Rightarrow> data_dictionary \<Rightarrow> data_dictionary" where
  "addFieldValue field value = dd_update (\<lambda>d. d\<lparr>m_fieldValues := set_in_map field value (m_fieldValues d)\<rparr>)"

definition hasFieldValue :: "int \<Rightarrow> data_dictionary \<Rightarrow> bool" where
  "hasFieldValue field d \<longleftrightarrow> map_of (m_fieldValues (dd d)) field \<noteq> None"

definition isMultipleValueField :: "int \<Rightarrow> data_dictionary \<Rightarrow> bool" where
  "isMultipleValueField field d \<longleftrightarrow>
     map_of (m_fieldTypes (dd d)) field \<in>
       {Some TYPE_MultipleValueString, Some TYPE_MultipleCharValue, Some TYPE_MultipleStringValue}"

text \<open>The loop over the space separated values; an empty piece is a value too.\<close>

fun all_values_in :: "string list \<Rightarrow> string \<Rightarrow> string \<Rightarrow> bool" where
  "all_values_in vs cur [] = (cur \<in> set vs)"
| "all_values_in vs cur (c # cs) =
     (if c = CHR '' '' then (if cur \<notin> set vs then False else all_values_in vs [] cs)
      else all_values_in vs (cur @ [c]) cs)"

definition isFieldValue :: "int \<Rightarrow> string \<Rightarrow> data_dictionary \<Rightarrow> bool" where
  "isFieldValue field value d =
     (case map_of (m_fieldValues (dd d)) field of
        None \<Rightarrow> False
      | Some vs \<Rightarrow>
          if \<not> isMultipleValueField field d then value \<in> set vs
          else all_values_in vs [] value)"

text \<open>
  Copying a dictionary adds the groups again, each under the version of the copy, one level
  down; a group that is added is a copy too.
\<close>

fun dd_copy :: "data_dictionary \<Rightarrow> data_dictionary" where
  "dd_copy (DataDictionary d gs) = DataDictionary d
     (map (\<lambda>(field, presence). (field, map (\<lambda>(msg, (delim, g)). (msg, (delim, setVersion (m_beginString d) (dd_copy g)))) presence))
       (filter (\<lambda>(_, presence). presence \<noteq> []) gs))"

definition dd_addGroup :: "string \<Rightarrow> int \<Rightarrow> int \<Rightarrow> data_dictionary \<Rightarrow> data_dictionary \<Rightarrow> data_dictionary" where
  "dd_addGroup msg field delim dataDictionary d =
     DataDictionary (dd d)
       (map_put field (map_put msg (delim, setVersion (getVersion d) (dd_copy dataDictionary)) (map_at field (dd_groups d)))
          (dd_groups d))"

definition dd_getGroup :: "string \<Rightarrow> int \<Rightarrow> data_dictionary \<Rightarrow> (int \<times> data_dictionary) option" where
  "dd_getGroup msg field d =
     (case map_of (dd_groups d) field of None \<Rightarrow> None | Some presence \<Rightarrow> map_of presence msg)"

definition isGroup :: "string \<Rightarrow> int \<Rightarrow> data_dictionary \<Rightarrow> bool" where
  "isGroup msg field d =
     (case map_of (dd_groups d) field of None \<Rightarrow> False | Some presence \<Rightarrow> map_of presence msg \<noteq> None)"

definition isDataField :: "int \<Rightarrow> data_dictionary \<Rightarrow> bool" where
  "isDataField field d \<longleftrightarrow> field \<in> set (m_dataFields (dd d))"

section \<open>Orders\<close>

definition getOrderedFields :: "data_dictionary \<Rightarrow> message_order" where
  "getOrderedFields d = setOrder (m_orderedFields (dd d))"

definition getHeaderOrderedFields :: "data_dictionary \<Rightarrow> message_order result" where
  "getHeaderOrderedFields d =
     (if m_headerOrderedFields (dd d) = []
      then Inl (ConfigError ''<Header> does not have a stored message order'')
      else Inr (setOrder (m_headerOrderedFields (dd d))))"

definition getTrailerOrderedFields :: "data_dictionary \<Rightarrow> message_order result" where
  "getTrailerOrderedFields d =
     (if m_trailerOrderedFields (dd d) = []
      then Inl (ConfigError ''<Trailer> does not have a stored message order'')
      else Inr (setOrder (m_trailerOrderedFields (dd d))))"

definition getMessageOrderedFields :: "string \<Rightarrow> data_dictionary \<Rightarrow> message_order result" where
  "getMessageOrderedFields msgType d =
     (case map_of (m_messageOrderedFields (dd d)) msgType of
        None \<Rightarrow> Inl (ConfigError (''<Message> '' @ msgType @ '' does not have a stored message order''))
      | Some fs \<Rightarrow> Inr (message_order_of_array fs))"

section \<open>The provider\<close>

record dictionary_provider =
  m_transportDictionaries :: "(string \<times> data_dictionary) list"
  m_applicationDictionaries :: "(string \<times> data_dictionary) list"

definition getSessionDataDictionary :: "string \<Rightarrow> dictionary_provider \<Rightarrow> data_dictionary" where
  "getSessionDataDictionary beginString p =
     (case map_of (m_transportDictionaries p) beginString of None \<Rightarrow> DataDictionary_new | Some d \<Rightarrow> d)"

definition getApplicationDataDictionary :: "string \<Rightarrow> dictionary_provider \<Rightarrow> data_dictionary result" where
  "getApplicationDataDictionary applVerID p =
     (case map_of (m_applicationDictionaries p) applVerID of
        Some d \<Rightarrow> Inr d
      | None \<Rightarrow>
          if m_applicationDictionaries p \<noteq> [] then Inl (DataDictionaryNotFound applVerID [])
          else Inr DataDictionary_new)"

definition addTransportDataDictionary :: "string \<Rightarrow> data_dictionary \<Rightarrow> dictionary_provider \<Rightarrow> dictionary_provider" where
  "addTransportDataDictionary beginString d p =
     p\<lparr>m_transportDictionaries := map_put beginString d (m_transportDictionaries p)\<rparr>"

definition addApplicationDataDictionary :: "string \<Rightarrow> data_dictionary \<Rightarrow> dictionary_provider \<Rightarrow> dictionary_provider" where
  "addApplicationDataDictionary applVerID d p =
     p\<lparr>m_applicationDictionaries := map_put applVerID d (m_applicationDictionaries p)\<rparr>"

section \<open>Lemmas\<close>

text \<open>A multiple value field is accepted when each of its space separated pieces is a value.\<close>

fun split_spaces :: "string \<Rightarrow> string list" where
  "split_spaces [] = [[]]"
| "split_spaces (c # cs) =
     (if c = CHR '' '' then [] # split_spaces cs
      else (c # hd (split_spaces cs)) # tl (split_spaces cs))"

lemma split_spaces_Nil [simp]: "split_spaces s \<noteq> []"
  by (cases s) auto

lemma all_values_in_split:
  "all_values_in vs cur s \<longleftrightarrow> set ((cur @ hd (split_spaces s)) # tl (split_spaces s)) \<subseteq> set vs"
proof (induction vs cur s rule: all_values_in.induct)
  case (2 vs cur c cs)
  then show ?case by (cases "split_spaces cs") auto
qed simp

lemma isFieldValue_iff:
  "isFieldValue field value d \<longleftrightarrow>
    (\<exists>vs. map_of (m_fieldValues (dd d)) field = Some vs \<and>
       (if isMultipleValueField field d then set (split_spaces value) \<subseteq> set vs else value \<in> set vs))"
  by (cases "split_spaces value") (auto simp: isFieldValue_def all_values_in_split split: option.split)

lemma dd_getGroup_isGroup: "isGroup msg field d \<longleftrightarrow> dd_getGroup msg field d \<noteq> None"
  by (auto simp: isGroup_def dd_getGroup_def split: option.split)

lemma dd_update_sel [simp]: "dd (dd_update f d) = f (dd d)" "dd_groups (dd_update f d) = dd_groups d"
  by (simp_all add: dd_update_def)

lemma set_insort_insert_iff [simp]: "set (insort_insert x xs) = insert x (set xs)"
  by (simp add: set_insort_insert)

text \<open>The dictionary of a group is smaller than the dictionary it belongs to.\<close>

lemma dd_getGroup_size: "dd_getGroup msg field d = Some (delim, d') \<Longrightarrow> size d' < size d"
proof -
  assume "dd_getGroup msg field d = Some (delim, d')"
  then obtain presence where p: "map_of (dd_groups d) field = Some presence" "map_of presence msg = Some (delim, d')"
    by (auto simp: dd_getGroup_def split: option.splits)
  obtain x gs where d: "d = DataDictionary x gs" by (cases d)
  have m: "(field, presence) \<in> set gs" "(msg, delim, d') \<in> set presence"
    using p d by (auto dest: map_of_SomeD)
  have "size d' \<le> size_list (size_prod (\<lambda>x. 0) (size_prod (\<lambda>x. 0) size)) presence"
    by (rule size_list_estimation' [OF m(2)]) simp
  then have "size d' \<le> size_list (size_prod (\<lambda>x. 0) (size_list (size_prod (\<lambda>x. 0) (size_prod (\<lambda>x. 0) size)))) gs"
    by (intro size_list_estimation' [OF m(1)]) simp
  then show ?thesis unfolding d by simp
qed

section \<open>Queries after storage\<close>

text \<open>The maps of a dictionary are ordered, so each key occurs once.\<close>

definition dd_wf :: "data_dictionary \<Rightarrow> bool" where
  "dd_wf d \<longleftrightarrow> map_sorted (m_messageFields (dd d)) \<and> map_sorted (m_requiredFields (dd d)) \<and>
     map_sorted (m_headerFields (dd d)) \<and> map_sorted (m_trailerFields (dd d)) \<and> map_sorted (m_fieldTypes (dd d)) \<and>
     map_sorted (m_fieldValues (dd d)) \<and> map_sorted (m_fieldNames (dd d)) \<and> map_sorted (m_names (dd d)) \<and>
     map_sorted (m_messageOrderedFields (dd d)) \<and> map_sorted (dd_groups d) \<and>
     list_all (\<lambda>(_, presence). map_sorted presence) (dd_groups d)"

lemma in_set_in_map: "map_sorted m \<Longrightarrow> in_map k v (set_in_map k' v' m) \<longleftrightarrow> k = k' \<and> v = v' \<or> in_map k v m"
  by (auto simp: in_map_def set_in_map_def map_at_def split: option.split)

lemma set_in_map_sorted [simp]: "map_sorted m \<Longrightarrow> map_sorted (set_in_map k v m)"
  by (simp add: set_in_map_def)

lemma map_put_all: "list_all P m \<Longrightarrow> P (k, v) \<Longrightarrow> list_all P (map_put k v m)"
  by (induction k v m rule: map_put.induct) auto

lemma map_sorted_Nil [simp]: "map_sorted []"
  by (simp add: map_sorted_def)

lemma map_at_presence: "list_all (\<lambda>(_, p). map_sorted p) gs \<Longrightarrow> map_sorted (map_at k gs)"
  by (auto simp: map_at_def list_all_iff dest: map_of_SomeD split: option.split)

lemmas dd_storage_defs = setVersion_def dd_addField_def addMsgType_def addMsgField_def addHeaderField_def
  addTrailerField_def addFieldType_def addRequiredField_def addFieldValue_def dd_addGroup_def

lemma dd_wf_storage [intro]:
  assumes "dd_wf d"
  shows "dd_wf (setVersion s d)" "dd_wf (dd_addField f d)" "dd_wf (addMsgType t d)" "dd_wf (addMsgField t f d)"
    "dd_wf (addHeaderField f b d)" "dd_wf (addTrailerField f b d)" "dd_wf (addFieldType f ty d)"
    "dd_wf (addRequiredField t f d)" "dd_wf (addFieldValue f v d)" "dd_wf (dd_addGroup t f delim g d)"
  using assms by (auto simp: dd_wf_def dd_storage_defs dd_update_def map_at_presence intro!: map_put_all)

lemma dd_wf_addFieldName: "dd_wf d \<Longrightarrow> addFieldName f n d = Inr d' \<Longrightarrow> dd_wf d'"
  by (auto simp: dd_wf_def addFieldName_def dd_update_def split: if_splits)

lemma dd_wf_new: "dd_wf DataDictionary_new"
  by (simp add: dd_wf_def DataDictionary_new_def)

lemma dd_queries:
  assumes "dd_wf d"
  shows "isMsgField t f (addMsgField t' f' d) \<longleftrightarrow> t = t' \<and> f = f' \<or> isMsgField t f d"
    "isRequiredField t f (addRequiredField t' f' d) \<longleftrightarrow> t = t' \<and> f = f' \<or> isRequiredField t f d"
    "isField f (dd_addField f' d) \<longleftrightarrow> f = f' \<or> isField f d"
    "isMsgType t (addMsgType t' d) \<longleftrightarrow> t = t' \<or> isMsgType t d"
    "dd_isHeaderField f (addHeaderField f' b d) \<longleftrightarrow> f = f' \<or> dd_isHeaderField f d"
    "dd_isTrailerField f (addTrailerField f' b d) \<longleftrightarrow> f = f' \<or> dd_isTrailerField f d"
    "getFieldType f (addFieldType f' ty d) = (if f = f' then Some ty else getFieldType f d)"
    "isDataField f (addFieldType f' ty d) \<longleftrightarrow> f = f' \<and> ty = TYPE_Data \<or> isDataField f d"
    "hasFieldValue f (addFieldValue f' v d) \<longleftrightarrow> f = f' \<or> hasFieldValue f d"
    "dd_getGroup t f (dd_addGroup t' f' delim g d) =
      (if t = t' \<and> f = f' then Some (delim, setVersion (getVersion d) (dd_copy g)) else dd_getGroup t f d)"
proof -
  show "isMsgField t f (addMsgField t' f' d) \<longleftrightarrow> t = t' \<and> f = f' \<or> isMsgField t f d"
    "isRequiredField t f (addRequiredField t' f' d) \<longleftrightarrow> t = t' \<and> f = f' \<or> isRequiredField t f d"
    using assms by (auto simp: dd_wf_def isMsgField_def isRequiredField_def dd_storage_defs in_set_in_map)
  show "hasFieldValue f (addFieldValue f' v d) \<longleftrightarrow> f = f' \<or> hasFieldValue f d"
    using assms by (auto simp: dd_wf_def hasFieldValue_def addFieldValue_def set_in_map_def)
  show "dd_getGroup t f (dd_addGroup t' f' delim g d) =
      (if t = t' \<and> f = f' then Some (delim, setVersion (getVersion d) (dd_copy g)) else dd_getGroup t f d)"
    using assms map_at_presence [of "dd_groups d" f']
    by (auto simp: dd_wf_def dd_getGroup_def dd_addGroup_def map_at_def split: option.split)
qed (use assms in \<open>auto simp: dd_wf_def dd_storage_defs isField_def isMsgType_def dd_isHeaderField_def
      dd_isTrailerField_def getFieldType_def isDataField_def\<close>)

section \<open>Properties\<close>

text \<open>A dictionary answers exactly what was stored in it: a field belongs to a message type,
  is required, is a header or trailer field, has a type, belongs to the dictionary, and a
  group of a message type has a delimiter and a dictionary, precisely when one of the storage
  functions put it there; storing never disturbs another entry, and the maps stay ordered.\<close>

theorem dictionary_queries:
  assumes "dd_wf d"
  shows "(isMsgField t f (addMsgField t' f' d) \<longleftrightarrow> t = t' \<and> f = f' \<or> isMsgField t f d) \<and>
    (isRequiredField t f (addRequiredField t' f' d) \<longleftrightarrow> t = t' \<and> f = f' \<or> isRequiredField t f d) \<and>
    (dd_isHeaderField f (addHeaderField f' b d) \<longleftrightarrow> f = f' \<or> dd_isHeaderField f d) \<and>
    getFieldType f (addFieldType f' ty d) = (if f = f' then Some ty else getFieldType f d) \<and>
    (isDataField f (addFieldType f' ty d) \<longleftrightarrow> f = f' \<and> ty = TYPE_Data \<or> isDataField f d) \<and>
    dd_getGroup t f (dd_addGroup t' f' delim g d) =
      (if t = t' \<and> f = f' then Some (delim, setVersion (getVersion d) (dd_copy g)) else dd_getGroup t f d) \<and>
    dd_wf (addMsgField t' f' d) \<and> dd_wf (addRequiredField t' f' d) \<and> dd_wf (addHeaderField f' b d) \<and>
    dd_wf (addFieldType f' ty d) \<and> dd_wf (dd_addGroup t' f' delim g d)"
  using dd_queries [OF assms] dd_wf_storage [OF assms] by simp

theorem dictionary_queries_witness:
  "isMsgField ''D'' 55 (addMsgField ''D'' 55 DataDictionary_new)"
  using dictionary_queries [OF dd_wf_new, of "''D''" 55 "''D''" 55] by simp

text \<open>C31: the value of a multiple value field is accepted exactly when every one of its space
  separated pieces is a value of the field, of any other field when the whole value is one.\<close>

theorem field_values_exact:
  "isFieldValue field value d \<longleftrightarrow>
    (\<exists>vs. map_of (m_fieldValues (dd d)) field = Some vs \<and>
       (if isMultipleValueField field d then set (split_spaces value) \<subseteq> set vs else value \<in> set vs))"
  by (rule isFieldValue_iff)

end
