(* ===== verification/Messages.thy ===== *)
theory Messages
  imports DataDicts
begin

text \<open>
  \<open>Message\<close>: the header, body and trailer field maps, the kinds of fields and messages,
  printing (\<open>toString\<close>, \<open>toXML\<close>), the body length and the checksum, and the reversed
  route of an answer. A data dictionary pointer is an option. The parser is in the theory
  \<open>MessageParsers\<close>.
\<close>

section \<open>Data\<close>

record message =
  m_header :: fieldmap
  m_body :: fieldmap
  m_trailer :: fieldmap
  m_validStructure :: bool
  msg_tag :: int

definition Message_of_orders :: "message_order \<Rightarrow> message_order \<Rightarrow> message_order \<Rightarrow> message" where
  "Message_of_orders headerOrder trailerOrder order =
     \<lparr>m_header = FieldMap_new headerOrder, m_body = FieldMap_new order, m_trailer = FieldMap_new trailerOrder,
      m_validStructure = True, msg_tag = 0\<rparr>"

definition Message_new :: message where
  "Message_new = Message_of_orders (message_order_of_mode mode_header) (message_order_of_mode mode_trailer)
     (message_order_of_mode mode_normal)"

definition Message_of_type :: "string \<Rightarrow> string \<Rightarrow> message" where
  "Message_of_type beginString msgType =
     Message_new\<lparr>m_header := setField_tag F_MsgType msgType (setField_tag F_BeginString beginString (m_header Message_new))\<rparr>"

definition message_isEmpty :: "message \<Rightarrow> bool" where
  "message_isEmpty m \<longleftrightarrow> isEmpty (m_header m) \<and> isEmpty (m_body m) \<and> isEmpty (m_trailer m)"

definition message_clear :: "message \<Rightarrow> message" where
  "message_clear m = m\<lparr>msg_tag := 0, m_validStructure := True, m_header := clear (m_header m),
     m_body := clear (m_body m), m_trailer := clear (m_trailer m)\<rparr>"

definition hasValidStructure :: "message \<Rightarrow> bool \<times> int" where
  "hasValidStructure m = (m_validStructure m, msg_tag m)"

section \<open>Kinds of messages and fields\<close>

text \<open>
  \<open>strchr\<close> also finds the terminating zero byte, so the message type that is a single zero
  byte counts as an administrative one.
\<close>

definition isAdminMsgType :: "string \<Rightarrow> bool" where
  "isAdminMsgType msgType =
     (if length msgType \<noteq> 1 then False else hd msgType \<in> set (''0A12345'' @ [CHR 0x00]))"

definition isAdmin :: "message \<Rightarrow> bool" where
  "isAdmin m = (case getFieldIfSet F_MsgType (m_header m) of None \<Rightarrow> False | Some f \<Rightarrow> isAdminMsgType (m_string f))"

definition isApp :: "message \<Rightarrow> bool" where
  "isApp m = (case getFieldIfSet F_MsgType (m_header m) of None \<Rightarrow> False | Some f \<Rightarrow> \<not> isAdminMsgType (m_string f))"

definition header_tags :: "int list" where
  "header_tags = [F_BeginString, F_BodyLength, F_MsgType, F_SenderCompID, F_TargetCompID, F_OnBehalfOfCompID,
     F_DeliverToCompID, F_SecureDataLen, F_MsgSeqNum, F_SenderSubID, F_SenderLocationID, F_TargetSubID,
     F_TargetLocationID, F_OnBehalfOfSubID, F_OnBehalfOfLocationID, F_DeliverToSubID, F_DeliverToLocationID,
     F_PossDupFlag, F_PossResend, F_SendingTime, F_OrigSendingTime, F_XmlDataLen, F_XmlData, F_MessageEncoding,
     F_LastMsgSeqNumProcessed, F_OnBehalfOfSendingTime, F_ApplVerID, F_CstmApplVerID, F_NoHops]"

definition isHeaderField :: "int \<Rightarrow> data_dictionary option \<Rightarrow> bool" where
  "isHeaderField field pD =
     (if field \<in> set header_tags then True
      else case pD of Some d \<Rightarrow> dd_isHeaderField field d | None \<Rightarrow> False)"

definition trailer_tags :: "int list" where
  "trailer_tags = [F_SignatureLength, F_Signature, F_CheckSum]"

definition isTrailerField :: "int \<Rightarrow> data_dictionary option \<Rightarrow> bool" where
  "isTrailerField field pD =
     (if field \<in> set trailer_tags then True
      else case pD of Some d \<Rightarrow> dd_isTrailerField field d | None \<Rightarrow> False)"

definition IsDataField :: "int \<Rightarrow> data_dictionary option \<Rightarrow> data_dictionary option \<Rightarrow> bool" where
  "IsDataField field pSessionDD pAppDD \<longleftrightarrow>
     (case pSessionDD of Some d \<Rightarrow> isDataField field d | None \<Rightarrow> False) \<or>
     (case pAppDD of Some d \<Rightarrow> isDataField field d | None \<Rightarrow> False)"

definition toApplVerID :: "string \<Rightarrow> string" where
  "toApplVerID v =
     (if v = ''FIX.4.0'' then ''2'' else if v = ''FIX.4.1'' then ''3'' else if v = ''FIX.4.2'' then ''4''
      else if v = ''FIX.4.3'' then ''5'' else if v = ''FIX.4.4'' then ''6'' else if v = ''FIX.5.0'' then ''7''
      else if v = ''FIX.5.0SP1'' then ''8'' else if v = ''FIX.5.0SP2'' then ''9'' else v)"

definition toBeginString :: "string \<Rightarrow> string" where
  "toBeginString v =
     (if v = ''2'' then ''FIX.4.0'' else if v = ''3'' then ''FIX.4.1'' else if v = ''4'' then ''FIX.4.2''
      else if v = ''5'' then ''FIX.4.3'' else if v = ''6'' then ''FIX.4.4'' else if v = ''7'' then ''FIX.5.0''
      else if v = ''8'' then ''FIX.5.0'' else if v = ''9'' then ''FIX.5.0'' else [])"

section \<open>Printing\<close>

definition bodyLength :: "message \<Rightarrow> int" where
  "bodyLength m = calculateLength F_BeginString F_BodyLength F_CheckSum (m_header m)
     + calculateLength F_BeginString F_BodyLength F_CheckSum (m_body m)
     + calculateLength F_BeginString F_BodyLength F_CheckSum (m_trailer m)"

definition checkSum :: "message \<Rightarrow> int" where
  "checkSum m = (calculateTotal F_CheckSum (m_header m) + calculateTotal F_CheckSum (m_body m)
     + calculateTotal F_CheckSum (m_trailer m)) smod 256"

lemma sdiv_pos_less: "0 < n sdiv 10 \<Longrightarrow> 0 < n \<and> n sdiv 10 < (n :: int)"
  by (cases "0 \<le> n") (auto simp: signed_divide_int_def sgn_if split: if_splits)

text \<open>The \<open>do ... while (number > 0)\<close> loop over the decimal digits.\<close>

function sumAsciiDigits :: "int \<Rightarrow> int" where
  "sumAsciiDigits number =
     (if number sdiv 10 > 0 then 48 + number smod 10 + sumAsciiDigits (number sdiv 10)
      else 48 + number smod 10)"
  by auto

termination
  by (relation "measure nat") (auto dest: sdiv_pos_less)

declare sumAsciiDigits.simps [simp del]

definition toString :: "int \<Rightarrow> int \<Rightarrow> int \<Rightarrow> message \<Rightarrow> (string \<times> message) result" where
  "toString beginStringField bodyLengthField checkSumField m =
     (let (hlen, htotal) = calculateLengthAndTotal beginStringField bodyLengthField checkSumField (m_header m);
          (blen, btotal) = calculateLengthAndTotal beginStringField bodyLengthField checkSumField (m_body m);
          (tlen, ttotal) = calculateLengthAndTotal beginStringField bodyLengthField checkSumField (m_trailer m);
          bodyLength = hlen + blen + tlen;
          bodyLengthFieldContrib = sumAsciiDigits bodyLengthField + 61 + sumAsciiDigits bodyLength + 1;
          totalChecksum = (htotal + btotal + ttotal + bodyLengthFieldContrib) smod 256;
          header = setField (IntField bodyLengthField bodyLength) True (m_header m)
      in rbind (CheckSumField checkSumField totalChecksum) (\<lambda>cs.
           let trailer = setField cs True (m_trailer m)
           in Inr (calculateString header @ calculateString (m_body m) @ calculateString trailer,
                   m\<lparr>m_header := header, m_trailer := trailer\<rparr>)))"

abbreviation toString_default :: "message \<Rightarrow> (string \<times> message) result" where
  "toString_default \<equiv> toString F_BeginString F_BodyLength F_CheckSum"

section \<open>Routing\<close>

text \<open>A routing tag of the other header is copied when it is set and not empty.\<close>

definition copy_route :: "int \<Rightarrow> int \<Rightarrow> fieldmap \<Rightarrow> fieldmap \<Rightarrow> fieldmap" where
  "copy_route src target other header =
     (case getFieldIfSet src other of
        None \<Rightarrow> header
      | Some f \<Rightarrow> if m_string f \<noteq> [] then setField (FieldBase target (m_string f)) True header else header)"

definition reverseRoute :: "fieldmap \<Rightarrow> message \<Rightarrow> message" where
  "reverseRoute other m =
     (let h0 = fold removeField [F_BeginString, F_SenderCompID, F_TargetCompID] (m_header m);
          h1 = (case getFieldIfSet F_BeginString other of
                  None \<Rightarrow> h0
                | Some beginString \<Rightarrow>
                    let h = (if m_string beginString \<noteq> [] then setField_tag F_BeginString (m_string beginString) h0 else h0);
                        h' = fold removeField [F_OnBehalfOfLocationID, F_DeliverToLocationID] h
                    in if m_string beginString \<ge> ''FIX.4.1''
                       then copy_route F_DeliverToLocationID F_OnBehalfOfLocationID other
                              (copy_route F_OnBehalfOfLocationID F_DeliverToLocationID other h')
                       else h');
          h2 = copy_route F_TargetCompID F_SenderCompID other (copy_route F_SenderCompID F_TargetCompID other h1);
          h3 = fold removeField [F_OnBehalfOfCompID, F_OnBehalfOfSubID, F_DeliverToCompID, F_DeliverToSubID] h2;
          h4 = copy_route F_OnBehalfOfCompID F_DeliverToCompID other h3;
          h5 = copy_route F_OnBehalfOfSubID F_DeliverToSubID other h4;
          h6 = copy_route F_DeliverToCompID F_OnBehalfOfCompID other h5;
          h7 = copy_route F_DeliverToSubID F_OnBehalfOfSubID other h6
      in m\<lparr>m_header := h7\<rparr>)"

section \<open>XML\<close>

fun toXMLFields :: "data_dictionary option \<Rightarrow> nat \<Rightarrow> fieldmap \<Rightarrow> string" where
  "toXMLFields s_dd spc (FieldMap fs gs mo) =
     concat (map (\<lambda>f.
       let tag = m_tag f; v = m_string f in
       replicate spc (CHR '' '') @ ''<field '' @
       (case s_dd of None \<Rightarrow> [] | Some d \<Rightarrow>
          (case getFieldName tag d of None \<Rightarrow> [] | Some name \<Rightarrow> ''name='' @ [CHR 0x22] @ name @ [CHR 0x22] @ '' '')) @
       ''number='' @ [CHR 0x22] @ int_digits tag @ [CHR 0x22] @
       (case s_dd of None \<Rightarrow> [] | Some d \<Rightarrow>
          (case getValueName tag v d of None \<Rightarrow> [] | Some name \<Rightarrow> '' enum='' @ [CHR 0x22] @ name @ [CHR 0x22])) @
       ''>'' @ ''<![CDATA['' @ v @ '']]>'' @ ''</field>'' @ [CHR 0x0A]) fs) @
     concat (map (\<lambda>(k, g). concat (map (\<lambda>m.
       replicate spc (CHR '' '') @ ''<group>'' @ [CHR 0x0A] @ toXMLFields s_dd (spc + 2) m @
       replicate spc (CHR '' '') @ ''</group>'' @ [CHR 0x0A]) g)) gs)"

definition toXML :: "data_dictionary option \<Rightarrow> message \<Rightarrow> string" where
  "toXML s_dd m =
     ''<message>'' @ [CHR 0x0A] @
     ''  <header>'' @ [CHR 0x0A] @ toXMLFields s_dd 4 (m_header m) @ ''  </header>'' @ [CHR 0x0A] @
     ''  <body>'' @ [CHR 0x0A] @ toXMLFields s_dd 4 (m_body m) @ ''  </body>'' @ [CHR 0x0A] @
     ''  <trailer>'' @ [CHR 0x0A] @ toXMLFields s_dd 4 (m_trailer m) @ ''  </trailer>'' @ [CHR 0x0A] @
     ''</message>''"

section \<open>The frame of a printed message\<close>

text \<open>
  A smallest tag that is present comes first in the order of the map, a largest one last.
\<close>

lemma sorted_first:
  assumes "sorted_tags cmp fs" "t \<in> m_tag ` set fs" "\<And>g. g \<in> set fs \<Longrightarrow> m_tag g \<noteq> t \<Longrightarrow> cmp t (m_tag g)"
  obtains f gs where "fs = f # gs" "m_tag f = t"
proof (cases fs)
  case (Cons f gs)
  then show ?thesis using assms that by (cases "m_tag f = t") (auto simp: sorted_tags_def)
qed (use assms in simp)

lemma sorted_last:
  assumes "sorted_tags cmp fs" "t \<in> m_tag ` set fs" "\<And>g. g \<in> set fs \<Longrightarrow> m_tag g \<noteq> t \<Longrightarrow> cmp (m_tag g) t"
  obtains f gs where "fs = gs @ [f]" "m_tag f = t"
proof (cases fs rule: rev_cases)
  case (snoc gs f)
  then show ?thesis using assms that by (cases "m_tag f = t") (auto simp: sorted_tags_def sorted_wrt_append)
qed (use assms in simp)

text \<open>What is printed for one field of a map: the field and the instances of its group.\<close>

definition field_wire :: "fieldmap \<Rightarrow> field_base \<Rightarrow> field_base list" where
  "field_wire fm f = f # (case map_of (m_groups fm) (m_tag f) of None \<Rightarrow> [] | Some g \<Rightarrow> concat (map wire_fields g))"

lemma wire_fields_concat: "wire_fields fm = concat (map (field_wire fm) (m_fields fm))"
  by (cases fm) (auto simp: field_wire_def map_of_map_snd intro!: arg_cong [of _ _ concat] split: option.split)

text \<open>The tags that only occur as fields of the map itself: no group counts or holds them.\<close>

definition outside_groups :: "int set \<Rightarrow> fieldmap \<Rightarrow> bool" where
  "outside_groups T fm \<longleftrightarrow>
     (\<forall>(k, g)\<in>set (m_groups fm). k \<notin> T \<and> (\<forall>w\<in>set g. \<forall>f\<in>set (wire_fields w). m_tag f \<notin> T))"

lemma field_wire_outside:
  assumes "outside_groups T fm"
  shows "m_tag f \<in> T \<Longrightarrow> field_wire fm f = [f]" "m_tag f \<notin> T \<Longrightarrow> g \<in> set (field_wire fm f) \<Longrightarrow> m_tag g \<notin> T"
proof -
  have o: "k \<notin> T \<and> (\<forall>w\<in>set g. \<forall>f\<in>set (wire_fields w). m_tag f \<notin> T)" if "map_of (m_groups fm) k = Some g" for k g
    using map_of_SomeD [OF that] assms by (auto simp: outside_groups_def)
  show "m_tag f \<in> T \<Longrightarrow> field_wire fm f = [f]" using o by (auto simp: field_wire_def split: option.split)
  show "m_tag f \<notin> T \<Longrightarrow> g \<in> set (field_wire fm f) \<Longrightarrow> m_tag g \<notin> T"
    using o [of "m_tag f"] by (cases "map_of (m_groups fm) (m_tag f)") (auto simp: field_wire_def)
qed

lemma wire_fields_outside:
  assumes "outside_groups T fm"
  shows "filter (\<lambda>f. m_tag f \<notin> T) (wire_fields fm) = concat (map (field_wire fm) (filter (\<lambda>f. m_tag f \<notin> T) (m_fields fm)))"
proof -
  have "filter (\<lambda>f. m_tag f \<notin> T) (field_wire fm f) = (if m_tag f \<in> T then [] else field_wire fm f)" for f
    using field_wire_outside [OF assms, of f] by (auto simp: filter_id_conv)
  then have "filter (\<lambda>f. m_tag f \<notin> T) (concat (map (field_wire fm) fs)) =
      concat (map (field_wire fm) (filter (\<lambda>f. m_tag f \<notin> T) fs))" for fs
    by (induction fs) auto
  then show ?thesis by (simp add: wire_fields_concat)
qed

lemma setField_parts:
  assumes "fm_sorted fm"
  shows "m_groups (setField f True fm) = m_groups fm" "m_order (setField f True fm) = m_order fm"
    "m_tag f \<in> T \<Longrightarrow> filter (\<lambda>g. m_tag g \<notin> T) (m_fields (setField f True fm)) = filter (\<lambda>g. m_tag g \<notin> T) (m_fields fm)"
proof -
  show "m_groups (setField f True fm) = m_groups fm" "m_order (setField f True fm) = m_order fm"
    by (auto simp: setField_def addField_def split: option.split)
  assume t: "m_tag f \<in> T"
  have i: "filter P (insert_at i x xs) = filter P xs" if "\<not> P x" for P x i and xs :: "field_base list"
    using that filter_append [of P "take i xs" "drop i xs"] by (simp add: insert_at_def)
  have u: "filter P (xs[i := x]) = filter P xs" if "\<not> P x" "\<not> P (xs ! i)" for P x i and xs :: "field_base list"
    using that by (induction xs arbitrary: i) (auto split: nat.split)
  show "filter (\<lambda>g. m_tag g \<notin> T) (m_fields (setField f True fm)) = filter (\<lambda>g. m_tag g \<notin> T) (m_fields fm)"
    using t findTag_sorted [OF assms, of "m_tag f"]
    by (auto simp: setField_def addField_def field_setString_def find_index_Some i split: option.split intro!: u)
qed

lemma field_value_in: "fm_sorted fm \<Longrightarrow> field_value t fm = Some v \<Longrightarrow> \<exists>f\<in>set (m_fields fm). m_tag f = t \<and> m_string f = v"
  by (auto simp: field_value_def getFieldIfSet_sorted find_Some_iff)

lemma field_value_unique:
  assumes i: "fm_inv fm" and v: "field_value t fm = Some v" and f: "f \<in> set (m_fields fm)" "m_tag f = t"
  shows "m_string f = v"
proof -
  obtain g where "g \<in> set (m_fields fm)" "m_tag g = t" "m_string g = v"
    using i field_value_in [OF _ v] unfolding fm_inv_def by blast
  moreover have "inj_on m_tag (set (m_fields fm))" using i by (simp add: fm_inv_def distinct_tags_def distinct_map)
  ultimately show ?thesis using f by (auto dest: inj_onD)
qed

text \<open>
  A header with a \<open>BeginString\<close> whose \<open>BodyLength\<close> has just been set prints them first; a
  trailer whose \<open>CheckSum\<close> has just been set prints it last.
\<close>

abbreviation frame_tags :: "int set" where
  "frame_tags \<equiv> {F_BeginString, F_BodyLength, F_CheckSum}"

lemma header_wire:
  assumes i: "fm_inv fm" "m_order fm = message_order_of_mode mode_header" and o: "outside_groups frame_tags fm"
    and v: "field_value F_BeginString fm = Some v" and c: "field_value F_CheckSum fm = None"
  shows "\<exists>f8 f9. wire_fields (setField (FieldBase F_BodyLength l) True fm) =
      f8 # f9 # filter (\<lambda>f. m_tag f \<notin> frame_tags) (wire_fields fm) \<and>
    {f8, f9} \<subseteq> set (m_fields (setField (FieldBase F_BodyLength l) True fm)) \<and>
    m_tag f8 = F_BeginString \<and> m_string f8 = v \<and> m_tag f9 = F_BodyLength \<and> m_string f9 = l"
proof -
  let ?h = "setField (FieldBase F_BodyLength l) True fm"
  have s: "fm_sorted fm" and i': "fm_inv ?h" using i by (simp_all add: fm_inv_def fm_sorted_setField distinct_tags_setField)
  then have s': "fm_sorted ?h" and d': "distinct (map m_tag (m_fields ?h))" by (simp_all add: fm_inv_def distinct_tags_def)
  have less: "order_less (m_order ?h) = header_order_compare"
    using i(2) by (auto simp: setField_parts [OF s] order_less_def message_order_of_mode_def fun_eq_iff)
  have val: "field_value t ?h = (if t = F_BodyLength then Some l else field_value t fm)" for t
    by (simp add: field_value_setField [OF s] FieldBase_def)
  have st: "sorted_tags header_order_compare (m_fields ?h)" using s' less by (simp add: fm_sorted_def)
  have in8: "F_BeginString \<in> m_tag ` set (m_fields ?h)" and in9: "F_BodyLength \<in> m_tag ` set (m_fields ?h)"
    using field_value_in [OF s', of F_BeginString v] field_value_in [OF s', of F_BodyLength l] v val by force+
  obtain f8 r where r: "m_fields ?h = f8 # r" "m_tag f8 = F_BeginString"
    by (rule sorted_first [OF st in8]) (auto simp: header_order_compare_def compare_ordered_def header_position_def)
  have n8: "F_BeginString \<notin> m_tag ` set r" using d' r by simp
  obtain f9 q where q: "r = f9 # q" "m_tag f9 = F_BodyLength"
  proof (rule sorted_first [of header_order_compare r F_BodyLength])
    show "sorted_tags header_order_compare r" using st r by (simp add: sorted_tags_def)
    show "F_BodyLength \<in> m_tag ` set r" using in9 r by auto
    show "header_order_compare F_BodyLength (m_tag g)" if "g \<in> set r" "m_tag g \<noteq> F_BodyLength" for g
      using that n8 by (force simp: header_order_compare_def compare_ordered_def header_position_def)
  qed blast
  have n10: "F_CheckSum \<notin> m_tag ` set (m_fields ?h)"
  proof
    assume "F_CheckSum \<in> m_tag ` set (m_fields ?h)"
    then have "isSetField F_CheckSum ?h" using findTag_sorted [OF s', of F_CheckSum]
      by (auto simp: isSetField_def find_index_None)
    then show False using c val by (simp add: field_value_isSet)
  qed
  have qt: "filter (\<lambda>f. m_tag f \<notin> frame_tags) (m_fields ?h) = q"
    using d' n10 r q n8 by (force simp: filter_id_conv)
  have o': "outside_groups frame_tags ?h" using o by (simp add: outside_groups_def setField_parts [OF s])
  have fw: "field_wire ?h = field_wire fm" by (simp add: fun_eq_iff field_wire_def setField_parts [OF s])
  have "wire_fields ?h = f8 # f9 # concat (map (field_wire ?h) q)"
    using r q field_wire_outside(1) [OF o'] by (simp add: wire_fields_concat)
  also have "concat (map (field_wire ?h) q) = filter (\<lambda>f. m_tag f \<notin> frame_tags) (wire_fields fm)"
    unfolding wire_fields_outside [OF o] qt [symmetric] fw
    by (subst setField_parts(3) [OF s]) (auto simp: FieldBase_def)
  finally show ?thesis
    using r q field_value_unique [OF i', of F_BeginString v f8] field_value_unique [OF i', of F_BodyLength l f9] v val
    by auto
qed

lemma trailer_wire:
  assumes i: "fm_inv fm" "m_order fm = message_order_of_mode mode_trailer" and o: "outside_groups frame_tags fm"
    and c: "field_value F_BeginString fm = None" "field_value F_BodyLength fm = None"
  shows "\<exists>f10. wire_fields (setField (FieldBase F_CheckSum cs) True fm) =
      filter (\<lambda>f. m_tag f \<notin> frame_tags) (wire_fields fm) @ [f10] \<and> m_tag f10 = F_CheckSum \<and> m_string f10 = cs"
proof -
  let ?h = "setField (FieldBase F_CheckSum cs) True fm"
  have s: "fm_sorted fm" and i': "fm_inv ?h" using i by (simp_all add: fm_inv_def fm_sorted_setField distinct_tags_setField)
  then have s': "fm_sorted ?h" and d': "distinct (map m_tag (m_fields ?h))" by (simp_all add: fm_inv_def distinct_tags_def)
  have less: "order_less (m_order ?h) = trailer_order_compare"
    using i(2) by (auto simp: setField_parts [OF s] order_less_def message_order_of_mode_def fun_eq_iff)
  have val: "field_value t ?h = (if t = F_CheckSum then Some cs else field_value t fm)" for t
    by (simp add: field_value_setField [OF s] FieldBase_def)
  have st: "sorted_tags trailer_order_compare (m_fields ?h)" using s' less by (simp add: fm_sorted_def)
  have in10: "F_CheckSum \<in> m_tag ` set (m_fields ?h)" using field_value_in [OF s', of F_CheckSum cs] val by force
  obtain f10 q where q: "m_fields ?h = q @ [f10]" "m_tag f10 = F_CheckSum"
    by (rule sorted_last [OF st in10]) (auto simp: trailer_order_compare_def)
  have no: "t \<notin> m_tag ` set (m_fields ?h)" if "t = F_BeginString \<or> t = F_BodyLength" for t
  proof
    assume "t \<in> m_tag ` set (m_fields ?h)"
    then have "isSetField t ?h" using findTag_sorted [OF s', of t] by (auto simp: isSetField_def find_index_None)
    then show False using c val that by (auto simp: field_value_isSet)
  qed
  have qt: "filter (\<lambda>f. m_tag f \<notin> frame_tags) (m_fields ?h) = q"
    using d' q no [of F_BeginString] no [of F_BodyLength] by (force simp: filter_id_conv)
  have o': "outside_groups frame_tags ?h" using o by (simp add: outside_groups_def setField_parts [OF s])
  have fw: "field_wire ?h = field_wire fm" by (simp add: fun_eq_iff field_wire_def setField_parts [OF s])
  have "wire_fields ?h = concat (map (field_wire ?h) q) @ [f10]"
    using q field_wire_outside(1) [OF o'] by (simp add: wire_fields_concat)
  also have "concat (map (field_wire ?h) q) = filter (\<lambda>f. m_tag f \<notin> frame_tags) (wire_fields fm)"
    unfolding wire_fields_outside [OF o] qt [symmetric] fw
    by (subst setField_parts(3) [OF s]) (auto simp: FieldBase_def)
  finally show ?thesis
    using q field_value_unique [OF i', of F_CheckSum cs f10] val by auto
qed

text \<open>
  The frame of a message on the wire: the version, the byte length of what is between the
  \<open>BodyLength\<close> and the \<open>CheckSum\<close> field, and the byte sum modulo 256 of everything before the
  \<open>CheckSum\<close> field in three digits.
\<close>

definition checksum_text :: "nat \<Rightarrow> string" where
  "checksum_text n = [digit_char (n div 100), digit_char (n div 10 mod 10), digit_char (n mod 10)]"

definition fix_frame :: "string \<Rightarrow> string \<Rightarrow> string" where
  "fix_frame v body =
     (let pre = ''8='' @ v @ [SOH] @ ''9='' @ dec_digits (length body) @ [SOH] @ body
      in pre @ ''10='' @ checksum_text (nat (byte_sum pre mod 256)) @ [SOH])"

text \<open>
  What a message must be to be printed: the frame fields are where they belong and every
  group has its counter.
\<close>

definition no_frame_tags :: "field_base list \<Rightarrow> field_base list" where
  "no_frame_tags fs = filter (\<lambda>f. m_tag f \<notin> frame_tags) fs"

definition payload_fields :: "message \<Rightarrow> field_base list" where
  "payload_fields m = no_frame_tags (wire_fields (m_header m)) @ no_frame_tags (wire_fields (m_body m))
     @ no_frame_tags (wire_fields (m_trailer m))"

definition payload :: "message \<Rightarrow> string" where
  "payload m = concat (map getFixString (payload_fields m))"

definition well_framed :: "message \<Rightarrow> bool" where
  "well_framed m \<longleftrightarrow>
     fm_inv (m_header m) \<and> m_order (m_header m) = message_order_of_mode mode_header \<and>
     fm_inv (m_trailer m) \<and> m_order (m_trailer m) = message_order_of_mode mode_trailer \<and>
     list_all groups_counted [m_header m, m_body m, m_trailer m] \<and>
     outside_groups frame_tags (m_header m) \<and> outside_groups frame_tags (m_trailer m) \<and>
     list_all (\<lambda>f. m_tag f \<notin> frame_tags) (wire_fields (m_body m)) \<and>
     field_value F_CheckSum (m_header m) = None \<and>
     field_value F_BeginString (m_trailer m) = None \<and> field_value F_BodyLength (m_trailer m) = None \<and>
     list_all metrics_ok (wire_fields (m_header m) @ wire_fields (m_body m) @ wire_fields (m_trailer m))"

lemma sumAsciiDigits_digits: "sumAsciiDigits (int n) = byte_sum (dec_digits n)"
proof (induction n rule: dec_digits.induct)
  case (1 n)
  have d: "int n sdiv 10 = int (n div 10)" "int n smod 10 = int (n mod 10)" by (simp_all add: zdiv_int zmod_int)
  have b: "(of_char (digit_char (n mod 10)) :: int) = 48 + int (n mod 10)"
    unfolding of_char_int by (simp add: of_char_digit_char del: of_nat_of_char)
  show ?case
  proof (cases "n < 10")
    case True
    then show ?thesis using b by (subst sumAsciiDigits.simps) (simp add: d dec_digits_one)
  next
    case False
    then have "(0::int) < int (n div 10)" by simp
    then have "sumAsciiDigits (int n) = 48 + int (n mod 10) + sumAsciiDigits (int (n div 10))"
      by (subst sumAsciiDigits.simps, unfold d) (simp only: if_True)
    then show ?thesis using 1 False unfolding dec_digits_step [OF False [unfolded not_less]]
      by (simp only: byte_sum_append b) simp
  qed
qed

lemma setField_metrics:
  "metrics_ok f \<Longrightarrow> list_all metrics_ok (m_fields fm) \<Longrightarrow> list_all metrics_ok (m_fields (setField f True fm))"
proof -
  assume f: "metrics_ok f" "list_all metrics_ok (m_fields fm)"
  have "list_all metrics_ok ((m_fields fm)[i := field_setString v x])" for i v x
    using f(2) set_update_subset_insert [of "m_fields fm" i "field_setString v x"] by (auto simp: list_all_iff)
  then show ?thesis using f by (auto simp: setField_def addField_def list_all_iff split: option.split)
qed

lemma groups_counted_iff:
  "groups_counted fm \<longleftrightarrow> distinct (map fst (m_groups fm)) \<and>
     (\<forall>(k, g)\<in>set (m_groups fm). length (fields_with k (m_fields fm)) = 1 \<and> list_all groups_counted g)"
  by (cases fm) (simp add: list_all_iff)

lemma setField_counted:
  assumes "fm_sorted fm" "groups_counted fm" "outside_groups T fm" "m_tag f \<in> T"
  shows "groups_counted (setField f True fm)"
proof -
  let ?fm = "setField f True fm"
  have w: "fields_with k (m_fields ?fm) = fields_with k (m_fields fm)" if "(k, g) \<in> set (m_groups fm)" for k g
  proof -
    have "k \<noteq> m_tag f" using assms(3,4) that by (auto simp: outside_groups_def)
    then have "fields_with k xs = fields_with k (filter (\<lambda>g. m_tag g \<notin> {m_tag f}) xs)" for xs
      by (auto simp: fields_with_def intro!: filter_cong)
    then show ?thesis using setField_parts(3) [OF assms(1), of f "{m_tag f}"] by (metis insertI1)
  qed
  have g: "m_groups ?fm = m_groups fm" by (rule setField_parts(1) [OF assms(1)])
  show ?thesis using assms(2) w unfolding groups_counted_iff [of ?fm] groups_counted_iff [of fm] g by auto
qed

lemma wire_fields_sub: "set (m_fields fm) \<subseteq> set (wire_fields fm)"
  unfolding wire_fields_concat [of fm] by (auto simp: field_wire_def)

lemma no_frame_tags_append [simp]: "no_frame_tags (xs @ ys) = no_frame_tags xs @ no_frame_tags ys"
  "no_frame_tags (no_frame_tags xs) = no_frame_tags xs"
  by (simp_all add: no_frame_tags_def)

lemma no_frame_metrics: "list_all metrics_ok fs \<Longrightarrow> list_all metrics_ok (no_frame_tags fs)"
  by (auto simp: no_frame_tags_def list_all_iff)

lemma bodyLength_wire:
  assumes "well_framed m"
  shows "sum_list (map getLength (no_frame_tags (wire_fields (m_header m)))) +
    sum_list (map getLength (no_frame_tags (wire_fields (m_body m)))) +
    sum_list (map getLength (no_frame_tags (wire_fields (m_trailer m)))) = int (length (payload m))"
  using assms metrics_sums(1) [of "payload_fields m"]
  by (simp add: well_framed_def payload_def payload_fields_def no_frame_metrics)

lemma frame_tag_text: "IntConvertor_to 8 = ''8''" "IntConvertor_to 9 = ''9''" "IntConvertor_to 10 = ''10''"
  by code_simp+

lemma header_total:
  assumes w: "well_framed m" and v: "field_value F_BeginString (m_header m) = Some v"
  shows "sum_list (map getTotal (filter (\<lambda>f. m_tag f \<noteq> F_BodyLength \<and> m_tag f \<noteq> F_CheckSum) (wire_fields (m_header m))))
    = byte_sum (''8='' @ v @ [SOH]) + byte_sum (concat (map getFixString (no_frame_tags (wire_fields (m_header m)))))"
proof -
  let ?h = "m_header m" and ?h' = "setField (FieldBase F_BodyLength []) True (m_header m)"
  let ?P = "\<lambda>f. m_tag f \<notin> {F_BodyLength, F_CheckSum}"
  have s: "fm_sorted ?h" using w by (simp add: well_framed_def fm_inv_def)
  have o: "outside_groups {F_BodyLength, F_CheckSum} ?h" using w by (auto simp: well_framed_def outside_groups_def)
  then have o': "outside_groups {F_BodyLength, F_CheckSum} ?h'" by (simp add: outside_groups_def setField_parts [OF s])
  have fw: "field_wire ?h' = field_wire ?h" by (simp add: fun_eq_iff field_wire_def setField_parts [OF s])
  have e: "filter ?P (wire_fields ?h') = filter ?P (wire_fields ?h)"
    unfolding wire_fields_outside [OF o] wire_fields_outside [OF o'] fw
    by (subst setField_parts(3) [OF s]) (auto simp: FieldBase_def)
  obtain f8 f9 where h: "wire_fields ?h' = f8 # f9 # filter (\<lambda>f. m_tag f \<notin> frame_tags) (wire_fields ?h)"
    "m_tag f8 = F_BeginString" "m_string f8 = v" "m_tag f9 = F_BodyLength"
  proof -
    have "fm_inv ?h" "m_order ?h = message_order_of_mode mode_header" "outside_groups frame_tags ?h"
      "field_value F_CheckSum ?h = None" using w by (simp_all add: well_framed_def)
    from header_wire [OF this(1-3) v this(4), of "[]"] show ?thesis using that by blast
  qed
  have f: "filter ?P (wire_fields ?h') = f8 # no_frame_tags (wire_fields ?h)"
    unfolding h(1) by (auto simp: h no_frame_tags_def intro!: filter_cong)
  have "list_all metrics_ok (filter ?P (wire_fields ?h))" using w by (auto simp: well_framed_def list_all_iff)
  then have m: "metrics_ok f8" "list_all metrics_ok (no_frame_tags (wire_fields ?h))" using e f by simp_all
  have "getFixString f8 = ''8='' @ v @ [SOH]" by (simp add: getFixString_def h frame_tag_text)
  then show ?thesis using e f m
    by (simp add: metrics_sums(2) getTotal_def metrics_okD calculateMetrics_def)
qed

text \<open>The result of \<open>toString\<close>, and the message it leaves behind.\<close>

definition printed :: "message \<Rightarrow> string \<Rightarrow> message" where
  "printed m cs = m\<lparr>m_header := setField (IntField F_BodyLength (int (length (payload m)))) True (m_header m),
     m_trailer := setField (FieldBase F_CheckSum cs) True (m_trailer m)\<rparr>"

definition frame_checksum :: "string \<Rightarrow> string \<Rightarrow> nat" where
  "frame_checksum v body =
     nat (byte_sum (''8='' @ v @ [SOH] @ ''9='' @ dec_digits (length body) @ [SOH] @ body) mod 256)"

lemma fix_frame_alt: "fix_frame v body =
   ''8='' @ v @ [SOH] @ ''9='' @ dec_digits (length body) @ [SOH] @ body @ ''10='' @ checksum_text (frame_checksum v body) @ [SOH]"
  by (simp add: fix_frame_def frame_checksum_def Let_def)

lemma frame_checksum_less: "frame_checksum v body < 256"
proof -
  have "byte_sum s mod 256 < 256" for s by simp
  then show ?thesis unfolding frame_checksum_def by (simp add: nat_less_iff)
qed

lemma wire_fields_absent:
  assumes "fm_sorted fm" "outside_groups T fm" "t \<in> T" "field_value t fm = None" "f \<in> set (wire_fields fm)"
  shows "m_tag f \<noteq> t"
proof
  assume f: "m_tag f = t"
  obtain g where g: "g \<in> set (m_fields fm)" "f \<in> set (field_wire fm g)" using assms(5) by (auto simp: wire_fields_concat [of fm])
  then have "g = f" using f assms(3) field_wire_outside [OF assms(2), of g] by (cases "m_tag g \<in> T") auto
  then have "isSetField t fm" using g f findTag_sorted [OF assms(1), of t] by (auto simp: isSetField_def find_index_None)
  then show False using assms(4) by (simp add: field_value_isSet)
qed

lemma sumAsciiDigits_9: "sumAsciiDigits F_BodyLength = 57"
  by code_simp

lemma toString_frame:
  assumes w: "well_framed m" and v: "field_value F_BeginString (m_header m) = Some v"
    and n: "length (payload m) < 2 ^ 31"
  shows "toString_default m = Inr (fix_frame v (payload m), printed m (checksum_text (frame_checksum v (payload m))))"
proof -
  let ?n = "length (payload m)" and ?c = "frame_checksum v (payload m)"
  let ?h = "setField (IntField F_BodyLength (int ?n)) True (m_header m)"
  let ?t = "setField (FieldBase F_CheckSum (checksum_text ?c)) True (m_trailer m)"
  let ?L = "\<lambda>fm. calculateLengthAndTotal F_BeginString F_BodyLength F_CheckSum fm"
  let ?G = "\<lambda>fm. byte_sum (concat (map getFixString (no_frame_tags (wire_fields fm))))"
  have g: "groups_counted (m_header m)" "groups_counted (m_body m)" "groups_counted (m_trailer m)"
    and ok: "list_all metrics_ok (wire_fields (m_header m) @ wire_fields (m_body m) @ wire_fields (m_trailer m))"
    and b: "no_frame_tags (wire_fields (m_body m)) = wire_fields (m_body m)"
    using w by (auto simp: well_framed_def no_frame_tags_def filter_id_conv list_all_iff)
  note L = calculateLengthAndTotal_wire [OF g(1)] calculateLengthAndTotal_wire [OF g(2)] calculateLengthAndTotal_wire [OF g(3)]
  have len: "fst (?L (m_header m)) + fst (?L (m_body m)) + fst (?L (m_trailer m)) = int ?n"
    unfolding L fst_conv using bodyLength_wire [OF w] by (simp add: no_frame_tags_def)
  have tn: "m_tag f \<noteq> F_BeginString" if "f \<in> set (wire_fields (m_trailer m))" for f
    using wire_fields_absent [of "m_trailer m" frame_tags F_BeginString f] w that by (simp add: well_framed_def fm_inv_def)
  have bn: "m_tag f \<noteq> F_BeginString" if "f \<in> set (wire_fields (m_body m))" for f
    using w that by (simp add: well_framed_def list_all_iff)
  have tf: "filter (\<lambda>f. m_tag f \<noteq> F_BodyLength \<and> m_tag f \<noteq> F_CheckSum) (wire_fields (m_trailer m)) = no_frame_tags (wire_fields (m_trailer m))"
    unfolding no_frame_tags_def using tn by (intro filter_cong) auto
  have bf: "filter (\<lambda>f. m_tag f \<noteq> F_BodyLength \<and> m_tag f \<noteq> F_CheckSum) (wire_fields (m_body m)) = no_frame_tags (wire_fields (m_body m))"
    unfolding no_frame_tags_def using bn by (intro filter_cong) auto
  have tot: "snd (?L (m_header m)) + snd (?L (m_body m)) + snd (?L (m_trailer m)) =
      byte_sum (''8='' @ v @ [SOH]) + byte_sum (payload m)"
    unfolding L snd_conv header_total [OF w v] tf bf
    using ok by (simp add: metrics_sums(2) no_frame_metrics payload_def payload_fields_def)
  have contrib: "sumAsciiDigits F_BodyLength + 61 + sumAsciiDigits (int ?n) + 1 =
      byte_sum (''9='' @ dec_digits ?n @ [SOH])"
    using sumAsciiDigits_digits [of ?n] sumAsciiDigits_9 by simp
  have c: "(byte_sum (''8='' @ v @ [SOH]) + byte_sum (payload m) + byte_sum (''9='' @ dec_digits ?n @ [SOH])) smod 256 = int ?c"
    unfolding frame_checksum_def by (simp add: ac_simps)
  have cs: "CheckSumField F_CheckSum (int ?c) = Inr (FieldBase F_CheckSum (checksum_text ?c))"
    using frame_checksum_less [of v "payload m"]
    by (simp add: CheckSumField_def CheckSumConvertor_to_padded checksum_text_def)
  have digits: "IntConvertor_to (int ?n) = dec_digits ?n" using n by (simp add: IntConvertor_to_digits int_digits_def)
  have s: "fm_inv (m_header m)" "fm_inv (m_trailer m)" using w by (simp_all add: well_framed_def)
  have t': "concat (map getFixString (wire_fields ?t)) =
      concat (map getFixString (no_frame_tags (wire_fields (m_trailer m)))) @ ''10='' @ checksum_text ?c @ [SOH]"
    using trailer_wire [OF s(2), of "checksum_text ?c"] w
    by (auto simp: well_framed_def no_frame_tags_def getFixString_def frame_tag_text)
  have h': "concat (map getFixString (wire_fields ?h)) =
      ''8='' @ v @ [SOH] @ ''9='' @ dec_digits ?n @ [SOH] @ concat (map getFixString (no_frame_tags (wire_fields (m_header m))))"
    using header_wire [OF s(1) _ _ v, of "dec_digits ?n"] w
    by (auto simp: well_framed_def no_frame_tags_def getFixString_def frame_tag_text IntField_def digits)
  obtain hl ht bl bt tl tt where p: "?L (m_header m) = (hl, ht)" "?L (m_body m) = (bl, bt)" "?L (m_trailer m) = (tl, tt)"
    by (metis surj_pair)
  have sum: "(ht + bt + tt + (sumAsciiDigits F_BodyLength + 61 + sumAsciiDigits (int ?n) + 1)) smod 256 = int ?c"
    using tot contrib c p by simp
  have "toString_default m = Inr (calculateString ?h @ calculateString (m_body m) @ calculateString ?t,
      m\<lparr>m_header := ?h, m_trailer := ?t\<rparr>)"
    unfolding toString_def p Let_def split_conv using len p sum cs by simp
  then show ?thesis unfolding calculateString_wire t' h'
    by (simp add: fix_frame_alt printed_def payload_def payload_fields_def b)
qed

section \<open>A printed message passes the checks\<close>

lemma calculateLength_wire:
  "groups_counted fm \<Longrightarrow> calculateLength F_BeginString F_BodyLength F_CheckSum fm =
    sum_list (map getLength (no_frame_tags (wire_fields fm)))"
proof (induction F_BeginString F_BodyLength F_CheckSum fm rule: calculateLength.induct)
  case (1 fs gs mo)
  let ?P = "\<lambda>f. m_tag f \<notin> frame_tags"
  have "map (calculateLength F_BeginString F_BodyLength F_CheckSum) g =
      map (\<lambda>m. sum_list (map getLength (filter ?P (wire_fields m)))) g" if "(k, g) \<in> set gs" for k g
    using 1 that by (fastforce simp: list_all_iff no_frame_tags_def)
  then have "(\<Sum>(k, g)\<leftarrow>gs. sum_list (map (calculateLength F_BeginString F_BodyLength F_CheckSum) g)) =
      (\<Sum>(k, g)\<leftarrow>gs. \<Sum>m\<leftarrow>g. sum_list (map getLength (filter ?P (wire_fields m))))"
    by (intro arg_cong [of _ _ sum_list] map_cong) (auto intro!: arg_cong [of _ _ sum_list])
  then show ?case unfolding no_frame_tags_def wire_sum [OF 1(2)] by simp
qed

lemma calculateTotal_wire:
  "groups_counted fm \<Longrightarrow> calculateTotal F_CheckSum fm =
    sum_list (map getTotal (filter (\<lambda>f. m_tag f \<noteq> F_CheckSum) (wire_fields fm)))"
proof (induction F_CheckSum fm rule: calculateTotal.induct)
  case (1 fs gs mo)
  let ?P = "\<lambda>f. m_tag f \<noteq> F_CheckSum"
  have "map (calculateTotal F_CheckSum) g = map (\<lambda>m. sum_list (map getTotal (filter ?P (wire_fields m)))) g"
    if "(k, g) \<in> set gs" for k g
    using 1 that by (fastforce simp: list_all_iff)
  then have "(\<Sum>(k, g)\<leftarrow>gs. sum_list (map (calculateTotal F_CheckSum) g)) =
      (\<Sum>(k, g)\<leftarrow>gs. \<Sum>m\<leftarrow>g. sum_list (map getTotal (filter ?P (wire_fields m))))"
    by (intro arg_cong [of _ _ sum_list] map_cong) (auto intro!: arg_cong [of _ _ sum_list])
  then show ?case unfolding wire_sum [OF 1(2)] by simp
qed

lemma checksum_text_value: "n < 256 \<Longrightarrow> IntConvertor_from (checksum_text n) = Some (int n)"
proof -
  assume n: "n < 256"
  let ?a = "n div 100" and ?b = "n div 10 mod 10" and ?c = "n mod 10"
  have d: "?a < 10" "?b < 10" "?c < 10" using n by simp_all
  have e: "100 * ?a + 10 * ?b + ?c = n"
  proof -
    have "n div 10 div 10 = ?a" by (simp add: div_mult2_eq [symmetric])
    then show ?thesis using div_mult_mod_eq [of n 10] div_mult_mod_eq [of "n div 10" 10] by linarith
  qed
  have "digit_char ?a \<noteq> CHR ''-''" using is_digit_digit_char [OF d(1)] by (metis not_digit(3))
  then have "dec_int (checksum_text n) = Some (int n)"
    using d e by (simp add: checksum_text_def dec_nat_def)
  then show ?thesis using n by (simp add: IntConvertor_from_spec)
qed

section \<open>The reversed route\<close>

definition nonempty :: "string option \<Rightarrow> string option" where
  "nonempty v = (case v of None \<Rightarrow> None | Some s \<Rightarrow> if s = [] then None else Some s)"

lemma option_self: "(case x of None \<Rightarrow> None | Some a \<Rightarrow> Some a) = x"
  by (cases x) simp_all

lemma copy_route_inv [simp]: "fm_inv h \<Longrightarrow> fm_inv (copy_route s t other h)"
  by (simp add: copy_route_def split: option.split)

lemma copy_route_value: "fm_inv h \<Longrightarrow> field_value t (copy_route s t' other h) =
   (if t = t' then (case nonempty (field_value s other) of None \<Rightarrow> field_value t h | v \<Rightarrow> v) else field_value t h)"
  by (auto simp: copy_route_def field_value_setField fm_inv_def FieldBase_def nonempty_def field_value_def [of s other]
      split: option.split)

lemma removeField_inv [simp]: "fm_inv h \<Longrightarrow> fm_inv (removeField t h)"
  by (rule fm.inv_remove)

lemma reverseRoute_fields:
  assumes "fm_inv (m_header m)"
  shows "fm_inv (m_header (reverseRoute other m))"
    "t \<noteq> F_OnBehalfOfLocationID \<Longrightarrow> t \<noteq> F_DeliverToLocationID \<Longrightarrow>
     field_value t (m_header (reverseRoute other m)) =
       (if t = F_BeginString then nonempty (field_value F_BeginString other)
        else if t = F_SenderCompID then nonempty (field_value F_TargetCompID other)
        else if t = F_TargetCompID then nonempty (field_value F_SenderCompID other)
        else if t = F_OnBehalfOfCompID then nonempty (field_value F_DeliverToCompID other)
        else if t = F_DeliverToCompID then nonempty (field_value F_OnBehalfOfCompID other)
        else if t = F_OnBehalfOfSubID then nonempty (field_value F_DeliverToSubID other)
        else if t = F_DeliverToSubID then nonempty (field_value F_OnBehalfOfSubID other)
        else field_value t (m_header m))"
proof -
  define h1 where "h1 = (let h0 = fold removeField [F_BeginString, F_SenderCompID, F_TargetCompID] (m_header m) in
     case getFieldIfSet F_BeginString other of
                  None \<Rightarrow> h0
                | Some beginString \<Rightarrow>
                    let h = (if m_string beginString \<noteq> [] then setField_tag F_BeginString (m_string beginString) h0 else h0);
                        h' = fold removeField [F_OnBehalfOfLocationID, F_DeliverToLocationID] h
                    in if m_string beginString \<ge> ''FIX.4.1''
                       then copy_route F_DeliverToLocationID F_OnBehalfOfLocationID other
                              (copy_route F_OnBehalfOfLocationID F_DeliverToLocationID other h')
                       else h')"
  have i1: "fm_inv h1" using assms by (auto simp: h1_def Let_def fm.inv_put split: option.split)
  have v1: "field_value t h1 = (if t = F_BeginString then nonempty (field_value F_BeginString other)
      else if t = F_SenderCompID \<or> t = F_TargetCompID then None else field_value t (m_header m))"
    if "t \<noteq> F_OnBehalfOfLocationID" "t \<noteq> F_DeliverToLocationID" for t
    using that assms
    by (auto simp: h1_def Let_def fm.get_remove fm.get_put fm.inv_put copy_route_value
        nonempty_def field_value_def [of _ other] split: option.split)
  show "fm_inv (m_header (reverseRoute other m))"
    unfolding reverseRoute_def Let_def h1_def [unfolded Let_def, symmetric] using i1 by simp
  show "field_value t (m_header (reverseRoute other m)) =
       (if t = F_BeginString then nonempty (field_value F_BeginString other)
        else if t = F_SenderCompID then nonempty (field_value F_TargetCompID other)
        else if t = F_TargetCompID then nonempty (field_value F_SenderCompID other)
        else if t = F_OnBehalfOfCompID then nonempty (field_value F_DeliverToCompID other)
        else if t = F_DeliverToCompID then nonempty (field_value F_OnBehalfOfCompID other)
        else if t = F_OnBehalfOfSubID then nonempty (field_value F_DeliverToSubID other)
        else if t = F_DeliverToSubID then nonempty (field_value F_OnBehalfOfSubID other)
        else field_value t (m_header m))"
    if "t \<noteq> F_OnBehalfOfLocationID" "t \<noteq> F_DeliverToLocationID"
    unfolding reverseRoute_def Let_def h1_def [unfolded Let_def, symmetric]
    using i1 that by (simp add: copy_route_value fm.get_remove v1 option_self cong: option.case_cong)
qed

section \<open>Properties\<close>

text \<open>The header of a reply carries the route of the message it answers reversed: sender and
  target, the on-behalf-of and deliver-to parties and their sub-ids change places, a routing
  field that is missing or empty in the original is missing in the reply, the version is the
  original's and every other field (the location fields apart) is as it was.\<close>

theorem reverseRoute_swaps:
  assumes "fm_inv (m_header m)" "h = m_header (reverseRoute other m)"
  shows "fm_inv h \<and>
    field_value F_BeginString h = nonempty (field_value F_BeginString other) \<and>
    list_all (\<lambda>(a, b). field_value a h = nonempty (field_value b other) \<and> field_value b h = nonempty (field_value a other))
      [(F_SenderCompID, F_TargetCompID), (F_OnBehalfOfCompID, F_DeliverToCompID), (F_OnBehalfOfSubID, F_DeliverToSubID)] \<and>
    (\<forall>t. t \<notin> {F_BeginString, F_SenderCompID, F_TargetCompID, F_OnBehalfOfCompID, F_DeliverToCompID, F_OnBehalfOfSubID,
        F_DeliverToSubID, F_OnBehalfOfLocationID, F_DeliverToLocationID} \<longrightarrow> field_value t h = field_value t (m_header m))"
  using assms by (simp add: reverseRoute_fields)

theorem reverseRoute_swaps_witness:
  "field_value F_TargetCompID (m_header (reverseRoute (setField_tag F_SenderCompID ''BANK''
     (FieldMap_new (message_order_of_mode mode_header))) Message_new)) = Some ''BANK''"
proof -
  let ?o = "setField_tag F_SenderCompID ''BANK'' (FieldMap_new (message_order_of_mode mode_header))"
  have "fm_inv (m_header Message_new)" by (simp add: Message_new_def Message_of_orders_def)
  then show ?thesis using reverseRoute_swaps [OF _ refl, of Message_new ?o]
    by (simp add: fm.get_put nonempty_def)
qed

end
