(* ===== verification/MessageParsers.thy ===== *)
theory MessageParsers
  imports Messages
begin

text \<open>
  The parser of \<open>Message.cpp\<close> (\<open>extractField\<close>, \<open>setString\<close>, \<open>setGroup\<close>, \<open>setStringHeader\<close>)
  and the checks of the declared body length and checksum (\<open>validate\<close>). The position \<open>pos\<close>
  of the code is the rest of the string. The loops take fuel; a field is at least two bytes,
  so the length of the string is enough.
\<close>

section \<open>Parsing a field\<close>

definition data_location :: "message \<Rightarrow> data_dictionary option \<Rightarrow> fieldmap option \<Rightarrow> int \<Rightarrow> fieldmap" where
  "data_location m pSessionDD pGroup lenField =
     (case pGroup of
        Some g \<Rightarrow> g
      | None \<Rightarrow>
          if isHeaderField lenField pSessionDD then m_header m
          else if isTrailerField lenField pSessionDD then m_trailer m
          else m_body m)"

text \<open>Where the value ends: at the first SOH, or at the declared length of a data field.\<close>

definition data_length :: "message \<Rightarrow> data_dictionary option \<Rightarrow> fieldmap option \<Rightarrow> int \<Rightarrow> string \<Rightarrow> nat result" where
  "data_length m pSessionDD pGroup field value_start =
     (let lenField = (if field = F_Signature then F_SignatureLength else field - 1)
      in case reverse_find lenField (data_location m pSessionDD pGroup lenField) of
        Inl _ \<Rightarrow> Inl (InvalidMessage (''Data length field '' @ IntConvertor_to lenField
                   @ '' was not found for data field '' @ IntConvertor_to field))
      | Inr fieldLength \<Rightarrow>
          (case IntConvertor_from (m_string fieldLength) of
             None \<Rightarrow> Inl (InvalidMessage (''Invalid data length for field '' @ IntConvertor_to field))
           | Some dataLength \<Rightarrow>
               if dataLength < 0 \<or> dataLength \<ge> int (length value_start)
               then Inl (InvalidMessage (''Invalid data length for field '' @ IntConvertor_to field))
               else if value_start ! nat dataLength \<noteq> SOH
               then Inl (InvalidMessage (''SOH not found at declared end of data field '' @ IntConvertor_to field))
               else Inr (nat dataLength)))"

definition extractField :: "message \<Rightarrow> data_dictionary option \<Rightarrow> data_dictionary option \<Rightarrow> fieldmap option
    \<Rightarrow> string \<Rightarrow> (field_base \<times> string) result" where
  "extractField m pSessionDD pAppDD pGroup s =
     (let tag = takeWhile (\<lambda>c. c \<noteq> CHR ''='') s in
      if length tag = length s then Inl (InvalidMessage ''Equal sign not found in field'')
      else case IntConvertor_from tag of
        None \<Rightarrow> Inl (InvalidMessage (''Field tag is invalid: '' @ tag))
      | Some field \<Rightarrow>
          let value_start = drop (Suc (length tag)) s;
              soh = length (takeWhile (\<lambda>c. c \<noteq> SOH) value_start)
          in if soh = length value_start then Inl (InvalidMessage ''SOH not found at end of field'')
             else rbind (if IsDataField field pSessionDD pAppDD
                         then data_length m pSessionDD pGroup field value_start else Inr soh) (\<lambda>soh.
               let tag_end = Suc (length tag) + soh + 1
               in Inr (FieldBase_decoded field (take soh value_start) (take tag_end s), drop tag_end s)))"

section \<open>Parsing groups\<close>

text \<open>
  The loop of \<open>setGroup\<close>: \<open>d\<close> is the dictionary the group \<open>grp\<close> belongs to, \<open>pDD\<close> the group's
  own. When the string ends inside the group the loop ends and the unique pointer to the
  group being filled is destroyed, so that group is not added. The field maps that
  \<open>extractField\<close> reads from the message are not changed here.
\<close>

fun group_loop :: "nat \<Rightarrow> data_dictionary \<Rightarrow> data_dictionary \<Rightarrow> string \<Rightarrow> int \<Rightarrow> int \<Rightarrow> message
    \<Rightarrow> string \<Rightarrow> fieldmap option \<Rightarrow> fieldmap \<Rightarrow> (string \<times> fieldmap) result" where
  "group_loop 0 d pDD msg grp delim m s pGroup fm = Inl (LogicError ''fuel'')"
| "group_loop (Suc n) d pDD msg grp delim m s pGroup fm =
     (if s = [] then Inr ([], fm)
      else rbind (extractField m (Some d) (Some d) pGroup s) (\<lambda>(field, s').
        let tag = m_tag field;
            flushed = (case pGroup of Some g \<Rightarrow> addGroup grp g False fm | None \<Rightarrow> fm);
            add_to = (\<lambda>g fm'.
              let g' = addField field g in
              rbind (case dd_getGroup msg tag pDD of
                       None \<Rightarrow> Inr (s', g')
                     | Some (delim', pDD') \<Rightarrow> group_loop n pDD pDD' msg tag delim' m s' None g')
                (\<lambda>(s'', g''). group_loop n d pDD msg grp delim m s'' (Some g'') fm'))
        in if tag = delim \<or> isField tag pDD \<and> (case pGroup of None \<Rightarrow> True | Some g \<Rightarrow> isSetField tag g)
           then add_to (FieldMap_new (getOrderedFields pDD)) flushed
           else if \<not> isField tag pDD then Inr (s, flushed)
           else case pGroup of None \<Rightarrow> Inr (s', fm) | Some g \<Rightarrow> add_to g fm))"

definition setGroup :: "nat \<Rightarrow> string \<Rightarrow> field_base \<Rightarrow> message \<Rightarrow> string \<Rightarrow> fieldmap \<Rightarrow> data_dictionary
    \<Rightarrow> (string \<times> fieldmap) result" where
  "setGroup fuel msg field m s fm d =
     (case dd_getGroup msg (m_tag field) d of
        None \<Rightarrow> Inr (s, fm)
      | Some (delim, pDD) \<Rightarrow> group_loop fuel d pDD msg (m_tag field) delim m s None fm)"

section \<open>Parsing a message\<close>

datatype field_kind = kind_header | kind_body | kind_trailer

definition headerOrder :: "int list" where
  "headerOrder = [F_BeginString, F_BodyLength, F_MsgType]"

definition out_of_structure :: "int \<Rightarrow> message \<Rightarrow> message" where
  "out_of_structure tag m =
     m\<lparr>msg_tag := (if msg_tag m = 0 then tag else msg_tag m), m_validStructure := False\<rparr>"

definition set_group_in :: "nat \<Rightarrow> string \<Rightarrow> field_base \<Rightarrow> message \<Rightarrow> string \<Rightarrow> fieldmap \<Rightarrow> data_dictionary option
    \<Rightarrow> (string \<times> fieldmap) result" where
  "set_group_in fuel msg field m s fm pD =
     (case pD of None \<Rightarrow> Inr (s, fm) | Some d \<Rightarrow> setGroup fuel msg field m s fm d)"

fun setString_loop :: "nat \<Rightarrow> bool \<Rightarrow> data_dictionary option \<Rightarrow> data_dictionary option \<Rightarrow> nat \<Rightarrow> string
    \<Rightarrow> field_kind \<Rightarrow> message \<Rightarrow> string \<Rightarrow> message result" where
  "setString_loop 0 doValidation sdd add cnt msg type m s = Inl (LogicError ''fuel'')"
| "setString_loop (Suc n) doValidation sdd add cnt msg type m s =
     (if s = [] then Inr m
      else rbind (extractField m sdd add None s) (\<lambda>(field, s').
        let tag = m_tag field; cnt' = (if cnt < 3 then Suc cnt else cnt) in
        if cnt < 3 \<and> headerOrder ! cnt \<noteq> tag \<and> doValidation
        then Inl (InvalidMessage ''Header fields out of order'')
        else if isHeaderField tag sdd then
          let m1 = (if type \<noteq> kind_header then out_of_structure tag m else m);
              msg' = (if tag = F_MsgType then m_string field else msg);
              add' = (if tag = F_MsgType \<and> isAdminMsgType msg' then sdd else add);
              m2 = m1\<lparr>m_header := appendField field (m_header m1)\<rparr>
          in rbind (set_group_in n ''_header_'' field m2 s' (m_header m2) sdd) (\<lambda>(s'', h).
               setString_loop n doValidation sdd add' cnt' msg' type (m2\<lparr>m_header := h\<rparr>) s'')
        else if isTrailerField tag sdd then
          let m2 = m\<lparr>m_trailer := appendField field (m_trailer m)\<rparr>
          in rbind (set_group_in n ''_trailer_'' field m2 s' (m_trailer m2) sdd) (\<lambda>(s'', t).
               setString_loop n doValidation sdd add cnt' msg kind_trailer (m2\<lparr>m_trailer := t\<rparr>) s'')
        else
          let m1 = (if type = kind_trailer then out_of_structure tag m else m);
              m2 = m1\<lparr>m_body := appendField field (m_body m1)\<rparr>
          in rbind (set_group_in n msg field m2 s' (m_body m2) add) (\<lambda>(s'', b).
               setString_loop n doValidation sdd add cnt' msg kind_body (m2\<lparr>m_body := b\<rparr>) s'')))"

definition field_name :: "int \<Rightarrow> string" where
  "field_name field = (if field = F_BodyLength then ''BodyLength'' else ''CheckSum'')"

definition int_field :: "int \<Rightarrow> fieldmap \<Rightarrow> int result" where
  "int_field tag fm =
     (case rbind (getFieldRef tag fm) IntField_getValue of
        Inl (FieldNotFound f) \<Rightarrow> Inl (InvalidMessage (field_name f @ '' is missing''))
      | Inl (IncorrectDataFormat f d) \<Rightarrow> Inl (InvalidMessage (field_name f @ '' has wrong format: '' @ d))
      | r \<Rightarrow> r)"

text \<open>The lengths are compared as \<open>size_t\<close>.\<close>

definition validate_message :: "message \<Rightarrow> unit result" where
  "validate_message m =
     rbind (int_field F_BodyLength (m_header m)) (\<lambda>expectedLength.
       let e = expectedLength mod 2 ^ 64; r = bodyLength m mod 2 ^ 64 in
       if e \<noteq> r
       then Inl (InvalidMessage (''Expected BodyLength='' @ int_digits e @ '', Received BodyLength='' @ int_digits r))
       else rbind (int_field F_CheckSum (m_trailer m)) (\<lambda>expectedChecksum.
         if expectedChecksum \<noteq> checkSum m
         then Inl (InvalidMessage (''Expected CheckSum='' @ int_digits expectedChecksum @
                '', Received CheckSum='' @ int_digits (checkSum m)))
         else Inr ()))"

definition setString :: "string \<Rightarrow> bool \<Rightarrow> data_dictionary option \<Rightarrow> data_dictionary option \<Rightarrow> message \<Rightarrow> message result" where
  "setString s doValidation sdd add m =
     rbind (setString_loop (Suc (length s)) doValidation sdd add 0 [] kind_header (message_clear m) s) (\<lambda>m1.
       let m2 = m1\<lparr>m_header := sortFields (m_header m1), m_body := sortFields (m_body m1),
                   m_trailer := sortFields (m_trailer m1)\<rparr>
       in if doValidation then rbind (validate_message m2) (\<lambda>_. Inr m2) else Inr m2)"

text \<open>\<open>setStringHeader\<close> returns whether the first three fields are the expected ones.\<close>

fun header_loop :: "nat \<Rightarrow> nat \<Rightarrow> message \<Rightarrow> string \<Rightarrow> (bool \<times> message) result" where
  "header_loop 0 cnt m s = Inl (LogicError ''fuel'')"
| "header_loop (Suc n) cnt m s =
     (let done = Inr (True, m\<lparr>m_header := sortFields (m_header m)\<rparr>) in
      if s = [] then done
      else rbind (extractField m None None None s) (\<lambda>(field, s').
        if cnt < 3 \<and> headerOrder ! cnt \<noteq> m_tag field then Inr (False, m)
        else if isHeaderField (m_tag field) None
        then header_loop n (if cnt < 3 then Suc cnt else cnt)
               (m\<lparr>m_header := appendField field (m_header m)\<rparr>) s'
        else done))"

definition setStringHeader :: "string \<Rightarrow> message \<Rightarrow> (bool \<times> message) result" where
  "setStringHeader s m = header_loop (Suc (length s)) 0 (message_clear m) s"

text \<open>The constructors from a string.\<close>

definition Message_parse :: "string \<Rightarrow> bool \<Rightarrow> message result" where
  "Message_parse s doValidation = setString s doValidation None None Message_new"

definition Message_parse_dd :: "string \<Rightarrow> data_dictionary \<Rightarrow> bool \<Rightarrow> message result" where
  "Message_parse_dd s d doValidation = setString s doValidation (Some d) (Some d) Message_new"

definition Message_parse_dds :: "string \<Rightarrow> data_dictionary \<Rightarrow> data_dictionary \<Rightarrow> bool \<Rightarrow> message result" where
  "Message_parse_dds s sdd add doValidation = setString s doValidation (Some sdd) (Some add) Message_new"

definition Message_parse_orders :: "message_order \<Rightarrow> message_order \<Rightarrow> message_order \<Rightarrow> string
    \<Rightarrow> data_dictionary \<Rightarrow> data_dictionary \<Rightarrow> bool \<Rightarrow> message result" where
  "Message_parse_orders ho to bo s sdd add doValidation =
     rbind (setStringHeader s (Message_of_orders ho to bo)) (\<lambda>(_, m).
       setString s doValidation (Some sdd) (Some (if isAdmin m then sdd else add)) m)"

definition identifyType :: "string \<Rightarrow> string result" where
  "identifyType s =
     (case find_sub ([SOH] @ ''35='') s of
        None \<Rightarrow> Inl (MessageParseError [])
      | Some pos \<Rightarrow>
          let startValue = pos + 4 in
          (case find_from [SOH] s startValue of
             None \<Rightarrow> Inl (MessageParseError [])
           | Some soh \<Rightarrow> Inr (take (soh - startValue) (drop startValue s))))"

section \<open>Parsing fields\<close>

text \<open>A field that decodes is the front of the string; the rest is at least two bytes shorter.\<close>

lemma takeWhile_shorter: "length (takeWhile (\<lambda>x. x \<noteq> c) xs) \<noteq> length xs \<Longrightarrow>
   \<exists>ys. xs = takeWhile (\<lambda>x. x \<noteq> c) xs @ c # ys"
  by (induction xs) auto

lemma data_length_bound: "data_length m sdd g field vs = Inr n \<Longrightarrow> n < length vs \<and> vs ! n = SOH"
  by (auto simp: data_length_def Let_def split: sum.splits option.splits if_splits)

lemma extractField_Inr:
  assumes "extractField m sdd add g s = Inr (f, r)"
  obtains tag where "s = tag @ ''='' @ m_string f @ [SOH] @ r" "CHR ''='' \<notin> set tag"
    "IntConvertor_from tag = Some (m_tag f)"
    "m_metrics f = calculateMetrics (tag @ ''='' @ m_string f @ [SOH])"
proof -
  define tag where "tag = takeWhile (\<lambda>c. c \<noteq> CHR ''='') s"
  define v where "v = drop (Suc (length tag)) s"
  have ne: "length tag \<noteq> length s" using assms by (auto simp: extractField_def Let_def tag_def)
  obtain ys where s: "s = tag @ CHR ''='' # ys"
    using takeWhile_shorter [OF ne [unfolded tag_def]] unfolding tag_def by (rule exE)
  have v: "v = ys" by (simp add: v_def s)
  have soh: "length (takeWhile (\<lambda>c. c \<noteq> SOH) v) \<noteq> length v \<Longrightarrow>
      length (takeWhile (\<lambda>c. c \<noteq> SOH) v) < length v \<and> v ! length (takeWhile (\<lambda>c. c \<noteq> SOH) v) = SOH"
    using nth_length_takeWhile [of "\<lambda>c. c \<noteq> SOH" v] length_takeWhile_le [of "\<lambda>c. c \<noteq> SOH" v] by fastforce
  obtain n where t: "IntConvertor_from tag = Some (m_tag f)" and n: "n < length v" "v ! n = SOH"
    and f: "f = FieldBase_decoded (m_tag f) (take n v) (take (Suc (length tag) + n + 1) s)"
    and r: "r = drop (Suc (length tag) + n + 1) s"
    using assms soh ne data_length_bound [of m sdd g _ v]
    unfolding extractField_def Let_def tag_def [symmetric] v_def [symmetric]
    by (auto simp: FieldBase_decoded_def rbind_Inr split: if_splits option.splits) blast
  have ys: "ys = take n ys @ SOH # drop (Suc n) ys" using n v id_take_nth_drop [of n ys] by simp
  then have s': "s = tag @ ''='' @ take n ys @ [SOH] @ drop (Suc n) ys" using s by simp
  have "n < length ys" using n v by simp
  then have "take (Suc (length tag) + n + 1) s = tag @ ''='' @ take n ys @ [SOH]"
    "drop (Suc (length tag) + n + 1) s = drop (Suc n) ys"
    unfolding s' by simp_all
  moreover have "CHR ''='' \<notin> set tag" unfolding tag_def by (auto dest: set_takeWhileD)
  moreover have "m_string f = take n ys" "m_metrics f = calculateMetrics (take (Suc (length tag) + n + 1) s)"
    using arg_cong [OF f, of m_string] arg_cong [OF f, of m_metrics] by (simp_all add: FieldBase_decoded_def v)
  ultimately show ?thesis using that [of tag] s' t r by simp
qed

lemma extractField_Inl: "extractField m sdd add g s = Inl e \<Longrightarrow> \<exists>t. e = InvalidMessage t"
  by (auto simp: extractField_def data_length_def Let_def rbind_Inl split: if_splits option.splits sum.splits)

lemma extractField_shorter: "extractField m sdd add g s = Inr (f, r) \<Longrightarrow> length r + 2 \<le> length s"
  by (erule extractField_Inr) simp

text \<open>Decoding what the encoder printed: a value without SOH, a tag in the range of \<open>int\<close>.\<close>

definition encodable :: "field_base \<Rightarrow> bool" where
  "encodable f \<longleftrightarrow> - (2 ^ 31) \<le> m_tag f \<and> m_tag f < 2 ^ 31 \<and> SOH \<notin> set (m_string f)"

lemma extractField_encoded:
  assumes e: "encodable f" and d: "\<not> IsDataField (m_tag f) sdd add"
  shows "extractField m sdd add g (getFixString f @ rest) =
    Inr (FieldBase_decoded (m_tag f) (m_string f) (getFixString f), rest)"
proof -
  let ?t = "IntConvertor_to (m_tag f)"
  have t: "?t = int_digits (m_tag f)" using e by (simp add: encodable_def IntConvertor_to_digits)
  have n: "CHR ''='' \<notin> set ?t" by (simp add: t int_digits_neq)
  have s: "getFixString f @ rest = ?t @ CHR ''='' # m_string f @ SOH # rest" by (simp add: getFixString_def)
  have tw: "takeWhile (\<lambda>c. c \<noteq> CHR ''='') (getFixString f @ rest) = ?t" unfolding s by (rule takeWhile_sep [OF n])
  have v: "takeWhile (\<lambda>c. c \<noteq> SOH) (m_string f @ SOH # rest) = m_string f"
    using e by (simp add: encodable_def takeWhile_sep)
  show ?thesis
    unfolding extractField_def Let_def tw
    using e d by (simp add: s v encodable_def) (simp add: getFixString_def)
qed

section \<open>The loops end\<close>

definition ends_in :: "string \<Rightarrow> (string \<times> 'a) result \<Rightarrow> bool" where
  "ends_in s r \<longleftrightarrow> (case r of Inl e \<Rightarrow> \<exists>t. e = InvalidMessage t | Inr (s', _) \<Rightarrow> length s' \<le> length s)"

lemma ends_in_simps [simp]: "ends_in s (Inl (InvalidMessage t))" "ends_in s (Inr (s', x)) \<longleftrightarrow> length s' \<le> length s"
  by (simp_all add: ends_in_def)

lemma ends_in_rbind: "ends_in s' r \<Longrightarrow> length s' \<le> length s \<Longrightarrow>
    (\<And>s'' x. r = Inr (s'', x) \<Longrightarrow> length s'' \<le> length s' \<Longrightarrow> ends_in s (k (s'', x))) \<Longrightarrow> ends_in s (rbind r k)"
  by (cases r) (auto simp: ends_in_def)

lemma ends_in_extract:
  "(\<And>f s'. extractField m sdd add g s = Inr (f, s') \<Longrightarrow> length s' + 2 \<le> length s \<Longrightarrow> ends_in s (k (f, s'))) \<Longrightarrow>
   ends_in s (rbind (extractField m sdd add g s) k)"
  using extractField_Inl [of m sdd add g s] extractField_shorter [of m sdd add g s]
  by (cases "extractField m sdd add g s") (auto simp: ends_in_def)

lemma ends_in_weaken: "ends_in s' r \<Longrightarrow> length s' \<le> length s \<Longrightarrow> ends_in s r"
  by (auto simp: ends_in_def split: sum.splits)

lemma group_loop_ends: "length s < n \<Longrightarrow> ends_in s (group_loop n d pDD msg grp delim m s g fm)"
proof (induction n arbitrary: d pDD grp delim s g fm)
  case (Suc n)
  have add_to: "ends_in s (rbind (case dd_getGroup msg tag pDD of
        None \<Rightarrow> Inr (s', g') | Some (delim', pDD') \<Rightarrow> group_loop n pDD pDD' msg tag delim' m s' None g')
      (\<lambda>(s'', g''). group_loop n d pDD msg grp dl m s'' (Some g'') fm'))"
    if "length s' + 2 \<le> length s" for s' g' tag dl fm'
  proof (rule ends_in_rbind [where s' = s'])
    show "ends_in s' (case dd_getGroup msg tag pDD of
        None \<Rightarrow> Inr (s', g') | Some (delim', pDD') \<Rightarrow> group_loop n pDD pDD' msg tag delim' m s' None g')"
      using Suc that by (auto split: option.split)
    show "ends_in s (case (s'', x) of (s'', g'') \<Rightarrow> group_loop n d pDD msg grp dl m s'' (Some g'') fm')"
      if "length s'' \<le> length s'" for s'' x
      using Suc.IH [of s''] Suc.prems that \<open>length s' + 2 \<le> length s\<close> by (auto intro: ends_in_weaken [of s''])
  qed (use that in simp)
  show ?case
  proof (cases "s = []")
    case False
    show ?thesis
      unfolding group_loop.simps if_not_P [OF False]
      by (rule ends_in_extract; cases g) (auto simp: Let_def intro!: add_to)
  qed simp
qed simp

lemma set_group_in_ends: "length s < n \<Longrightarrow> ends_in s (set_group_in n msg field m s fm pD)"
  by (auto simp: set_group_in_def setGroup_def group_loop_ends split: option.split)

definition parse_ends :: "'a result \<Rightarrow> bool" where
  "parse_ends r \<longleftrightarrow> (\<forall>e. r = Inl e \<longrightarrow> (\<exists>t. e = InvalidMessage t))"

lemma parse_ends_simps [simp]: "parse_ends (Inr x)" "parse_ends (Inl (InvalidMessage t))"
  by (simp_all add: parse_ends_def)

lemma parse_ends_if: "parse_ends x \<Longrightarrow> parse_ends y \<Longrightarrow> parse_ends (if b then x else y)"
  by simp

lemma parse_ends_extract:
  "(\<And>f s'. extractField m sdd add g s = Inr (f, s') \<Longrightarrow> length s' + 2 \<le> length s \<Longrightarrow> parse_ends (k (f, s'))) \<Longrightarrow>
   parse_ends (rbind (extractField m sdd add g s) k)"
  using extractField_Inl [of m sdd add g s] extractField_shorter [of m sdd add g s]
  by (cases "extractField m sdd add g s") (auto simp: parse_ends_def)

lemma parse_ends_group:
  "length s' < n \<Longrightarrow> (\<And>s'' x. length s'' \<le> length s' \<Longrightarrow> parse_ends (k (s'', x))) \<Longrightarrow>
   parse_ends (rbind (set_group_in n msg field m s' fm pD) k)"
  using set_group_in_ends [of s' n msg field m fm pD]
  by (cases "set_group_in n msg field m s' fm pD") (auto simp: parse_ends_def ends_in_def)

lemma setString_loop_ends:
  "length s < n \<Longrightarrow> parse_ends (setString_loop n doValidation sdd add cnt msg type m s)"
proof (induction n arbitrary: add cnt msg type m s)
  case (Suc n)
  have next': "parse_ends (rbind (set_group_in n g field m' s' fm pD) (\<lambda>(s'', x).
      setString_loop n doValidation sdd add' cnt' msg' type' (upd x) s''))"
    if "length s' + 2 \<le> length s" for g field m' s' fm pD add' cnt' msg' type' and upd :: "fieldmap \<Rightarrow> message"
    using that Suc.prems by (intro parse_ends_group) (auto intro!: Suc.IH)
  show ?case
  proof (cases "s = []")
    case False
    show ?thesis
      unfolding setString_loop.simps if_not_P [OF False] Let_def
      by (rule parse_ends_extract, simp only: split_conv) (intro parse_ends_if parse_ends_simps next')
  qed simp
qed simp

lemma int_field_error: "int_field t fm = Inl e \<Longrightarrow> \<exists>s. e = InvalidMessage s"
  by (auto simp: int_field_def getFieldRef_def IntField_getValue_def rbind_def split: sum.splits option.splits exn.splits)

lemma validate_message_ends: "parse_ends (validate_message m)"
  by (auto simp: validate_message_def parse_ends_def rbind_Inl Let_def split: if_splits dest!: int_field_error)

lemma setString_ends: "parse_ends (setString s doValidation sdd add m)"
proof -
  have v: "parse_ends (rbind (validate_message m2) (\<lambda>_. Inr m2))" for m2
    using validate_message_ends [of m2] by (cases "validate_message m2") (auto simp: parse_ends_def)
  show ?thesis
    using setString_loop_ends [of s "Suc (length s)" doValidation sdd add 0 "[]" kind_header "message_clear m"] v
    by (cases "setString_loop (Suc (length s)) doValidation sdd add 0 [] kind_header (message_clear m) s")
      (auto simp: setString_def Let_def parse_ends_def simp del: setString_loop.simps)
qed

lemma header_loop_ends: "length s < n \<Longrightarrow> parse_ends (header_loop n cnt m s)"
proof (induction n arbitrary: cnt m s)
  case (Suc n)
  show ?case
  proof (cases "s = []")
    case False
    then show ?thesis using Suc
      by (simp only: header_loop.simps Let_def if_False)
        (rule parse_ends_extract, auto)
  qed simp
qed simp

section \<open>Validation of a printed message\<close>

lemma list_all_subset: "list_all P xs \<Longrightarrow> set ys \<subseteq> set xs \<Longrightarrow> list_all P ys"
  by (auto simp: list_all_iff)

lemma getFieldRef_value:
  "field_value t fm = Some v \<Longrightarrow> \<exists>f. getFieldRef t fm = Inr f \<and> m_string f = v"
  by (auto simp: field_value_def getFieldIfSet_def getFieldRef_def)

lemma int_field_value:
  "field_value t fm = Some v \<Longrightarrow> IntConvertor_from v = Some n \<Longrightarrow> int_field t fm = Inr n"
  using getFieldRef_value [of t fm v] by (auto simp: int_field_def IntField_getValue_def)

lemma validate_printed:
  assumes w: "well_framed m" and v: "field_value F_BeginString (m_header m) = Some v"
    and n: "length (payload m) < 2 ^ 31"
  shows "validate_message (printed m (checksum_text (frame_checksum v (payload m)))) = Inr ()"
proof -
  let ?n = "length (payload m)" and ?c = "frame_checksum v (payload m)"
  let ?h = "setField (FieldBase F_BodyLength (dec_digits ?n)) True (m_header m)"
  let ?t = "setField (FieldBase F_CheckSum (checksum_text ?c)) True (m_trailer m)"
  let ?N = "\<lambda>fm. no_frame_tags (wire_fields fm)"
  have digits: "IntConvertor_to (int ?n) = dec_digits ?n" using n by (simp add: IntConvertor_to_digits int_digits_def)
  have p: "printed m (checksum_text ?c) = m\<lparr>m_header := ?h, m_trailer := ?t\<rparr>"
    by (simp add: printed_def IntField_def digits)
  have s: "fm_inv (m_header m)" "fm_inv (m_trailer m)" and b: "?N (m_body m) = wire_fields (m_body m)"
    and ok: "list_all metrics_ok (wire_fields (m_header m))" "list_all metrics_ok (wire_fields (m_body m))"
      "list_all metrics_ok (wire_fields (m_trailer m))" and gb: "groups_counted (m_body m)"
    using w by (auto simp: well_framed_def no_frame_tags_def filter_id_conv list_all_iff)
  have gh: "groups_counted ?h" and gt: "groups_counted ?t"
    using w by (auto simp: well_framed_def fm_inv_def FieldBase_def intro!: setField_counted [of _ frame_tags])
  obtain f8 f9 where h: "wire_fields ?h = f8 # f9 # ?N (m_header m)" "f8 \<in> set (m_fields ?h)" "f9 \<in> set (m_fields ?h)"
      "m_tag f8 = F_BeginString" "m_string f8 = v" "m_tag f9 = F_BodyLength" "m_string f9 = dec_digits ?n"
    using header_wire [OF s(1) _ _ v, of "dec_digits ?n"] w by (auto simp: well_framed_def no_frame_tags_def)
  obtain f10 where t: "wire_fields ?t = ?N (m_trailer m) @ [f10]" "m_tag f10 = F_CheckSum"
    using trailer_wire [OF s(2), of "checksum_text ?c"] w by (auto simp: well_framed_def no_frame_tags_def)
  have "list_all metrics_ok (m_fields ?h)"
    by (intro setField_metrics metrics_ok_FieldBase list_all_subset [OF ok(1) wire_fields_sub])
  then have m: "metrics_ok f8" "metrics_ok f9" using h by (auto simp: list_all_iff)
  have nn: "no_frame_tags (f8 # f9 # ?N fm) = ?N fm" "no_frame_tags [f10] = []" for fm
    using h t by (simp_all add: no_frame_tags_def)
  have len: "bodyLength (printed m (checksum_text ?c)) = int ?n"
    using bodyLength_wire [OF w] by (simp add: p bodyLength_def calculateLength_wire gh gb gt h(1) t(1) nn)
  have ten: "filter (\<lambda>f. m_tag f \<noteq> F_CheckSum) (?N fm) = ?N fm" for fm
    by (auto simp: no_frame_tags_def intro!: filter_cong)
  have str: "getFixString f8 = ''8='' @ v @ [SOH]" "getFixString f9 = ''9='' @ dec_digits ?n @ [SOH]"
    by (simp_all add: getFixString_def h frame_tag_text)
  have "filter (\<lambda>f. m_tag f \<noteq> F_CheckSum) (wire_fields (m_body m)) = wire_fields (m_body m)"
    using ten [of "m_body m"] b by simp
  moreover have pay: "byte_sum (payload m) = byte_sum (concat (map getFixString (?N (m_header m)))) +
      byte_sum (concat (map getFixString (wire_fields (m_body m)))) + byte_sum (concat (map getFixString (?N (m_trailer m))))"
    by (simp add: payload_def payload_fields_def b)
  ultimately have "checkSum (printed m (checksum_text ?c)) =
      byte_sum (''8='' @ v @ [SOH] @ ''9='' @ dec_digits ?n @ [SOH] @ payload m) smod 256"
    using m ok t(2) h(4,6) by (simp add: p checkSum_def calculateTotal_wire gh gb gt h(1) t(1) ten metrics_sums(2) no_frame_metrics
        getTotal_def metrics_okD calculateMetrics_def str add.assoc)
  also have "\<dots> = int ?c" unfolding frame_checksum_def by (subst smod_nonneg) simp_all
  finally have sum: "checkSum (printed m (checksum_text ?c)) = int ?c" .
  have "field_value F_BodyLength ?h = Some (dec_digits ?n)" "field_value F_CheckSum ?t = Some (checksum_text ?c)"
    using s by (simp_all add: fm_inv_def field_value_setField FieldBase_def)
  moreover have "IntConvertor_from (dec_digits ?n) = Some (int ?n)" using IntConvertor_roundtrip [of "int ?n"] digits n by simp
  ultimately have "int_field F_BodyLength ?h = Inr (int ?n)" "int_field F_CheckSum ?t = Inr (int ?c)"
    using checksum_text_value [OF frame_checksum_less [of v "payload m"]] by (simp_all add: int_field_value)
  then show ?thesis using len sum by (simp add: validate_message_def Let_def p)
qed

section \<open>Reading back a printed message\<close>

text \<open>
  Without a dictionary the parser files each field in the header, the body or the trailer by
  its tag: \<open>place\<close> says how, without positions and bytes. A field read back is the field
  that was printed, with the metrics of its wire form.
\<close>

definition redecode :: "field_base \<Rightarrow> field_base" where
  "redecode f = FieldBase_decoded (m_tag f) (m_string f) (getFixString f)"

lemma redecode_sel [simp]: "m_tag (redecode f) = m_tag f" "m_string (redecode f) = m_string f"
  "m_metrics (redecode f) = calculateMetrics (getFixString f)"
  by (simp_all add: redecode_def FieldBase_decoded_def)

fun place :: "field_kind \<Rightarrow> message \<Rightarrow> field_base list \<Rightarrow> message" where
  "place type m [] = m"
| "place type m (f # fs) =
     (if isHeaderField (m_tag f) None
      then place type ((if type \<noteq> kind_header then out_of_structure (m_tag f) m else m)
             \<lparr>m_header := appendField (redecode f) (m_header m)\<rparr>) fs
      else if isTrailerField (m_tag f) None
      then place kind_trailer (m\<lparr>m_trailer := appendField (redecode f) (m_trailer m)\<rparr>) fs
      else place kind_body ((if type = kind_trailer then out_of_structure (m_tag f) m else m)
             \<lparr>m_body := appendField (redecode f) (m_body m)\<rparr>) fs)"

lemma out_of_structure_sel [simp]: "m_header (out_of_structure t m) = m_header m"
  "m_body (out_of_structure t m) = m_body m" "m_trailer (out_of_structure t m) = m_trailer m"
  by (simp_all add: out_of_structure_def)

lemma getFixString_length: "2 \<le> length (getFixString f)"
  by (simp add: getFixString_def)

lemma setString_loop_place:
  "list_all encodable fs \<Longrightarrow> length (concat (map getFixString fs)) < n \<Longrightarrow>
   doValidation \<longrightarrow> (\<forall>i. cnt + i < 3 \<longrightarrow> i < length fs \<longrightarrow> m_tag (fs ! i) = headerOrder ! (cnt + i)) \<Longrightarrow>
   setString_loop n doValidation None None cnt msg type m (concat (map getFixString fs)) = Inr (place type m fs)"
proof (induction fs arbitrary: n cnt msg type m)
  case Nil
  then show ?case by (cases n) auto
next
  case (Cons f fs)
  obtain k where n: "n = Suc k" using Cons.prems(2) by (cases n) auto
  let ?r = "concat (map getFixString fs)"
  have ne: "getFixString f @ ?r \<noteq> []" by (simp add: getFixString_def)
  have x: "extractField m None None None (getFixString f @ ?r) = Inr (redecode f, ?r)" for m
    using extractField_encoded [of f None None m None ?r] Cons.prems(1) by (simp add: IsDataField_def redecode_def)
  have len: "length ?r < k" using Cons.prems(2) n getFixString_length [of f] by simp
  have first: "\<not> (cnt < 3 \<and> headerOrder ! cnt \<noteq> m_tag f \<and> doValidation)"
    using Cons.prems(3) [THEN mp, THEN spec, of 0] by auto
  have c: "doValidation \<longrightarrow> (\<forall>i. (if cnt < 3 then Suc cnt else cnt) + i < 3 \<longrightarrow> i < length fs \<longrightarrow>
      m_tag (fs ! i) = headerOrder ! ((if cnt < 3 then Suc cnt else cnt) + i))"
  proof (intro impI allI)
    fix i assume "doValidation" "(if cnt < 3 then Suc cnt else cnt) + i < 3" "i < length fs"
    then show "m_tag (fs ! i) = headerOrder ! ((if cnt < 3 then Suc cnt else cnt) + i)"
      using Cons.prems(3) [THEN mp, THEN spec, of "Suc i"] by (cases "cnt < 3") auto
  qed
  note IH = Cons.IH [OF _ len c]
  show ?case
    unfolding n list.map concat.simps setString_loop.simps if_not_P [OF ne] x rbind_simps split_conv Let_def redecode_sel
      if_not_P [OF first]
    using Cons.prems(1) by (simp add: set_group_in_def IH)
qed

lemma place_parts:
  "\<forall>f\<in>set hs. isHeaderField (m_tag f) None \<Longrightarrow>
   \<forall>f\<in>set bs. \<not> isHeaderField (m_tag f) None \<and> \<not> isTrailerField (m_tag f) None \<Longrightarrow>
   \<forall>f\<in>set ts. \<not> isHeaderField (m_tag f) None \<and> isTrailerField (m_tag f) None \<Longrightarrow>
   place kind_header m (hs @ bs @ ts) =
     m\<lparr>m_header := set_fields (m_fields (m_header m) @ map redecode hs) (m_header m),
       m_body := set_fields (m_fields (m_body m) @ map redecode bs) (m_body m),
       m_trailer := set_fields (m_fields (m_trailer m) @ map redecode ts) (m_trailer m)\<rparr>"
proof -
  have self: "set_fields (m_fields fm) fm = fm" "set_fields xs (set_fields ys fm) = set_fields xs fm" for fm xs ys
    by (simp_all add: set_fields_def)
  have t: "place type m ts = m\<lparr>m_trailer := set_fields (m_fields (m_trailer m) @ map redecode ts) (m_trailer m)\<rparr>"
    if "\<forall>f\<in>set ts. \<not> isHeaderField (m_tag f) None \<and> isTrailerField (m_tag f) None" for type m ts
    using that by (induction ts arbitrary: type m) (auto simp: self appendField_def)
  have b: "type \<noteq> kind_trailer \<Longrightarrow> place type m (bs @ ts) =
      place (if bs = [] then type else kind_body) (m\<lparr>m_body := set_fields (m_fields (m_body m) @ map redecode bs) (m_body m)\<rparr>) ts"
    if "\<forall>f\<in>set bs. \<not> isHeaderField (m_tag f) None \<and> \<not> isTrailerField (m_tag f) None" for type m bs ts
    using that by (induction bs arbitrary: type m) (auto simp: self appendField_def)
  have h: "place kind_header m (hs @ rest) =
      place kind_header (m\<lparr>m_header := set_fields (m_fields (m_header m) @ map redecode hs) (m_header m)\<rparr>) rest"
    if "\<forall>f\<in>set hs. isHeaderField (m_tag f) None" for m hs rest
    using that by (induction hs arbitrary: m) (auto simp: self appendField_def)
  assume "\<forall>f\<in>set hs. isHeaderField (m_tag f) None"
    "\<forall>f\<in>set bs. \<not> isHeaderField (m_tag f) None \<and> \<not> isTrailerField (m_tag f) None"
    "\<forall>f\<in>set ts. \<not> isHeaderField (m_tag f) None \<and> isTrailerField (m_tag f) None"
  then show ?thesis by (simp add: h b t)
qed

lemma sort_fields_id: "sorted_tags cmp fs \<Longrightarrow> sort_fields cmp fs = fs"
proof (induction fs)
  case (Cons f fs)
  then have "sort_fields cmp fs = fs" "\<forall>g\<in>set fs. \<not> cmp (m_tag g) (m_tag f)" by (simp_all add: sorted_tags_def)
  then show ?case by (cases fs) (auto simp: sort_fields_def)
qed (simp add: sort_fields_def)


definition reread_map :: "fieldmap \<Rightarrow> fieldmap" where
  "reread_map fm = set_fields (map redecode (m_fields fm)) fm"

definition reread :: "message \<Rightarrow> message" where
  "reread m = \<lparr>m_header = reread_map (m_header m), m_body = reread_map (m_body m),
     m_trailer = reread_map (m_trailer m), m_validStructure = True, msg_tag = 0\<rparr>"

text \<open>Reading back changes nothing the lookups and the checks see.\<close>

lemma find_index_map: "find_index P (map f xs) = find_index (P \<circ> f) xs"
  by (induction xs) auto

lemma findTag_reread: "findTag (reread_map fm) t = findTag fm t"
proof -
  have "length (takeWhile (\<lambda>f. c (m_tag f) t) (map redecode fs)) = length (takeWhile (\<lambda>f. c (m_tag f) t) fs)" for c fs
    by (simp add: takeWhile_map comp_def)
  then have l: "lower_bound c (map redecode fs) t = lower_bound c fs t" for c fs by (simp add: lower_bound_def)
  have t: "i < length fs \<Longrightarrow> m_tag (map redecode fs ! i) = m_tag (fs ! i)" for i fs by simp
  show ?thesis
    by (auto simp: reread_map_def findTag_def lookup_def l find_index_map comp_def Let_def)
qed

lemma reread_map_fields: "m_fields (reread_map fm) = map redecode (m_fields fm)"
  by (simp add: reread_map_def)

lemma findTag_bound: "findTag fm t = Some i \<Longrightarrow> i < length (m_fields fm)"
  by (auto simp: findTag_def lookup_def Let_def find_index_Some split: if_splits)

lemma int_field_reread: "int_field t (reread_map fm) = int_field t fm"
proof -
  have "rbind (getFieldRef t (reread_map fm)) IntField_getValue = rbind (getFieldRef t fm) IntField_getValue"
    using findTag_bound [of fm t]
    by (cases "findTag fm t") (auto simp: getFieldRef_def findTag_reread IntField_getValue_def reread_map_fields cong: option.case_cong)
  then show ?thesis by (simp add: int_field_def)
qed

lemma metrics_redecode: "metrics_ok f \<Longrightarrow> getLength (redecode f) = getLength f \<and> getTotal (redecode f) = getTotal f"
proof -
  assume m: "metrics_ok f"
  have "metrics_ok (redecode f)" by (simp add: metrics_ok_def getFixString_def)
  moreover have "getFixString (redecode f) = getFixString f" by (simp add: getFixString_def)
  ultimately show ?thesis using m by (simp add: getLength_def getTotal_def metrics_okD)
qed

lemma calculate_reread:
  assumes "m_groups fm = []" "list_all metrics_ok (m_fields fm)"
  shows "calculateLength b l c (reread_map fm) = calculateLength b l c fm"
    "calculateTotal c (reread_map fm) = calculateTotal c fm"
proof -
  obtain fs mo where fm: "fm = FieldMap fs [] mo" using assms(1) by (cases fm) auto
  have *: "sum_list (map getLength (filter P (map redecode xs))) = sum_list (map getLength (filter (P \<circ> redecode) xs))"
    "sum_list (map getTotal (filter P (map redecode xs))) = sum_list (map getTotal (filter (P \<circ> redecode) xs))"
    if "list_all metrics_ok xs" for P xs
    using that by (induction xs) (auto simp: metrics_redecode)
  show "calculateLength b l c (reread_map fm) = calculateLength b l c fm"
    "calculateTotal c (reread_map fm) = calculateTotal c fm"
    using assms(2) by (simp_all add: fm reread_map_def set_fields_def * comp_def)
qed

definition flat :: "message \<Rightarrow> bool" where
  "flat m \<longleftrightarrow> m_groups (m_header m) = [] \<and> m_groups (m_body m) = [] \<and> m_groups (m_trailer m) = [] \<and>
     list_all (\<lambda>f. encodable f \<and> metrics_ok f) (m_fields (m_header m) @ m_fields (m_body m) @ m_fields (m_trailer m))"

lemma validate_reread: "flat m \<Longrightarrow> validate_message (reread m) = validate_message m"
proof -
  assume f: "flat m"
  have "bodyLength (reread m) = bodyLength m" "checkSum (reread m) = checkSum m"
    using f by (auto simp: flat_def bodyLength_def checkSum_def reread_def calculate_reread list_all_iff)
  moreover have "m_header (reread m) = reread_map (m_header m)" "m_trailer (reread m) = reread_map (m_trailer m)"
    by (simp_all add: reread_def)
  ultimately show ?thesis by (simp add: validate_message_def int_field_reread Let_def cong: if_cong)
qed

text \<open>
  A message without groups whose fields are where the parser would file them, in their
  orders.
\<close>

definition filed :: "message \<Rightarrow> bool" where
  "filed m \<longleftrightarrow> flat m \<and>
     list_all (\<lambda>f. isHeaderField (m_tag f) None) (m_fields (m_header m)) \<and>
     list_all (\<lambda>f. \<not> isHeaderField (m_tag f) None \<and> \<not> isTrailerField (m_tag f) None) (m_fields (m_body m)) \<and>
     list_all (\<lambda>f. \<not> isHeaderField (m_tag f) None \<and> isTrailerField (m_tag f) None) (m_fields (m_trailer m)) \<and>
     fm_sorted (m_header m) \<and> m_order (m_header m) = message_order_of_mode mode_header \<and>
     fm_sorted (m_body m) \<and> m_order (m_body m) = message_order_of_mode mode_normal \<and>
     fm_sorted (m_trailer m) \<and> m_order (m_trailer m) = message_order_of_mode mode_trailer"

lemma calculateString_flat: "m_groups fm = [] \<Longrightarrow> calculateString fm = concat (map getFixString (m_fields fm))"
  by (cases fm) simp

lemma sorted_reread: "sorted_tags c fs \<Longrightarrow> sorted_tags c (map redecode fs)"
  by (simp add: sorted_tags_def sorted_wrt_map)

lemma setString_printed:
  assumes f: "filed m"
    and first: "doValidation \<longrightarrow> take 3 (map m_tag (m_fields (m_header m))) = headerOrder"
    and v: "doValidation \<longrightarrow> validate_message m = Inr ()"
  shows "Message_parse (calculateString (m_header m) @ calculateString (m_body m) @ calculateString (m_trailer m)) doValidation
    = Inr (reread m)"
proof -
  let ?hs = "m_fields (m_header m)" and ?bs = "m_fields (m_body m)" and ?ts = "m_fields (m_trailer m)"
  let ?s = "concat (map getFixString (?hs @ ?bs @ ?ts))"
  have g: "m_groups (m_header m) = []" "m_groups (m_body m) = []" "m_groups (m_trailer m) = []"
    and e: "list_all encodable (?hs @ ?bs @ ?ts)"
    and fl: "flat m" using f by (auto simp: filed_def flat_def list_all_iff)
  have s: "calculateString (m_header m) @ calculateString (m_body m) @ calculateString (m_trailer m) = ?s"
    using g by (simp add: calculateString_flat)
  have hd: "doValidation \<longrightarrow> (\<forall>i. 0 + i < 3 \<longrightarrow> i < length (?hs @ ?bs @ ?ts) \<longrightarrow>
      m_tag ((?hs @ ?bs @ ?ts) ! i) = headerOrder ! (0 + i))"
  proof (intro impI allI)
    fix i :: nat assume d: "doValidation" and i: "0 + i < 3"
    have t: "take 3 (map m_tag ?hs) = headerOrder" using first d by simp
    then have "length headerOrder = min 3 (length ?hs)" by (metis length_map length_take min.commute)
    then have "i < length ?hs" using i by (simp add: headerOrder_def min_def split: if_splits)
    then show "m_tag ((?hs @ ?bs @ ?ts) ! i) = headerOrder ! (0 + i)"
      using nth_take [of i 3 "map m_tag ?hs"] i by (simp add: nth_append t)
  qed
  have "setString_loop (Suc (length ?s)) doValidation None None 0 [] kind_header (message_clear Message_new) ?s =
      Inr (place kind_header (message_clear Message_new) (?hs @ ?bs @ ?ts))"
    by (rule setString_loop_place [OF e _ hd]) simp
  also have "place kind_header (message_clear Message_new) (?hs @ ?bs @ ?ts) =
      \<lparr>m_header = reread_map (m_header m), m_body = reread_map (m_body m), m_trailer = reread_map (m_trailer m),
        m_validStructure = True, msg_tag = 0\<rparr>"
    using f g by (subst place_parts) (auto simp: filed_def list_all_iff message_clear_def Message_new_def
        Message_of_orders_def FieldMap_new_def clear_def set_fields_def reread_map_def)
  finally have l: "setString_loop (Suc (length ?s)) doValidation None None 0 [] kind_header (message_clear Message_new) ?s =
      Inr (reread m)" by (simp add: reread_def)
  have so: "sortFields (reread_map fm) = reread_map fm" if "fm_sorted fm" for fm
    using that by (simp add: sortFields_def reread_map_def fm_sorted_def sort_fields_id sorted_reread) (simp add: set_fields_def)
  have "sortFields (m_header (reread m)) = m_header (reread m)" "sortFields (m_body (reread m)) = m_body (reread m)"
    "sortFields (m_trailer (reread m)) = m_trailer (reread m)"
    using f by (simp_all add: filed_def reread_def so)
  moreover have "doValidation \<Longrightarrow> validate_message (reread m) = Inr ()" using v validate_reread [OF fl] by simp
  ultimately show ?thesis unfolding s Message_parse_def setString_def l by (simp add: Let_def)
qed

text \<open>A message ready to be printed is one that can be read back once it is.\<close>

definition sendable :: "message \<Rightarrow> bool" where
  "sendable m \<longleftrightarrow> well_framed m \<and> filed m \<and> isSetField F_MsgType (m_header m)"

lemma set_value_in: "fm_sorted fm \<Longrightarrow> t \<in> m_tag ` set (m_fields fm) \<longleftrightarrow> field_value t fm \<noteq> None"
proof -
  assume s: "fm_sorted fm"
  have "field_value t fm \<noteq> None \<longleftrightarrow> isSetField t fm" by (simp add: field_value_isSet)
  then show ?thesis using findTag_sorted [OF s, of t] by (auto simp: isSetField_def find_index_None)
qed

lemma setField_all:
  "P f \<Longrightarrow> list_all P (m_fields fm) \<Longrightarrow> (\<And>g. m_tag g = m_tag f \<Longrightarrow> P (field_setString (m_string f) g)) \<Longrightarrow>
   fm_sorted fm \<Longrightarrow> list_all P (m_fields (setField f True fm))"
proof -
  assume f: "P f" "list_all P (m_fields fm)" "\<And>g. m_tag g = m_tag f \<Longrightarrow> P (field_setString (m_string f) g)" "fm_sorted fm"
  show ?thesis
  proof (cases "findTag fm (m_tag f)")
    case (Some i)
    then have "m_tag (m_fields fm ! i) = m_tag f" using findTag_sorted [OF f(4)] by (simp add: find_index_Some)
    then show ?thesis using Some f set_update_subset_insert [of "m_fields fm" i "field_setString (m_string f) (m_fields fm ! i)"]
      by (auto simp: setField_def list_all_iff)
  qed (use f in \<open>auto simp: setField_def addField_def list_all_iff\<close>)
qed

lemma frame_kinds: "isHeaderField F_BodyLength None" "\<not> isHeaderField F_CheckSum None" "isTrailerField F_CheckSum None"
  by (simp_all add: isHeaderField_def header_tags_def isTrailerField_def trailer_tags_def)

lemma printed_filed:
  assumes "sendable m" "length (payload m) < 2 ^ 31" "n < 256"
  shows "filed (printed m (checksum_text n))"
proof -
  let ?h = "FieldBase F_BodyLength (dec_digits (length (payload m)))" and ?t = "FieldBase F_CheckSum (checksum_text n)"
  have digits: "IntConvertor_to (int (length (payload m))) = dec_digits (length (payload m))"
    using assms(2) by (simp add: IntConvertor_to_digits int_digits_def)
  have p: "printed m (checksum_text n) = m\<lparr>m_header := setField ?h True (m_header m), m_trailer := setField ?t True (m_trailer m)\<rparr>"
    by (simp add: printed_def IntField_def digits)
  have s: "fm_sorted (m_header m)" "fm_sorted (m_trailer m)" using assms by (simp_all add: sendable_def filed_def)
  have soh: "SOH \<notin> set (checksum_text n)" "SOH \<notin> set (dec_digits k)" for k
  proof -
    have "SOH \<noteq> digit_char d" if "d < 10" for d using is_digit_digit_char [OF that] not_digit(1) by metis
    then show "SOH \<notin> set (checksum_text n)" using assms(3) by (simp add: checksum_text_def)
  qed simp
  let ?P = "\<lambda>f. encodable f \<and> metrics_ok f"
  have "list_all ?P (m_fields (setField ?h True (m_header m)))" "list_all ?P (m_fields (setField ?t True (m_trailer m)))"
    using assms s soh by (auto simp: sendable_def filed_def flat_def encodable_def FieldBase_def field_setString_def
        metrics_ok_def no_metrics_def intro!: setField_all)
  moreover have "list_all (\<lambda>f. isHeaderField (m_tag f) None) (m_fields (setField ?h True (m_header m)))"
    "list_all (\<lambda>f. \<not> isHeaderField (m_tag f) None \<and> isTrailerField (m_tag f) None) (m_fields (setField ?t True (m_trailer m)))"
    using assms s frame_kinds by (auto simp: sendable_def filed_def FieldBase_def field_setString_def intro!: setField_all)
  ultimately show ?thesis
    using assms(1) s by (auto simp: p sendable_def filed_def flat_def setField_parts fm_sorted_setField)
qed

lemma printed_order:
  assumes m: "sendable m" "field_value F_BeginString (m_header m) = Some v"
  shows "take 3 (map m_tag (m_fields (m_header (printed m cs)))) = headerOrder"
proof -
  let ?h = "\<lambda>l. setField (FieldBase F_BodyLength l) True (m_header m)"
  have s: "fm_inv (m_header m)" "fm_sorted (m_header m)" and g: "m_groups (m_header m) = []"
    using m by (simp_all add: sendable_def well_framed_def filed_def flat_def fm_inv_def)
  have w: "wire_fields fm = m_fields fm" if "m_groups fm = []" for fm
    using that by (cases fm) (simp add: Let_def)
  define l where "l = IntConvertor_to (int (length (payload m)))"
  obtain f8 f9 where h: "m_fields (?h l) = f8 # f9 # no_frame_tags (m_fields (m_header m))"
      "m_tag f8 = F_BeginString" "m_tag f9 = F_BodyLength"
    using header_wire [OF s(1) _ _ m(2), of l] m(1) g setField_parts(1) [OF s(2), of "FieldBase F_BodyLength l"]
    by (auto simp: sendable_def well_framed_def no_frame_tags_def w)
  let ?q = "no_frame_tags (m_fields (m_header m))"
  have i: "fm_inv (?h l)" using s by simp
  have o: "order_less (m_order (?h l)) = header_order_compare"
    using m(1) by (auto simp: setField_parts(2) [OF s(2)] sendable_def well_framed_def order_less_def message_order_of_mode_def fun_eq_iff)
  have st: "sorted_tags header_order_compare (m_fields (?h l))" using i o by (simp add: fm_inv_def fm_sorted_def)
  have in35: "F_MsgType \<in> m_tag ` set ?q"
    using m(1) s set_value_in [OF s(2), of F_MsgType] by (force simp: sendable_def field_value_isSet no_frame_tags_def)
  obtain f35 r where q: "?q = f35 # r" "m_tag f35 = F_MsgType"
  proof (rule sorted_first [OF _ in35])
    show "sorted_tags header_order_compare ?q" using st h by (simp add: sorted_tags_def)
    show "header_order_compare F_MsgType (m_tag g)" if "g \<in> set ?q" "m_tag g \<noteq> F_MsgType" for g
      using that by (auto simp: no_frame_tags_def header_order_compare_def compare_ordered_def header_position_def)
  qed
  show ?thesis using h q by (simp add: printed_def IntField_def l_def [symmetric] headerOrder_def)
qed

lemma toString_string:
  "toString b l c m = Inr (s, m') \<Longrightarrow> s = calculateString (m_header m') @ calculateString (m_body m') @ calculateString (m_trailer m')"
  by (auto simp: toString_def Let_def rbind_Inr split: prod.splits)

lemma parse_printed:
  assumes m: "sendable m" "field_value F_BeginString (m_header m) = Some v" and n: "length (payload m) < 2 ^ 31"
  shows "\<exists>s m'. toString_default m = Inr (s, m') \<and> Message_parse s True = Inr (reread m')"
proof -
  let ?p = "printed m (checksum_text (frame_checksum v (payload m)))"
  have w: "well_framed m" using m by (simp add: sendable_def)
  have t: "toString_default m = Inr (fix_frame v (payload m), ?p)" by (rule toString_frame [OF w m(2) n])
  then have c: "fix_frame v (payload m) = calculateString (m_header ?p) @ calculateString (m_body ?p) @ calculateString (m_trailer ?p)"
    by (rule toString_string)
  have "Message_parse (fix_frame v (payload m)) True = Inr (reread ?p)"
    unfolding c using printed_order [OF m] validate_printed [OF w m(2) n]
    by (intro setString_printed printed_filed [OF m(1) n frame_checksum_less]) simp_all
  then show ?thesis using t by blast
qed

section \<open>Properties\<close>

definition sample_heartbeat :: message where
  "sample_heartbeat =
     \<lparr>m_header = FieldMap [FieldBase 8 ''FIX.4.2'', FieldBase 35 ''0'', FieldBase 34 ''1''] []
       (message_order_of_mode mode_header),
      m_body = FieldMap [FieldBase 112 ''TEST''] [] (message_order_of_mode mode_normal),
      m_trailer = FieldMap [] [] (message_order_of_mode mode_trailer), m_validStructure = True, msg_tag = 0\<rparr>"

lemma sample_tags: "IntConvertor_to 35 = ''35''" "IntConvertor_to 34 = ''34''" "IntConvertor_to 112 = ''112''"
  by code_simp+

lemma sample_heartbeat_sendable: "sendable sample_heartbeat"
  by (simp add: sample_heartbeat_def sendable_def well_framed_def filed_def flat_def fm_inv_def fm_sorted_def sorted_tags_def
      distinct_tags_def order_less_def message_order_of_mode_def order_ok_def header_order_compare_def compare_ordered_def
      header_position_def outside_groups_def field_value_def getFieldIfSet_def isSetField_def findTag_def lookup_def
      encodable_def isHeaderField_def isTrailerField_def header_tags_def trailer_tags_def metrics_ok_def no_metrics_def
      FieldBase_def Let_def)

lemma sample_heartbeat_payload:
  "payload sample_heartbeat = ''35=0'' @ [SOH] @ ''34=1'' @ [SOH] @ ''112=TEST'' @ [SOH]"
  by (simp add: sample_heartbeat_def payload_def payload_fields_def no_frame_tags_def Let_def getFixString_def
      FieldBase_def sample_tags)

lemma sample_heartbeat_version: "field_value F_BeginString (m_header sample_heartbeat) = Some ''FIX.4.2''"
  by (simp add: sample_heartbeat_def field_value_def getFieldIfSet_def findTag_def lookup_def FieldBase_def)

lemmas sample_heartbeat_facts = sample_heartbeat_sendable sample_heartbeat_version sample_heartbeat_payload

text \<open>C13: printing a message whose groups are counted and whose frame fields are in their place
  succeeds with the frame FIX prescribes (version, then the exact byte length between the
  \<open>BodyLength\<close> and \<open>CheckSum\<close> fields, then at the very end the byte sum modulo 256 of everything
  before, in three digits), nested groups included; and the message it leaves behind passes
  the validation a receiver does.\<close>

theorem toString_framing:
  assumes "well_framed m" "field_value F_BeginString (m_header m) = Some v" "length (payload m) < 2 ^ 31"
  shows "toString_default m = Inr (fix_frame v (payload m), printed m (checksum_text (frame_checksum v (payload m)))) \<and>
    validate_message (printed m (checksum_text (frame_checksum v (payload m)))) = Inr ()"
  using toString_frame [OF assms] validate_printed [OF assms] by blast

theorem toString_framing_witness:
  "\<exists>m'. toString_default sample_heartbeat =
     Inr (fix_frame ''FIX.4.2'' (''35=0'' @ [SOH] @ ''34=1'' @ [SOH] @ ''112=TEST'' @ [SOH]), m')"
proof -
  have "well_framed sample_heartbeat" using sample_heartbeat_facts by (simp add: sendable_def)
  then show ?thesis using toString_framing [of sample_heartbeat "''FIX.4.2''"] sample_heartbeat_facts by auto
qed

text \<open>C7: a message without repeating groups that has been printed is read back, with the length
  and checksum checks on and without a dictionary, as the message that was printed: the same
  fields in the same order in header, body and trailer, nothing out of structure.\<close>

theorem parse_print_roundtrip:
  assumes "sendable m" "field_value F_BeginString (m_header m) = Some v" "length (payload m) < 2 ^ 31"
  shows "\<exists>s m'. toString_default m = Inr (s, m') \<and> Message_parse s True = Inr (reread m')"
  by (rule parse_printed [OF assms])

theorem parse_print_roundtrip_witness:
  "\<exists>s m'. toString_default sample_heartbeat = Inr (s, m') \<and> Message_parse s True = Inr (reread m')"
  using parse_print_roundtrip [of sample_heartbeat "''FIX.4.2''"] sample_heartbeat_facts by simp

text \<open>C22: parsing always ends, with or without dictionaries and validation, on every byte string:
  it returns a message or throws \<open>InvalidMessage\<close>, and nothing else.\<close>

theorem setString_total:
  "(\<exists>m'. setString s doValidation sdd add m = Inr m') \<or> (\<exists>t. setString s doValidation sdd add m = Inl (InvalidMessage t))"
  using setString_ends [of s doValidation sdd add m]
  by (cases "setString s doValidation sdd add m") (auto simp: parse_ends_def)

text \<open>Decoding the field at the front of a string is the inverse of encoding it: an encoded
  field with a value without SOH is read back with its tag, its value and the bytes that
  follow; and whatever is decoded, the bytes consumed are the tag's digits, an equal sign, the
  value and one SOH.\<close>

theorem extractField_exact:
  "(encodable f \<and> \<not> IsDataField (m_tag f) sdd add \<longrightarrow>
      extractField m sdd add g (getFixString f @ rest) = Inr (redecode f, rest)) \<and>
   (extractField m sdd add g s = Inr (f', r) \<longrightarrow>
      (\<exists>tag. IntConvertor_from tag = Some (m_tag f') \<and> s = tag @ ''='' @ m_string f' @ [SOH] @ r))"
  using extractField_encoded [of f sdd add m g rest] extractField_Inr [of m sdd add g s f' r]
  unfolding redecode_def by blast

theorem extractField_exact_witness:
  "extractField Message_new None None None (getFixString (FieldBase 58 ''hi'') @ ''10='') = Inr (redecode (FieldBase 58 ''hi''), ''10='')"
proof -
  have "encodable (FieldBase 58 ''hi'')" by code_simp
  then show ?thesis
    using extractField_exact [of "FieldBase 58 ''hi''" None None Message_new None "''10=''"] by (simp add: IsDataField_def)
qed

end
