(* ===== verification/Validations.thy ===== *)
theory Validations
  imports MessageParsers
begin

text \<open>
  \<open>DataDictionary::validate\<close>: the checks of a message against a transport dictionary (header
  and trailer) and an application dictionary (body), in the order of the code, each with the
  exception it throws. \<open>conforms\<close> states what an accepted message is without that order, with the
  two limits of the code: the fields inside the instances of groups are not checked, and their
  required fields are looked for only where the message type has required fields itself.
\<close>

section \<open>The checks\<close>

definition shouldCheckTag :: "data_dictionary \<Rightarrow> field_base \<Rightarrow> bool" where
  "shouldCheckTag d field =
     (if m_allowUnknownMessageFields (dd d) \<and> m_tag field < F_UserMin then False
      else if \<not> m_checkUserDefinedFields (dd d) \<and> m_tag field \<ge> F_UserMin then False
      else True)"

definition checkMsgType :: "data_dictionary \<Rightarrow> string \<Rightarrow> unit result" where
  "checkMsgType d msgType = throw_if (\<not> isMsgType msgType d) InvalidMessageType"

definition checkValidTagNumber :: "data_dictionary \<Rightarrow> field_base \<Rightarrow> unit result" where
  "checkValidTagNumber d field = throw_if (m_tag field \<notin> set (m_dd_fields (dd d))) (InvalidTagNumber (m_tag field))"

text \<open>
  The convertor of each type, as to whether it converts the text. The value of a double is
  not used here, only whether its text is accepted.
\<close>

fun convertible :: "field_type \<Rightarrow> string \<Rightarrow> bool" where
  "convertible TYPE_Char s = (CharConvertor_from s \<noteq> None)"
| "convertible TYPE_Price s = double_syntax s"
| "convertible TYPE_Int s = (IntConvertor_from s \<noteq> None)"
| "convertible TYPE_Amt s = double_syntax s"
| "convertible TYPE_Qty s = double_syntax s"
| "convertible TYPE_UtcTimeStamp s = (case UtcTimeStampConvertor_from s of Inl _ \<Rightarrow> False | Inr _ \<Rightarrow> True)"
| "convertible TYPE_Boolean s = (BoolConvertor_from s \<noteq> None)"
| "convertible TYPE_Float s = double_syntax s"
| "convertible TYPE_PriceOffset s = double_syntax s"
| "convertible TYPE_UtcDate s = (case UtcDateConvertor_from s of Inl _ \<Rightarrow> False | Inr _ \<Rightarrow> True)"
| "convertible TYPE_UtcTimeOnly s = (case UtcTimeOnlyConvertor_from s of Inl _ \<Rightarrow> False | Inr _ \<Rightarrow> True)"
| "convertible TYPE_NumInGroup s = (IntConvertor_from s \<noteq> None)"
| "convertible TYPE_Percentage s = double_syntax s"
| "convertible TYPE_SeqNum s = (UInt64Convertor_from s \<noteq> None)"
| "convertible TYPE_TagNum s = (IntConvertor_from s \<noteq> None)"
| "convertible TYPE_Length s = (IntConvertor_from s \<noteq> None)"
| "convertible _ s = True"

definition checkValidFormat :: "data_dictionary \<Rightarrow> field_base \<Rightarrow> unit result" where
  "checkValidFormat d field =
     (let type = (case getFieldType (m_tag field) d of None \<Rightarrow> TYPE_Unknown | Some t \<Rightarrow> t)
      in throw_if (\<not> convertible type (m_string field)) (IncorrectDataFormat (m_tag field) (m_string field)))"

definition checkValue :: "data_dictionary \<Rightarrow> field_base \<Rightarrow> unit result" where
  "checkValue d field =
     (if \<not> hasFieldValue (m_tag field) d then Inr ()
      else throw_if (\<not> isFieldValue (m_tag field) (m_string field) d) (IncorrectTagValue (m_tag field)))"

definition checkHasValue :: "data_dictionary \<Rightarrow> field_base \<Rightarrow> unit result" where
  "checkHasValue d field =
     throw_if (m_checkFieldsHaveValues (dd d) \<and> m_string field = []) (NoTagValue (m_tag field))"

definition checkIsInMessage :: "data_dictionary \<Rightarrow> field_base \<Rightarrow> string \<Rightarrow> unit result" where
  "checkIsInMessage d field msgType =
     throw_if (\<not> isMsgField msgType (m_tag field) d) (TagNotDefinedForMessage (m_tag field))"

definition checkGroupCount :: "data_dictionary \<Rightarrow> field_base \<Rightarrow> fieldmap \<Rightarrow> string \<Rightarrow> unit result" where
  "checkGroupCount d field fm msgType =
     (let fieldNum = m_tag field in
      if isGroup msgType fieldNum d
      then rbind (IntConvertor_convert (m_string field)) (\<lambda>n.
             throw_if (to_int (int (groupCount fieldNum fm)) \<noteq> n) (RepeatingGroupCountMismatch fieldNum))
      else Inr ())"

function checkHasRequired :: "string \<Rightarrow> data_dictionary \<Rightarrow> fieldmap \<Rightarrow> fieldmap \<Rightarrow> fieldmap \<Rightarrow> unit result" where
  "checkHasRequired msgType d header body trailer =
     rbind (each (\<lambda>(f, required). throw_if (required \<and> \<not> isSetField f header) (RequiredTagMissing f)) (m_headerFields (dd d))) (\<lambda>_.
     rbind (each (\<lambda>(f, required). throw_if (required \<and> \<not> isSetField f trailer) (RequiredTagMissing f)) (m_trailerFields (dd d))) (\<lambda>_.
       case map_of (m_requiredFields (dd d)) msgType of
         None \<Rightarrow> Inr ()
       | Some fs \<Rightarrow>
           rbind (each (\<lambda>f. throw_if (\<not> isSetField f body) (RequiredTagMissing f)) fs) (\<lambda>_.
             each (\<lambda>(field, gs).
               case dd_getGroup msgType field d of
                 None \<Rightarrow> Inr ()
               | Some (delim, DD) \<Rightarrow> each (\<lambda>g. checkHasRequired msgType DD g g g) gs) (m_groups body))))"
  by pat_completeness auto

termination
  by (relation "measure (\<lambda>(msgType, d, _). size d)") (auto dest: dd_getGroup_size)

declare checkHasRequired.simps [simp del]

section \<open>Validation\<close>

definition check_field :: "data_dictionary \<Rightarrow> fieldmap \<Rightarrow> string \<Rightarrow> field_base \<Rightarrow> unit result" where
  "check_field d fm msgType field =
     rbind (checkHasValue d field) (\<lambda>_.
     rbind (if m_hasVersion (dd d) then rbind (checkValidFormat d field) (\<lambda>_. checkValue d field) else Inr ()) (\<lambda>_.
       if m_beginString (dd d) \<noteq> [] \<and> shouldCheckTag d field
       then rbind (checkValidTagNumber d field) (\<lambda>_.
              if \<not> isHeaderField (m_tag field) (Some d) \<and> \<not> isTrailerField (m_tag field) (Some d)
              then rbind (checkIsInMessage d field msgType) (\<lambda>_. checkGroupCount d field fm msgType)
              else Inr ())
       else Inr ()))"

fun iterate_loop :: "data_dictionary \<Rightarrow> fieldmap \<Rightarrow> string \<Rightarrow> bool \<Rightarrow> int \<Rightarrow> field_base list \<Rightarrow> unit result" where
  "iterate_loop d fm msgType begin' lastField [] = Inr ()"
| "iterate_loop d fm msgType begin' lastField (field # fs) =
     rbind (throw_if (\<not> begin' \<and> m_tag field = lastField) (RepeatedTag lastField)) (\<lambda>_.
     rbind (check_field d fm msgType field) (\<lambda>_. iterate_loop d fm msgType False (m_tag field) fs))"

definition iterate :: "data_dictionary \<Rightarrow> fieldmap \<Rightarrow> string \<Rightarrow> unit result" where
  "iterate d fm msgType = iterate_loop d fm msgType True 0 (m_fields fm)"

definition dd_validate :: "message \<Rightarrow> data_dictionary option \<Rightarrow> data_dictionary option \<Rightarrow> unit result" where
  "dd_validate m pSessionDD pAppDD =
     (let header = m_header m in
      rbind (getField F_BeginString header) (\<lambda>beginString.
      rbind (getField F_MsgType header) (\<lambda>msgType.
      rbind (case pSessionDD of
               Some s \<Rightarrow> throw_if (m_hasVersion (dd s) \<and> getVersion s \<noteq> beginString) UnsupportedVersion
             | None \<Rightarrow> Inr ()) (\<lambda>_.
      rbind (if (case pSessionDD of Some s \<Rightarrow> m_checkFieldsOutOfOrder (dd s) | None \<Rightarrow> False) \<or>
                (case pAppDD of Some a \<Rightarrow> m_checkFieldsOutOfOrder (dd a) | None \<Rightarrow> False)
             then (let (valid, field) = hasValidStructure m in throw_if (\<not> valid) (TagOutOfOrder field))
             else Inr ()) (\<lambda>_.
      rbind (case pAppDD of
               Some a \<Rightarrow>
                 if m_hasVersion (dd a)
                 then rbind (checkMsgType a msgType) (\<lambda>_. checkHasRequired msgType a header (m_body m) (m_trailer m))
                 else Inr ()
             | None \<Rightarrow> Inr ()) (\<lambda>_.
      rbind (case pSessionDD of
               Some s \<Rightarrow> rbind (iterate s header msgType) (\<lambda>_. iterate s (m_trailer m) msgType)
             | None \<Rightarrow> Inr ()) (\<lambda>_.
        case pAppDD of Some a \<Rightarrow> iterate a (m_body m) msgType | None \<Rightarrow> Inr ())))))))"

definition dd_validate_one :: "data_dictionary \<Rightarrow> message \<Rightarrow> bool \<Rightarrow> unit result" where
  "dd_validate_one d m bodyOnly = dd_validate m (if bodyOnly then None else Some d) (Some d)"

section \<open>What an accepted message is\<close>

definition field_conforms :: "data_dictionary \<Rightarrow> fieldmap \<Rightarrow> string \<Rightarrow> field_base \<Rightarrow> bool" where
  "field_conforms d fm msgType f \<longleftrightarrow>
     (m_checkFieldsHaveValues (dd d) \<longrightarrow> m_string f \<noteq> []) \<and>
     (m_hasVersion (dd d) \<longrightarrow>
        (\<forall>ty. getFieldType (m_tag f) d = Some ty \<longrightarrow> convertible ty (m_string f)) \<and>
        (hasFieldValue (m_tag f) d \<longrightarrow> isFieldValue (m_tag f) (m_string f) d)) \<and>
     (m_beginString (dd d) \<noteq> [] \<and> shouldCheckTag d f \<longrightarrow>
        isField (m_tag f) d \<and>
        (\<not> isHeaderField (m_tag f) (Some d) \<and> \<not> isTrailerField (m_tag f) (Some d) \<longrightarrow>
           isMsgField msgType (m_tag f) d \<and>
           (isGroup msgType (m_tag f) d \<longrightarrow>
              IntConvertor_from (m_string f) = Some (to_int (int (groupCount (m_tag f) fm))))))"

text \<open>
  A part of a message: the fields of the field map itself. The code iterates over these only, and
  never over the fields of the instances of its groups.
\<close>

definition part_conforms :: "data_dictionary \<Rightarrow> string \<Rightarrow> fieldmap \<Rightarrow> bool" where
  "part_conforms d msgType fm \<longleftrightarrow>
     (\<forall>f\<in>set (m_fields fm). field_conforms d fm msgType f) \<and> distinct_adj (map m_tag (m_fields fm))"

lemma check_field_iff: "check_field d fm msgType f = Inr () \<longleftrightarrow> field_conforms d fm msgType f"
  by (auto simp: check_field_def field_conforms_def rbind_Inr checkHasValue_def checkValidFormat_def checkValue_def
      checkValidTagNumber_def checkIsInMessage_def checkGroupCount_def isField_def IntConvertor_convert_def Let_def
      split: option.splits)

lemma iterate_loop_iff: "iterate_loop d fm msgType b l fs = Inr () \<longleftrightarrow>
    (\<forall>f\<in>set fs. field_conforms d fm msgType f) \<and> distinct_adj (map m_tag fs) \<and> (b \<or> fs = [] \<or> m_tag (hd fs) \<noteq> l)"
proof (induction fs arbitrary: b l)
  case (Cons f fs)
  then show ?case by (cases fs) (auto simp: rbind_Inr check_field_iff)
qed simp

lemma iterate_iff: "iterate d fm msgType = Inr () \<longleftrightarrow> part_conforms d msgType fm"
  by (auto simp: iterate_def iterate_loop_iff part_conforms_def)

text \<open>
  The required fields. The groups of a body are looked into only if the message type has an entry
  in the dictionary's required fields: without one the code returns before it comes to them. The
  dictionary of a group is treated in the same way in its turn.
\<close>

function required_present :: "string \<Rightarrow> data_dictionary \<Rightarrow> fieldmap \<Rightarrow> fieldmap \<Rightarrow> fieldmap \<Rightarrow> bool" where
  "required_present msgType d header body trailer \<longleftrightarrow>
     (\<forall>(f, required)\<in>set (m_headerFields (dd d)). required \<longrightarrow> isSetField f header) \<and>
     (\<forall>(f, required)\<in>set (m_trailerFields (dd d)). required \<longrightarrow> isSetField f trailer) \<and>
     (map_of (m_requiredFields (dd d)) msgType \<noteq> None \<longrightarrow>
        (\<forall>f. isRequiredField msgType f d \<longrightarrow> isSetField f body) \<and>
        (\<forall>(field, gs)\<in>set (m_groups body).
           case dd_getGroup msgType field d of
             None \<Rightarrow> True | Some (delim, DD) \<Rightarrow> \<forall>g\<in>set gs. required_present msgType DD g g g))"
  by pat_completeness auto

termination
  by (relation "measure (\<lambda>(msgType, d, _). size d)") (auto dest: dd_getGroup_size)

declare required_present.simps [simp del]

lemma checkHasRequired_iff: "checkHasRequired msgType d h b t = Inr () \<longleftrightarrow> required_present msgType d h b t"
proof (induction msgType d h b t rule: checkHasRequired.induct)
  case (1 msgType d h b t)
  have g: "each (\<lambda>g. checkHasRequired msgType DD g g g) gs = Inr () \<longleftrightarrow> (\<forall>g\<in>set gs. required_present msgType DD g g g)"
    if "map_of (m_requiredFields (dd d)) msgType = Some fs" "(field, gs) \<in> set (m_groups b)"
      "dd_getGroup msgType field d = Some (delim, DD)" for fs field gs delim DD
    using 1 that by auto
  show ?case
  proof (cases "map_of (m_requiredFields (dd d)) msgType")
    case None
    then show ?thesis
      by (auto simp: checkHasRequired.simps [of _ _ h] required_present.simps [of _ _ h] rbind_Inr)
  next
    case (Some fs)
    have "(case p of (field, gs) \<Rightarrow> case dd_getGroup msgType field d of None \<Rightarrow> Inr ()
        | Some (delim, DD) \<Rightarrow> each (\<lambda>g. checkHasRequired msgType DD g g g) gs) = Inr () \<longleftrightarrow>
      (case p of (field, gs) \<Rightarrow> case dd_getGroup msgType field d of None \<Rightarrow> True
        | Some (delim, DD) \<Rightarrow> \<forall>g\<in>set gs. required_present msgType DD g g g)"
      if "p \<in> set (m_groups b)" for p
      using g [OF Some] that by (cases p) (auto simp del: each_Inr split: option.split)
    then show ?thesis using Some
      unfolding checkHasRequired.simps [of _ _ h] required_present.simps [of _ _ h]
      by (auto simp: rbind_Inr isRequiredField_def in_map_def)
  qed
qed

definition conforms :: "message \<Rightarrow> data_dictionary option \<Rightarrow> data_dictionary option \<Rightarrow> bool" where
  "conforms m sdd add \<longleftrightarrow>
     (\<exists>v t. getField F_BeginString (m_header m) = Inr v \<and> getField F_MsgType (m_header m) = Inr t \<and>
        (\<forall>s. sdd = Some s \<longrightarrow> (m_hasVersion (dd s) \<longrightarrow> getVersion s = v) \<and>
           (m_checkFieldsOutOfOrder (dd s) \<longrightarrow> m_validStructure m) \<and>
           part_conforms s t (m_header m) \<and> part_conforms s t (m_trailer m)) \<and>
        (\<forall>a. add = Some a \<longrightarrow> (m_checkFieldsOutOfOrder (dd a) \<longrightarrow> m_validStructure m) \<and>
           (m_hasVersion (dd a) \<longrightarrow> isMsgType t a \<and> required_present t a (m_header m) (m_body m) (m_trailer m)) \<and>
           part_conforms a t (m_body m)))"

lemma dd_validate_iff: "dd_validate m sdd add = Inr () \<longleftrightarrow> conforms m sdd add"
proof -
  have ok: "(if b then x else Inr ()) = Inr () \<longleftrightarrow> (b \<longrightarrow> x = Inr ())" for b and x :: "unit result" by simp
  have unit: "rbind r k = Inr () \<longleftrightarrow> r = Inr () \<and> k () = Inr ()" for r and k :: "unit \<Rightarrow> unit result"
    by (cases r) simp_all
  have str: "rbind r k = Inr () \<longleftrightarrow> (\<exists>s. r = Inr s \<and> k s = Inr ())" for r and k :: "string \<Rightarrow> unit result"
    by (rule rbind_Inr)
  show ?thesis
    unfolding dd_validate_def conforms_def Let_def hasValidStructure_def split_conv
    by (cases sdd; cases add; simp only: option.case unit str ok iterate_iff checkHasRequired_iff checkMsgType_def
        throw_if_simps) auto
qed

section \<open>The exceptions of a rejected message\<close>

text \<open>
  A count field whose type is not an integer type can make the group count check throw the
  convertor's \<open>FieldConvertError\<close>, which is none of the reject reasons. Dictionaries whose
  groups are counted by integer fields exclude it.
\<close>

definition groups_typed :: "data_dictionary \<Rightarrow> bool" where
  "groups_typed d \<longleftrightarrow> (m_beginString (dd d) \<noteq> [] \<longrightarrow> m_hasVersion (dd d)) \<and>
     (\<forall>t f. isGroup t f d \<longrightarrow> getFieldType f d \<in> {Some TYPE_NumInGroup, Some TYPE_Int, Some TYPE_Length})"

definition reject_exn :: "exn \<Rightarrow> bool" where
  "reject_exn e \<longleftrightarrow>
     (case e of FieldNotFound f \<Rightarrow> f = F_BeginString \<or> f = F_MsgType
      | UnsupportedVersion \<Rightarrow> True | TagOutOfOrder _ \<Rightarrow> True | InvalidMessageType \<Rightarrow> True
      | RequiredTagMissing _ \<Rightarrow> True | RepeatedTag _ \<Rightarrow> True | NoTagValue _ \<Rightarrow> True
      | IncorrectDataFormat _ _ \<Rightarrow> True | IncorrectTagValue _ \<Rightarrow> True | InvalidTagNumber _ \<Rightarrow> True
      | TagNotDefinedForMessage _ \<Rightarrow> True | RepeatingGroupCountMismatch _ \<Rightarrow> True | _ \<Rightarrow> False)"

lemma each_Inl: "each f xs = Inl e \<Longrightarrow> \<exists>x\<in>set xs. f x = Inl e"
  by (induction xs) (auto simp: rbind_Inl)

lemma check_field_exn:
  assumes "groups_typed d" "check_field d fm msgType f = Inl e"
  shows "reject_exn e"
proof -
  have "IntConvertor_from (m_string f) \<noteq> None"
    if "isGroup msgType (m_tag f) d" "m_beginString (dd d) \<noteq> []" "checkValidFormat d f = Inr ()"
    using assms(1) that unfolding groups_typed_def checkValidFormat_def Let_def
    by (fastforce split: option.splits)
  then show ?thesis
    using assms unfolding groups_typed_def
    by (auto simp: check_field_def rbind_Inl rbind_Inr checkHasValue_def checkValue_def checkValidTagNumber_def
        checkIsInMessage_def checkGroupCount_def IntConvertor_convert_def reject_exn_def Let_def split: if_splits option.splits)
      (auto simp: checkValidFormat_def Let_def)
qed

lemma iterate_exn:
  assumes "groups_typed d" "iterate d fm msgType = Inl e"
  shows "reject_exn e"
proof -
  have "iterate_loop d fm msgType b l fs = Inl e \<Longrightarrow> reject_exn e" for b l fs
    by (induction fs arbitrary: b l) (auto simp: rbind_Inl reject_exn_def dest: check_field_exn [OF assms(1), unfolded reject_exn_def])
  then show ?thesis using assms(2) by (simp add: iterate_def)
qed

lemma checkHasRequired_exn: "checkHasRequired msgType d h b t = Inl e \<Longrightarrow> \<exists>f. e = RequiredTagMissing f"
proof (induction msgType d h b t arbitrary: e rule: checkHasRequired.induct)
  case (1 msgType d h b t)
  show ?case
    using 1(2) unfolding checkHasRequired.simps [of _ _ h]
    by (auto simp: rbind_Inl dest!: each_Inl split: option.splits) (use 1(1) in blast)
qed

lemma dd_validate_exn:
  assumes t: "\<forall>d. sdd = Some d \<or> add = Some d \<longrightarrow> groups_typed d" and e: "dd_validate m sdd add = Inl e"
  shows "reject_exn e"
proof -
  have g: "getField t fm = Inl e \<Longrightarrow> e = FieldNotFound t" for t fm e
    by (auto simp: getField_def getFieldRef_def rbind_Inl split: option.splits)
  show ?thesis
    using t e unfolding dd_validate_def Let_def hasValidStructure_def split_conv
    by (cases sdd; cases add)
      (auto simp: rbind_Inl checkMsgType_def reject_exn_def split: if_splits dest!: g checkHasRequired_exn
        dest: iterate_exn [unfolded reject_exn_def])
qed

section \<open>Properties\<close>

text \<open>C6: validation accepts exactly the messages that conform, whatever the order of the checks.
  As far as the settings of the two dictionaries ask for it: the version is the transport
  dictionary's, the fields are in structure, the message type is defined, and every field that
  stands directly in the header, the body or the trailer has a value of its type and among its
  allowed values, is defined, belongs to the message, counts the instances of its group and is not
  repeated next to itself. The required fields are present in header and trailer and, when the
  message type has required fields in the application dictionary, in the body; then, and only
  then, the required fields of the known groups of the body are looked for in each of their
  instances, and the same holds of the groups inside these. Nothing else is asked of the fields
  inside a group: their values, tags and order are not checked.\<close>

theorem validate_conforms:
  "dd_validate m sdd add = Inr () \<longleftrightarrow> conforms m sdd add"
  by (rule dd_validate_iff)

text \<open>C21: a message that is rejected is rejected with one of the twelve kinds of exception the
  checks name, provided the dictionaries count their groups with integer fields; without that
  the group count check can throw a conversion error instead.\<close>

theorem validate_exceptions:
  assumes "\<forall>d. sdd = Some d \<or> add = Some d \<longrightarrow> groups_typed d" "dd_validate m sdd add = Inl e"
  shows "reject_exn e"
  by (rule dd_validate_exn [OF assms])

theorem validate_exceptions_witness:
  "dd_validate Message_new (Some DataDictionary_new) None = Inl (FieldNotFound F_BeginString) \<and>
   reject_exn (FieldNotFound F_BeginString)"
proof -
  have t: "groups_typed DataDictionary_new" by (simp add: groups_typed_def DataDictionary_new_def isGroup_def)
  have "dd_validate Message_new (Some DataDictionary_new) None = Inl (FieldNotFound F_BeginString)"
    by (simp add: dd_validate_def Let_def getField_value Message_new_def Message_of_orders_def)
  then show ?thesis
    using validate_exceptions [of "Some DataDictionary_new" None Message_new "FieldNotFound F_BeginString"] t by simp
qed

end
