(* ===== verification/SessionIDs.thy ===== *)
theory SessionIDs
  imports MessageParsers
begin

text \<open>
  \<open>SessionID\<close>: the three names and the qualifier that identify a session, its text form and
  reading it back, and the session id of a message. The frozen string is recomputed. Two
  session ids are compared by their texts.
\<close>

record session_id =
  id_beginString :: string
  id_senderCompID :: string
  id_targetCompID :: string
  id_qualifier :: string
  id_isFIXT :: bool

definition SessionID :: "string \<Rightarrow> string \<Rightarrow> string \<Rightarrow> string \<Rightarrow> session_id" where
  "SessionID beginString senderCompID targetCompID qualifier =
     \<lparr>id_beginString = beginString, id_senderCompID = senderCompID, id_targetCompID = targetCompID,
      id_qualifier = qualifier, id_isFIXT = (take 4 beginString = ''FIXT'')\<rparr>"

definition id_text :: "session_id \<Rightarrow> string" where
  "id_text s = id_beginString s @ '':'' @ id_senderCompID s @ ''->'' @ id_targetCompID s
     @ (if id_qualifier s \<noteq> [] then '':'' @ id_qualifier s else [])"

text \<open>\<open>find_last_of\<close> of one character, and \<open>substr\<close> whose length is a \<open>size_t\<close> difference.\<close>

fun find_last :: "char \<Rightarrow> string \<Rightarrow> nat option" where
  "find_last c [] = None"
| "find_last c (x # xs) =
     (case find_last c xs of Some i \<Rightarrow> Some (Suc i) | None \<Rightarrow> if x = c then Some 0 else None)"

definition substr :: "string \<Rightarrow> nat \<Rightarrow> int \<Rightarrow> string" where
  "substr s pos len = (let n = len mod 2 ^ 64 in if int (length s) \<le> n then drop pos s else take (nat n) (drop pos s))"

text \<open>\<open>fromString\<close> leaves the session id as it is when a separator is missing.\<close>

definition id_fromString :: "string \<Rightarrow> session_id \<Rightarrow> session_id" where
  "id_fromString str s =
     (case find_sub '':'' str of None \<Rightarrow> s
      | Some first \<Rightarrow>
          (case find_sub ''->'' str of None \<Rightarrow> s
           | Some second \<Rightarrow>
               let third = the (find_last (CHR '':'') str);
                   s1 = s\<lparr>id_beginString := take first str,
                          id_senderCompID := substr str (first + 1) (int second - int first - 1)\<rparr>
               in if first = third
                  then s1\<lparr>id_targetCompID := drop (second + 2) str, id_qualifier := []\<rparr>
                  else s1\<lparr>id_targetCompID := substr str (second + 2) (int third - int second - 2),
                          id_qualifier := drop (third + 1) str\<rparr>))"

definition id_reverse :: "session_id \<Rightarrow> session_id" where
  "id_reverse s = SessionID (id_beginString s) (id_targetCompID s) (id_senderCompID s) (id_qualifier s)"

definition id_less :: "session_id \<Rightarrow> session_id \<Rightarrow> bool" where
  "id_less a b \<longleftrightarrow> id_text a < id_text b"

definition id_equal :: "session_id \<Rightarrow> session_id \<Rightarrow> bool" where
  "id_equal a b \<longleftrightarrow> id_text a = id_text b"

definition getSessionID :: "string \<Rightarrow> message \<Rightarrow> session_id result" where
  "getSessionID qualifier m =
     rbind (getField F_BeginString (m_header m)) (\<lambda>beginString.
     rbind (getField F_SenderCompID (m_header m)) (\<lambda>senderCompID.
     rbind (getField F_TargetCompID (m_header m)) (\<lambda>targetCompID.
       Inr (SessionID beginString senderCompID targetCompID qualifier))))"

definition setSessionID :: "session_id \<Rightarrow> message \<Rightarrow> message" where
  "setSessionID s m =
     m\<lparr>m_header := setField_tag F_TargetCompID (id_targetCompID s)
        (setField_tag F_SenderCompID (id_senderCompID s) (setField_tag F_BeginString (id_beginString s) (m_header m)))\<rparr>"

section \<open>The text form\<close>

text \<open>The names whose text can be taken apart again.\<close>

definition id_clean :: "session_id \<Rightarrow> bool" where
  "id_clean s \<longleftrightarrow>
     list_all (\<lambda>x. CHR '':'' \<notin> set x) [id_beginString s, id_senderCompID s, id_targetCompID s, id_qualifier s] \<and>
     find_sub ''->'' (id_beginString s @ '':'' @ id_senderCompID s) = None \<and>
     length (id_text s) < 2 ^ 64"

lemma find_sub_boundary:
  assumes "find_sub [a, b] xs = None" "b \<noteq> a"
  shows "find_sub [a, b] (xs @ [a, b] @ ys) = Some (length xs)"
proof -
  have n: "\<not> prefix [a, b] (drop j xs)" if "j \<le> length xs" for j using find_sub_None [OF assms(1) that] .
  have "\<not> prefix [a, b] (drop j (xs @ [a, b] @ ys))" if "j < length xs" for j
  proof
    assume p: "prefix [a, b] (drop j (xs @ [a, b] @ ys))"
    have "\<exists>x r. drop j xs = x # r" using that by (cases "drop j xs") auto
    then obtain x r where d: "drop j xs = x # r" by blast
    show False
    proof (cases r)
      case Nil
      then show False using p d that assms(2) by (auto simp: prefix_def)
    next
      case (Cons y r')
      then show False using p d n [of j] that by (auto simp: prefix_def)
    qed
  qed
  then show ?thesis by (intro find_sub_at) (auto simp: prefix_def)
qed

lemma find_last_notin [simp]: "find_last c xs = None \<longleftrightarrow> c \<notin> set xs"
  by (induction xs) (auto split: option.split)

lemma find_last_append: "c \<notin> set ys \<Longrightarrow> find_last c (xs @ c # ys) = Some (length xs)"
  by (induction xs) (auto simp: find_last_notin [THEN iffD2])

lemma find_first_char: "c \<notin> set xs \<Longrightarrow> find_sub [c] (xs @ c # ys) = Some (length xs)"
  using find_sub_skip [of c xs "[]" ys] by simp

lemma substr_middle:
  assumes "length (xs @ ys @ zs) < 2 ^ 64"
  shows "substr (xs @ ys @ zs) (length xs) (int (length ys)) = ys"
proof -
  have "int (length ys) mod 2 ^ 64 = int (length ys)" using assms by simp
  moreover have "\<not> int (length (xs @ ys @ zs)) \<le> int (length ys) \<or> xs = [] \<and> zs = []" by (cases xs; cases zs) auto
  ultimately show ?thesis unfolding substr_def Let_def by auto
qed

lemma id_fromString_text:
  assumes c: "id_clean s"
  shows "id_fromString (id_text s) s' = s\<lparr>id_isFIXT := id_isFIXT s'\<rparr>"
proof -
  let ?b = "id_beginString s" and ?a = "id_senderCompID s" and ?t = "id_targetCompID s" and ?q = "id_qualifier s"
  let ?tail = "if ?q \<noteq> [] then '':'' @ ?q else []"
  have n: "CHR '':'' \<notin> set ?b" "CHR '':'' \<notin> set ?a" "CHR '':'' \<notin> set ?t" "CHR '':'' \<notin> set ?q"
    and len: "length (id_text s) < 2 ^ 64" using c by (simp_all add: id_clean_def)
  have tx: "id_text s = ?b @ CHR '':'' # ?a @ ''->'' @ ?t @ ?tail" by (simp add: id_text_def)
  have f1: "find_sub '':'' (id_text s) = Some (length ?b)" unfolding tx by (rule find_first_char [OF n(1)])
  have f2: "find_sub ''->'' (id_text s) = Some (length ?b + 1 + length ?a)"
    using find_sub_boundary [of "CHR ''-''" "CHR ''>''" "?b @ '':'' @ ?a" "?t @ ?tail"] c
    by (simp add: id_clean_def tx)
  have b: "take (length ?b) (id_text s) = ?b" by (simp add: tx)
  have a: "substr (id_text s) (length ?b + 1) (int (length ?b + 1 + length ?a) - int (length ?b) - 1) = ?a"
    using substr_middle [of "?b @ '':''" ?a "''->'' @ ?t @ ?tail"] len by (simp add: tx)
  define P where "P = ?b @ '':'' @ ?a @ ''->''"
  have P: "length P = length ?b + 1 + length ?a + 2" "id_text s = P @ ?t @ ?tail" by (simp_all add: P_def tx)
  have rest: "drop (length ?b + 1 + length ?a + 2) (id_text s) = ?t @ ?tail" unfolding P(1) [symmetric] P(2) by simp
  show ?thesis
  proof (cases "?q = []")
    case True
    have "find_last (CHR '':'') (id_text s) = Some (length ?b)"
      unfolding tx using find_last_append [of "CHR '':''" "?a @ ''->'' @ ?t @ ?tail" ?b] n True by simp
    then show ?thesis using True by (simp add: id_fromString_def f1 f2 Let_def b a [simplified] rest [simplified])
  next
    case False
    have l: "find_last (CHR '':'') (id_text s) = Some (length ?b + 1 + length ?a + 2 + length ?t)"
      unfolding tx using find_last_append [of "CHR '':''" ?q "?b @ CHR '':'' # ?a @ ''->'' @ ?t"] n False by simp
    have t: "substr (id_text s) (length ?b + 1 + length ?a + 2)
        (int (length ?b + 1 + length ?a + 2 + length ?t) - int (length ?b + 1 + length ?a) - 2) = ?t"
      using substr_middle [of "?b @ '':'' @ ?a @ ''->''" ?t "'':'' @ ?q"] len False by (simp add: tx)
    have q: "drop (length ?b + 1 + length ?a + 2 + length ?t + 1) (id_text s) = ?q"
      unfolding P(1) [symmetric] P(2) using False by simp
    show ?thesis using False l
      by (simp add: id_fromString_def f1 f2 Let_def b a [simplified] t [simplified] q [simplified])
  qed
qed

section \<open>Properties\<close>

text \<open>C32: reading the text of a session id gives back its names and qualifier (names without
  colons, no arrow before the separating one), whatever the object held before, except for
  the FIXT flag, which is not updated; so two such ids that compare equal have the same
  names. Reversing a session id twice gives back the id.\<close>

theorem session_id_text_roundtrip:
  assumes "id_clean s"
  shows "id_fromString (id_text s) s' = s\<lparr>id_isFIXT := id_isFIXT s'\<rparr> \<and>
    (id_clean t \<and> id_equal s t \<longrightarrow> s = t\<lparr>id_isFIXT := id_isFIXT s\<rparr>) \<and>
    id_reverse (id_reverse (SessionID b x y q)) = SessionID b x y q"
  using id_fromString_text [OF assms, of s'] id_fromString_text [OF assms, of s] id_fromString_text [of t s]
  by (auto simp: id_equal_def id_reverse_def SessionID_def)

theorem session_id_text_roundtrip_witness:
  "id_fromString ''FIX.4.2:BANK-A->EXCH'' (SessionID [] [] [] ''old'') = SessionID ''FIX.4.2'' ''BANK-A'' ''EXCH'' []"
proof -
  let ?s = "SessionID ''FIX.4.2'' ''BANK-A'' ''EXCH'' []"
  have "id_clean ?s" by (simp add: id_clean_def SessionID_def id_text_def)
  then show ?thesis
    using session_id_text_roundtrip [of ?s "SessionID [] [] [] ''old''"] by (simp add: SessionID_def id_text_def)
qed

end
