(* ===== verification/SessionRegistries.thy ===== *)
theory SessionRegistries
  imports SessionIDs
begin

text \<open>
  The registry of the sessions of a process (the static members of \<open>Session\<close>): the sessions
  that exist, their ids, and the sessions that are in use by a connection. A session is a
  reference, the type variable of the model. The maps compare ids by their texts, so the
  texts are the keys. Every operation holds the mutex, so each is one step. The destructor of a
  session, which calls \<open>removeSession\<close> without asking whose the identifier is, is
  \<open>Session_destroy\<close> in \<open>SessionFactories\<close>.
\<close>

record 'p session_registry =
  s_sessions :: "(string \<times> 'p) list"
  s_sessionIDs :: "(string \<times> session_id) list"
  s_registered :: "(string \<times> 'p) list"

definition registry_empty :: "'p session_registry" where
  "registry_empty = \<lparr>s_sessions = [], s_sessionIDs = [], s_registered = []\<rparr>"

definition getSessions :: "'p session_registry \<Rightarrow> session_id list" where
  "getSessions r = map snd (s_sessionIDs r)"

definition doesSessionExist :: "session_id \<Rightarrow> 'p session_registry \<Rightarrow> bool" where
  "doesSessionExist s r \<longleftrightarrow> map_of (s_sessions r) (id_text s) \<noteq> None"

definition lookupSession :: "session_id \<Rightarrow> 'p session_registry \<Rightarrow> 'p option" where
  "lookupSession s r = map_of (s_sessions r) (id_text s)"

text \<open>The lookup of the session of a raw message; \<open>InvalidMessage\<close> escapes it.\<close>

definition lookupSession_string :: "string \<Rightarrow> bool \<Rightarrow> 'p session_registry \<Rightarrow> 'p option result" where
  "lookupSession_string str reverse r =
     rbind (setStringHeader str Message_new) (\<lambda>(ok, m).
       if \<not> ok then Inr None
       else case rbind (getField F_BeginString (m_header m)) (\<lambda>b.
                 rbind (getField F_SenderCompID (m_header m)) (\<lambda>x.
                 rbind (getField F_TargetCompID (m_header m)) (\<lambda>y. Inr (b, x, y)))) of
              Inl _ \<Rightarrow> Inr None
            | Inr (b, x, y) \<Rightarrow>
                Inr (if reverse then lookupSession (SessionID b y x []) r else lookupSession (SessionID b x y []) r))"

definition isSessionRegistered :: "session_id \<Rightarrow> 'p session_registry \<Rightarrow> bool" where
  "isSessionRegistered s r \<longleftrightarrow> map_of (s_registered r) (id_text s) \<noteq> None"

definition registerSession :: "session_id \<Rightarrow> 'p session_registry \<Rightarrow> 'p option \<times> 'p session_registry" where
  "registerSession s r =
     (case lookupSession s r of
        None \<Rightarrow> (None, r)
      | Some p \<Rightarrow>
          if isSessionRegistered s r then (None, r)
          else (Some p, r\<lparr>s_registered := map_put (id_text s) p (s_registered r)\<rparr>))"

definition unregisterSession :: "session_id \<Rightarrow> 'p session_registry \<Rightarrow> 'p session_registry" where
  "unregisterSession s r = r\<lparr>s_registered := map_erase (id_text s) (s_registered r)\<rparr>"

definition numSessions :: "'p session_registry \<Rightarrow> nat" where
  "numSessions r = length (s_sessions r)"

definition addSession :: "session_id \<Rightarrow> 'p \<Rightarrow> 'p session_registry \<Rightarrow> bool \<times> 'p session_registry" where
  "addSession s p r =
     (if map_of (s_sessions r) (id_text s) \<noteq> None then (False, r)
      else (True, r\<lparr>s_sessions := map_put (id_text s) p (s_sessions r),
                    s_sessionIDs := map_put (id_text s) s (s_sessionIDs r)\<rparr>))"

text \<open>The destructor calls this whether or not the session was added.\<close>

definition removeSession :: "session_id \<Rightarrow> 'p session_registry \<Rightarrow> 'p session_registry" where
  "removeSession s r =
     \<lparr>s_sessions = map_erase (id_text s) (s_sessions r), s_sessionIDs = map_erase (id_text s) (s_sessionIDs r),
      s_registered = map_erase (id_text s) (s_registered r)\<rparr>"

section \<open>The registry as a state machine\<close>

text \<open>The steps threads take, in any interleaving.\<close>

inductive registry_step :: "'p session_registry \<Rightarrow> 'p session_registry \<Rightarrow> bool" where
  "registry_step r (snd (addSession s p r))"
| "registry_step r (removeSession s r)"
| "registry_step r (snd (registerSession s r))"
| "registry_step r (unregisterSession s r)"

inductive registry_reachable :: "'p session_registry \<Rightarrow> bool" where
  reachable_empty: "registry_reachable registry_empty"
| reachable_step: "registry_reachable r \<Longrightarrow> registry_step r r' \<Longrightarrow> registry_reachable r'"

definition registry_inv :: "'p session_registry \<Rightarrow> bool" where
  "registry_inv r \<longleftrightarrow>
     map_sorted (s_sessions r) \<and> map_sorted (s_sessionIDs r) \<and> map_sorted (s_registered r) \<and>
     (\<forall>k. map_of (s_sessions r) k = None \<longleftrightarrow> map_of (s_sessionIDs r) k = None) \<and>
     (\<forall>k s. map_of (s_sessionIDs r) k = Some s \<longrightarrow> k = id_text s) \<and>
     (\<forall>k p. map_of (s_registered r) k = Some p \<longrightarrow> map_of (s_sessions r) k = Some p)"

lemma registry_inv_step:
  assumes "registry_step r r'" "registry_inv r"
  shows "registry_inv r'"
  using assms
proof (induction rule: registry_step.induct)
  case (1 r s p)
  have "map_of (s_sessions r) (id_text s) = None \<Longrightarrow> map_of (s_registered r) (id_text s) = None"
    using 1 by (cases "map_of (s_registered r) (id_text s)") (auto simp: registry_inv_def)
  then show ?case using 1 by (auto simp: registry_inv_def addSession_def)
qed (auto simp: registry_inv_def removeSession_def registerSession_def unregisterSession_def
      lookupSession_def isSessionRegistered_def split: option.splits if_splits)

lemma registry_inv_reachable: "registry_reachable r \<Longrightarrow> registry_inv r"
proof (induction rule: registry_reachable.induct)
  case reachable_empty
  show ?case by (simp add: registry_inv_def registry_empty_def map_sorted_def)
next
  case (reachable_step r r')
  then show ?case by (blast intro: registry_inv_step)
qed

section \<open>Properties\<close>

text \<open>C14: in every state threads can reach by adding, removing, registering and unregistering
  sessions in any order, a session in use by a connection is one that exists, the ids listed
  are those of the existing sessions, and a session handed out by \<open>registerSession\<close> is not
  handed out again until it is unregistered or removed.\<close>

theorem registry_exclusive:
  assumes "registry_reachable r"
  shows "registry_inv r \<and>
    (\<forall>s p r'. registerSession s r = (Some p, r') \<longrightarrow>
       lookupSession s r = Some p \<and> \<not> isSessionRegistered s r \<and> fst (registerSession s r') = None \<and>
       registerSession s (unregisterSession s r') = (Some p, r'))"
proof -
  have i: "registry_inv r" by (rule registry_inv_reachable [OF assms])
  have put: "map_put k p (map_erase k (map_put k p gs)) = map_put k p gs" if "map_of gs k = None"
    for k :: string and p :: 'a and gs
    using that by (induction gs) (auto simp: map_erase_def filter_id_conv dest!: weak_map_of_SomeI)
  then show ?thesis using i
    by (auto simp: registerSession_def unregisterSession_def lookupSession_def isSessionRegistered_def registry_inv_def
        put split: option.splits if_splits)
qed

theorem registry_exclusive_witness:
  "let s = SessionID ''FIX.4.2'' ''A'' ''B'' [] in
   \<exists>r'. registerSession s (snd (addSession s (0 :: nat) registry_empty)) = (Some 0, r') \<and> fst (registerSession s r') = None"
proof -
  define s where "s = SessionID ''FIX.4.2'' ''A'' ''B'' []"
  let ?r = "snd (addSession s (0 :: nat) registry_empty)"
  have "registry_reachable ?r" by (intro reachable_step [OF reachable_empty] registry_step.intros)
  moreover have "\<exists>r'. registerSession s ?r = (Some 0, r')"
    by (simp add: registerSession_def addSession_def registry_empty_def lookupSession_def isSessionRegistered_def)
  ultimately show ?thesis using registry_exclusive [of ?r] unfolding s_def [symmetric] Let_def by blast
qed

end
