(* ===== verification/StreamParsers.thy ===== *)
theory StreamParsers
  imports MessageParsers
begin

text \<open>
  \<open>Parser\<close>: the buffer of a connection and how messages are taken off it, and the loop of
  \<open>SocketConnection::readMessages\<close> that takes all of them. The buffer is the state; a function
  that throws also says what the buffer is then. The lemmas: the buffer never exceeds its
  limit, a complete frame is taken off exactly, an incomplete one waits, so the messages of a
  stream come out the same however the bytes arrive.
\<close>

section \<open>The parser\<close>

definition MAX_BUFFER_BYTES :: nat where "MAX_BUFFER_BYTES = 16 * 1024 * 1024"

definition addToStream :: "string \<Rightarrow> string \<Rightarrow> unit result \<times> string" where
  "addToStream str buf =
     (if length buf > MAX_BUFFER_BYTES \<or> length str > MAX_BUFFER_BYTES - length buf
      then (Inl (MessageParseError ''FIX frame exceeds 16 MiB''), [])
      else (Inr (), buf @ str))"

text \<open>The declared length and the position after it; \<^const>\<open>None\<close> when it is not there yet.\<close>

definition extractLength :: "string \<Rightarrow> (int \<times> nat) option result" where
  "extractLength buf =
     (if buf = [] then Inr None
      else case find_sub ([SOH] @ ''9='') buf of
        None \<Rightarrow> Inr None
      | Some start \<Rightarrow>
          let startPos = start + 3 in
          (case find_from [SOH] buf startPos of
             None \<Rightarrow> Inr None
           | Some endPos \<Rightarrow>
               (case IntConvertor_from (take (endPos - startPos) (drop startPos buf)) of
                  None \<Rightarrow> Inl (MessageParseError [])
                | Some len \<Rightarrow>
                    if len < 0 then Inl (MessageParseError [])
                    else let pos = endPos + 1 in
                      if pos > MAX_BUFFER_BYTES - 7 \<or> nat len > MAX_BUFFER_BYTES - 7 - pos
                      then Inl (MessageParseError ''FIX frame exceeds 16 MiB'')
                      else Inr (Some (len, pos)))))"

definition incomplete :: "string \<Rightarrow> string option result \<times> string" where
  "incomplete buf =
     (if length buf = MAX_BUFFER_BYTES
      then (Inl (MessageParseError ''Incomplete FIX frame at 16 MiB limit''), [])
      else (Inr None, buf))"

definition readFixMessage :: "string \<Rightarrow> string option result \<times> string" where
  "readFixMessage buf =
     (if length buf < 2 then incomplete buf
      else case find_sub ''8='' buf of
        None \<Rightarrow> incomplete buf
      | Some p \<Rightarrow>
          let b = drop p buf in
          (case extractLength b of
             Inl e \<Rightarrow> (Inl e, [])
           | Inr None \<Rightarrow> incomplete b
           | Inr (Some (len, pos0)) \<Rightarrow>
               let pos = pos0 + nat len in
               if length b < pos then incomplete b
               else case find_from ([SOH] @ ''10='') b (pos - 1) of
                 None \<Rightarrow> incomplete b
               | Some q \<Rightarrow>
                   (case find_from [SOH] b (q + 4) of
                      None \<Rightarrow> incomplete b
                    | Some e \<Rightarrow> (Inr (Some (take (e + 1) b)), drop (e + 1) b))))"

section \<open>The buffer\<close>

lemma find_from_bound: "find_from pat s i = Some j \<Longrightarrow> i \<le> j \<and> j + length pat \<le> length s"
  by (auto simp: find_from_def split: if_splits dest: find_sub_Some_length)

lemma incomplete_bound: "length b \<le> length buf \<Longrightarrow> length (snd (incomplete b)) \<le> length buf"
  by (simp add: incomplete_def)

text \<open>A message taken off the buffer leaves a shorter buffer.\<close>

lemma readFixMessage_length: "length (snd (readFixMessage buf)) \<le> length buf"
  by (auto simp: readFixMessage_def Let_def incomplete_bound split: option.split sum.split)

lemma incomplete_None: "fst (incomplete b) \<noteq> Inr (Some m)"
  by (simp add: incomplete_def)

lemma readFixMessage_shorter:
  assumes "readFixMessage buf = (Inr (Some m), rest)"
  shows "length rest < length buf \<and> m \<noteq> [] \<and> (\<exists>garbage. buf = garbage @ m @ rest)"
proof -
  have ni: "incomplete b \<noteq> (Inr (Some m), rest)" for b using incomplete_None [of b m] by auto
  from assms obtain p b q e where p: "b = drop p buf" "find_sub ''8='' buf = Some p"
      "find_from [SOH] b (q + 4) = Some e" "m = take (e + 1) b" "rest = drop (e + 1) b"
    by (auto simp: readFixMessage_def Let_def ni split: if_splits option.splits sum.splits)
  have l: "e + 1 \<le> length b" using find_from_bound [OF p(3)] by simp
  have m: "b = m @ rest" unfolding p(4,5) by (rule append_take_drop_id [symmetric])
  moreover have "buf = take p buf @ b" using p(1) by simp
  ultimately have "buf = take p buf @ m @ rest" by simp
  moreover have "m \<noteq> []" using l p(4) by auto
  moreover have "length rest < length buf" using m \<open>buf = take p buf @ b\<close> \<open>m \<noteq> []\<close>
    by (metis append_self_conv2 le_add2 length_append length_greater_0_conv less_add_same_cancel2 order_less_le_trans)
  ultimately show ?thesis by blast
qed

text \<open>
  \<open>readMessages\<close>: messages are taken off and given to the session until there is none left or
  the connection must not go on (\<open>deliver\<close> is the session's handling of a message and says
  whether to go on); what the parser throws ends the loop.
\<close>

function readMessages :: "(string \<Rightarrow> 's \<Rightarrow> bool \<times> 's) \<Rightarrow> 's \<Rightarrow> string \<Rightarrow> unit result \<times> 's \<times> string" where
  "readMessages deliver s buf =
     (case readFixMessage buf of
        (Inl e, rest) \<Rightarrow> (Inl e, s, rest)
      | (Inr None, rest) \<Rightarrow> (Inr (), s, rest)
      | (Inr (Some m), rest) \<Rightarrow>
          (let (go_on, s') = deliver m s
           in if go_on then readMessages deliver s' rest else (Inr (), s', rest)))"
  by pat_completeness auto

termination
  by (relation "measure (\<lambda>(_, _, buf). length buf)") (auto dest: readFixMessage_shorter [OF sym])

declare readMessages.simps [simp del]

text \<open>The reads of a connection, each of what the socket had.\<close>

fun feed :: "(string \<Rightarrow> 's \<Rightarrow> bool \<times> 's) \<Rightarrow> 's \<Rightarrow> string \<Rightarrow> string list \<Rightarrow> unit result \<times> 's \<times> string" where
  "feed deliver s buf [] = (Inr (), s, buf)"
| "feed deliver s buf (c # cs) =
     (case addToStream c buf of
        (Inl e, buf') \<Rightarrow> (Inl e, s, buf')
      | (Inr _, buf') \<Rightarrow>
          (case readMessages deliver s buf' of
             (Inl e, s', buf'') \<Rightarrow> (Inl e, s', buf'')
           | (Inr _, s', buf'') \<Rightarrow> feed deliver s' buf'' cs))"

section \<open>Complete frames\<close>

text \<open>What a frame must be for the parser: a version without SOH, a body of whole fields.\<close>

definition frame_ok :: "string \<Rightarrow> string \<Rightarrow> bool" where
  "frame_ok v body \<longleftrightarrow> SOH \<notin> set v \<and> (body = [] \<or> last body = SOH) \<and> length (fix_frame v body) \<le> MAX_BUFFER_BYTES"

lemma find_from_drop: "find_from pat (xs @ ys) (length xs) = map_option ((+) (length xs)) (find_sub pat ys)"
  by (simp add: find_from_def)

lemma find_sub_skip_if: "c \<notin> set xs \<Longrightarrow> find_sub (c # pat) (xs @ c # z) =
   (if prefix pat z then Some (length xs) else map_option ((+) (Suc (length xs))) (find_sub (c # pat) z))"
  by (induction xs; cases "find_sub (c # pat) z") auto

lemma find_char: "c \<notin> set xs \<Longrightarrow> find_sub [c] (xs @ c # ys) = Some (length xs)"
  using find_sub_skip [of c xs "[]" ys] by simp

text \<open>The parts of a frame: what precedes the body, and the last SOH before the checksum field.\<close>

definition frame_head :: "string \<Rightarrow> string \<Rightarrow> string" where
  "frame_head v body = ''8='' @ v @ [SOH] @ ''9='' @ dec_digits (length body) @ [SOH]"

definition frame_checksum_field :: "string \<Rightarrow> string \<Rightarrow> string" where
  "frame_checksum_field v body = ''10='' @ checksum_text (frame_checksum v body) @ [SOH]"

lemma fix_frame_parts: "fix_frame v body = frame_head v body @ body @ frame_checksum_field v body"
  by (simp add: fix_frame_alt frame_head_def frame_checksum_field_def)

lemma checksum_text_no_SOH: "n < 1000 \<Longrightarrow> SOH \<notin> set (checksum_text n)"
proof -
  assume n: "n < 1000"
  have d: "SOH \<noteq> digit_char d" if "d < 10" for d using is_digit_digit_char [OF that] not_digit(1) by metis
  show ?thesis using n by (simp add: checksum_text_def d)
qed

lemma frame_head_body:
  assumes "frame_ok v body"
  obtains G where "frame_head v body @ body = G @ [SOH]"
proof (cases "body = []")
  case True
  then show ?thesis using that [of "''8='' @ v @ [SOH] @ ''9='' @ dec_digits (length body)"] by (simp add: frame_head_def)
next
  case False
  then have "body = butlast body @ [SOH]" using assms append_butlast_last_id [of body] by (simp add: frame_ok_def)
  then show ?thesis using that [of "frame_head v body @ butlast body"] by simp
qed

lemma extractLength_at:
  assumes "find_sub ([SOH] @ ''9='') (B @ d @ SOH # z) = Some start" "length B = start + 3" "SOH \<notin> set d"
    "IntConvertor_from d = Some (int n)" "length B + length d + 1 + n + 7 \<le> MAX_BUFFER_BYTES"
  shows "extractLength (B @ d @ SOH # z) = Inr (Some (int n, length B + length d + 1))"
proof -
  have e: "find_from [SOH] (B @ d @ SOH # z) (start + 3) = Some (start + 3 + length d)"
    using find_from_drop [of "[SOH]" B "d @ SOH # z"] find_char [OF assms(3), of z] assms(2) by simp
  have t: "take (start + 3 + length d - (start + 3)) (drop (start + 3) (B @ d @ SOH # z)) = d"
    using assms(2) by (metis add_diff_cancel_left' append_eq_conv_conj)
  show ?thesis
    using assms(1,2,4,5) unfolding extractLength_def Let_def
    by (simp only: option.case e t) (simp, linarith)
qed

lemma frame_head_alt:
  obtains B where "frame_head v body = B @ dec_digits (length body) @ [SOH]" "B = (''8='' @ v) @ SOH # ''9=''"
    "length B = 2 + length v + 3"
  by (rule that [of "(''8='' @ v) @ SOH # ''9=''"]) (simp_all add: frame_head_def)

lemma extractLength_head:
  assumes f: "frame_ok v body"
  shows "extractLength (frame_head v body @ z) = Inr (Some (int (length body), length (frame_head v body)))"
proof -
  let ?d = "dec_digits (length body)"
  obtain B where B: "frame_head v body = B @ ?d @ [SOH]" "B = (''8='' @ v) @ SOH # ''9=''" "length B = 2 + length v + 3"
    by (rule frame_head_alt)
  have n: "length body + 7 + length (frame_head v body) \<le> MAX_BUFFER_BYTES"
    using f by (simp add: frame_ok_def fix_frame_parts frame_checksum_field_def checksum_text_def)
  then have i: "IntConvertor_from ?d = Some (int (length body))"
    using IntConvertor_roundtrip [of "int (length body)"] by (simp add: IntConvertor_to_digits int_digits_def MAX_BUFFER_BYTES_def)
  have s: "find_sub ([SOH] @ ''9='') (B @ ?d @ SOH # z) = Some (2 + length v)"
    unfolding B(2) using f find_sub_skip_if [of SOH "''8='' @ v" "''9=''" "''9='' @ ?d @ SOH # z"] by (simp add: frame_ok_def)
  have l: "length B + length ?d + 1 = length (frame_head v body)" by (simp add: B(1))
  show ?thesis
    using extractLength_at [OF s B(3) _ i] n l by (simp add: B(1))
qed

lemma readFixMessage_frame:
  assumes f: "frame_ok v body"
  shows "readFixMessage (fix_frame v body @ rest) = (Inr (Some (fix_frame v body)), rest)"
proof -
  let ?F = "fix_frame v body" and ?H = "frame_head v body" and ?cs = "checksum_text (frame_checksum v body)"
  obtain G where G: "?H @ body = G @ [SOH]" by (rule frame_head_body [OF f])
  have gl: "length ?H + length body = length G + 1" using arg_cong [OF G, of length] by simp
  define y where "y = ?cs @ SOH # rest"
  have b: "?F @ rest = G @ SOH # ''10='' @ y"
    using G by (simp add: fix_frame_parts frame_checksum_field_def y_def)
  have two: "\<not> length (?F @ rest) < 2" and h: "find_sub ''8='' (?F @ rest) = Some 0"
    by (simp_all add: fix_frame_parts frame_head_def)
  have x: "extractLength (?F @ rest) = Inr (Some (int (length body), length ?H))"
    using extractLength_head [OF f, of "body @ frame_checksum_field v body @ rest"] by (simp add: fix_frame_parts)
  have q: "find_from ([SOH] @ ''10='') (?F @ rest) (length ?H + length body - 1) = Some (length G)"
    unfolding b using find_from_drop [of "[SOH] @ ''10=''" G "SOH # ''10='' @ y"] gl by simp
  have l: "length (G @ SOH # ''10='') = length G + 4" by simp
  have "SOH \<notin> set ?cs" using frame_checksum_less [of v body] by (simp add: checksum_text_no_SOH)
  then have e: "find_from [SOH] (?F @ rest) (length G + 4) = Some (length G + 4 + length ?cs)"
    using find_from_drop [of "[SOH]" "G @ SOH # ''10=''" y] find_char [of SOH ?cs rest]
    unfolding b l by (simp add: y_def)
  have fl: "length ?F = length G + 4 + length ?cs + 1"
    using gl by (simp add: fix_frame_parts frame_checksum_field_def)
  have len: "\<not> length (?F @ rest) < length ?H + length body" using gl fl by simp
  show ?thesis
    unfolding readFixMessage_def if_not_P [OF two] h option.case drop_0 Let_def x sum.case split_conv nat_int
      if_not_P [OF len] q e fl [symmetric] by simp
qed

section \<open>Incomplete frames\<close>

lemma find_from_absent: "c \<notin> set (drop i s) \<Longrightarrow> find_from (c # pat) s i = None"
  by (simp add: find_from_def find_sub_absent)

lemma prefix_split: "prefix p (xs @ c # ys) \<Longrightarrow> prefix p xs \<or> (\<exists>w. p = xs @ c # w \<and> prefix w ys)"
  by (auto simp: prefix_append prefix_Cons)

lemma extractLength_waits:
  assumes f: "frame_ok v body" and p: "prefix p ((''8='' @ v) @ SOH # ''9='' @ dec_digits (length body))"
  shows "extractLength p = Inr None"
proof -
  have nv: "SOH \<notin> set (''8='' @ v)" using f by (simp add: frame_ok_def)
  from prefix_split [OF p] consider (v) "prefix p (''8='' @ v)"
    | (w) w where "p = (''8='' @ v) @ SOH # w" "prefix w (''9='' @ dec_digits (length body))" by auto
  then show ?thesis
  proof cases
    case v
    then have "SOH \<notin> set p" using nv set_mono_prefix by blast
    then show ?thesis by (simp add: extractLength_def find_sub_absent)
  next
    case w
    have "SOH \<notin> set (''9='' @ dec_digits (length body))" by simp
    then have nw: "SOH \<notin> set w" using w(2) set_mono_prefix by blast
    show ?thesis
    proof (cases "prefix ''9='' w")
      case True
      have s: "find_sub ([SOH] @ ''9='') p = Some (length (''8='' @ v))"
        using find_sub_skip_if [OF nv, of "''9=''" w] True by (simp add: w(1))
      have "drop (length (''8='' @ v) + 3) p = drop 2 w"
      proof -
        have "drop (length A + 3) (A @ c # w) = drop 2 w" for A and c :: char by simp
        then show ?thesis unfolding w(1) .
      qed
      then have "find_from [SOH] p (length (''8='' @ v) + 3) = None"
        using nw by (intro find_from_absent) (auto dest: in_set_dropD)
      then show ?thesis using s unfolding extractLength_def Let_def by (simp only: option.case) simp
    next
      case False
      then have "find_sub ([SOH] @ ''9='') p = None"
        using find_sub_skip_if [OF nv, of "''9=''" w] find_sub_absent [OF nw, of "''9=''"] by (simp add: w(1))
      then show ?thesis by (simp add: extractLength_def)
    qed
  qed
qed

lemma readFixMessage_waits:
  assumes f: "frame_ok v body" and p: "strict_prefix p (fix_frame v body)"
  shows "readFixMessage p = (Inr None, p)"
proof -
  let ?H = "frame_head v body" and ?C = "frame_checksum_field v body" and ?cs = "checksum_text (frame_checksum v body)"
  obtain B where B: "?H = B @ dec_digits (length body) @ [SOH]" "B = (''8='' @ v) @ SOH # ''9=''" by (rule frame_head_alt)
  have lp: "length p < MAX_BUFFER_BYTES" using p f prefix_length_less [OF p] by (simp add: frame_ok_def)
  then have inc: "incomplete p = (Inr None, p)" by (simp add: incomplete_def)
  have pp: "prefix p (fix_frame v body)" "p \<noteq> fix_frame v body" using p by (simp_all add: strict_prefix_def)
  have h: "find_sub ''8='' p = Some 0" if "\<not> length p < 2"
  proof -
    have "prefix p (''8='' @ v @ SOH # ''9='' @ dec_digits (length body) @ SOH # body @ ?C)"
      using pp(1) by (simp add: fix_frame_parts frame_head_def)
    then have "prefix ''8='' p" using that by (cases p; cases "tl p") (auto simp: prefix_Cons)
    then show ?thesis by (cases p) auto
  qed
  have "prefix p (((''8='' @ v) @ SOH # ''9='' @ dec_digits (length body)) @ SOH # body @ ?C)"
    using pp(1) by (simp add: fix_frame_parts frame_head_def)
  from prefix_split [OF this] consider (A) "prefix p ((''8='' @ v) @ SOH # ''9='' @ dec_digits (length body))"
    | (B) z where "p = ?H @ z" "prefix z (body @ ?C)" by (auto simp: frame_head_def)
  then show ?thesis
  proof cases
    case A
    then show ?thesis using extractLength_waits [OF f A] h inc by (simp add: readFixMessage_def Let_def)
  next
    case (B z)
    have x: "extractLength p = Inr (Some (int (length body), length ?H))" unfolding B(1) by (rule extractLength_head [OF f])
    have two: "\<not> length p < 2" by (simp add: B(1) frame_head_def)
    show ?thesis
    proof (cases "length p < length ?H + length body")
      case True
      then show ?thesis using x inc unfolding readFixMessage_def if_not_P [OF two] h [OF two] by simp
    next
      case False
      obtain G where G: "?H @ body = G @ [SOH]" by (rule frame_head_body [OF f])
      have gl: "length ?H + length body = length G + 1" using arg_cong [OF G, of length] by simp
      obtain y where z: "z = body @ y" "prefix y ?C"
      proof (cases "prefix z body")
        case True
        then have "z = body" using False B(1) prefix_length_le [OF True] by (auto simp: prefix_def)
        then show ?thesis using that [of "[]"] by simp
      qed (use B(2) that in \<open>auto simp: prefix_append\<close>)
      have py: "p = G @ SOH # y" using B(1) z(1) G by simp
      have yc: "y \<noteq> ?C" using pp(2) B(1) z(1) by (auto simp: fix_frame_parts)
      have nc: "SOH \<notin> set (''10='' @ ?cs)" using frame_checksum_less [of v body] by (simp add: checksum_text_no_SOH)
      have "prefix y ((''10='' @ ?cs) @ [SOH])" using z(2) by (simp add: frame_checksum_field_def)
      then have "prefix y (''10='' @ ?cs)" using yc by (auto simp: frame_checksum_field_def prefix_append prefix_Cons)
      then have ny: "SOH \<notin> set y" using nc set_mono_prefix by blast
      have fq: "find_from ([SOH] @ ''10='') p (length ?H + length body - 1) =
          (if prefix ''10='' y then Some (length G) else None)"
        using find_from_drop [of "[SOH] @ ''10=''" G "SOH # y"] find_sub_absent [OF ny, of "''10=''"] gl by (simp add: py)
      have "find_from [SOH] p (length G + 4) = None"
        using ny by (intro find_from_absent) (auto simp: py dest: in_set_dropD)
      then show ?thesis
        using False inc unfolding readFixMessage_def if_not_P [OF two] h [OF two] option.case drop_0 Let_def x sum.case
          split_conv nat_int fq by simp
    qed
  qed
qed

section \<open>Streams\<close>

text \<open>A session that goes on with every message: what it was given, in order.\<close>

definition collect :: "string \<Rightarrow> string list \<Rightarrow> bool \<times> string list" where
  "collect m ms = (True, ms @ [m])"

definition is_frame :: "string \<Rightarrow> bool" where
  "is_frame s \<longleftrightarrow> (\<exists>v body. frame_ok v body \<and> s = fix_frame v body)"

lemma is_frame_read:
  assumes "is_frame s"
  shows "readFixMessage (s @ rest) = (Inr (Some s), rest)" "strict_prefix p s \<Longrightarrow> readFixMessage p = (Inr None, p)"
    "0 < length s" "length s \<le> MAX_BUFFER_BYTES"
proof -
  obtain v body where f: "frame_ok v body" "s = fix_frame v body" using assms by (auto simp: is_frame_def)
  then show "readFixMessage (s @ rest) = (Inr (Some s), rest)" "strict_prefix p s \<Longrightarrow> readFixMessage p = (Inr None, p)"
    using readFixMessage_frame readFixMessage_waits by simp_all
  show "0 < length s" "length s \<le> MAX_BUFFER_BYTES" using f by (simp_all add: frame_ok_def fix_frame_parts frame_head_def)
qed

text \<open>The buffer between two reads holds the beginning of the next frame.\<close>

definition begins :: "string \<Rightarrow> string list \<Rightarrow> bool" where
  "begins b fs \<longleftrightarrow> (case fs of [] \<Rightarrow> b = [] | f # _ \<Rightarrow> strict_prefix b f)"

lemma readFixMessage_Nil: "readFixMessage [] = (Inr None, [])"
  by (simp add: readFixMessage_def incomplete_def MAX_BUFFER_BYTES_def)

lemma readMessages_stream:
  assumes "list_all is_frame fs" "b @ later = concat fs"
  shows "\<exists>ds rs b'. fs = ds @ rs \<and> readMessages collect ms b = (Inr (), ms @ ds, b') \<and> b' @ later = concat rs \<and> begins b' rs"
  using assms
proof (induction fs arbitrary: b ms)
  case Nil
  then show ?case by (simp add: readMessages.simps [of _ _ "[]"] readFixMessage_Nil begins_def)
next
  case (Cons f fs)
  have f: "is_frame f" using Cons.prems(1) by simp
  have eq: "b @ later = f @ concat fs" using Cons.prems(2) by simp
  consider (full) b2 where "b = f @ b2" "b2 @ later = concat fs" | (part) r where "f = b @ r" "later = r @ concat fs" "r \<noteq> []"
  proof -
    from append_eq_append_conv2 [THEN iffD1, OF eq] obtain us
      where us: "b = f @ us \<and> us @ later = concat fs \<or> b @ us = f \<and> later = us @ concat fs" by blast
    show ?thesis
    proof (cases "us = []")
      case True
      then show ?thesis using us full [of "[]"] by auto
    next
      case False
      then show ?thesis using us full [of us] part [of us] by blast
    qed
  qed
  then show ?case
  proof cases
    case full
    have r: "readMessages collect ms b = readMessages collect (ms @ [f]) b2"
      using is_frame_read(1) [OF f, of b2]
      by (subst readMessages.simps) (simp add: full(1) collect_def)
    obtain ds rs b' where "fs = ds @ rs" "readMessages collect (ms @ [f]) b2 = (Inr (), (ms @ [f]) @ ds, b')"
      "b' @ later = concat rs" "begins b' rs"
      using Cons.IH [of b2 "ms @ [f]"] Cons.prems(1) full(2) by auto
    then show ?thesis using r by (intro exI [of _ "f # ds"] exI [of _ rs] exI [of _ b']) simp
  next
    case part
    then have "strict_prefix b f" by (simp add: strict_prefix_def)
    then have "readMessages collect ms b = (Inr (), ms, b)"
      using is_frame_read(2) [OF f] by (subst readMessages.simps) simp
    then show ?thesis using part \<open>strict_prefix b f\<close>
      by (intro exI [of _ "[]"] exI [of _ "f # fs"] exI [of _ b]) (simp add: begins_def)
  qed
qed

lemma feed_stream:
  assumes "list_all is_frame fs" "begins b fs" "b @ concat cs = concat fs"
    "\<forall>c\<in>set cs. \<forall>f\<in>set fs. length c + length f \<le> MAX_BUFFER_BYTES"
  shows "feed collect ms b cs = (Inr (), ms @ fs, [])"
  using assms
proof (induction cs arbitrary: fs b ms)
  case Nil
  have "fs = []"
  proof (cases fs)
    case (Cons f fs')
    then have "length b < length f" "length b = length f + length (concat fs')"
      using Nil.prems(2,3) arg_cong [of b "concat fs" length] by (auto simp: begins_def dest: prefix_length_less)
    then show ?thesis by simp
  qed
  then show ?case using Nil by (simp add: begins_def)
next
  case (Cons c cs)
  have fits: "length b + length c \<le> MAX_BUFFER_BYTES"
  proof (cases fs)
    case Nil
    then have "b = []" "c = []" using Cons.prems(2,3) by (auto simp: begins_def)
    then show ?thesis by (simp add: MAX_BUFFER_BYTES_def)
  next
    case (Cons f fs')
    then have "length b < length f" "length c + length f \<le> MAX_BUFFER_BYTES"
      using Cons.prems(2,4) by (auto simp: begins_def dest: prefix_length_less)
    then show ?thesis by simp
  qed
  then have add: "addToStream c b = (Inr (), b @ c)" by (auto simp: addToStream_def)
  obtain ds rs b' where r: "fs = ds @ rs" "readMessages collect ms (b @ c) = (Inr (), ms @ ds, b')"
      "b' @ concat cs = concat rs" "begins b' rs"
    using readMessages_stream [OF Cons.prems(1), of "b @ c" "concat cs" ms] Cons.prems(3) by auto
  then have "feed collect (ms @ ds) b' cs = (Inr (), (ms @ ds) @ rs, [])"
    using Cons.prems(1,4) by (intro Cons.IH) auto
  then show ?case using add r by simp
qed

section \<open>Properties\<close>

text \<open>C34: the buffer of a connection never holds more than 16 MiB: adding bytes beyond that throws
  and empties it, reading only shortens it, a message that is read is a nonempty block of the
  buffer, and what is left is shorter.\<close>

theorem buffer_bounded:
  assumes "length buf \<le> MAX_BUFFER_BYTES"
  shows "length (snd (addToStream str buf)) \<le> MAX_BUFFER_BYTES \<and>
    (fst (addToStream str buf) = Inr () \<longleftrightarrow> length buf + length str \<le> MAX_BUFFER_BYTES) \<and>
    length (snd (readFixMessage buf)) \<le> MAX_BUFFER_BYTES \<and>
    (readFixMessage buf = (Inr (Some m), rest) \<longrightarrow>
       length rest < length buf \<and> m \<noteq> [] \<and> (\<exists>garbage. buf = garbage @ m @ rest))"
  using assms readFixMessage_length [of buf] readFixMessage_shorter [of buf m rest]
  by (auto simp: addToStream_def)

theorem buffer_bounded_witness: "snd (addToStream ''8='' []) = ''8='' \<and> length (snd (readFixMessage ''8='')) \<le> MAX_BUFFER_BYTES"
  using buffer_bounded [of "''8=''" "[]" "[]" "[]"] by (simp add: addToStream_def MAX_BUFFER_BYTES_def)

text \<open>C9: however the bytes of a stream of messages are cut into reads (within messages, within
  fields, many messages at once, empty reads), the session is given exactly the messages that
  were sent, in the order they were sent, as soon as they are complete, with no error and
  nothing left over; the only condition is that a read and a message together fit in the
  buffer.\<close>

theorem stream_reassembly:
  assumes "list_all is_frame fs" "concat cs = concat fs"
    "\<forall>c\<in>set cs. \<forall>f\<in>set fs. length c + length f \<le> MAX_BUFFER_BYTES"
  shows "feed collect [] [] cs = (Inr (), fs, [])"
proof -
  have "begins [] fs"
    using assms(1) is_frame_read(3) [of "hd fs"] by (cases fs) (auto simp: begins_def strict_prefix_def)
  then show ?thesis using feed_stream [of fs "[]" cs "[]"] assms by simp
qed

theorem stream_reassembly_witness:
  "let f = fix_frame ''FIX.4.2'' (''35=0'' @ [SOH]) in
   feed collect [] [] [take 3 f, drop 3 f @ take 7 f, drop 7 f] = (Inr (), [f, f], [])"
proof -
  define f where "f = fix_frame ''FIX.4.2'' (''35=0'' @ [SOH])"
  have "length f = 26"
    by (simp add: f_def fix_frame_alt checksum_text_def dec_digits_one)
  then have "frame_ok ''FIX.4.2'' (''35=0'' @ [SOH])" and l: "length f = 26"
    by (simp_all add: frame_ok_def f_def MAX_BUFFER_BYTES_def)
  then have "is_frame f" unfolding is_frame_def f_def by blast
  then show ?thesis
    using stream_reassembly [of "[f, f]" "[take 3 f, drop 3 f @ take 7 f, drop 7 f]"] l
    unfolding f_def [symmetric] by (simp add: MAX_BUFFER_BYTES_def min_def)
qed

text \<open>C35: what \<open>toString\<close> prints of a message whose version has no SOH and that fits in the buffer
  is taken off the stream of the receiver as exactly that string.\<close>

theorem printed_message_is_read:
  assumes "toString_default m = Inr (s, m')" "well_framed m" "field_value F_BeginString (m_header m) = Some v"
    "SOH \<notin> set v" "length (payload m) < 2 ^ 31" "length s \<le> MAX_BUFFER_BYTES"
  shows "readFixMessage (s @ rest) = (Inr (Some s), rest)"
proof -
  have s: "s = fix_frame v (payload m)" using toString_frame [OF assms(2,3,5)] assms(1) by simp
  have "payload m = [] \<or> last (payload m) = SOH"
  proof (cases "payload_fields m" rule: rev_cases)
    case (snoc fs f)
    then show ?thesis by (simp add: payload_def getFixString_def)
  qed (simp add: payload_def)
  then have "frame_ok v (payload m)" using assms(4,6) s by (simp add: frame_ok_def)
  then show ?thesis using readFixMessage_frame s by simp
qed

theorem printed_message_is_read_witness:
  "\<exists>s m'. toString_default sample_heartbeat = Inr (s, m') \<and> readFixMessage (s @ s) = (Inr (Some s), s)"
proof -
  let ?v = "''FIX.4.2''"
  have w: "well_framed sample_heartbeat" using sample_heartbeat_facts by (simp add: sendable_def)
  have n: "length (payload sample_heartbeat) < 2 ^ 31" using sample_heartbeat_facts by simp
  let ?s = "fix_frame ?v (payload sample_heartbeat)"
  have t: "toString_default sample_heartbeat = Inr (?s, printed sample_heartbeat (checksum_text (frame_checksum ?v (payload sample_heartbeat))))"
    using toString_frame [OF w _ n] sample_heartbeat_facts by simp
  have "length ?s \<le> MAX_BUFFER_BYTES"
    using sample_heartbeat_facts
    by (simp add: fix_frame_alt checksum_text_def dec_digits_step dec_digits_one MAX_BUFFER_BYTES_def)
  then show ?thesis using printed_message_is_read [OF t w _ _ n] t sample_heartbeat_facts by auto
qed

end
