(* ===== verification/DeclaredFrames.thy ===== *)
theory DeclaredFrames
  imports StreamParsers
begin

text \<open>
  \<open>scanInfiniteDeclaredFrame\<close>: a scanner that finds the end of a frame from its declared length
  and can be interrupted anywhere, keeping its place in a cursor. Positions are natural
  numbers; the overflow checks of \<open>size_t\<close> are kept with its largest value written out. The
  lemmas show that a scan taken up with more bytes goes on as if it had never stopped.
\<close>

definition MAX_FRAME_BYTES :: nat where "MAX_FRAME_BYTES = 65536"
definition MAX_BEGIN_STRING_BYTES :: nat where "MAX_BEGIN_STRING_BYTES = 16"
definition CHECKSUM_FIELD_BYTES :: nat where "CHECKSUM_FIELD_BYTES = 7"
definition SIZE_MAX :: nat where "SIZE_MAX = 2 ^ 64 - 1"

section \<open>The scanner\<close>

record frame_cursor =
  frameStart :: nat
  scanOffset :: nat
  cur_bodyLength :: nat
  checksumBegin :: nat
  stage :: nat
  bodyLengthHasDigit :: bool

definition frame_cursor_new :: frame_cursor where
  "frame_cursor_new = \<lparr>frameStart = 0, scanOffset = 0, cur_bodyLength = 0, checksumBegin = 0, stage = 0,
     bodyLengthHasDigit = False\<rparr>"

datatype scan_result = NeedMore | Ready | Malformed | TooLarge

definition cursor_invalid :: "nat \<Rightarrow> frame_cursor \<Rightarrow> bool" where
  "cursor_invalid len c \<longleftrightarrow>
     stage c > 3 \<or> frameStart c > len \<or>
     (scanOffset c > len \<and> \<not> (stage c = 0 \<and> scanOffset c = frameStart c + 2 \<and> len - frameStart c < 2)) \<or>
     (stage c \<noteq> 2 \<and> cur_bodyLength c > MAX_FRAME_BYTES) \<or>
     (checksumBegin c \<noteq> 0 \<and>
        (checksumBegin c < frameStart c \<or> checksumBegin c - frameStart c > MAX_FRAME_BYTES))"

text \<open>
  Each stage returns the result it ends the scan with, if it does, and the cursor. The loop
  over the version: \<open>prev\<close> is the byte before, \<open>k\<close> the bytes since the start of the version;
  it returns whether the version is malformed and how many bytes it passed.
\<close>

fun begin_loop :: "char \<Rightarrow> nat \<Rightarrow> string \<Rightarrow> bool \<times> nat" where
  "begin_loop prev k [] = (False, 0)"
| "begin_loop prev k (c # cs) =
     (if c = SOH then (False, 0)
      else if k \<ge> MAX_BEGIN_STRING_BYTES then (True, 0)
      else if c = CHR ''='' \<and> prev = CHR ''8'' then (True, 0)
      else let (bad, n) = begin_loop c (Suc k) cs in (bad, Suc n))"

definition begin_norm :: "nat \<Rightarrow> frame_cursor \<Rightarrow> frame_cursor" where
  "begin_norm len c =
     (if stage c = 0 \<and> scanOffset c < frameStart c + 2
      then c\<lparr>scanOffset := min len (frameStart c + 2)\<rparr> else c)"

definition scan_begin :: "string \<Rightarrow> frame_cursor \<Rightarrow> scan_result option \<times> frame_cursor" where
  "scan_begin bytes c0 =
     (let len = length bytes;
          c = begin_norm len c0
      in if stage c \<noteq> 0 then (None, c)
         else let available = len - frameStart c in
           if available \<noteq> 0 \<and> bytes ! frameStart c \<noteq> CHR ''8'' \<or>
              available > 1 \<and> bytes ! (frameStart c + 1) \<noteq> CHR ''=''
           then (Some Malformed, c)
           else
             let (bad, n) = begin_loop (bytes ! (scanOffset c - 1)) (scanOffset c - (frameStart c + 2))
                              (drop (scanOffset c) bytes);
                 c' = c\<lparr>scanOffset := scanOffset c + n\<rparr>
             in if bad then (Some Malformed, c')
                else if scanOffset c' < len then
                  if scanOffset c' = frameStart c' + 2 then (Some Malformed, c')
                  else (None, c'\<lparr>stage := 1\<rparr>)
                else (None, c'))"

definition scan_length_prefix :: "string \<Rightarrow> frame_cursor \<Rightarrow> scan_result option \<times> frame_cursor" where
  "scan_length_prefix bytes c =
     (if stage c \<noteq> 1 then (None, c)
      else let available = min 3 (length bytes - scanOffset c) in
        if list_all (\<lambda>i. bytes ! (scanOffset c + i) = ([SOH] @ ''9='') ! i) [0..<available]
        then if available = 3 then (None, c\<lparr>scanOffset := scanOffset c + 3, stage := 2\<rparr>) else (None, c)
        else (Some Malformed, c))"

text \<open>The loop over the digits: malformed, the length so far, whether there was a digit, bytes passed.\<close>

fun length_loop :: "nat \<Rightarrow> bool \<Rightarrow> string \<Rightarrow> bool \<times> nat \<times> bool \<times> nat" where
  "length_loop l digit [] = (False, l, digit, 0)"
| "length_loop l digit (c # cs) =
     (if c = SOH then (False, l, digit, 0)
      else if \<not> is_digit c then (True, l, digit, 0)
      else if l > (SIZE_MAX - digit_val c) div 10 then (True, l, digit, 0)
      else let (bad, l', d', n) = length_loop (l * 10 + digit_val c) True cs in (bad, l', d', Suc n))"

definition scan_length :: "string \<Rightarrow> frame_cursor \<Rightarrow> scan_result option \<times> frame_cursor" where
  "scan_length bytes c =
     (if stage c \<noteq> 2 then (None, c)
      else
        let (bad, l, digit, n) = length_loop (cur_bodyLength c) (bodyLengthHasDigit c) (drop (scanOffset c) bytes);
            c' = c\<lparr>scanOffset := scanOffset c + n, cur_bodyLength := l, bodyLengthHasDigit := digit\<rparr>
        in if bad then (Some Malformed, c')
           else if scanOffset c' < length bytes then
             if \<not> bodyLengthHasDigit c' then (Some Malformed, c')
             else let bodyBegin = scanOffset c' + 1 in
               if bodyBegin > SIZE_MAX - l \<or> bodyBegin + l > SIZE_MAX - CHECKSUM_FIELD_BYTES \<or>
                  bodyBegin + l + CHECKSUM_FIELD_BYTES - frameStart c' > MAX_FRAME_BYTES
               then (Some TooLarge, c')
               else (None, c'\<lparr>checksumBegin := bodyBegin + l, stage := 3\<rparr>)
           else (None, c'))"

definition scan_checksum :: "string \<Rightarrow> frame_cursor \<Rightarrow> scan_result option \<times> frame_cursor \<times> nat" where
  "scan_checksum bytes c =
     (if stage c \<noteq> 3 then (None, c, 0)
      else
        let len = length bytes; cb = checksumBegin c in
        if len \<ge> cb \<and> cb \<noteq> 0 \<and> bytes ! (cb - 1) \<noteq> SOH then (Some Malformed, c, 0)
        else let available = min CHECKSUM_FIELD_BYTES (if len > cb then len - cb else 0) in
          if \<not> list_all (\<lambda>i. bytes ! (cb + i) = ''10='' ! i) [0..<min 3 available] then (Some Malformed, c, 0)
          else if \<not> list_all (\<lambda>i. is_digit (bytes ! (cb + i))) [3..<min 6 available] then (Some Malformed, c, 0)
          else if available = CHECKSUM_FIELD_BYTES then
            if bytes ! (cb + 6) \<noteq> SOH then (Some Malformed, c, 0)
            else let completePrefix = cb + CHECKSUM_FIELD_BYTES in
              (Some Ready, \<lparr>frameStart = completePrefix, scanOffset = completePrefix + 2, cur_bodyLength = 0,
                 checksumBegin = 0, stage = 0, bodyLengthHasDigit = False\<rparr>, completePrefix)
          else (None, c, 0))"

definition scan_stages :: "string \<Rightarrow> frame_cursor \<Rightarrow> scan_result \<times> frame_cursor \<times> nat" where
  "scan_stages bytes c =
     (case scan_begin bytes c of
        (Some r, c1) \<Rightarrow> (r, c1, 0)
      | (None, c1) \<Rightarrow>
          (case scan_length_prefix bytes c1 of
             (Some r, c2) \<Rightarrow> (r, c2, 0)
           | (None, c2) \<Rightarrow>
               (case scan_length bytes c2 of
                  (Some r, c3) \<Rightarrow> (r, c3, 0)
                | (None, c3) \<Rightarrow>
                    (case scan_checksum bytes c3 of
                       (Some r, c4, n) \<Rightarrow> (r, c4, n)
                     | (None, c4, n) \<Rightarrow> (NeedMore, c4, n)))))"

definition scanInfiniteDeclaredFrame :: "string \<Rightarrow> frame_cursor \<Rightarrow> scan_result \<times> frame_cursor \<times> nat" where
  "scanInfiniteDeclaredFrame bytes c =
     (if cursor_invalid (length bytes) c then (Malformed, c, 0) else scan_stages bytes c)"

text \<open>A complete frame is a nonempty prefix of the bytes.\<close>

lemma scan_Ready_bound: "scanInfiniteDeclaredFrame bytes c = (Ready, c', n) \<Longrightarrow> CHECKSUM_FIELD_BYTES \<le> n \<and> n \<le> length bytes"
proof -
  have no: "scan_begin bytes c \<noteq> (Some Ready, c')" "scan_length_prefix bytes c \<noteq> (Some Ready, c')"
    "scan_length bytes c \<noteq> (Some Ready, c')" for c c'
    by (auto simp: scan_begin_def scan_length_prefix_def scan_length_def Let_def split: prod.splits if_splits)
  have "scan_checksum bytes c = (Some Ready, c', n) \<Longrightarrow> CHECKSUM_FIELD_BYTES \<le> n \<and> n \<le> length bytes" for c
    by (auto simp: scan_checksum_def Let_def CHECKSUM_FIELD_BYTES_def min_def split: if_splits)
  then show "scanInfiniteDeclaredFrame bytes c = (Ready, c', n) \<Longrightarrow> CHECKSUM_FIELD_BYTES \<le> n \<and> n \<le> length bytes"
    using no by (auto simp: scanInfiniteDeclaredFrame_def scan_stages_def split: prod.splits option.splits if_splits)
qed

section \<open>Scanning can be interrupted anywhere\<close>

lemma begin_loop_length: "begin_loop prev k xs = (bad, n) \<Longrightarrow> n \<le> length xs"
  by (induction prev k xs arbitrary: bad n rule: begin_loop.induct) (auto split: if_splits prod.splits)

lemma begin_loop_stop: "begin_loop prev k xs = (False, n) \<Longrightarrow> n < length xs \<Longrightarrow> begin_loop prev k (xs @ ys) = (False, n)"
  by (induction prev k xs arbitrary: n rule: begin_loop.induct) (auto split: if_splits prod.splits)

lemma begin_loop_resume:
  "begin_loop prev k xs = (False, length xs) \<Longrightarrow>
   begin_loop prev k (xs @ ys) = (let (b, m) = begin_loop (last (prev # xs)) (k + length xs) ys in (b, length xs + m))"
proof (induction prev k xs rule: begin_loop.induct)
  case (2 prev k c cs)
  then have c: "\<not> c = SOH" "\<not> k \<ge> MAX_BEGIN_STRING_BYTES" "\<not> (c = CHR ''='' \<and> prev = CHR ''8'')"
    "begin_loop c (Suc k) cs = (False, length cs)"
    by (auto split: if_splits prod.splits)
  then show ?case using 2(1) [OF c(1-3) c(4)] by (auto split: prod.split)
qed simp

lemma length_loop_length: "length_loop l d xs = (bad, l', d', n) \<Longrightarrow> n \<le> length xs"
  by (induction l d xs arbitrary: bad l' d' n rule: length_loop.induct) (auto split: if_splits prod.splits)

lemma length_loop_stop: "length_loop l d xs = (False, l', d', n) \<Longrightarrow> n < length xs \<Longrightarrow>
    length_loop l d (xs @ ys) = (False, l', d', n)"
  by (induction l d xs arbitrary: l' d' n rule: length_loop.induct) (auto split: if_splits prod.splits)

lemma length_loop_resume:
  "length_loop l d xs = (False, l', d', length xs) \<Longrightarrow>
   length_loop l d (xs @ ys) = (let (b, l2, d2, m) = length_loop l' d' ys in (b, l2, d2, length xs + m))"
proof (induction l d xs rule: length_loop.induct)
  case (2 l d c cs)
  then have c: "\<not> c = SOH" "\<not> \<not> is_digit c" "\<not> l > (SIZE_MAX - digit_val c) div 10"
    "length_loop (l * 10 + digit_val c) True cs = (False, l', d', length cs)"
    by (auto split: if_splits prod.splits)
  then show ?case using 2(1) [OF c(1-3) c(4)] by (auto split: prod.split)
qed simp

text \<open>A stage that did not end the scan: done again on more bytes it goes on where it was.\<close>

definition placed :: "string \<Rightarrow> frame_cursor \<Rightarrow> bool" where
  "placed p c \<longleftrightarrow> scanOffset c \<le> length p \<or> stage c = 0 \<and> scanOffset c = frameStart c + 2 \<and> length p - frameStart c < 2"

lemma scan_begin_norm: "stage c = 0 \<Longrightarrow> scanOffset c < frameStart c + 2 \<Longrightarrow>
    scan_begin b c = scan_begin b (c\<lparr>scanOffset := min (length b) (frameStart c + 2)\<rparr>)"
proof -
  assume "stage c = 0" "scanOffset c < frameStart c + 2"
  then have "begin_norm (length b) (c\<lparr>scanOffset := min (length b) (frameStart c + 2)\<rparr>) = begin_norm (length b) c"
    by (simp add: begin_norm_def)
  then show ?thesis by (simp add: scan_begin_def)
qed

lemma scan_begin_main: "stage c = 0 \<Longrightarrow> frameStart c + 2 \<le> scanOffset c \<Longrightarrow> scanOffset c \<le> length b \<Longrightarrow>
    scan_begin b c =
      (if b ! frameStart c \<noteq> CHR ''8'' \<or> b ! (frameStart c + 1) \<noteq> CHR ''='' then (Some Malformed, c)
       else let (bad, n) = begin_loop (b ! (scanOffset c - 1)) (scanOffset c - (frameStart c + 2)) (drop (scanOffset c) b);
                c' = c\<lparr>scanOffset := scanOffset c + n\<rparr>
            in if bad then (Some Malformed, c')
               else if scanOffset c + n < length b then
                 if n = 0 \<and> scanOffset c = frameStart c + 2 then (Some Malformed, c') else (None, c'\<lparr>stage := 1\<rparr>)
               else (None, c'))"
  by (auto simp: scan_begin_def begin_norm_def Let_def split: prod.split)

lemma scan_begin_short:
  assumes "stage c = 0" "length p < frameStart c + 2" "frameStart c \<le> length p" "placed p c" "scan_begin p c = (None, c')"
  shows "c' = (if scanOffset c < frameStart c + 2 then c\<lparr>scanOffset := length p\<rparr> else c)"
  using assms by (auto simp: scan_begin_def begin_norm_def Let_def placed_def split: if_splits)

lemma scan_begin_resume:
  assumes s: "scan_begin p c = (None, c')" and pl: "placed p c" and f: "frameStart c \<le> length p"
  shows "scan_begin (p @ q) c' = scan_begin (p @ q) c \<and> placed p c' \<and> frameStart c' = frameStart c \<and>
    cur_bodyLength c' = cur_bodyLength c \<and> checksumBegin c' = checksumBegin c \<and>
    (c' = c \<or> stage c = 0 \<and> stage c' \<le> 1) \<and> (stage c = 0 \<and> stage c' = 1 \<longrightarrow> scan_begin (p @ q) c = (None, c'))"
proof (cases "stage c = 0")
  case False
  then have "c' = c" using s by (auto simp: scan_begin_def begin_norm_def Let_def split: if_splits)
  then show ?thesis using pl False by simp
next
  case st: True
  show ?thesis
  proof (cases "length p < frameStart c + 2")
    case True
    then have c': "c' = (if scanOffset c < frameStart c + 2 then c\<lparr>scanOffset := length p\<rparr> else c)"
      by (rule scan_begin_short [OF st _ f pl s])
    show ?thesis
    proof (cases "scanOffset c < frameStart c + 2")
      case off: True
      then have "scan_begin (p @ q) c' = scan_begin (p @ q) c"
        using c' True st scan_begin_norm [of c "p @ q"] scan_begin_norm [of c' "p @ q"] by simp
      then show ?thesis using c' off st by (simp add: placed_def)
    qed (use c' pl st in simp)
  next
    case False
    define d where "d = (if scanOffset c < frameStart c + 2 then c\<lparr>scanOffset := frameStart c + 2\<rparr> else c)"
    have d: "stage d = 0" "frameStart d = frameStart c" "frameStart d + 2 \<le> scanOffset d" "scanOffset d \<le> length p"
      "cur_bodyLength d = cur_bodyLength c" "checksumBegin d = checksumBegin c"
      using st False pl by (auto simp: d_def placed_def)
    have e: "scan_begin b c = scan_begin b d" if "frameStart c + 2 \<le> length b" for b
      using scan_begin_norm [OF st, of b] that by (simp add: d_def min_def)
    have sd: "scan_begin p d = (None, c')" "scan_begin (p @ q) c = scan_begin (p @ q) d"
      using e [of p] e [of "p @ q"] s False by simp_all
    let ?o = "scanOffset d" and ?fs = "frameStart d"
    have i: "?fs < length p" "?fs + 1 < length p" "?o - 1 < length p" using d False by linarith+
    obtain bad n where l: "begin_loop (p ! (?o - 1)) (?o - (?fs + 2)) (drop ?o p) = (bad, n)" by fastforce
    have h: "p ! ?fs = CHR ''8''" "p ! (?fs + 1) = CHR ''=''" "\<not> bad"
      using sd(1) l scan_begin_main [OF d(1,3,4)] by (auto split: if_splits)
    have n: "n \<le> length p - ?o" using begin_loop_length [OF l] by simp
    have d4: "scanOffset d \<le> length (p @ q)" using d(4) by simp
    note main = scan_begin_main [OF d(1,3) d4]
    show ?thesis
    proof (cases "?o + n < length p")
      case True
      then have nz: "\<not> (n = 0 \<and> ?o = ?fs + 2)" and c': "c' = d\<lparr>scanOffset := ?o + n, stage := 1\<rparr>"
        using sd(1) l h scan_begin_main [OF d(1,3,4)] by (auto simp: Let_def split: if_splits)
      have "begin_loop (p ! (?o - 1)) (?o - (?fs + 2)) (drop ?o p @ q) = (False, n)"
        using l h(3) True by (intro begin_loop_stop) auto
      then have r: "scan_begin (p @ q) d = (None, c')"
        using main h i nz c' True d(4) by (auto simp: nth_append Let_def)
      moreover have "scan_begin (p @ q) c' = (None, c')" by (simp add: scan_begin_def begin_norm_def c' Let_def)
      ultimately show ?thesis using sd(2) c' d True st by (simp add: placed_def)
    next
      case end': False
      then have on: "?o + n = length p" using n d(4) by linarith
      then have c': "c' = d\<lparr>scanOffset := length p\<rparr>"
        using sd(1) l h scan_begin_main [OF d(1,3,4)] by (auto simp: Let_def split: if_splits)
      have ln: "length (drop ?o p) = n" using on by simp
      have last: "last (p ! (?o - 1) # drop ?o p) = p ! (length p - 1)"
      proof (cases "drop ?o p = []")
        case True
        then have "?o = length p" using d(4) by simp
        then show ?thesis by simp
      next
        case False
        then show ?thesis by (simp add: last_drop last_conv_nth)
      qed
      have "begin_loop (p ! (?o - 1)) (?o - (?fs + 2)) (drop ?o p @ q) =
          (let (b, m) = begin_loop (p ! (length p - 1)) (length p - (?fs + 2)) q in (b, n + m))"
      proof -
        have r0: "begin_loop (p ! (?o - 1)) (?o - (?fs + 2)) (drop ?o p) = (False, length (drop ?o p))"
          unfolding ln using l h(3) by simp
        have k: "?o - (?fs + 2) + n = length p - (?fs + 2)" using on d(3) by linarith
        show ?thesis using begin_loop_resume [OF r0, of q] unfolding last ln k .
      qed
      then have "scan_begin (p @ q) d = scan_begin (p @ q) c'"
        using main scan_begin_main [of c' "p @ q"] h i d on c' d(4)
        by (cases "begin_loop (p ! (length p - 1)) (length p - (?fs + 2)) q") (auto simp: nth_append Let_def add.assoc [symmetric])
      then show ?thesis using sd(2) c' d st by (simp add: placed_def)
    qed
  qed
qed

lemma scan_length_prefix_resume:
  assumes s: "scan_length_prefix p c = (None, c')" and st: "stage c = 1" and pl: "scanOffset c \<le> length p"
  shows "c' = c \<or> stage c' = 2 \<and> scan_length_prefix (p @ q) c = (None, c') \<and> scanOffset c' \<le> length p \<and>
    frameStart c' = frameStart c \<and> cur_bodyLength c' = cur_bodyLength c \<and> checksumBegin c' = checksumBegin c"
proof (cases "3 \<le> length p - scanOffset c")
  case True
  then have "(p @ q) ! (scanOffset c + i) = p ! (scanOffset c + i)" if "i < 3" for i
    using that True by (subst nth_append) (simp, linarith)
  then have "list_all (\<lambda>i. (p @ q) ! (scanOffset c + i) = ([SOH] @ ''9='') ! i) [0..<3] =
      list_all (\<lambda>i. p ! (scanOffset c + i) = ([SOH] @ ''9='') ! i) [0..<3]"
    by (simp add: list_all_iff)
  moreover have "min 3 (length (p @ q) - scanOffset c) = 3" "min 3 (length p - scanOffset c) = 3" using True by auto
  ultimately show ?thesis using s st True unfolding scan_length_prefix_def Let_def by (auto split: if_splits)
next
  case False
  then show ?thesis using s st by (auto simp: scan_length_prefix_def Let_def min_def split: if_splits)
qed

lemma scan_length_resume:
  assumes s: "scan_length p c = (None, c')" and st: "stage c = 2" and pl: "scanOffset c \<le> length p"
  shows "scanOffset c \<le> scanOffset c' \<and> scanOffset c' \<le> length p \<and> frameStart c' = frameStart c \<and>
    (stage c' = 2 \<and> checksumBegin c' = checksumBegin c \<and> scan_length (p @ q) c' = scan_length (p @ q) c \<or>
     stage c' = 3 \<and> scan_length (p @ q) c = (None, c') \<and> frameStart c \<le> checksumBegin c' \<and>
       cur_bodyLength c' \<le> MAX_FRAME_BYTES \<and> checksumBegin c' - frameStart c \<le> MAX_FRAME_BYTES \<or> frameStart c > scanOffset c)"
proof -
  let ?o = "scanOffset c"
  obtain bad l d n where l: "length_loop (cur_bodyLength c) (bodyLengthHasDigit c) (drop ?o p) = (bad, l, d, n)"
    by (metis prod_cases4)
  have nb: "\<not> bad" using s st l by (auto simp: scan_length_def Let_def)
  have n: "n \<le> length p - ?o" using length_loop_length [OF l] by simp
  show ?thesis
  proof (cases "?o + n < length p")
    case True
    then have "length_loop (cur_bodyLength c) (bodyLengthHasDigit c) (drop ?o p @ q) = (False, l, d, n)"
      using l nb by (intro length_loop_stop) auto
    then show ?thesis
      using s st l nb True pl by (auto simp: scan_length_def Let_def split: if_splits)
  next
    case False
    then have on: "?o + n = length p" using n pl by linarith
    have c': "c' = c\<lparr>scanOffset := length p, cur_bodyLength := l, bodyLengthHasDigit := d\<rparr>"
      using s st l nb on by (auto simp: scan_length_def Let_def split: if_splits)
    have ln: "length (drop ?o p) = n" using on by simp
    have r0: "length_loop (cur_bodyLength c) (bodyLengthHasDigit c) (drop ?o p) = (False, l, d, length (drop ?o p))"
      unfolding ln using l nb by simp
    have "length_loop (cur_bodyLength c) (bodyLengthHasDigit c) (drop ?o p @ q) =
        (let (b, l2, d2, m) = length_loop l d q in (b, l2, d2, n + m))"
      using length_loop_resume [OF r0, of q] unfolding ln .
    then have "scan_length (p @ q) c' = scan_length (p @ q) c"
      using st c' pl on unfolding scan_length_def Let_def
      by (cases "length_loop l d q") (simp add: add.assoc [symmetric])
    then show ?thesis using c' st pl by simp
  qed
qed


lemma scan_begin_id: "stage c \<noteq> 0 \<Longrightarrow> scan_begin b c = (None, c)"
  by (auto simp: scan_begin_def begin_norm_def Let_def)

lemma scan_length_prefix_id: "stage c \<noteq> 1 \<Longrightarrow> scan_length_prefix b c = (None, c)"
  by (simp add: scan_length_prefix_def)

lemma scan_length_id: "stage c \<noteq> 2 \<Longrightarrow> scan_length b c = (None, c)"
  by (simp add: scan_length_def)

lemma scan_checksum_None: "scan_checksum b c = (None, c', n) \<Longrightarrow> c' = c \<and> n = 0"
  by (auto simp: scan_checksum_def Let_def split: if_splits)

text \<open>The stages from the second, and from the third on.\<close>

definition stages_from_length :: "string \<Rightarrow> frame_cursor \<Rightarrow> scan_result \<times> frame_cursor \<times> nat" where
  "stages_from_length b c =
     (case scan_length b c of
        (Some r, c3) \<Rightarrow> (r, c3, 0)
      | (None, c3) \<Rightarrow>
          (case scan_checksum b c3 of (Some r, c4, n) \<Rightarrow> (r, c4, n) | (None, c4, n) \<Rightarrow> (NeedMore, c4, n)))"

definition stages_from_prefix :: "string \<Rightarrow> frame_cursor \<Rightarrow> scan_result \<times> frame_cursor \<times> nat" where
  "stages_from_prefix b c =
     (case scan_length_prefix b c of (Some r, c2) \<Rightarrow> (r, c2, 0) | (None, c2) \<Rightarrow> stages_from_length b c2)"

lemma scan_stages_alt: "scan_stages b c =
    (case scan_begin b c of (Some r, c1) \<Rightarrow> (r, c1, 0) | (None, c1) \<Rightarrow> stages_from_prefix b c1)"
  by (simp add: scan_stages_def stages_from_prefix_def stages_from_length_def split: prod.split option.split)

lemma stages_later:
  "stage c \<noteq> 0 \<Longrightarrow> scan_stages b c = stages_from_prefix b c"
  "stage c \<noteq> 1 \<Longrightarrow> stages_from_prefix b c = stages_from_length b c"
  by (simp_all add: scan_stages_alt scan_begin_id stages_from_prefix_def scan_length_prefix_id)

text \<open>The cursors a scan of \<open>p\<close> leaves.\<close>

definition cursor_ok :: "nat \<Rightarrow> frame_cursor \<Rightarrow> bool" where
  "cursor_ok len c \<longleftrightarrow> \<not> cursor_invalid len c \<and> (stage c = 1 \<or> stage c = 2 \<longrightarrow> frameStart c \<le> scanOffset c)"

lemma cursor_ok_iff: "cursor_ok (length p) c \<longleftrightarrow> stage c \<le> 3 \<and> frameStart c \<le> length p \<and> placed p c \<and>
    (stage c \<noteq> 2 \<longrightarrow> cur_bodyLength c \<le> MAX_FRAME_BYTES) \<and>
    (checksumBegin c = 0 \<or> frameStart c \<le> checksumBegin c \<and> checksumBegin c - frameStart c \<le> MAX_FRAME_BYTES) \<and>
    (stage c = 1 \<or> stage c = 2 \<longrightarrow> frameStart c \<le> scanOffset c)"
  unfolding cursor_ok_def cursor_invalid_def placed_def by auto

lemma placed_append: "placed p c \<Longrightarrow> frameStart c \<le> length p \<Longrightarrow> placed (p @ q) c"
  unfolding placed_def by auto

lemma cursor_ok_append: "cursor_ok (length (p :: string)) c \<Longrightarrow> cursor_ok (length (p @ q)) c"
  using placed_append [of p c q] unfolding cursor_ok_iff [of p] cursor_ok_iff [of "p @ q"] by auto

lemma stages_from_length_resume:
  assumes s: "stages_from_length p c = (NeedMore, c', n)" and c: "cursor_ok (length p) c" and st: "2 \<le> stage c"
  shows "2 \<le> stage c' \<and> cursor_ok (length p) c' \<and> stages_from_length (p @ q) c' = stages_from_length (p @ q) c"
proof -
  have "scan_length p c \<noteq> (Some NeedMore, c3)" for c3
    by (auto simp: scan_length_def Let_def split: prod.splits if_splits)
  moreover have "scan_checksum p c3 \<noteq> (Some NeedMore, c4, m)" for c3 c4 m
    by (auto simp: scan_checksum_def Let_def split: if_splits)
  ultimately have l: "scan_length p c = (None, c')" and k: "scan_checksum p c' = (None, c', 0)"
    using s by (auto simp: stages_from_length_def split: prod.splits option.splits dest: scan_checksum_None)
  show ?thesis
  proof (cases "stage c = 2")
    case True
    then have "scanOffset c \<le> length p" "frameStart c \<le> scanOffset c" using c by (auto simp: cursor_ok_iff placed_def)
    then show ?thesis using scan_length_resume [OF l True, of q] c True
      by (auto simp: cursor_ok_iff placed_def stages_from_length_def scan_length_id [of c'])
  qed (use l c st in \<open>simp add: scan_length_id\<close>)
qed

lemma stages_from_prefix_resume:
  assumes s: "stages_from_prefix p c = (NeedMore, c', n)" and c: "cursor_ok (length p) c" and st: "1 \<le> stage c"
  shows "1 \<le> stage c' \<and> cursor_ok (length p) c' \<and> stages_from_prefix (p @ q) c' = stages_from_prefix (p @ q) c"
proof (cases "stage c = 1")
  case False
  then have "stages_from_length p c = (NeedMore, c', n)" "2 \<le> stage c" using s st by (simp_all add: stages_later)
  then show ?thesis using stages_from_length_resume [OF _ c, of c' n q] False by (simp add: stages_later)
next
  case True
  have "scan_length_prefix p c \<noteq> (Some NeedMore, c2)" for c2
    by (auto simp: scan_length_prefix_def Let_def split: if_splits)
  then obtain c2 where p: "scan_length_prefix p c = (None, c2)" and s2: "stages_from_length p c2 = (NeedMore, c', n)"
    using s by (auto simp: stages_from_prefix_def split: prod.splits option.splits)
  have o: "scanOffset c \<le> length p" using c True by (simp add: cursor_ok_iff placed_def)
  show ?thesis
  proof (cases "c2 = c")
    case c2: True
    have "scan_length p c = (None, c)" using True by (simp add: scan_length_id)
    then have "c' = c" using s2 c2 True by (auto simp: stages_from_length_def scan_checksum_def)
    then show ?thesis using c True by simp
  next
    case False
    then have 2: "stage c2 = 2" "scan_length_prefix (p @ q) c = (None, c2)" "cursor_ok (length p) c2"
      using scan_length_prefix_resume [OF p True o, of q] c p True
      by (auto simp: cursor_ok_iff placed_def scan_length_prefix_def Let_def split: if_splits)
    then have "2 \<le> stage c' \<and> cursor_ok (length p) c' \<and> stages_from_length (p @ q) c' = stages_from_length (p @ q) c2"
      using stages_from_length_resume [OF s2, of q] by simp
    then show ?thesis using 2(2) by (simp add: stages_later stages_from_prefix_def [of _ c])
  qed
qed

lemma scan_stages_resume:
  assumes s: "scan_stages p c = (NeedMore, c', n)" and c: "cursor_ok (length p) c"
  shows "cursor_ok (length p) c' \<and> scan_stages (p @ q) c' = scan_stages (p @ q) c"
proof -
  have "scan_begin p c \<noteq> (Some NeedMore, c2)" for c2
    by (auto simp: scan_begin_def Let_def split: if_splits prod.splits)
  then obtain c1 where b: "scan_begin p c = (None, c1)" and s1: "stages_from_prefix p c1 = (NeedMore, c', n)"
    using s by (auto simp: scan_stages_alt split: prod.splits option.splits)
  have pl: "placed p c" "frameStart c \<le> length p" using c by (auto simp: cursor_ok_iff)
  note r = scan_begin_resume [OF b pl, of q]
  show ?thesis
  proof (cases "stage c1 = 0")
    case True
    then have "c' = c1" using s1
      by (auto simp: stages_later stages_from_length_def scan_length_id scan_checksum_def)
    then show ?thesis using r True c by (auto simp: cursor_ok_iff scan_stages_alt)
  next
    case False
    have ok: "cursor_ok (length p) c1"
    proof (cases "stage c = 0")
      case True
      then have "frameStart c1 \<le> scanOffset c1"
        using b False pl(2) by (auto simp: scan_begin_def begin_norm_def Let_def split: if_splits prod.splits)
      then show ?thesis using r c True False by (auto simp: cursor_ok_iff)
    qed (use r c in \<open>auto simp: cursor_ok_iff\<close>)
    show ?thesis using stages_from_prefix_resume [OF s1 ok, of q] False r
      by (auto simp: stages_later scan_stages_alt [of _ c] scan_begin_id)
  qed
qed

text \<open>
  A scan that needs more bytes can be taken up with the longer byte string as if it had never
  been interrupted.
\<close>

lemma scan_resume:
  assumes "scanInfiniteDeclaredFrame p c = (NeedMore, c', n)" "cursor_ok (length p) c"
  shows "cursor_ok (length p) c' \<and> scanInfiniteDeclaredFrame (p @ q) c' = scanInfiniteDeclaredFrame (p @ q) c"
  using scan_stages_resume [of p c c' n q] assms cursor_ok_append [of p c q] cursor_ok_append [of p c' q]
  by (simp add: scanInfiniteDeclaredFrame_def cursor_ok_def)

end
