(* ===== verification/FrameScans.thy ===== *)
theory FrameScans
  imports DeclaredFrames
begin

text \<open>
  What the scanner of declared frames finds: exactly the frames, however the bytes arrive.
\<close>

definition resetDeclaredFrameScan :: frame_cursor where
  "resetDeclaredFrameScan = frame_cursor_new\<lparr>scanOffset := 2\<rparr>"

section \<open>What a complete frame is\<close>

abbreviation before_soh :: "string \<Rightarrow> string" where
  "before_soh \<equiv> takeWhile (\<lambda>c. c \<noteq> SOH)"

text \<open>The version: one to sixteen bytes that do not start a new frame.\<close>

definition version_ok :: "string \<Rightarrow> bool" where
  "version_ok v \<longleftrightarrow> v \<noteq> [] \<and> length v \<le> MAX_BEGIN_STRING_BYTES \<and> SOH \<notin> set v \<and>
     list_all (\<lambda>(a, b). \<not> (a = CHR ''8'' \<and> b = CHR ''='')) (zip v (tl v))"

text \<open>
  A frame: version, declared length, a body of exactly that length that ends a field, three
  digits of checksum, all within the limit. The value of the checksum is not looked at.
\<close>

definition declared_frame :: "string \<Rightarrow> bool" where
  "declared_frame f \<longleftrightarrow> (\<exists>v ds body ck.
     f = (''8='' @ v @ [SOH]) @ (''9='' @ ds @ [SOH]) @ body @ (''10='' @ ck @ [SOH]) \<and>
     version_ok v \<and> ds \<noteq> [] \<and> list_all is_digit ds \<and> dec_val_from 0 ds = length body \<and>
     last (SOH # body) = SOH \<and> length ck = 3 \<and> list_all is_digit ck \<and> length f \<le> MAX_FRAME_BYTES)"

lemma before_soh_split:
  assumes "length (before_soh xs) < length xs"
  obtains r where "xs = before_soh xs @ SOH # r"
proof -
  have "dropWhile (\<lambda>c. c \<noteq> SOH) xs \<noteq> []"
    using assms takeWhile_dropWhile_id [of "\<lambda>c. c \<noteq> SOH" xs] by (metis append.right_neutral less_irrefl)
  then obtain r where "dropWhile (\<lambda>c. c \<noteq> SOH) xs = SOH # r"
    using hd_dropWhile [of "\<lambda>c. c \<noteq> SOH" xs] by (metis list.exhaust_sel)
  then show thesis using that [of r] takeWhile_dropWhile_id [of "\<lambda>c. c \<noteq> SOH" xs] by simp
qed

lemma before_soh_id [simp]: "SOH \<notin> set v \<Longrightarrow> before_soh (v @ SOH # r) = v"
  by (induction v) auto

lemma before_soh_notin: "SOH \<notin> set (before_soh xs)"
  by (auto dest: set_takeWhileD)

lemma begin_loop_iff: "begin_loop prev k xs = (bad, n) \<Longrightarrow>
   (\<not> bad \<longleftrightarrow> (before_soh xs = [] \<or> k + length (before_soh xs) \<le> MAX_BEGIN_STRING_BYTES) \<and>
     list_all (\<lambda>(a, b). \<not> (a = CHR ''8'' \<and> b = CHR ''='')) (zip (prev # before_soh xs) (before_soh xs))) \<and>
   (\<not> bad \<longrightarrow> n = length (before_soh xs))"
proof (induction prev k xs arbitrary: bad n rule: begin_loop.induct)
  case (2 prev k c cs)
  obtain b m where bm: "begin_loop c (Suc k) cs = (b, m)" by fastforce
  show ?case
  proof (cases "c = SOH \<or> k \<ge> MAX_BEGIN_STRING_BYTES \<or> c = CHR ''='' \<and> prev = CHR ''8''")
    case False
    then show ?thesis using 2(1) [OF _ _ _ bm] 2(2) bm by (auto split: if_splits simp: list_all_iff)
  qed (use 2(2) in \<open>auto split: if_splits\<close>)
qed simp

lemma dec_val_from_ge: "x \<le> dec_val_from x cs"
proof (induction cs arbitrary: x)
  case (Cons c cs)
  show ?case using Cons [of "10 * x + digit_val c"] by simp
qed simp

lemma length_loop_iff: "length_loop l d xs = (bad, l', d', n) \<Longrightarrow> l \<le> SIZE_MAX \<Longrightarrow>
   (\<not> bad \<longleftrightarrow> list_all is_digit (before_soh xs) \<and> dec_val_from l (before_soh xs) \<le> SIZE_MAX) \<and>
   (\<not> bad \<longrightarrow> n = length (before_soh xs) \<and> l' = dec_val_from l (before_soh xs) \<and> d' = (d \<or> before_soh xs \<noteq> []))"
proof (induction l d xs arbitrary: bad l' d' n rule: length_loop.induct)
  case (2 l d c cs)
  obtain b l2 d2 m where r: "length_loop (l * 10 + digit_val c) True cs = (b, l2, d2, m)" by (metis prod_cases4)
  show ?case
  proof (cases "c = SOH \<or> \<not> is_digit c")
    case False
    have "digit_val c < 10" using False digit_val_less by blast
    then have e: "l > (SIZE_MAX - digit_val c) div 10 \<longleftrightarrow> l * 10 + digit_val c > SIZE_MAX"
      by (auto simp: SIZE_MAX_def)
    show ?thesis
    proof (cases "l * 10 + digit_val c > SIZE_MAX")
      case True
      have "SIZE_MAX < dec_val_from (10 * l + digit_val c) (before_soh cs)"
        using dec_val_from_ge [of "10 * l + digit_val c" "before_soh cs"] True by linarith
      then show ?thesis using False True e 2(2) by (auto split: if_splits)
    next
      case ok: False
      then have ok': "\<not> l > (SIZE_MAX - digit_val c) div 10" using e by simp
      have "bad = b \<and> l' = l2 \<and> d' = d2 \<and> n = Suc m" using 2(2) False ok' r by simp
      then show ?thesis using 2(1) [OF _ _ ok' r] ok False by (auto simp: mult.commute)
    qed
  qed (use 2(2,3) in \<open>auto split: if_splits\<close>)
qed simp


abbreviation fresh_cursor :: "nat \<Rightarrow> nat \<Rightarrow> nat \<Rightarrow> nat \<Rightarrow> bool \<Rightarrow> frame_cursor" where
  "fresh_cursor so bl cb st d \<equiv> \<lparr>frameStart = 0, scanOffset = so, cur_bodyLength = bl, checksumBegin = cb, stage = st,
     bodyLengthHasDigit = d\<rparr>"

lemma reset_fresh: "resetDeclaredFrameScan = fresh_cursor 2 0 0 0 False"
  by (simp add: resetDeclaredFrameScan_def frame_cursor_new_def)

lemma begin_fresh: "scan_begin b (fresh_cursor 2 0 0 0 False) = (None, c1) \<and> stage c1 \<noteq> 0 \<longleftrightarrow>
   (\<exists>v r. b = ''8='' @ v @ SOH # r \<and> version_ok v \<and> c1 = fresh_cursor (2 + length v) 0 0 1 False)"
  (is "?L \<longleftrightarrow> ?R")
proof
  assume L: ?L
  obtain bad n where l: "begin_loop (b ! 1) 0 (drop 2 b) = (bad, n)" by fastforce
  have *: "b ! 0 = CHR ''8''" "b ! 1 = CHR ''=''" "\<not> bad" "2 + n < length b" "n \<noteq> 0"
      "c1 = fresh_cursor (2 + n) 0 0 1 False"
    using L l by (auto simp: scan_begin_def begin_norm_def Let_def split: if_splits)
  let ?v = "before_soh (drop 2 b)"
  have v: "n = length ?v" "length ?v \<le> MAX_BEGIN_STRING_BYTES"
      "list_all (\<lambda>(a, b). \<not> (a = CHR ''8'' \<and> b = CHR ''='')) (zip (b ! 1 # ?v) ?v)"
    using begin_loop_iff [OF l] *(3,5) by auto
  have "length ?v < length (drop 2 b)" using v(1) *(4) by simp
  then obtain r where r: "drop 2 b = ?v @ SOH # r" by (rule before_soh_split)
  have "b = b ! 0 # b ! 1 # drop 2 b" using *(4) by (cases b; cases "tl b") auto
  then have "b = ''8='' @ ?v @ SOH # r" using r *(1,2) by simp
  moreover have "version_ok ?v"
    using v *(5) before_soh_notin [of "drop 2 b"] by (cases ?v) (simp_all add: version_ok_def)
  ultimately show ?R using *(6) v(1) by blast
next
  assume ?R
  then obtain v r where b: "b = ''8='' @ v @ SOH # r" "version_ok v" "c1 = fresh_cursor (2 + length v) 0 0 1 False" by blast
  obtain bad n where l: "begin_loop (CHR ''='') 0 (v @ SOH # r) = (bad, n)" by fastforce
  have "\<not> bad \<and> n = length v"
    using begin_loop_iff [OF l] b(2) by (cases v) (auto simp: version_ok_def)
  then show ?L using b l by (auto simp: scan_begin_def begin_norm_def Let_def version_ok_def)
qed

lemma prefix_fresh: "length b = k \<Longrightarrow> scan_length_prefix (b @ r) (fresh_cursor k 0 0 1 False) = (None, c2) \<and> stage c2 \<noteq> 1 \<longleftrightarrow>
   (\<exists>r'. r = SOH # ''9='' @ r' \<and> c2 = fresh_cursor (k + 3) 0 0 2 False)"
  (is "_ \<Longrightarrow> ?L \<longleftrightarrow> ?R")
proof
  assume k: "length b = k" and L: ?L
  have "3 \<le> length r" "list_all (\<lambda>i. r ! i = ([SOH] @ ''9='') ! i) [0..<3]" "c2 = fresh_cursor (k + 3) 0 0 2 False"
    using L k by (auto simp: scan_length_prefix_def Let_def nth_append split: if_splits)
  moreover from this have "r = r ! 0 # r ! 1 # r ! 2 # drop 3 r"
    by (cases r; cases "tl r"; cases "tl (tl r)") auto
  ultimately show ?R by (auto simp: upt_rec [of _ 3] numeral_nat)
next
  assume "length b = k" ?R
  then show ?L by (auto simp: scan_length_prefix_def Let_def nth_append upt_rec numeral_nat)
qed

lemma length_fresh: "length b = k \<Longrightarrow> scan_length (b @ r) (fresh_cursor k 0 0 2 False) = (None, c3) \<and> stage c3 \<noteq> 2 \<longleftrightarrow>
   (\<exists>ds r'. r = ds @ SOH # r' \<and> ds \<noteq> [] \<and> list_all is_digit ds \<and> 
      k + length ds + 1 + dec_val_from 0 ds + CHECKSUM_FIELD_BYTES \<le> MAX_FRAME_BYTES \<and>
      c3 = fresh_cursor (k + length ds) (dec_val_from 0 ds) (k + length ds + 1 + dec_val_from 0 ds) 3 True)"
  (is "_ \<Longrightarrow> ?L \<longleftrightarrow> ?R")
proof
  assume k: "length b = k" and L: ?L
  obtain bad l d n where l: "length_loop 0 False r = (bad, l, d, n)" by (metis prod_cases4)
  note i = length_loop_iff [OF l]
  let ?ds = "before_soh r"
  have nb: "\<not> bad" "k + n < length (b @ r)" "d" and le: "k + n + 1 + l + CHECKSUM_FIELD_BYTES \<le> MAX_FRAME_BYTES"
    and c3: "c3 = fresh_cursor (k + n) l (k + n + 1 + l) 3 d"
    using L l k by (auto simp: scan_length_def Let_def split: if_splits)
  have v: "n = length ?ds" "l = dec_val_from 0 ?ds" "list_all is_digit ?ds" "?ds \<noteq> []"
    using i nb by simp_all
  have "length ?ds < length r" using v(1) nb(2) k by simp
  then obtain r' where "r = ?ds @ SOH # r'" by (rule before_soh_split)
  then show ?R using v le c3 nb(3) by blast
next
  assume k: "length b = k" and ?R
  then obtain ds r' where r: "r = ds @ SOH # r'" "ds \<noteq> []" "list_all is_digit ds"
      "k + length ds + 1 + dec_val_from 0 ds + CHECKSUM_FIELD_BYTES \<le> MAX_FRAME_BYTES"
      "c3 = fresh_cursor (k + length ds) (dec_val_from 0 ds) (k + length ds + 1 + dec_val_from 0 ds) 3 True"
    by blast
  obtain bad l d n where l: "length_loop 0 False r = (bad, l, d, n)" by (metis prod_cases4)
  have "SOH \<notin> set ds" using r(3) by (auto simp: list_all_iff)
  then have ds: "before_soh r = ds" using r(1) by simp
  have m: "dec_val_from 0 ds \<le> SIZE_MAX" "MAX_FRAME_BYTES \<le> SIZE_MAX" using r(4) by (auto simp: SIZE_MAX_def MAX_FRAME_BYTES_def)
  then have "\<not> bad \<and> n = length ds \<and> l = dec_val_from 0 ds \<and> d"
    using length_loop_iff [OF l] ds r(2,3) by simp
  then show ?L using l k r m by (auto simp: scan_length_def Let_def)
qed

lemma checksum_fresh:
  assumes k: "length b = k" "0 < k" "last b = SOH"
  shows "(\<exists>c4. scan_checksum (b @ r) (fresh_cursor so bl (k + bl) 3 d) = (Some Ready, c4, n)) \<longleftrightarrow>
   (\<exists>body ck r'. r = body @ ''10='' @ ck @ SOH # r' \<and> length body = bl \<and> last (SOH # body) = SOH \<and> length ck = 3 \<and>
      list_all is_digit ck \<and> n = k + bl + CHECKSUM_FIELD_BYTES)" (is "?L \<longleftrightarrow> ?R")
proof
  assume L: ?L
  let ?cb = "k + bl"
  have n: "n = ?cb + CHECKSUM_FIELD_BYTES" and len: "?cb + 7 \<le> k + length r" and p: "(b @ r) ! (?cb - 1) = SOH"
    and q: "list_all (\<lambda>i. (b @ r) ! (?cb + i) = ''10='' ! i) [0..<3]" "list_all (\<lambda>i. is_digit ((b @ r) ! (?cb + i))) [3..<6]"
      "(b @ r) ! (?cb + 6) = SOH"
    using L k by (auto simp: scan_checksum_def Let_def CHECKSUM_FIELD_BYTES_def min_def split: if_splits)
  define t where "t = drop bl r"
  have t: "7 \<le> length t" "(b @ r) ! (?cb + i) = t ! i" for i using len k by (auto simp: t_def nth_append)
  have te: "t = t ! 0 # t ! 1 # t ! 2 # t ! 3 # t ! 4 # t ! 5 # t ! 6 # drop 7 t"
    using t(1) by (auto simp: Suc_le_length_iff numeral_nat)
  then have "t = ''10='' @ [t ! 3, t ! 4, t ! 5] @ SOH # drop 7 t" "list_all is_digit [t ! 3, t ! 4, t ! 5]"
    using q unfolding t(2) by (auto simp: upt_rec numeral_nat)
  moreover have "last (SOH # take bl r) = SOH"
  proof (cases "bl = 0")
    case False
    then have "last (SOH # take bl r) = r ! (bl - 1)" using len by (auto simp: last_conv_nth)
    moreover have "\<not> k + bl - 1 < k" "k + bl - 1 - k = bl - 1" using False by linarith+
    then have "r ! (bl - 1) = SOH" using p k(1) by (simp add: nth_append)
    ultimately show ?thesis by simp
  qed simp
  moreover have "r = take bl r @ t" "length (take bl r) = bl" using len by (auto simp: t_def)
  ultimately show ?R using n by (metis append.assoc length_Cons list.size(3) numeral_3_eq_3)
next
  assume ?R
  then obtain body ck r' where r: "r = body @ ''10='' @ ck @ SOH # r'" "length body = bl" "last (SOH # body) = SOH"
      "length ck = 3" "list_all is_digit ck" "n = k + bl + CHECKSUM_FIELD_BYTES" by blast
  obtain x y z where ck: "ck = [x, y, z]" using r(4) by (auto simp: numeral_3_eq_3 length_Suc_conv)
  have at: "(b @ r) ! (k + bl + i) = (''10='' @ ck @ SOH # r') ! i" for i using r k by (simp add: nth_append)
  have "(b @ r) ! (k + bl - 1) = SOH"
  proof (cases "bl = 0")
    case False
    have i: "\<not> k + bl - 1 < k" "k + bl - 1 - k = bl - 1" using False by linarith+
    have "body ! (bl - 1) = SOH" using False r(2,3) by (auto simp: last_conv_nth)
    then show ?thesis using i r(1,2) k(1) False by (simp add: nth_append)
  qed (use k last_conv_nth [of b] in \<open>auto simp: nth_append\<close>)
  then show ?L using k r ck at [of 0] at [of 1] at [of 2] at [of 3] at [of 4] at [of 5] at [of 6]
    by (auto simp: scan_checksum_def Let_def CHECKSUM_FIELD_BYTES_def upt_rec numeral_nat)
qed


lemma stage_none: "scan_length_prefix b c = (None, c') \<Longrightarrow> stage c' = 1 \<Longrightarrow> scan_checksum b c' = (None, c', 0)"
  "scan_length b c = (None, c') \<Longrightarrow> stage c' = 2 \<Longrightarrow> scan_checksum b c' = (None, c', 0)"
  by (simp_all add: scan_checksum_def)

lemma scan_fresh: "(\<exists>c'. scanInfiniteDeclaredFrame b resetDeclaredFrameScan = (Ready, c', n)) \<longleftrightarrow>
   (\<exists>c1 c2 c3 c4. scan_begin b resetDeclaredFrameScan = (None, c1) \<and> stage c1 \<noteq> 0 \<and>
      scan_length_prefix b c1 = (None, c2) \<and> stage c2 \<noteq> 1 \<and> scan_length b c2 = (None, c3) \<and> stage c3 \<noteq> 2 \<and>
      scan_checksum b c3 = (Some Ready, c4, n))" (is "?L \<longleftrightarrow> ?R")
proof -
  have v: "\<not> cursor_invalid (length b) resetDeclaredFrameScan"
    by (auto simp: cursor_invalid_def reset_fresh)
  have no: "scan_begin b c \<noteq> (Some Ready, c')" "scan_length_prefix b c \<noteq> (Some Ready, c')"
    "scan_length b c \<noteq> (Some Ready, c')" for c c'
    by (auto simp: scan_begin_def scan_length_prefix_def scan_length_def Let_def split: prod.splits if_splits)
  have st: "scan_checksum b c = (Some r, c', m) \<Longrightarrow> stage c = 3" for c r c' m
    by (auto simp: scan_checksum_def split: if_splits)
  have mono: "scan_length_prefix b c = (None, c') \<Longrightarrow> stage c = 0 \<Longrightarrow> stage c' = 0"
     "scan_length b c = (None, c') \<Longrightarrow> stage c \<le> 1 \<Longrightarrow> stage c' = stage c" for c c'
    by (auto simp: scan_length_prefix_def scan_length_def)
  show ?thesis
  proof
    assume ?L
    then obtain c' where "scan_stages b resetDeclaredFrameScan = (Ready, c', n)"
      using v by (auto simp: scanInfiniteDeclaredFrame_def)
    then obtain c1 c2 c3 where c: "scan_begin b resetDeclaredFrameScan = (None, c1)" "scan_length_prefix b c1 = (None, c2)"
        "scan_length b c2 = (None, c3)" "scan_checksum b c3 = (Some Ready, c', n)"
      using no by (auto simp: scan_stages_def split: prod.splits option.splits)
    have "stage c3 = 3" using st [OF c(4)] .
    moreover from this have "\<not> stage c2 \<le> 1" using mono(2) [OF c(3)] by auto
    then have "stage c2 \<noteq> 1" "stage c2 \<noteq> 0" by auto
    moreover from this have "stage c1 \<noteq> 0" using mono(1) [OF c(2)] by auto
    ultimately show ?R using c by auto
  qed (use v in \<open>auto simp: scanInfiniteDeclaredFrame_def scan_stages_def\<close>)
qed

lemma scan_exact:
  "(\<exists>c'. scanInfiniteDeclaredFrame b resetDeclaredFrameScan = (Ready, c', n)) \<longleftrightarrow> n \<le> length b \<and> declared_frame (take n b)"
proof
  assume "\<exists>c'. scanInfiniteDeclaredFrame b resetDeclaredFrameScan = (Ready, c', n)"
  then obtain c1 c2 c3 c4 where c: "scan_begin b resetDeclaredFrameScan = (None, c1) \<and> stage c1 \<noteq> 0"
      "scan_length_prefix b c1 = (None, c2) \<and> stage c2 \<noteq> 1" "scan_length b c2 = (None, c3) \<and> stage c3 \<noteq> 2"
      "scan_checksum b c3 = (Some Ready, c4, n)" unfolding scan_fresh by blast
  obtain v r where 1: "b = ''8='' @ v @ SOH # r" "version_ok v" "c1 = fresh_cursor (2 + length v) 0 0 1 False"
    using c(1) unfolding reset_fresh begin_fresh by blast
  define h where "h = ''8='' @ v"
  have h: "b = h @ SOH # r" "length h = 2 + length v" using 1 by (simp_all add: h_def)
  obtain r2 where 2: "SOH # r = SOH # ''9='' @ r2" "c2 = fresh_cursor (2 + length v + 3) 0 0 2 False"
    using c(2) prefix_fresh [OF h(2), of "SOH # r" c2] unfolding 1(3) h(1) by blast
  define h2 where "h2 = h @ SOH # ''9=''"
  have h2: "b = h2 @ r2" "length h2 = 2 + length v + 3" using h 2(1) by (simp_all add: h2_def)
  obtain ds r3 where 3: "r2 = ds @ SOH # r3" "ds \<noteq> []" "list_all is_digit ds"
      "2 + length v + 3 + length ds + 1 + dec_val_from 0 ds + CHECKSUM_FIELD_BYTES \<le> MAX_FRAME_BYTES"
      "c3 = fresh_cursor (2 + length v + 3 + length ds) (dec_val_from 0 ds) (2 + length v + 3 + length ds + 1 + dec_val_from 0 ds) 3 True"
    using c(3) length_fresh [OF h2(2), of r2 c3] unfolding 2(2) h2(1) by blast
  define h3 where "h3 = h2 @ ds @ [SOH]"
  have h3: "b = h3 @ r3" "length h3 = 2 + length v + 3 + length ds + 1" "0 < 2 + length v + 3 + length ds + 1" "last h3 = SOH"
    using h2 3(1) by (simp_all add: h3_def)
  have ck: "\<exists>c4. scan_checksum (h3 @ r3) (fresh_cursor (2 + length v + 3 + length ds) (dec_val_from 0 ds)
      (2 + length v + 3 + length ds + 1 + dec_val_from 0 ds) 3 True) = (Some Ready, c4, n)"
    using c(4) unfolding 3(5) h3(1) by blast
  obtain body ck r4 where 4: "r3 = body @ ''10='' @ ck @ SOH # r4" "length body = dec_val_from 0 ds" "last (SOH # body) = SOH"
      "length ck = 3" "list_all is_digit ck" "n = 2 + length v + 3 + length ds + 1 + dec_val_from 0 ds + CHECKSUM_FIELD_BYTES"
    using ck unfolding checksum_fresh [OF h3(2-4)] by blast
  define f where "f = (''8='' @ v @ [SOH]) @ (''9='' @ ds @ [SOH]) @ body @ (''10='' @ ck @ [SOH])"
  have "b = f @ r4" "length f = n"
    using h3(1) 4 by (simp_all add: f_def h3_def h2_def h_def CHECKSUM_FIELD_BYTES_def)
  moreover have "declared_frame f"
    unfolding declared_frame_def f_def [symmetric]
    using 1(2) 3(2-4) 4(2-6) \<open>length f = n\<close> by (intro exI [of _ v] exI [of _ ds] exI [of _ body] exI [of _ ck]) (simp add: f_def)
  ultimately show "n \<le> length b \<and> declared_frame (take n b)" by simp
next
  assume n: "n \<le> length b \<and> declared_frame (take n b)"
  then obtain v ds body ck where f: "take n b = (''8='' @ v @ [SOH]) @ (''9='' @ ds @ [SOH]) @ body @ (''10='' @ ck @ [SOH])"
     "version_ok v" "ds \<noteq> []" "list_all is_digit ds" "dec_val_from 0 ds = length body"
     "last (SOH # body) = SOH" "length ck = 3" "list_all is_digit ck" "length (take n b) \<le> MAX_FRAME_BYTES"
    unfolding declared_frame_def by blast
  have ln: "n = 2 + length v + 3 + length ds + 1 + length body + CHECKSUM_FIELD_BYTES"
    using arg_cong [OF f(1), of length] n f(7) by (simp add: CHECKSUM_FIELD_BYTES_def)
  define q where "q = drop n b"
  define h where "h = ''8='' @ v"
  define h2 where "h2 = h @ SOH # ''9=''"
  define h3 where "h3 = h2 @ ds @ [SOH]"
  define r3 where "r3 = body @ ''10='' @ ck @ SOH # q"
  have bq: "b = take n b @ q" by (simp add: q_def)
  have b3: "b = h3 @ r3" by (subst bq, subst f(1)) (simp add: r3_def h3_def h2_def h_def)
  have b2: "b = h2 @ ds @ SOH # r3" and b1: "b = h @ SOH # ''9='' @ ds @ SOH # r3"
    and b0: "b = ''8='' @ v @ SOH # ''9='' @ ds @ SOH # r3"
    by (simp_all add: b3 h3_def h2_def h_def)
  have len: "length h = 2 + length v" "length h2 = 2 + length v + 3" "length h3 = 2 + length v + 3 + length ds + 1"
      "0 < 2 + length v + 3 + length ds + 1" "last h3 = SOH"
    by (simp_all add: h3_def h2_def h_def)
  have 1: "scan_begin b resetDeclaredFrameScan = (None, fresh_cursor (2 + length v) 0 0 1 False)"
    using begin_fresh [of b "fresh_cursor (2 + length v) 0 0 1 False"] f(2) b0 unfolding reset_fresh by auto
  have 2: "scan_length_prefix b (fresh_cursor (2 + length v) 0 0 1 False) = (None, fresh_cursor (2 + length v + 3) 0 0 2 False)"
    using prefix_fresh [OF len(1), of "SOH # ''9='' @ ds @ SOH # r3" "fresh_cursor (2 + length v + 3) 0 0 2 False"] b1 by simp
  have le: "2 + length v + 3 + length ds + 1 + dec_val_from 0 ds + CHECKSUM_FIELD_BYTES \<le> MAX_FRAME_BYTES"
    using ln f(5,9) n by simp
  let ?c3 = "fresh_cursor (2 + length v + 3 + length ds) (dec_val_from 0 ds) (2 + length v + 3 + length ds + 1 + dec_val_from 0 ds) 3 True"
  have 3: "scan_length b (fresh_cursor (2 + length v + 3) 0 0 2 False) = (None, ?c3)"
    using length_fresh [OF len(2), of "ds @ SOH # r3" ?c3] f(3,4) le b2 by auto
  have "\<exists>c4. scan_checksum (h3 @ r3) ?c3 = (Some Ready, c4, n)"
    unfolding checksum_fresh [OF len(3-5)]
    using f(5-8) ln by (intro exI [of _ body] exI [of _ ck] exI [of _ q]) (simp add: r3_def)
  then show "\<exists>c'. scanInfiniteDeclaredFrame b resetDeclaredFrameScan = (Ready, c', n)"
    unfolding scan_fresh using 1 2 3 b3 by auto
qed

section \<open>A result stays\<close>

lemma begin_loop_bad: "begin_loop prev k xs = (True, n) \<Longrightarrow> begin_loop prev k (xs @ ys) = (True, n)"
  by (induction prev k xs arbitrary: n rule: begin_loop.induct) (auto split: if_splits prod.splits)

lemma length_loop_bad: "length_loop l d xs = (True, l', d', n) \<Longrightarrow> length_loop l d (xs @ ys) = (True, l', d', n)"
  by (induction l d xs arbitrary: l' d' n rule: length_loop.induct) (auto split: if_splits prod.splits)

lemma scan_begin_stays:
  assumes s: "scan_begin p c = (Some r, c')" and pl: "placed p c" and f: "frameStart c \<le> length p"
  shows "fst (scan_begin (p @ q) c) = Some r"
proof -
  have st: "stage c = 0" using s by (rule_tac ccontr) (simp add: scan_begin_id)
  show ?thesis
  proof (cases "length p < frameStart c + 2")
    case True
    let ?c = "begin_norm (length p) c"
    have n: "stage (begin_norm l c) = stage c" "frameStart (begin_norm l c) = frameStart c" for l
      by (simp_all add: begin_norm_def)
    have "length p \<le> scanOffset ?c" using True st pl f by (auto simp: begin_norm_def placed_def)
    then have "begin_loop x k (drop (scanOffset ?c) p) = (False, 0)" "\<not> scanOffset ?c < length p" for x k by simp_all
    then have "r = Malformed \<and> frameStart c < length p \<and> p ! frameStart c \<noteq> CHR ''8''"
      using s st True by (auto simp: scan_begin_def Let_def n split: if_splits)
    then show ?thesis using st by (simp add: scan_begin_def Let_def n nth_append)
  next
    case False
    define d where "d = (if scanOffset c < frameStart c + 2 then c\<lparr>scanOffset := frameStart c + 2\<rparr> else c)"
    have d: "stage d = 0" "frameStart d + 2 \<le> scanOffset d" "scanOffset d \<le> length p" "frameStart d = frameStart c"
      using st False pl by (auto simp: d_def placed_def)
    have e: "scan_begin b c = scan_begin b d" if "frameStart c + 2 \<le> length b" for b
      using scan_begin_norm [OF st, of b] that by (simp add: d_def min_def)
    have sd: "scan_begin p d = (Some r, c')" "scan_begin (p @ q) c = scan_begin (p @ q) d"
      using e [of p] e [of "p @ q"] s False by simp_all
    let ?o = "scanOffset d" and ?fs = "frameStart d"
    have i: "?fs < length p" "?fs + 1 < length p" "?o - 1 < length p" using d False by linarith+
    have d4: "scanOffset d \<le> length (p @ q)" using d(3) by simp
    note main = scan_begin_main [OF d(1-3)] scan_begin_main [OF d(1,2) d4]
    obtain bad n where l: "begin_loop (p ! (?o - 1)) (?o - (?fs + 2)) (drop ?o p) = (bad, n)" by fastforce
    show ?thesis
    proof (cases bad)
      case True
      then have "begin_loop (p ! (?o - 1)) (?o - (?fs + 2)) (drop ?o p @ q) = (True, n)"
        using l by (simp add: begin_loop_bad)
      then show ?thesis using sd main i l d True by (auto simp: nth_append Let_def split: if_splits)
    next
      case nb: False
      show ?thesis
      proof (cases "?o + n < length p")
        case True
        then have "begin_loop (p ! (?o - 1)) (?o - (?fs + 2)) (drop ?o p @ q) = (False, n)"
          using l nb by (intro begin_loop_stop) auto
        then show ?thesis using sd main i l d True nb by (auto simp: nth_append Let_def split: if_splits)
      qed (use sd main i l d nb in \<open>auto simp: nth_append Let_def split: if_splits\<close>)
    qed
  qed
qed

lemma scan_length_prefix_stays:
  assumes s: "scan_length_prefix p c = (Some r, c')"
  shows "fst (scan_length_prefix (p @ q) c) = Some r"
proof -
  have st: "stage c = 1" and r: "r = Malformed" using s by (auto simp: scan_length_prefix_def Let_def split: if_splits)
  obtain i where i: "i < min 3 (length p - scanOffset c)" "p ! (scanOffset c + i) \<noteq> ([SOH] @ ''9='') ! i"
    using s st by (auto simp: scan_length_prefix_def Let_def list_all_iff split: if_splits)
  then have "scanOffset c + i < length p" by linarith
  then have "(p @ q) ! (scanOffset c + i) \<noteq> ([SOH] @ ''9='') ! i" using i(2) by (simp add: nth_append)
  moreover have "i < min 3 (length (p @ q) - scanOffset c)" using i(1) unfolding min_less_iff_conj length_append by linarith
  ultimately have "\<not> list_all (\<lambda>i. (p @ q) ! (scanOffset c + i) = ([SOH] @ ''9='') ! i) [0..<min 3 (length (p @ q) - scanOffset c)]"
    unfolding list_all_iff by (metis atLeast0LessThan atLeast_upt lessThan_iff)
  then show ?thesis using st r unfolding scan_length_prefix_def Let_def by simp
qed

lemma scan_length_stays:
  assumes s: "scan_length p c = (Some r, c')" and pl: "scanOffset c \<le> length p"
  shows "fst (scan_length (p @ q) c) = Some r"
proof -
  have st: "stage c = 2" using s by (auto simp: scan_length_def split: if_splits)
  let ?o = "scanOffset c"
  obtain bad l d n where l: "length_loop (cur_bodyLength c) (bodyLengthHasDigit c) (drop ?o p) = (bad, l, d, n)"
    by (metis prod_cases4)
  show ?thesis
  proof (cases bad)
    case True
    then have "length_loop (cur_bodyLength c) (bodyLengthHasDigit c) (drop ?o p @ q) = (True, l, d, n)"
      using l by (simp add: length_loop_bad)
    then show ?thesis using s st l pl True by (auto simp: scan_length_def Let_def)
  next
    case False
    then have o: "?o + n < length p" using s st l by (auto simp: scan_length_def Let_def split: if_splits)
    then have "length_loop (cur_bodyLength c) (bodyLengthHasDigit c) (drop ?o p @ q) = (False, l, d, n)"
      using l False by (intro length_loop_stop) auto
    then show ?thesis using s st l pl False o by (auto simp: scan_length_def Let_def split: if_splits)
  qed
qed

lemma scan_checksum_stays:
  assumes s: "scan_checksum p c = (Some r, c', n)"
  shows "\<exists>c''. scan_checksum (p @ q) c = (Some r, c'', n)"
proof -
  have st: "stage c = 3" using s by (auto simp: scan_checksum_def split: if_splits)
  let ?cb = "checksumBegin c"
  define a where "a b = min CHECKSUM_FIELD_BYTES (if length b > ?cb then length b - ?cb else 0)" for b :: string
  have a: "a p \<le> a (p @ q)" "i < a p \<Longrightarrow> (p @ q) ! (?cb + i) = p ! (?cb + i)" for i
  proof -
    show "a p \<le> a (p @ q)" by (auto simp: a_def)
    assume "i < a p"
    then have "?cb + i < length p" by (auto simp: a_def split: if_splits)
    then show "(p @ q) ! (?cb + i) = p ! (?cb + i)" by (simp add: nth_append)
  qed
  define sohbad where "sohbad b \<longleftrightarrow> length b \<ge> ?cb \<and> ?cb \<noteq> 0 \<and> b ! (?cb - 1) \<noteq> SOH" for b :: string
  define pre where "pre b = list_all (\<lambda>i. b ! (?cb + i) = ''10='' ! i) [0..<min 3 (a b)]" for b :: string
  define dig where "dig b = list_all (\<lambda>i. is_digit (b ! (?cb + i))) [3..<min 6 (a b)]" for b :: string
  have eq: "scan_checksum b c =
     (if sohbad b then (Some Malformed, c, 0) else if \<not> pre b then (Some Malformed, c, 0)
      else if \<not> dig b then (Some Malformed, c, 0)
      else if a b = CHECKSUM_FIELD_BYTES then
        if b ! (?cb + 6) \<noteq> SOH then (Some Malformed, c, 0)
        else (Some Ready, \<lparr>frameStart = ?cb + CHECKSUM_FIELD_BYTES, scanOffset = ?cb + CHECKSUM_FIELD_BYTES + 2,
          cur_bodyLength = 0, checksumBegin = 0, stage = 0, bodyLengthHasDigit = False\<rparr>, ?cb + CHECKSUM_FIELD_BYTES)
      else (None, c, 0))" for b
    unfolding scan_checksum_def Let_def a_def pre_def dig_def sohbad_def by (simp only: st if_False simp_thms)
  have soh: "length p \<ge> ?cb \<Longrightarrow> sohbad (p @ q) = sohbad p" "sohbad p \<Longrightarrow> length p \<ge> ?cb"
    by (auto simp: sohbad_def nth_append)
  have mono: "pre (p @ q) \<Longrightarrow> pre p" "dig (p @ q) \<Longrightarrow> dig p"
    using a(1) by (auto simp: pre_def dig_def list_all_iff a(2) [symmetric])
  show ?thesis
  proof (cases "a p = CHECKSUM_FIELD_BYTES")
    case True
    then have 7: "a (p @ q) = CHECKSUM_FIELD_BYTES" "length p \<ge> ?cb" using a(1) by (auto simp: a_def CHECKSUM_FIELD_BYTES_def split: if_splits)
    have n: "(p @ q) ! (?cb + i) = p ! (?cb + i)" if "i < 7" for i using a(2) [of i] that True by (simp add: CHECKSUM_FIELD_BYTES_def)
    have "pre (p @ q) = pre p" "dig (p @ q) = dig p"
    proof -
      have "[0..<min 3 CHECKSUM_FIELD_BYTES] = [0, 1, 2]" "[3..<min 6 CHECKSUM_FIELD_BYTES] = [3, 4, 5]"
        by (simp_all add: CHECKSUM_FIELD_BYTES_def upt_rec)
      then show "pre (p @ q) = pre p" "dig (p @ q) = dig p"
        using n [of 0] n [of 1] n [of 2] n [of 3] n [of 4] n [of 5] unfolding pre_def dig_def True 7(1) by simp_all
    qed
    then show ?thesis using s soh 7 True n [of 6] unfolding eq by (auto split: if_splits)
  next
    case False
    then have "r = Malformed \<and> n = 0 \<and> (sohbad p \<or> \<not> pre p \<or> \<not> dig p)" using s unfolding eq by (auto split: if_splits)
    then have "r = Malformed \<and> n = 0 \<and> (sohbad (p @ q) \<or> \<not> pre (p @ q) \<or> \<not> dig (p @ q))" using soh mono by blast
    then show ?thesis unfolding eq by auto
  qed
qed

lemma scan_begin_ok:
  assumes b: "scan_begin p c = (None, c1)" and c: "cursor_ok (length p) c"
  shows "cursor_ok (length p) c1"
proof -
  have pl: "placed p c" "frameStart c \<le> length p" using c by (auto simp: cursor_ok_iff)
  note r = scan_begin_resume [OF b pl, of "[]"]
  show ?thesis
  proof (cases "stage c = 0")
    case True
    then have "stage c1 \<noteq> 0 \<Longrightarrow> frameStart c1 \<le> scanOffset c1"
      using b pl(2) by (auto simp: scan_begin_def begin_norm_def Let_def split: if_splits prod.splits)
    then show ?thesis using r c True by (auto simp: cursor_ok_iff)
  qed (use r c in \<open>auto simp: cursor_ok_iff\<close>)
qed

lemma stages_from_length_stays:
  assumes s: "stages_from_length p c = (r, c', n)" "r \<noteq> NeedMore" and c: "cursor_ok (length p) c" and st: "2 \<le> stage c"
  shows "\<exists>c''. stages_from_length (p @ q) c = (r, c'', n)"
proof (cases "scan_length p c")
  case (Pair x c3)
  have o: "stage c = 2 \<Longrightarrow> scanOffset c \<le> length p" using c by (auto simp: cursor_ok_iff placed_def)
  show ?thesis
  proof (cases x)
    case (Some y)
    then have "stage c = 2" using Pair by (auto simp: scan_length_def split: if_splits)
    then show ?thesis using scan_length_stays [OF _ o, of y c3 q] Pair Some s
      by (cases "scan_length (p @ q) c") (auto simp: stages_from_length_def)
  next
    case None
    then have l: "scan_length p c = (None, c3)" using Pair by simp
    obtain r' c4 where k: "scan_checksum p c3 = (r', c4, n)" "r = (case r' of Some r \<Rightarrow> r | None \<Rightarrow> NeedMore)"
      using s l by (auto simp: stages_from_length_def split: prod.splits option.splits)
    then have r': "r' = Some r" using s(2) by (auto split: option.splits)
    have "stage c3 = 3" using k(1) r' by (auto simp: scan_checksum_def split: if_splits)
    then have "scan_length (p @ q) c = (None, c3)"
      using l scan_length_resume [OF l _ o, of q] c by (cases "stage c = 2") (auto simp: scan_length_id cursor_ok_def)
    then show ?thesis using scan_checksum_stays [of p c3 r c4 n q] k(1) r' by (auto simp: stages_from_length_def)
  qed
qed

lemma stages_from_prefix_stays:
  assumes s: "stages_from_prefix p c = (r, c', n)" "r \<noteq> NeedMore" and c: "cursor_ok (length p) c" and st: "1 \<le> stage c"
  shows "\<exists>c''. stages_from_prefix (p @ q) c = (r, c'', n)"
proof (cases "stage c = 1")
  case False
  then show ?thesis using stages_from_length_stays [of p c r c' n q] s c st by (simp add: stages_later)
next
  case True
  then have o: "scanOffset c \<le> length p" using c by (simp add: cursor_ok_iff placed_def)
  show ?thesis
  proof (cases "scan_length_prefix p c")
    case (Pair x c2)
    show ?thesis
    proof (cases x)
      case (Some y)
      then show ?thesis using scan_length_prefix_stays [of p c y c2 q] Pair s
        by (cases "scan_length_prefix (p @ q) c") (auto simp: stages_from_prefix_def)
    next
      case None
      then have p: "scan_length_prefix p c = (None, c2)" using Pair by simp
      have s2: "stages_from_length p c2 = (r, c', n)" using s p by (simp add: stages_from_prefix_def)
      have "c2 \<noteq> c"
      proof
        assume "c2 = c"
        then show False using s2 s(2) True by (auto simp: stages_from_length_def scan_length_id scan_checksum_def)
      qed
      then have 2: "stage c2 = 2" "scan_length_prefix (p @ q) c = (None, c2)" "cursor_ok (length p) c2"
        using scan_length_prefix_resume [OF p True o, of q] c p True
        by (auto simp: cursor_ok_iff placed_def scan_length_prefix_def Let_def split: if_splits)
      then show ?thesis using stages_from_length_stays [OF s2 s(2), of q] by (simp add: stages_from_prefix_def)
    qed
  qed
qed

text \<open>A result other than the need for more bytes stays when more bytes follow.\<close>

lemma scan_stays:
  assumes s: "scanInfiniteDeclaredFrame p c = (r, c', n)" "r \<noteq> NeedMore" and c: "cursor_ok (length p) c"
  shows "\<exists>c''. scanInfiniteDeclaredFrame (p @ q) c = (r, c'', n)"
proof -
  have v: "\<not> cursor_invalid (length p) c" "\<not> cursor_invalid (length (p @ q)) c"
    using c cursor_ok_append [OF c, of q] by (auto simp: cursor_ok_def)
  have pl: "placed p c" "frameStart c \<le> length p" using c by (auto simp: cursor_ok_iff)
  have s': "scan_stages p c = (r, c', n)" using s v by (simp add: scanInfiniteDeclaredFrame_def)
  have "\<exists>c''. scan_stages (p @ q) c = (r, c'', n)"
  proof (cases "scan_begin p c")
    case (Pair x c1)
    show ?thesis
    proof (cases x)
      case (Some y)
      then show ?thesis using scan_begin_stays [OF _ pl, of y c1 q] Pair s'
        by (cases "scan_begin (p @ q) c") (auto simp: scan_stages_alt)
    next
      case None
      then have b: "scan_begin p c = (None, c1)" using Pair by simp
      have s1: "stages_from_prefix p c1 = (r, c', n)" using s' b by (simp add: scan_stages_alt)
      have st1: "stage c1 \<noteq> 0"
      proof
        assume "stage c1 = 0"
        then show False using s1 s(2) by (auto simp: stages_later stages_from_length_def scan_length_id scan_checksum_def)
      qed
      then have "scan_begin (p @ q) c = (None, c1)"
        using scan_begin_resume [OF b pl, of q] b by (cases "stage c = 0") (auto simp: scan_begin_id)
      then show ?thesis using stages_from_prefix_stays [OF s1 s(2) scan_begin_ok [OF b c], of q] st1
        by (simp add: scan_stages_alt)
    qed
  qed
  then show ?thesis using v by (simp add: scanInfiniteDeclaredFrame_def)
qed

text \<open>A connection that scans whenever bytes arrive, until the scan ends.\<close>

fun scan_pieces :: "string \<Rightarrow> frame_cursor \<Rightarrow> string list \<Rightarrow> scan_result \<times> nat" where
  "scan_pieces buf c [] = (NeedMore, 0)"
| "scan_pieces buf c (p # ps) =
     (case scanInfiniteDeclaredFrame (buf @ p) c of
        (NeedMore, c', _) \<Rightarrow> scan_pieces (buf @ p) c' ps
      | (r, _, n) \<Rightarrow> (r, n))"

lemma scan_more_0: "scanInfiniteDeclaredFrame p c = (NeedMore, c', n) \<Longrightarrow> n = 0"
  by (auto simp: scanInfiniteDeclaredFrame_def scan_stages_def scan_checksum_def Let_def split: if_splits prod.splits option.splits)

lemma scan_pieces_whole:
  assumes "scanInfiniteDeclaredFrame buf c0 = (NeedMore, c, m)" "cursor_ok (length buf) c0"
  shows "\<exists>c'. scanInfiniteDeclaredFrame (buf @ concat ps) c0 = (fst (scan_pieces buf c ps), c', snd (scan_pieces buf c ps))"
  using assms
proof (induction ps arbitrary: buf c m)
  case Nil
  then show ?case using scan_more_0 [OF Nil(1)] by simp
next
  case (Cons p ps)
  note r = scan_resume [OF Cons(2,3), of p]
  obtain x c' n where s: "scanInfiniteDeclaredFrame (buf @ p) c = (x, c', n)" by (metis prod_cases3)
  then have s0: "scanInfiniteDeclaredFrame (buf @ p) c0 = (x, c', n)" using r by simp
  have ok: "cursor_ok (length (buf @ p)) c0" using cursor_ok_append [OF Cons(3)] .
  show ?case
  proof (cases "x = NeedMore")
    case True
    then show ?thesis using Cons(1) [of "buf @ p" c' n] s s0 ok by simp
  next
    case False
    then show ?thesis using scan_stays [OF s0 False ok, of "concat ps"] s by (cases x) auto
  qed
qed

lemma scan_nothing: "scanInfiniteDeclaredFrame [] resetDeclaredFrameScan = (NeedMore, resetDeclaredFrameScan, 0)"
  by (simp add: scanInfiniteDeclaredFrame_def cursor_invalid_def scan_stages_def scan_begin_def begin_norm_def
      scan_length_prefix_def scan_length_def scan_checksum_def reset_fresh)

lemma cursor_ok_reset: "cursor_ok len resetDeclaredFrameScan"
  by (auto simp: cursor_ok_def cursor_invalid_def reset_fresh)

section \<open>Properties\<close>

text \<open>C10: started at the beginning of a frame, the scanner says that a frame is ready exactly when
  the bytes begin with a declared frame: a version of one to sixteen bytes that does not
  begin another frame, a declared length in digits, a body of exactly that length that ends
  with a separator, and three digits of checksum, within the limit of 65536 bytes.\<close>

theorem scan_finds_frames:
  "(\<exists>c'. scanInfiniteDeclaredFrame b resetDeclaredFrameScan = (Ready, c', n)) \<longleftrightarrow> n \<le> length b \<and> declared_frame (take n b)"
  by (rule scan_exact)

text \<open>C36: a scanner that is called whenever a piece of the input arrives, keeping its cursor
  between the calls, gives the same result, and the same length of the frame, as one call on
  the whole input, wherever the input was cut.\<close>

theorem scan_interruptible:
  "scan_pieces [] resetDeclaredFrameScan ps =
     (let (r, c, n) = scanInfiniteDeclaredFrame (concat ps) resetDeclaredFrameScan in (r, n))"
proof -
  have "scanInfiniteDeclaredFrame [] resetDeclaredFrameScan = (NeedMore, resetDeclaredFrameScan, 0)"
    "cursor_ok (length ([] :: string)) resetDeclaredFrameScan"
    by (rule scan_nothing, rule cursor_ok_reset)
  then show ?thesis using scan_pieces_whole [of "[]" resetDeclaredFrameScan resetDeclaredFrameScan 0 ps] by auto
qed

end
