(* ===== verification/FrameDispatchers.thy ===== *)
theory FrameDispatchers
  imports FrameScans
begin

text \<open>
  \<open>InfiniteCompleteFrameDispatcher\<close>: turns the bytes of a connection into time stamped frames
  under limits on their number and size; a fault ends it for good.
\<close>

section \<open>The dispatcher\<close>

datatype dispatch_fault = FrameTooLarge | AccumulatorOverflow | MalformedFrame | BatchLimit | InvalidObservation

record dispatcher =
  d_buffer :: string
  d_cursor :: frame_cursor
  d_lastObserved :: "int option"
  d_terminalFault :: "dispatch_fault option"
  d_maxFrames :: nat
  d_maxBytes :: nat

definition dispatcher_new :: "nat \<Rightarrow> nat \<Rightarrow> dispatcher result" where
  "dispatcher_new maxFrames maxBytes =
     (if maxFrames = 0 \<or> maxBytes = 0 then Inl (InvalidArgument ''Infinite frame batch limits must be positive'')
      else Inr \<lparr>d_buffer = [], d_cursor = resetDeclaredFrameScan, d_lastObserved = None, d_terminalFault = None,
                d_maxFrames = maxFrames, d_maxBytes = maxBytes\<rparr>)"

definition dispatcher_new_observed :: "nat \<Rightarrow> nat \<Rightarrow> int \<Rightarrow> dispatcher result" where
  "dispatcher_new_observed maxFrames maxBytes t =
     rbind (dispatcher_new maxFrames maxBytes) (\<lambda>d.
       if t \<le> 0 then Inl (InvalidArgument ''Infinite initial observation must be positive'')
       else Inr (d\<lparr>d_lastObserved := Some t\<rparr>))"

definition dispatcher_discard :: "dispatcher \<Rightarrow> dispatcher" where
  "dispatcher_discard d = d\<lparr>d_buffer := [], d_terminalFault := Some MalformedFrame\<rparr>"

text \<open>
  A result is the frames with their observation times and the fault, if there is one. When a
  frame is ready the scan state keeps the cursor it had; the buffer then gives the frame up
  and the scan starts again.
\<close>

type_synonym dispatch_result = "(string \<times> int) list \<times> dispatch_fault option"

definition terminal :: "(string \<times> int) list \<Rightarrow> dispatch_fault \<Rightarrow> dispatcher \<Rightarrow> dispatch_result \<times> dispatcher" where
  "terminal frames fault d = ((frames, Some fault), d\<lparr>d_terminalFault := Some fault, d_buffer := []\<rparr>)"

text \<open>
  The inner loop: the frames that are complete. \<open>observe\<close> is the clock, \<^const>\<open>None\<close> when it
  throws; \<open>batch\<close> is the bytes of the frames of this call. \<^const>\<open>Inr\<close> when the loop ends
  because more bytes are needed.
\<close>

function take_frames :: "('c \<Rightarrow> int option \<times> 'c) \<Rightarrow> (string \<times> int) list \<Rightarrow> nat \<Rightarrow> 'c \<Rightarrow> dispatcher
    \<Rightarrow> (dispatch_result \<times> dispatcher) + ((string \<times> int) list \<times> nat \<times> 'c \<times> dispatcher)" where
  "take_frames observe frames batch clock d =
     (case scanInfiniteDeclaredFrame (d_buffer d) (d_cursor d) of
        (Malformed, c, _) \<Rightarrow> Inl (terminal frames MalformedFrame (d\<lparr>d_cursor := c\<rparr>))
      | (TooLarge, c, _) \<Rightarrow> Inl (terminal frames FrameTooLarge (d\<lparr>d_cursor := c\<rparr>))
      | (NeedMore, c, _) \<Rightarrow> Inr (frames, batch, clock, d\<lparr>d_cursor := c\<rparr>)
      | (Ready, _, n) \<Rightarrow>
          let msg = take n (d_buffer d);
              d1 = d\<lparr>d_buffer := drop n (d_buffer d), d_cursor := resetDeclaredFrameScan\<rparr>
          in if length msg > MAX_FRAME_BYTES then Inl (terminal frames FrameTooLarge d1)
             else if length frames \<ge> d_maxFrames d \<or> length msg > d_maxBytes d - batch
             then Inl (terminal [] BatchLimit d1)
             else case observe clock of
                (None, _) \<Rightarrow> Inl (terminal frames InvalidObservation d1)
              | (Some t, clock') \<Rightarrow>
                  if t \<le> 0 \<or> (case d_lastObserved d of None \<Rightarrow> False | Some l \<Rightarrow> t < l)
                  then Inl (terminal frames InvalidObservation d1)
                  else take_frames observe (frames @ [(msg, t)]) (batch + length msg) clock'
                         (d1\<lparr>d_lastObserved := Some t\<rparr>))"
  by pat_completeness auto

termination
  by (relation "measure (\<lambda>(_, _, _, _, d). length (d_buffer d))")
    (auto dest!: scan_Ready_bound [OF sym] simp: CHECKSUM_FIELD_BYTES_def)

declare take_frames.simps [simp del]

lemma take_frames_buffer:
  "take_frames observe frames batch clock d = Inr (frames', batch', clock', d') \<Longrightarrow> length (d_buffer d') \<le> length (d_buffer d)"
proof (induction observe frames batch clock d rule: take_frames.induct)
  case (1 observe frames batch clock d)
  show ?case
  proof (cases "scanInfiniteDeclaredFrame (d_buffer d) (d_cursor d)")
    case (fields r c n)
    show ?thesis
    proof (cases r)
      case Ready
      then show ?thesis using 1 fields
        by (subst (asm) (2) take_frames.simps) (fastforce simp: Let_def split: if_splits option.splits prod.splits)
    qed (use 1(2) fields in \<open>auto simp: take_frames.simps [of _ _ _ _ d]\<close>)
  qed
qed

text \<open>
  The outer loop: as many bytes as fit are added to the buffer, and the complete frames are
  taken. The buffer never exceeds its limit here, so the limit of the parser does not matter;
  a larger buffer would make the room a huge number (\<open>size_t\<close>), so all bytes would be added.
\<close>

function process_loop :: "('c \<Rightarrow> int option \<times> 'c) \<Rightarrow> (string \<times> int) list \<Rightarrow> nat \<Rightarrow> 'c \<Rightarrow> string \<Rightarrow> dispatcher
    \<Rightarrow> dispatch_result \<times> dispatcher" where
  "process_loop observe frames batch clock bytes d =
     (if bytes = [] then ((frames, None), d)
      else
        let appendLength = (if length (d_buffer d) \<le> MAX_FRAME_BYTES
                            then min (MAX_FRAME_BYTES - length (d_buffer d)) (length bytes) else length bytes);
            d1 = d\<lparr>d_buffer := d_buffer d @ take appendLength bytes\<rparr>
        in case take_frames observe frames batch clock d1 of
             Inl r \<Rightarrow> r
           | Inr (frames', batch', clock', d2) \<Rightarrow>
               if length (d_buffer d2) = MAX_FRAME_BYTES then terminal frames' AccumulatorOverflow d2
               else process_loop observe frames' batch' clock' (drop appendLength bytes) d2)"
  by pat_completeness auto

termination
  by (relation "measures [\<lambda>(_, _, _, _, bytes, _). length bytes, \<lambda>(_, _, _, _, _, d). length (d_buffer d)]")
    (auto simp: min_def dest!: take_frames_buffer split: if_splits)

declare process_loop.simps [simp del]

definition dispatcher_process :: "('c \<Rightarrow> int option \<times> 'c) \<Rightarrow> 'c \<Rightarrow> string \<Rightarrow> dispatcher \<Rightarrow> dispatch_result \<times> dispatcher" where
  "dispatcher_process observe clock bytes d =
     (case d_terminalFault d of
        Some fault \<Rightarrow> (([], Some fault), d)
      | None \<Rightarrow> process_loop observe [] 0 clock bytes d)"

section \<open>The frames of a byte string\<close>

text \<open>The reference: scan the whole byte string, take the frame off, scan the rest.\<close>

function frames_of :: "string \<Rightarrow> string list" where
  "frames_of b =
     (case scanInfiniteDeclaredFrame b resetDeclaredFrameScan of
        (Ready, _, n) \<Rightarrow> take n b # frames_of (drop n b)
      | _ \<Rightarrow> [])"
  by pat_completeness auto

termination
  by (relation "measure length") (auto dest!: scan_Ready_bound [OF sym] simp: CHECKSUM_FIELD_BYTES_def)

declare frames_of.simps [simp del]

lemma scan_frame: "declared_frame f \<Longrightarrow> \<exists>c'. scanInfiniteDeclaredFrame (f @ r) resetDeclaredFrameScan = (Ready, c', length f)"
  by (simp add: scan_exact)

lemma frames_of_frame: "declared_frame f \<Longrightarrow> frames_of (f @ r) = f # frames_of r"
  using scan_frame [of f r] by (subst frames_of.simps) auto

lemma frames_of_concat: "list_all declared_frame fs \<Longrightarrow> frames_of (concat fs @ r) = fs @ frames_of r"
  by (induction fs) (simp_all add: frames_of_frame)

lemma frames_of_more: "scanInfiniteDeclaredFrame r resetDeclaredFrameScan = (NeedMore, c, n) \<Longrightarrow> frames_of r = []"
  by (subst frames_of.simps) simp

lemma ready_frame: "scanInfiniteDeclaredFrame b resetDeclaredFrameScan = (Ready, c, n) \<Longrightarrow> declared_frame (take n b) \<and> n \<le> length b"
  using scan_exact by blast

section \<open>The loops of the dispatcher\<close>

text \<open>Observations: positive and never before the last one.\<close>

fun observed :: "int option \<Rightarrow> int list \<Rightarrow> bool" where
  "observed l [] = True"
| "observed l (t # ts) = (0 < t \<and> (case l of None \<Rightarrow> True | Some x \<Rightarrow> x \<le> t) \<and> observed (Some t) ts)"

definition frames_bytes :: "(string \<times> int) list \<Rightarrow> nat" where
  "frames_bytes fs = sum_list (map (length \<circ> fst) fs)"

lemma frames_bytes_simps [simp]:
  "frames_bytes [] = 0" "frames_bytes (f # fs) = length (fst f) + frames_bytes fs"
  "frames_bytes (fs @ gs) = frames_bytes fs + frames_bytes gs"
  by (simp_all add: frames_bytes_def)

definition last_time :: "int option \<Rightarrow> (string \<times> int) list \<Rightarrow> int option" where
  "last_time l fs = (if fs = [] then l else Some (snd (last fs)))"

lemma observed_append: "observed l (ts @ us) \<longleftrightarrow> observed l ts \<and> observed (if ts = [] then l else Some (last ts)) us"
  by (induction l ts rule: observed.induct) auto

text \<open>The cursor of a dispatcher is the one a scan of its whole buffer leaves.\<close>

definition at_rest :: "dispatcher \<Rightarrow> bool" where
  "at_rest d \<longleftrightarrow> scanInfiniteDeclaredFrame (d_buffer d) resetDeclaredFrameScan = (NeedMore, d_cursor d, 0)"

definition synced :: "dispatcher \<Rightarrow> bool" where
  "synced d \<longleftrightarrow> scanInfiniteDeclaredFrame (d_buffer d) (d_cursor d) = scanInfiniteDeclaredFrame (d_buffer d) resetDeclaredFrameScan"

lemma at_rest_append: "at_rest d \<Longrightarrow> synced (d\<lparr>d_buffer := d_buffer d @ bs\<rparr>)"
  using scan_resume [of "d_buffer d" resetDeclaredFrameScan "d_cursor d" 0 bs] cursor_ok_reset
  by (simp add: at_rest_def synced_def)

text \<open>What a sequence of taken frames does to a dispatcher.\<close>

definition taken :: "(string \<times> int) list \<Rightarrow> dispatcher \<Rightarrow> dispatcher \<Rightarrow> bool" where
  "taken new d d' \<longleftrightarrow> d_buffer d = concat (map fst new) @ d_buffer d' \<and> list_all declared_frame (map fst new) \<and>
     observed (d_lastObserved d) (map snd new) \<and> d_lastObserved d' = last_time (d_lastObserved d) new \<and>
     d_maxFrames d' = d_maxFrames d \<and> d_maxBytes d' = d_maxBytes d \<and> d_terminalFault d' = d_terminalFault d"

lemma taken_Nil: "taken [] d d' \<longleftrightarrow> d_buffer d = d_buffer d' \<and> d_lastObserved d' = d_lastObserved d \<and>
    d_maxFrames d' = d_maxFrames d \<and> d_maxBytes d' = d_maxBytes d \<and> d_terminalFault d' = d_terminalFault d"
  by (simp add: taken_def last_time_def)

lemma taken_trans: "taken xs d d1 \<Longrightarrow> taken ys d1 d2 \<Longrightarrow> taken (xs @ ys) d d2"
  by (cases "xs = []"; cases "ys = []") (auto simp: taken_def last_time_def observed_append last_map)

lemma taken_frames: "taken new d d' \<Longrightarrow> frames_of (d_buffer d) = map fst new @ frames_of (d_buffer d')"
  by (simp add: taken_def frames_of_concat)

lemma taken_one:
  assumes s: "synced d" "scanInfiniteDeclaredFrame (d_buffer d) (d_cursor d) = (Ready, c, n)"
    and t: "0 < t" "case d_lastObserved d of None \<Rightarrow> True | Some x \<Rightarrow> x \<le> t"
  shows "taken [(take n (d_buffer d), t)] d
    (d\<lparr>d_buffer := drop n (d_buffer d), d_cursor := resetDeclaredFrameScan, d_lastObserved := Some t\<rparr>)"
  using s t ready_frame [of "d_buffer d" c n] by (auto simp: synced_def taken_def last_time_def)

definition within :: "dispatcher \<Rightarrow> (string \<times> int) list \<Rightarrow> nat \<Rightarrow> bool" where
  "within d frames batch \<longleftrightarrow> length frames \<le> d_maxFrames d \<and> batch \<le> d_maxBytes d \<and> batch = frames_bytes frames"

text \<open>How a call ends with a fault after the frames \<open>new\<close> were taken.\<close>

definition faulted :: "(string \<times> int) list \<Rightarrow> dispatcher \<Rightarrow> dispatch_result \<times> dispatcher \<Rightarrow> bool" where
  "faulted frames d r \<longleftrightarrow> (\<exists>new d1 fault. taken new d d1 \<and> 
     snd (fst r) = Some fault \<and> d_terminalFault (snd r) = Some fault \<and> d_buffer (snd r) = [] \<and>
     (if fault = BatchLimit then fst (fst r) = [] else fst (fst r) = frames @ new \<and> within d (frames @ new) (frames_bytes (frames @ new))))"

lemma taken_faulted: "taken [f] d d1 \<Longrightarrow> faulted (frames @ [f]) d1 r \<Longrightarrow> faulted frames d r"
  unfolding faulted_def
  apply clarify
  subgoal for new d2 fault
    using taken_trans [of "[f]" d d1 new d2]
    by (intro exI [of _ "f # new"] exI [of _ d2] exI [of _ fault]) (auto simp: within_def taken_def)
  done

lemma faulted_now: "within d frames batch \<Longrightarrow> fault \<noteq> BatchLimit \<Longrightarrow> faulted frames d (terminal frames fault d')"
  unfolding faulted_def
  by (intro exI [of _ "[]"] exI [of _ d] exI [of _ fault]) (auto simp: taken_Nil terminal_def within_def)

lemma faulted_limit: "faulted frames d (terminal [] BatchLimit d')"
  unfolding faulted_def
  by (intro exI [of _ "[]"] exI [of _ d] exI [of _ BatchLimit]) (auto simp: taken_Nil terminal_def)

lemma take_frames_spec:
  assumes "synced d" "within d frames batch"
  shows "case take_frames observe frames batch clock d of
      Inl r \<Rightarrow> faulted frames d r
    | Inr (frames', batch', clock', d') \<Rightarrow> \<exists>new. frames' = frames @ new \<and> taken new d d' \<and> at_rest d' \<and> within d' frames' batch'"
  using assms
proof (induction observe frames batch clock d rule: take_frames.induct)
  case (1 observe frames batch clock d)
  obtain r c n where s: "scanInfiniteDeclaredFrame (d_buffer d) (d_cursor d) = (r, c, n)" by (metis prod_cases3)
  show ?case
  proof (cases "r = Ready")
    case False
    have s': "scanInfiniteDeclaredFrame (d_buffer d) resetDeclaredFrameScan = (r, c, n)"
      using s 1(2) by (simp add: synced_def)
    show ?thesis
    proof (cases "r = NeedMore")
      case True
      have "take_frames observe frames batch clock d = Inr (frames, batch, clock, d\<lparr>d_cursor := c\<rparr>)"
        using s True by (subst take_frames.simps) simp
      moreover have "n = 0" using s True by (simp add: scan_more_0)
      ultimately show ?thesis using s' True 1(3) by (simp add: taken_Nil at_rest_def within_def)
    next
      case False
      then show ?thesis using s 1(3) \<open>r \<noteq> Ready\<close> by (subst take_frames.simps, cases r) (simp_all add: faulted_now)
    qed
  next
    case ready: True
    define msg where "msg = take n (d_buffer d)"
    define d1 where "d1 = d\<lparr>d_buffer := drop n (d_buffer d), d_cursor := resetDeclaredFrameScan\<rparr>"
    have eq: "take_frames observe frames batch clock d =
        (if length msg > MAX_FRAME_BYTES then Inl (terminal frames FrameTooLarge d1)
         else if length frames \<ge> d_maxFrames d \<or> length msg > d_maxBytes d - batch then Inl (terminal [] BatchLimit d1)
         else case observe clock of
            (None, _) \<Rightarrow> Inl (terminal frames InvalidObservation d1)
          | (Some t, clock') \<Rightarrow>
              if t \<le> 0 \<or> (case d_lastObserved d of None \<Rightarrow> False | Some l \<Rightarrow> t < l)
              then Inl (terminal frames InvalidObservation d1)
              else take_frames observe (frames @ [(msg, t)]) (batch + length msg) clock' (d1\<lparr>d_lastObserved := Some t\<rparr>))"
      by (subst take_frames.simps) (simp only: s ready Let_def msg_def d1_def prod.case scan_result.case)
    show ?thesis
    proof (cases "length msg > MAX_FRAME_BYTES \<or> length frames \<ge> d_maxFrames d \<or> length msg > d_maxBytes d - batch")
      case True
      then show ?thesis using 1(3) unfolding eq by (auto simp: faulted_now faulted_limit)
    next
      case ok: False
      obtain x clock' where o: "observe clock = (x, clock')" by fastforce
      show ?thesis
      proof (cases "\<exists>t. x = Some t \<and> 0 < t \<and> (case d_lastObserved d of None \<Rightarrow> True | Some l \<Rightarrow> l \<le> t)")
        case False
        then show ?thesis using ok o 1(3) unfolding eq
          by (auto simp: faulted_now not_less not_le split: option.splits)
      next
        case True
        then obtain t where t: "x = Some t" "0 < t" "case d_lastObserved d of None \<Rightarrow> True | Some l \<Rightarrow> l \<le> t" by blast
        let ?d2 = "d1\<lparr>d_lastObserved := Some t\<rparr>"
        have one: "taken [(msg, t)] d ?d2"
          using taken_one [OF 1(2) s [unfolded ready] t(2,3)] by (simp add: msg_def d1_def)
        have nt: "\<not> (t \<le> 0 \<or> (case d_lastObserved d of None \<Rightarrow> False | Some l \<Rightarrow> t < l))"
          using t by (auto split: option.splits)
        have eq2: "take_frames observe frames batch clock d =
            take_frames observe (frames @ [(msg, t)]) (batch + length msg) clock' ?d2"
          unfolding eq using ok o t(1) nt by auto
        have "synced ?d2" "within ?d2 (frames @ [(msg, t)]) (batch + length msg)"
          using ok 1(3) by (auto simp: synced_def d1_def within_def)
        then have "case take_frames observe (frames @ [(msg, t)]) (batch + length msg) clock' ?d2 of
            Inl r \<Rightarrow> faulted (frames @ [(msg, t)]) ?d2 r
          | Inr (frames', batch', clock', d') \<Rightarrow> \<exists>new. frames' = (frames @ [(msg, t)]) @ new \<and> taken new ?d2 d' \<and> at_rest d' \<and> within d' frames' batch'"
          using 1(1) [OF s [symmetric] _ _ msg_def d1_def] ready s o t(1) nt ok by auto
        then show ?thesis unfolding eq2 using one taken_faulted [OF one]
          by (auto split: sum.splits) (metis taken_trans append_Cons append_Nil)
      qed
    qed
  qed
qed


lemma faulted_taken: "taken new d d' \<Longrightarrow> faulted (frames @ new) d' r \<Longrightarrow> faulted frames d r"
  unfolding faulted_def
  apply clarify
  subgoal for ys d2 fault
    using taken_trans [of new d d' ys d2]
    by (intro exI [of _ "new @ ys"] exI [of _ d2] exI [of _ fault]) (auto simp: within_def taken_def)
  done

text \<open>More bytes at the end of the buffer do not change what was taken before them.\<close>

lemma taken_more: "taken new (d\<lparr>d_buffer := b\<rparr>) d' \<Longrightarrow> taken new (d\<lparr>d_buffer := b @ q\<rparr>) (d'\<lparr>d_buffer := d_buffer d' @ q\<rparr>)"
  by (simp add: taken_def)

lemma faulted_more: "faulted frames (d\<lparr>d_buffer := b\<rparr>) r \<Longrightarrow> faulted frames (d\<lparr>d_buffer := b @ q\<rparr>) r"
  unfolding faulted_def
  apply clarify
  subgoal for new d1 fault
    using taken_more [of new b d d1 q]
    by (intro exI [of _ new] exI [of _ "d1\<lparr>d_buffer := d_buffer d1 @ q\<rparr>"] exI [of _ fault]) (auto simp: within_def)
  done

lemma process_loop_spec:
  assumes "at_rest d" "length (d_buffer d) < MAX_FRAME_BYTES" "within d frames batch" "d_terminalFault d = None"
  shows "faulted frames (d\<lparr>d_buffer := d_buffer d @ bytes\<rparr>) (process_loop observe frames batch clock bytes d) \<or>
    (\<exists>new d'. process_loop observe frames batch clock bytes d = ((frames @ new, None), d') \<and>
       taken new (d\<lparr>d_buffer := d_buffer d @ bytes\<rparr>) d' \<and> at_rest d' \<and> length (d_buffer d') < MAX_FRAME_BYTES \<and>
       within d' (frames @ new) (frames_bytes (frames @ new)))"
  using assms
proof (induction observe frames batch clock bytes d rule: process_loop.induct)
  case (1 observe frames batch clock bytes d)
  show ?case
  proof (cases "bytes = []")
    case True
    then show ?thesis using 1(2-5) by (subst (2) process_loop.simps) (auto simp: taken_Nil within_def)
  next
    case False
    define k where "k = (if length (d_buffer d) \<le> MAX_FRAME_BYTES
                          then min (MAX_FRAME_BYTES - length (d_buffer d)) (length bytes) else length bytes)"
    define d1 where "d1 = d\<lparr>d_buffer := d_buffer d @ take k bytes\<rparr>"
    have eq: "process_loop observe frames batch clock bytes d =
       (case take_frames observe frames batch clock d1 of
             Inl r \<Rightarrow> r
           | Inr (frames', batch', clock', d2) \<Rightarrow>
               if length (d_buffer d2) = MAX_FRAME_BYTES then terminal frames' AccumulatorOverflow d2
               else process_loop observe frames' batch' clock' (drop k bytes) d2)"
      by (subst process_loop.simps) (simp only: False if_False Let_def k_def d1_def)
    have all: "d\<lparr>d_buffer := d_buffer d @ bytes\<rparr> = d\<lparr>d_buffer := (d_buffer d @ take k bytes) @ drop k bytes\<rparr>" by simp
    have "synced d1" "within d1 frames batch" using 1(2,4) at_rest_append [of d] by (simp_all add: d1_def within_def)
    then have ts: "case take_frames observe frames batch clock d1 of
        Inl r \<Rightarrow> faulted frames d1 r
      | Inr (frames', batch', clock', d') \<Rightarrow> \<exists>new. frames' = frames @ new \<and> taken new d1 d' \<and> at_rest d' \<and> within d' frames' batch'"
      by (rule take_frames_spec)
    show ?thesis
    proof (cases "take_frames observe frames batch clock d1")
      case (Inl r)
      then have "faulted frames (d\<lparr>d_buffer := d_buffer d @ take k bytes\<rparr>) r" using ts by (simp add: d1_def)
      then have "faulted frames (d\<lparr>d_buffer := d_buffer d @ bytes\<rparr>) r" unfolding all by (rule faulted_more)
      moreover have "process_loop observe frames batch clock bytes d = r" unfolding eq Inl by simp
      ultimately show ?thesis by simp
    next
      case (Inr x)
      then obtain new batch' clock' d2 where x: "take_frames observe frames batch clock d1 = Inr (frames @ new, batch', clock', d2)"
          "taken new d1 d2" "at_rest d2" "within d2 (frames @ new) batch'"
        using ts by (cases x) auto
      have t2: "taken new (d\<lparr>d_buffer := d_buffer d @ bytes\<rparr>) (d2\<lparr>d_buffer := d_buffer d2 @ drop k bytes\<rparr>)"
        unfolding all by (rule taken_more) (use x(2) in \<open>simp add: d1_def\<close>)
      show ?thesis
      proof (cases "length (d_buffer d2) = MAX_FRAME_BYTES")
        case True
        have "faulted (frames @ new) (d2\<lparr>d_buffer := d_buffer d2 @ drop k bytes\<rparr>) (terminal (frames @ new) AccumulatorOverflow d2)"
          by (rule faulted_now) (use x(4) in \<open>auto simp: within_def\<close>)
        then show ?thesis using faulted_taken [OF t2] unfolding eq x(1) by (simp add: True)
      next
        case False': False
        have "length (d_buffer d1) \<le> MAX_FRAME_BYTES" using 1(3) by (simp add: d1_def k_def)
        then have lt: "length (d_buffer d2) < MAX_FRAME_BYTES" using x(2) False' by (auto simp: taken_def)
        have nf: "d_terminalFault d2 = None" using x(2) 1(5) by (simp add: taken_def d1_def)
        note ih = 1(1) [OF False k_def d1_def x(1) refl refl refl False' x(3) lt x(4) nf]
        have e2: "process_loop observe frames batch clock bytes d = process_loop observe (frames @ new) batch' clock' (drop k bytes) d2"
          unfolding eq x(1) by (simp add: False')
        show ?thesis using ih unfolding e2
          using faulted_taken [OF t2] taken_trans [OF t2] by (metis append.assoc)
      qed
    qed
  qed
qed


section \<open>The dispatcher\<close>

text \<open>Between calls a dispatcher has failed or is at rest with room in its buffer.\<close>

definition dispatcher_inv :: "dispatcher \<Rightarrow> bool" where
  "dispatcher_inv d \<longleftrightarrow> (if d_terminalFault d = None then at_rest d \<and> length (d_buffer d) < MAX_FRAME_BYTES else d_buffer d = [])"

lemma dispatcher_new_inv: "dispatcher_new mf mb = Inr d \<Longrightarrow> dispatcher_inv d \<and> d_buffer d = [] \<and> d_terminalFault d = None"
  using scan_nothing by (auto simp: dispatcher_new_def dispatcher_inv_def at_rest_def MAX_FRAME_BYTES_def split: if_splits)

lemma process_cases:
  assumes d: "dispatcher_inv d" "d_terminalFault d = None" "dispatcher_process observe clock bytes d = ((frames, x), d')"
  obtains (frames) "x = None" "taken frames (d\<lparr>d_buffer := d_buffer d @ bytes\<rparr>) d'" "dispatcher_inv d'" "d_terminalFault d' = None"
      "within d' frames (frames_bytes frames)"
    | (fault) new d1 fault where "x = Some fault" "d_terminalFault d' = Some fault" "dispatcher_inv d'"
      "taken new (d\<lparr>d_buffer := d_buffer d @ bytes\<rparr>) d1"
      "if fault = BatchLimit then frames = [] else frames = new \<and> within d frames (frames_bytes frames)"
proof -
  have p: "process_loop observe [] 0 clock bytes d = ((frames, x), d')" using d(2,3) by (simp add: dispatcher_process_def)
  have i: "at_rest d" "length (d_buffer d) < MAX_FRAME_BYTES" "within d [] 0" using d(1,2) by (auto simp: dispatcher_inv_def within_def)
  from process_loop_spec [OF i d(2), of bytes observe clock] show thesis
  proof
    assume "faulted [] (d\<lparr>d_buffer := d_buffer d @ bytes\<rparr>) (process_loop observe [] 0 clock bytes d)"
    then obtain new d1 f where "x = Some f" "d_terminalFault d' = Some f" "d_buffer d' = []"
      "taken new (d\<lparr>d_buffer := d_buffer d @ bytes\<rparr>) d1"
      "if f = BatchLimit then frames = [] else frames = new \<and> within d frames (frames_bytes frames)"
      unfolding p faulted_def by (fastforce simp: within_def split: if_splits)
    then show thesis by (intro that(2)) (auto simp: dispatcher_inv_def)
  next
    assume "\<exists>new d'. process_loop observe [] 0 clock bytes d = (([] @ new, None), d') \<and>
       taken new (d\<lparr>d_buffer := d_buffer d @ bytes\<rparr>) d' \<and> at_rest d' \<and> length (d_buffer d') < MAX_FRAME_BYTES \<and>
       within d' ([] @ new) (frames_bytes ([] @ new))"
    then have a: "x = None" "taken frames (d\<lparr>d_buffer := d_buffer d @ bytes\<rparr>) d'" "at_rest d'"
       "length (d_buffer d') < MAX_FRAME_BYTES" "within d' frames (frames_bytes frames)" unfolding p by auto
    have "d_terminalFault d' = None" using a(2) d(2) by (simp add: taken_def)
    then show thesis using a by (intro that(1)) (auto simp: dispatcher_inv_def)
  qed
qed

text \<open>A connection: calls with bytes, each with its clock, until one of them ends with a fault.\<close>

fun dispatch_all :: "('c \<Rightarrow> int option \<times> 'c) \<Rightarrow> dispatcher \<Rightarrow> ('c \<times> string) list \<Rightarrow> (string \<times> int) list \<times> dispatcher" where
  "dispatch_all observe d [] = ([], d)"
| "dispatch_all observe d ((clock, bytes) # calls) =
     (case dispatcher_process observe clock bytes d of
        ((frames, None), d') \<Rightarrow> (case dispatch_all observe d' calls of (rest, d'') \<Rightarrow> (frames @ rest, d''))
      | ((frames, Some _), d') \<Rightarrow> (frames, d'))"

lemma frames_of_append_prefix: "list_all declared_frame fs \<Longrightarrow> prefix fs (frames_of (concat fs @ r))"
  by (simp add: frames_of_concat)

lemma dispatch_all_frames:
  "dispatcher_inv d \<Longrightarrow> d_terminalFault d = None \<Longrightarrow> dispatch_all observe d calls = (frames, d') \<Longrightarrow>
   prefix (map fst frames) (frames_of (d_buffer d @ concat (map snd calls))) \<and> dispatcher_inv d' \<and>
   (d_terminalFault d' = None \<longrightarrow> map fst frames = frames_of (d_buffer d @ concat (map snd calls)))"
proof (induction observe d calls arbitrary: frames d' rule: dispatch_all.induct)
  case (1 observe d)
  then show ?case by (auto simp: dispatcher_inv_def at_rest_def frames_of_more)
next
  case (2 observe d clock bytes calls)
  obtain fs x d1 where p: "dispatcher_process observe clock bytes d = ((fs, x), d1)" by (metis prod.exhaust)
  let ?q = "concat (map snd calls)"
  from 2(2,3) p show ?case
  proof (cases rule: process_cases)
    case frames
    obtain rest d2 where r: "dispatch_all observe d1 calls = (rest, d2)" by fastforce
    have f: "frames = fs @ rest" "d' = d2" using 2(4) p frames(1) r by simp_all
    have b: "frames_of (d_buffer d @ bytes @ ?q) = map fst fs @ frames_of (d_buffer d1 @ ?q)"
      using taken_frames [OF taken_more [OF frames(2), of ?q]] by simp
    show ?thesis using 2(1) [OF p [symmetric] refl frames(1,3,4) r] f b by simp
  next
    case (fault new d2 fault)
    have "frames = fs \<and> d' = d1" using 2(4) p fault(1) by simp
    moreover have "frames_of (d_buffer d @ bytes @ ?q) = map fst new @ frames_of (d_buffer d2 @ ?q)"
      using taken_frames [OF taken_more [OF fault(4), of ?q]] by simp
    moreover have "frames = [] \<or> frames = new" using calculation(1) fault(5) by (auto split: if_splits)
    ultimately show ?thesis using fault(2,3) by auto
  qed
qed

section \<open>Properties\<close>

text \<open>C8: over any sequence of calls, with the bytes cut anywhere, a new dispatcher delivers
  frames in the order and with the bytes of the reference that splits the whole input at
  once, and all of them as long as there is no fault; after a fault what was delivered is
  still a beginning of what the reference finds.\<close>

theorem dispatcher_refines:
  assumes "dispatcher_new maxFrames maxBytes = Inr d" "dispatch_all observe d calls = (frames, d')"
  shows "prefix (map fst frames) (frames_of (concat (map snd calls))) \<and>
    (d_terminalFault d' = None \<longrightarrow> map fst frames = frames_of (concat (map snd calls)))"
  using dispatch_all_frames [of d observe calls frames d'] dispatcher_new_inv [OF assms(1)] assms(2) by simp

definition sample_frame :: string where
  "sample_frame = ''8=F'' @ [SOH] @ ''9=5'' @ [SOH] @ ''35=0'' @ [SOH] @ ''10=161'' @ [SOH]"

definition sample_calls :: "(unit \<times> string) list" where
  "sample_calls = [((), ''8=F'' @ [SOH] @ ''9=5''), ((), [SOH] @ ''35=0'' @ [SOH] @ ''10=161'' @ [SOH] @ ''8='')]"

definition sample_run :: "(string \<times> int) list \<times> dispatcher" where
  "sample_run = dispatch_all (\<lambda>c. (Some 7, c)) (projr (dispatcher_new 1 100)) sample_calls"

lemmas dispatch_eval = dispatcher_process_def process_loop.simps take_frames.simps scanInfiniteDeclaredFrame_def
  cursor_invalid_def scan_stages_def scan_begin_def begin_norm_def scan_length_prefix_def scan_length_def scan_checksum_def
  reset_fresh dispatcher_new_def MAX_FRAME_BYTES_def SIZE_MAX_def CHECKSUM_FIELD_BYTES_def MAX_BEGIN_STRING_BYTES_def
  Let_def terminal_def is_digit_def digit_val_def sample_frame_def

theorem dispatcher_refines_witness: "frames_of (concat (map snd sample_calls)) = [sample_frame]"
proof -
  have "dispatcher_new 1 100 = Inr (projr (dispatcher_new 1 100))"
    "dispatch_all (\<lambda>c. (Some 7, c)) (projr (dispatcher_new 1 100)) sample_calls = (fst sample_run, snd sample_run)"
    by (simp add: dispatcher_new_def, simp add: sample_run_def)
  then have "map fst (fst sample_run) = frames_of (concat (map snd sample_calls))" if "d_terminalFault (snd sample_run) = None"
    using dispatcher_refines that by blast
  moreover have "d_terminalFault (snd sample_run) = None \<and> map fst (fst sample_run) = [sample_frame]"
    by (simp add: sample_run_def sample_calls_def dispatch_eval)
  ultimately show ?thesis by simp
qed

text \<open>C23: a call that ends without a fault returns at most as many frames and bytes as its limits
  allow; every frame is a complete declared frame, the observation times are positive and
  never go back, not even behind the last one of the calls before, and the bytes of the
  frames followed by what stays in the buffer are exactly the bytes that came in, with less
  than a full buffer left.\<close>

theorem dispatcher_within_limits:
  assumes "dispatcher_inv d" "d_terminalFault d = None"
    "dispatcher_process observe clock bytes d = ((frames, None), d')"
  shows "length frames \<le> d_maxFrames d \<and> frames_bytes frames \<le> d_maxBytes d \<and>
    list_all declared_frame (map fst frames) \<and> observed (d_lastObserved d) (map snd frames) \<and>
    d_lastObserved d' = last_time (d_lastObserved d) frames \<and>
    d_buffer d @ bytes = concat (map fst frames) @ d_buffer d' \<and> length (d_buffer d') < MAX_FRAME_BYTES \<and> dispatcher_inv d'"
  using assms
proof (cases rule: process_cases)
  case frames
  have "within d frames (frames_bytes frames)" using frames(2,5) by (simp add: within_def taken_def)
  then show ?thesis using frames by (simp add: taken_def within_def dispatcher_inv_def)
qed simp

theorem dispatcher_within_limits_witness:
  "length (fst (fst (dispatcher_process (\<lambda>c. (Some 7, c)) () (sample_frame @ ''8='') (projr (dispatcher_new 1 100))))) \<le> 1"
proof -
  let ?d = "projr (dispatcher_new 1 100)"
  let ?r = "dispatcher_process (\<lambda>c. (Some 7, c)) () (sample_frame @ ''8='') ?d"
  have n: "dispatcher_new 1 100 = Inr ?d" by (simp add: dispatcher_new_def)
  have "snd (fst ?r) = None" by (simp add: dispatch_eval)
  then have "?r = ((fst (fst ?r), None), snd ?r)" by (simp add: prod_eq_iff)
  then have "length (fst (fst ?r)) \<le> d_maxFrames ?d"
    using dispatcher_within_limits [of ?d "\<lambda>c. (Some 7, c)" "()" "sample_frame @ ''8=''"] dispatcher_new_inv [OF n] by blast
  then show ?thesis by (simp add: dispatcher_new_def)
qed

text \<open>C37: a fault is final: the call that meets it leaves an empty buffer, and every later call
  returns no frames, the same fault and the same dispatcher; and the frames the failing call
  returned are none when the limit of the batch was hit, and otherwise frames the reference
  finds first in the bytes that came in.\<close>

theorem dispatcher_fault_final:
  assumes "dispatcher_inv d" "d_terminalFault d = None"
    "dispatcher_process observe clock bytes d = ((frames, Some fault), d')"
  shows "d_buffer d' = [] \<and> dispatcher_process observe' clock' bytes' d' = (([], Some fault), d') \<and>
    (if fault = BatchLimit then frames = [] else prefix (map fst frames) (frames_of (d_buffer d @ bytes)))"
  using assms
proof (cases rule: process_cases)
  case (fault new d1 f)
  then show ?thesis using taken_frames [OF fault(4)]
    by (auto simp: dispatcher_inv_def dispatcher_process_def)
qed simp

theorem dispatcher_fault_final_witness:
  "let d = snd (dispatcher_process (\<lambda>c. (Some 7, c)) () (sample_frame @ ''9='') (projr (dispatcher_new 5 100))) in
   dispatcher_process (\<lambda>c. (Some 7, c)) () sample_frame d = (([], Some MalformedFrame), d)"
proof -
  let ?d = "projr (dispatcher_new 5 100)"
  let ?r = "dispatcher_process (\<lambda>c. (Some 7, c)) () (sample_frame @ ''9='') ?d"
  have n: "dispatcher_new 5 100 = Inr ?d" by (simp add: dispatcher_new_def)
  have "snd (fst ?r) = Some MalformedFrame" by (simp add: dispatch_eval)
  then have r: "?r = ((fst (fst ?r), Some MalformedFrame), snd ?r)" by (simp add: prod_eq_iff)
  have i: "dispatcher_inv ?d" "d_terminalFault ?d = None" using dispatcher_new_inv [OF n] by auto
  show ?thesis unfolding Let_def by (rule dispatcher_fault_final [OF i r, THEN conjunct2, THEN conjunct1])
qed

end
