(* ===== verification/TimeRanges.thy ===== *)
theory TimeRanges
  imports DateTimes
begin

text \<open>
  The hours in which a session is active (\<open>TimeRange\<close>): either every day from a start to an end
  time, or every week from a start day and time to an end day and time. The conversion of a
  \<open>time_t\<close> to local time is the parameter \<open>localtime\<close>; \<open>gmtime\<close> of the C library is written
  out.
\<close>

section \<open>Code\<close>

abbreviation (input) UtcTimeOnly :: "date_time \<Rightarrow> date_time" where "UtcTimeOnly t \<equiv> clearDate t"

definition fromUtcTimeT :: "int \<Rightarrow> int \<Rightarrow> date_time" where
  "fromUtcTimeT t millis =
     DateTime (JULIAN_19700101 + t div SECONDS_PER_DAY)
       (makeHMS (t mod SECONDS_PER_DAY div 3600) (t mod 3600 div 60) (t mod 60) (millis * PRECISION_FACTOR ! 3))"

record time_range =
  m_startTime :: date_time
  m_endTime :: date_time
  m_startDay :: int
  m_endDay :: int
  m_useLocalTime :: bool

definition TimeRange :: "bool \<Rightarrow> date_time \<Rightarrow> date_time \<Rightarrow> int \<Rightarrow> int \<Rightarrow> time_range" where
  "TimeRange useLocalTime startTime endTime startDay endDay =
     \<lparr>m_startTime = startTime,
      m_endTime = (if startDay > 0 \<and> endDay > 0 \<and> startDay = endDay \<and> date_time_greater endTime startTime
                   then startTime else endTime),
      m_startDay = startDay, m_endDay = endDay, m_useLocalTime = useLocalTime\<rparr>"

definition getRangeStartDate :: "date_time \<Rightarrow> int \<Rightarrow> date_time \<Rightarrow> int" where
  "getRangeStartDate time startDay startTime =
     (if getWeekDay time > startDay then m_date time - getWeekDay time + startDay
      else if getWeekDay time < startDay then m_date time - getWeekDay time + startDay - 7
      else if date_time_ge (UtcTimeOnly time) (UtcTimeOnly startTime) then m_date time
      else m_date time - 7)"

definition isInRange_daily :: "date_time \<Rightarrow> date_time \<Rightarrow> date_time \<Rightarrow> bool" where
  "isInRange_daily start end time =
     (let timeOnly = UtcTimeOnly time
      in if date_time_less start end then date_time_ge timeOnly start \<and> date_time_le timeOnly end
         else date_time_ge timeOnly start \<or> date_time_le timeOnly end)"

definition isInRange_weekly :: "date_time \<Rightarrow> date_time \<Rightarrow> int \<Rightarrow> int \<Rightarrow> date_time \<Rightarrow> int \<Rightarrow> bool" where
  "isInRange_weekly startTime endTime startDay endDay time day =
     (let timeOnly = UtcTimeOnly time
      in if startDay = endDay then
           if day \<noteq> startDay then True else isInRange_daily startTime endTime time
         else if startDay < endDay then
           if day < startDay \<or> day > endDay then False
           else if day = startDay \<and> date_time_less timeOnly startTime then False
           else if day = endDay \<and> date_time_greater timeOnly endTime then False
           else True
         else
           if day < startDay \<and> day > endDay then False
           else if day = startDay \<and> date_time_less timeOnly startTime then False
           else if day = endDay \<and> date_time_greater timeOnly endTime then False
           else True)"

definition isInSameRange_daily :: "date_time \<Rightarrow> date_time \<Rightarrow> date_time \<Rightarrow> date_time \<Rightarrow> bool" where
  "isInSameRange_daily start end time1 time2 =
     (if \<not> isInRange_daily start end time1 then False
      else if \<not> isInRange_daily start end time2 then False
      else if time1 = time2 then True
      else if date_time_less start end \<or> start = end then clearTime time1 = clearTime time2
      else
        let sessionLength = SECONDS_PER_DAY - diff_seconds start end
        in if date_time_greater time1 time2 then
             let delta0 = diff_seconds (UtcTimeOnly time2) start;
                 delta = (if delta0 < 0 then SECONDS_PER_DAY - \<bar>delta0\<bar> else delta0)
             in diff_seconds time1 time2 < sessionLength - delta
           else diff_seconds time2 time1 < sessionLength)"

definition isInSameRange_weekly :: "date_time \<Rightarrow> date_time \<Rightarrow> int \<Rightarrow> int \<Rightarrow> date_time \<Rightarrow> date_time \<Rightarrow> bool" where
  "isInSameRange_weekly startTime endTime startDay endDay time1 time2 =
     (if \<not> isInRange_weekly startTime endTime startDay endDay time1 (getWeekDay time1) then False
      else if \<not> isInRange_weekly startTime endTime startDay endDay time2 (getWeekDay time2) then False
      else if startDay \<noteq> endDay then
        getRangeStartDate time1 startDay startTime = getRangeStartDate time2 startDay startTime
      else
        let day1 = m_date time1; day2 = m_date time2
        in if day1 = day2 \<and> startDay = getWeekDay time1 then
             let bothBeforeEndOfRange = date_time_le (UtcTimeOnly time1) (UtcTimeOnly endTime) \<and>
                   date_time_le (UtcTimeOnly time2) (UtcTimeOnly endTime);
                 bothAfterStartOfRange = date_time_ge (UtcTimeOnly time1) (UtcTimeOnly startTime) \<and>
                   date_time_ge (UtcTimeOnly time2) (UtcTimeOnly startTime)
             in bothBeforeEndOfRange \<or> bothAfterStartOfRange
           else if day1 = day2 \<and> startDay \<noteq> getWeekDay time1 then True
           else if \<bar>day1 - day2\<bar> > 7 then False
           else if \<bar>day1 - day2\<bar> = 7 then
             if getWeekDay time1 \<noteq> startDay then False
             else
               let (earlierTime, laterTime) = (if day2 > day1 then (time1, time2) else (time2, time1))
               in date_time_ge (UtcTimeOnly earlierTime) (UtcTimeOnly startTime) \<and>
                  date_time_le (UtcTimeOnly laterTime) (UtcTimeOnly endTime)
           else getRangeStartDate time1 startDay startTime = getRangeStartDate time2 startDay startTime)"

definition isInRange :: "time_range \<Rightarrow> date_time \<Rightarrow> int \<Rightarrow> bool" where
  "isInRange r dateTime day =
     (if m_startDay r < 0 \<and> m_endDay r < 0 then isInRange_daily (m_startTime r) (m_endTime r) dateTime
      else isInRange_weekly (m_startTime r) (m_endTime r) (m_startDay r) (m_endDay r) dateTime day)"

definition isInSameRange :: "time_range \<Rightarrow> date_time \<Rightarrow> date_time \<Rightarrow> bool" where
  "isInSameRange r time1 time2 =
     (if m_startDay r < 0 \<and> m_endDay r < 0 then isInSameRange_daily (m_startTime r) (m_endTime r) time1 time2
      else isInSameRange_weekly (m_startTime r) (m_endTime r) (m_startDay r) (m_endDay r) time1 time2)"

definition isInRange_utc :: "(int \<Rightarrow> date_time) \<Rightarrow> time_range \<Rightarrow> date_time \<Rightarrow> bool" where
  "isInRange_utc localtime r dateTime =
     (if m_useLocalTime r then
        let localDateTime = localtime (getTimeT dateTime) in isInRange r localDateTime (getWeekDay localDateTime)
      else isInRange r dateTime (getWeekDay dateTime))"

definition isInRange_local :: "(int \<Rightarrow> date_time) \<Rightarrow> time_range \<Rightarrow> date_time \<Rightarrow> bool" where
  "isInRange_local localtime r dateTime =
     (if \<not> m_useLocalTime r then
        let utcDateTime = localtime (getTimeT dateTime) in isInRange r utcDateTime (getWeekDay utcDateTime)
      else isInRange r dateTime (getWeekDay dateTime))"

definition isInSameRange_utc :: "(int \<Rightarrow> date_time) \<Rightarrow> time_range \<Rightarrow> date_time \<Rightarrow> date_time \<Rightarrow> bool" where
  "isInSameRange_utc localtime r time1 time2 =
     (if m_useLocalTime r then isInSameRange r (localtime (getTimeT time1)) (localtime (getTimeT time2))
      else isInSameRange r time1 time2)"

definition isInSameRange_local :: "(int \<Rightarrow> date_time) \<Rightarrow> time_range \<Rightarrow> date_time \<Rightarrow> date_time \<Rightarrow> bool" where
  "isInSameRange_local localtime r time1 time2 =
     (if \<not> m_useLocalTime r then isInSameRange r (fromUtcTimeT (getTimeT time1) 0) (fromUtcTimeT (getTimeT time2) 0)
      else isInSameRange r time1 time2)"

section \<open>The order of times\<close>

lemma date_time_eq: "a = b \<longleftrightarrow> m_date a = m_date b \<and> m_time a = m_time b" for a b :: date_time
  by (cases a; cases b) simp

lemma date_time_less_iff: "date_time_less a b \<longleftrightarrow> m_date a < m_date b \<or> m_date a = m_date b \<and> m_time a < m_time b"
  by (auto simp: date_time_less_def)

lemma date_time_le_iff: "date_time_le a b \<longleftrightarrow> m_date a < m_date b \<or> m_date a = m_date b \<and> m_time a \<le> m_time b"
  by (auto simp: date_time_le_def date_time_less_iff date_time_eq)

lemma date_time_greater_iff: "date_time_greater a b \<longleftrightarrow> date_time_less b a"
  by (auto simp: date_time_greater_def date_time_less_iff date_time_eq)

lemma date_time_ge_iff: "date_time_ge a b \<longleftrightarrow> date_time_le b a"
  by (auto simp: date_time_ge_def date_time_greater_iff date_time_less_iff date_time_le_iff date_time_eq)

lemmas time_order = date_time_less_iff date_time_le_iff date_time_greater_iff date_time_ge_iff

lemma clearDate_simps [simp]: "m_date (clearDate t) = 0" "m_time (clearDate t) = m_time t"
  by (simp_all add: clearDate_def)

text \<open>A time of day as the code stores it, and a date with a time of day, of the years for which the
  32-bit arithmetic of the calendar does not overflow.\<close>

definition time_only :: "date_time \<Rightarrow> bool" where
  "time_only t \<longleftrightarrow> m_date t = 0 \<and> day_time t"

definition on_calendar :: "date_time \<Rightarrow> bool" where
  "on_calendar t \<longleftrightarrow> day_time t \<and> (\<exists>Y M D. valid_date Y M D \<and> 1 \<le> Y \<and> Y \<le> 1465000 \<and> m_date t = julianDate Y M D)"

lemma on_calendarI: "day_time t \<Longrightarrow> valid_date Y M D \<Longrightarrow> 1 \<le> Y \<Longrightarrow> Y \<le> 1465000 \<Longrightarrow> m_date t = julianDate Y M D \<Longrightarrow> on_calendar t"
  by (auto simp: on_calendar_def)

lemma getWeekDay_mod: "on_calendar t \<Longrightarrow> getWeekDay t = 1 + (m_date t + 1) mod 7"
  using getWeekDay_julian [of _ _ _ "m_time t"] by (cases t) (auto simp: on_calendar_def)

section \<open>Cyclic intervals\<close>

text \<open>An interval on a circle: it wraps around when its end is not after its start.\<close>

definition in_cycle :: "int \<Rightarrow> int \<Rightarrow> int \<Rightarrow> bool" where
  "in_cycle s e x \<longleftrightarrow> (if s < e then s \<le> x \<and> x \<le> e else s \<le> x \<or> x \<le> e)"

text \<open>A moment of the week, in nanoseconds since its first day began.\<close>

definition week_moment :: "int \<Rightarrow> date_time \<Rightarrow> int" where
  "week_moment day t = (day - 1) * NANOS_PER_DAY + m_time t"

lemma week_moment_order:
  assumes "day_time t" "day_time u"
  shows "week_moment d t < week_moment d' u \<longleftrightarrow> d < d' \<or> d = d' \<and> m_time t < m_time u"
    and "week_moment d t \<le> week_moment d' u \<longleftrightarrow> d < d' \<or> d = d' \<and> m_time t \<le> m_time u"
proof -
  show "week_moment d t < week_moment d' u \<longleftrightarrow> d < d' \<or> d = d' \<and> m_time t < m_time u"
    using assms by (cases d d' rule: linorder_cases) (auto simp: week_moment_def day_time_def NANOS_PER_DAY_def)
  show "week_moment d t \<le> week_moment d' u \<longleftrightarrow> d < d' \<or> d = d' \<and> m_time t \<le> m_time u"
    using assms by (cases d d' rule: linorder_cases) (auto simp: week_moment_def day_time_def NANOS_PER_DAY_def)
qed

lemma daily_cycle:
  "time_only s \<Longrightarrow> time_only e \<Longrightarrow> isInRange_daily s e t \<longleftrightarrow> in_cycle (m_time s) (m_time e) (m_time t)"
  by (auto simp: isInRange_daily_def in_cycle_def time_only_def time_order)

lemma weekly_cycle:
  assumes "time_only s" "time_only e" "day_time t" "sd = ed \<Longrightarrow> \<not> m_time s < m_time e"
  shows "isInRange_weekly s e sd ed t day \<longleftrightarrow> in_cycle (week_moment sd s) (week_moment ed e) (week_moment day t)"
proof -
  have d: "day_time s" "day_time e" "m_date s = 0" "m_date e = 0" using assms by (auto simp: time_only_def)
  show ?thesis
    using assms(4) unfolding isInRange_weekly_def in_cycle_def week_moment_order [OF d(1,2)] week_moment_order [OF d(1) assms(3)]
      week_moment_order [OF assms(3) d(2)]
    by (cases sd ed rule: linorder_cases) (auto simp: isInRange_daily_def time_order d(3,4) Let_def)
qed

section \<open>Weeks\<close>

definition weekday :: "int \<Rightarrow> int" where
  "weekday d = 1 + (d + 1) mod 7"

text \<open>
  The time between the start of a weekly range on the day \<open>d\<close> and its end, one to seven days
  later.
\<close>

definition in_week_of :: "date_time \<Rightarrow> date_time \<Rightarrow> int \<Rightarrow> int \<Rightarrow> int \<Rightarrow> date_time \<Rightarrow> bool" where
  "in_week_of s e sd ed d t \<longleftrightarrow> d * NANOS_PER_DAY + m_time s \<le> instant t \<and>
     instant t \<le> (d + (1 + (ed - sd - 1) mod 7)) * NANOS_PER_DAY + m_time e"

text \<open>
  A range that lasts seven days ends at the time of day it starts, or before; the instant where
  one week ends and the next begins is set apart.
\<close>

definition week_clear :: "date_time \<Rightarrow> date_time \<Rightarrow> int \<Rightarrow> int \<Rightarrow> date_time \<Rightarrow> bool" where
  "week_clear s e sd ed t \<longleftrightarrow> (sd \<noteq> ed \<or> m_time e < m_time s \<or> m_time e = m_time s \<and> m_time t \<noteq> m_time s)"

lemma weekday_of_week: "1 \<le> sd \<Longrightarrow> sd \<le> 7 \<Longrightarrow> weekday (D - weekday D + sd) = sd" "weekday (d - 7) = weekday d"
proof -
  assume "1 \<le> sd" "sd \<le> 7"
  then show "weekday (D - weekday D + sd) = sd" unfolding weekday_def by presburger
qed (simp add: weekday_def, presburger)

lemma weekday_range: "1 \<le> weekday d \<and> weekday d \<le> 7"
  by (simp add: weekday_def)

lemma range_start:
  assumes t: "on_calendar t" and sd: "1 \<le> sd" "sd \<le> 7" and s: "time_only s"
  shows "weekday (getRangeStartDate t sd s) = sd \<and> getRangeStartDate t sd s * NANOS_PER_DAY + m_time s \<le> instant t \<and>
    instant t < (getRangeStartDate t sd s + 7) * NANOS_PER_DAY + m_time s"
proof -
  have w: "getWeekDay t = weekday (m_date t)" using getWeekDay_mod [OF t] by (simp add: weekday_def)
  have r: "0 \<le> m_time t" "m_time t < NANOS_PER_DAY" "0 \<le> m_time s" "m_time s < NANOS_PER_DAY"
    using t s by (auto simp: on_calendar_def time_only_def day_time_def)
  note wd = weekday_range [of "m_date t"]
  have same: "weekday (m_date t) = sd \<Longrightarrow> m_date t = m_date t - weekday (m_date t) + sd" by simp
  show ?thesis
    using r wd sd weekday_of_week(1) [OF sd, of "m_date t"] weekday_of_week(2) [of "m_date t"]
      weekday_of_week(2) [of "m_date t - weekday (m_date t) + sd"] w
    unfolding getRangeStartDate_def w instant_def NANOS_PER_DAY_def
    by (auto simp: time_order)
qed

lemma weekly_in_week:
  assumes t: "on_calendar t" and sd: "1 \<le> sd" "sd \<le> 7" "1 \<le> ed" "ed \<le> 7" and s: "time_only s" "time_only e"
    and c: "week_clear s e sd ed t"
  shows "isInRange_weekly s e sd ed t (getWeekDay t) \<longleftrightarrow> in_week_of s e sd ed (getRangeStartDate t sd s) t"
proof -
  have w: "getWeekDay t = weekday (m_date t)" using getWeekDay_mod [OF t] by (simp add: weekday_def)
  have r: "0 \<le> m_time t" "m_time t < NANOS_PER_DAY" "0 \<le> m_time s" "m_time s < NANOS_PER_DAY"
     "0 \<le> m_time e" "m_time e < NANOS_PER_DAY"
    using t s by (auto simp: on_calendar_def time_only_def day_time_def)
  have m: "1 + (ed - sd - 1) mod 7 = (if sd < ed then ed - sd else ed - sd + 7)" using sd by presburger
  note wd = weekday_range [of "m_date t"]
  have dz: "m_date s = 0" "m_date e = 0" using s by (auto simp: time_only_def)
  show ?thesis
    using r wd sd range_start [OF t sd(1,2) s(1)] c
    unfolding in_week_of_def week_clear_def m getRangeStartDate_def isInRange_weekly_def isInRange_daily_def w instant_def NANOS_PER_DAY_def
    by (simp add: time_order dz Let_def) linarith
qed

lemma in_week_unique:
  assumes "on_calendar t" "1 \<le> sd" "sd \<le> 7" "1 \<le> ed" "ed \<le> 7" "time_only s" "time_only e" "weekday d = sd"
    "in_week_of s e sd ed d t" "week_clear s e sd ed t"
  shows "getRangeStartDate t sd s = d"
proof -
  let ?P = "getRangeStartDate t sd s"
  note P = range_start [OF assms(1-3,6)]
  have r: "0 \<le> m_time s" "m_time e < NANOS_PER_DAY" using assms(6,7) by (auto simp: time_only_def day_time_def)
  have m: "1 + (ed - sd - 1) mod 7 = (if sd < ed then ed - sd else ed - sd + 7)" using assms(2-5) by presburger
  have "m_date t \<le> d + 6 \<or> m_date t = d + 7 \<or> d + 8 \<le> m_date t" by linarith
  then have "instant t < (d + 7) * NANOS_PER_DAY + m_time s" "d * NANOS_PER_DAY + m_time s \<le> instant t"
    using assms r unfolding in_week_of_def week_clear_def m on_calendar_def day_time_def instant_def NANOS_PER_DAY_def
    by (auto split: if_splits)
  then have "d < ?P + 7" "?P < d + 7" using P r by (auto simp: NANOS_PER_DAY_def)
  moreover have "(d + 1) mod 7 = (?P + 1) mod 7" using P assms(8) by (simp add: weekday_def)
  ultimately show ?thesis by presburger
qed

lemma seven_days: "- 6 \<le> y \<Longrightarrow> y \<le> 6 \<Longrightarrow> \<bar>7 * x + y\<bar> = 7 \<longleftrightarrow> \<bar>x\<bar> = 1 \<and> y = 0" for x y :: int
  by presburger

lemma same_start:
  assumes t: "on_calendar t1" "on_calendar t2" and sd: "1 \<le> sd" "sd \<le> 7" "1 \<le> ed" "ed \<le> 7" and s: "time_only s" "time_only e"
    and c: "week_clear s e sd ed t1" "week_clear s e sd ed t2"
  shows "isInSameRange_weekly s e sd ed t1 t2 \<longleftrightarrow>
    isInRange_weekly s e sd ed t1 (getWeekDay t1) \<and> isInRange_weekly s e sd ed t2 (getWeekDay t2) \<and>
    getRangeStartDate t1 sd s = getRangeStartDate t2 sd s"
proof (cases "sd = ed")
  case True
  define w1 w2 where "w1 = getWeekDay t1" and "w2 = getWeekDay t2"
  note w = w1_def [symmetric] w2_def [symmetric]
  define q1 q2 where "q1 = (m_date t1 + 1) div 7" and "q2 = (m_date t2 + 1) div 7"
  have q: "m_date t1 = 7 * q1 + w1 - 2" "m_date t2 = 7 * q2 + w2 - 2"
    using getWeekDay_mod [OF t(1)] getWeekDay_mod [OF t(2)] unfolding w q1_def q2_def by presburger+
  have w1: "1 \<le> w1" "w1 \<le> 7" "1 \<le> w2" "w2 \<le> 7"
    using getWeekDay_mod [OF t(1)] getWeekDay_mod [OF t(2)] unfolding w by simp_all
  define D1 D2 T1 T2 S E where D: "D1 = m_date t1" "D2 = m_date t2" "T1 = m_time t1" "T2 = m_time t2" "S = m_time s" "E = m_time e"
  have dz: "m_date s = 0" "m_date e = 0" using s by (auto simp: time_only_def)
  have c': "E < S \<or> E = S \<and> T1 \<noteq> S" "E < S \<or> E = S \<and> T2 \<noteq> S" using c True by (auto simp: week_clear_def D)
  define k1 where "k1 = q1 - (if w1 < sd \<or> w1 = sd \<and> T1 < S then 1 else 0)"
  define k2 where "k2 = q2 - (if w2 < sd \<or> w2 = sd \<and> T2 < S then 1 else 0)"
  have P: "getRangeStartDate t1 sd s = 7 * k1 + sd - 2" "getRangeStartDate t2 sd s = 7 * k2 + sd - 2"
    unfolding getRangeStartDate_def w k1_def k2_def D using q by (simp_all add: time_order dz)
  have R: "isInRange_weekly s e sd ed t1 w1 \<longleftrightarrow> (w1 = sd \<longrightarrow> S \<le> T1 \<or> T1 \<le> E)"
    "isInRange_weekly s e sd ed t2 w2 \<longleftrightarrow> (w2 = sd \<longrightarrow> S \<le> T2 \<or> T2 \<le> E)"
    using True c' unfolding isInRange_weekly_def isInRange_daily_def D by (simp_all add: time_order dz Let_def) linarith+
  have DD: "D1 = D2 \<longleftrightarrow> q1 = q2 \<and> w1 = w2" using q w1 unfolding D by presburger
  have diff: "D1 - D2 = 7 * (q1 - q2) + (w1 - w2)" using q unfolding D by simp
  have abs7: "\<bar>D1 - D2\<bar> = 7 \<longleftrightarrow> \<bar>q1 - q2\<bar> = 1 \<and> w1 = w2" "\<bar>D1 - D2\<bar> > 7 \<longleftrightarrow> \<bar>7 * (q1 - q2) + (w1 - w2)\<bar> > 7"
    using seven_days [of "w1 - w2" "q1 - q2"] w1 unfolding diff by simp_all
  show ?thesis
  proof (cases "isInRange_weekly s e sd ed t1 w1 \<and> isInRange_weekly s e sd ed t2 w2")
    case in12: True
    then have r: "w1 = sd \<longrightarrow> S \<le> T1 \<or> T1 \<le> E" "w2 = sd \<longrightarrow> S \<le> T2 \<or> T2 \<le> E" using R by simp_all
    have code: "isInSameRange_weekly s e sd ed t1 t2 \<longleftrightarrow>
        (if D1 = D2 \<and> sd = w1 then T1 \<le> E \<and> T2 \<le> E \<or> S \<le> T1 \<and> S \<le> T2
         else if D1 = D2 \<and> sd \<noteq> w1 then True
         else if \<bar>D1 - D2\<bar> > 7 then False
         else if \<bar>D1 - D2\<bar> = 7 then w1 = sd \<and> (if D2 > D1 then S \<le> T1 \<and> T2 \<le> E else S \<le> T2 \<and> T1 \<le> E)
         else k1 = k2)"
      using in12 True P by (simp add: isInSameRange_weekly_def w time_order dz Let_def D [symmetric])
    have "isInSameRange_weekly s e sd ed t1 t2 \<longleftrightarrow> k1 = k2"
    proof (cases "D1 = D2 \<or> \<bar>D1 - D2\<bar> = 7")
      case True
      then consider "q1 = q2" "w1 = w2" "D1 = D2" | "\<bar>q1 - q2\<bar> = 1" "w1 = w2" "\<bar>D1 - D2\<bar> = 7" "D1 \<noteq> D2"
        using DD abs7(1) by auto
      then show ?thesis
      proof cases
        case 1
        then show ?thesis unfolding code k1_def k2_def using r c' by (cases "w1 = sd") auto
      next
        case 2
        then have "D2 > D1 \<longleftrightarrow> q2 = q1 + 1" "\<not> D2 > D1 \<longleftrightarrow> q1 = q2 + 1" using diff by auto
        then show ?thesis unfolding code k1_def k2_def using 2 r c' by (cases "w1 = sd"; cases "D2 > D1") auto
      qed
    next
      case False
      then show ?thesis
        unfolding code k1_def k2_def using w1 abs7(2) by (simp split: if_splits) linarith
    qed
    then show ?thesis using in12 P by (simp add: w)
  qed (auto simp: isInSameRange_weekly_def w)
qed (auto simp: isInSameRange_weekly_def)

lemma same_week:
  assumes t: "on_calendar t1" "on_calendar t2" and sd: "1 \<le> sd" "sd \<le> 7" "1 \<le> ed" "ed \<le> 7" and s: "time_only s" "time_only e"
    and c: "week_clear s e sd ed t1" "week_clear s e sd ed t2"
  shows "isInSameRange_weekly s e sd ed t1 t2 \<longleftrightarrow>
    (\<exists>d. weekday d = sd \<and> in_week_of s e sd ed d t1 \<and> in_week_of s e sd ed d t2)"
  unfolding same_start [OF t sd s c] weekly_in_week [OF t(1) sd s c(1)] weekly_in_week [OF t(2) sd s c(2)]
  using in_week_unique [OF t(1) sd s _ _ c(1)] in_week_unique [OF t(2) sd s _ _ c(2)] range_start [OF t(1) sd(1,2) s(1)]
  by metis

section \<open>Properties\<close>

text \<open>C17: a time is in the hours of a session exactly when it lies in the interval from the start to
  the end on the circle of the day, or, for a session with a start and an end day, on the
  circle of the week: an interval that ends before it starts wraps around. A weekly session
  that starts and ends on the same day lasts a week, as the constructor makes its end time
  its start time when it is later.\<close>

theorem session_hours:
  assumes "time_only st" "time_only en" "day_time t" "sd < 0 \<and> ed < 0 \<or> 0 < sd \<and> 0 < ed"
  shows "isInRange (TimeRange local st en sd ed) t day \<longleftrightarrow>
    (if sd < 0 then in_cycle (m_time st) (m_time en) (m_time t)
     else in_cycle (week_moment sd st) (week_moment ed (if sd = ed \<and> m_time st < m_time en then st else en)) (week_moment day t))"
proof (cases "sd < 0")
  case True
  then show ?thesis using assms daily_cycle [of st en t] by (auto simp: isInRange_def TimeRange_def)
next
  case False
  then have d: "0 < sd" "0 < ed" using assms(4) by auto
  define e where "e = (if sd = ed \<and> m_time st < m_time en then st else en)"
  have "m_endTime (TimeRange local st en sd ed) = e"
    using assms(1,2) d by (auto simp: TimeRange_def e_def time_order time_only_def)
  moreover have "time_only e" "sd = ed \<Longrightarrow> \<not> m_time st < m_time e" using assms(1,2) by (auto simp: e_def)
  ultimately show ?thesis
    using weekly_cycle [of st e t sd ed day] assms(1,3) d False e_def [symmetric]
    by (simp add: isInRange_def) (simp add: TimeRange_def)
qed

theorem session_hours_witness:
  "isInRange (TimeRange False (DateTime 0 (18 * 3600 * NANOS_PER_SEC)) (DateTime 0 (6 * 3600 * NANOS_PER_SEC)) (- 1) (- 1))
     (DateTime 2460000 (23 * 3600 * NANOS_PER_SEC)) 1"
  using session_hours [of "DateTime 0 (18 * 3600 * NANOS_PER_SEC)" "DateTime 0 (6 * 3600 * NANOS_PER_SEC)"
      "DateTime 2460000 (23 * 3600 * NANOS_PER_SEC)" "- 1" "- 1" False 1]
  by (simp add: time_only_def day_time_def NANOS_PER_DAY_def NANOS_PER_SEC_def in_cycle_def)

text \<open>C18: two times are in the same weekly session exactly when there is a day of the calendar, on
  the start day of the week, such that both lie between the start time on that day and the
  end time one to seven days later. (For a session that lasts exactly a week the instant
  that ends one and begins the next is left open.)\<close>

theorem session_weeks:
  assumes "on_calendar t1" "on_calendar t2" "1 \<le> sd" "sd \<le> 7" "1 \<le> ed" "ed \<le> 7" "time_only st" "time_only en"
    and e: "e = (if sd = ed \<and> m_time st < m_time en then st else en)"
    and c: "week_clear st e sd ed t1" "week_clear st e sd ed t2"
  shows "isInSameRange (TimeRange local st en sd ed) t1 t2 \<longleftrightarrow>
    (\<exists>d. weekday d = sd \<and> in_week_of st e sd ed d t1 \<and> in_week_of st e sd ed d t2)"
proof -
  have "m_endTime (TimeRange local st en sd ed) = e"
    using assms(3,5,7,8) by (auto simp: TimeRange_def e time_order time_only_def)
  moreover have "time_only e" using assms(7,8) by (simp add: e)
  ultimately show ?thesis
    using same_week [OF assms(1-7) _ c] assms(3) by (simp add: isInSameRange_def) (simp add: TimeRange_def)
qed

theorem session_weeks_witness:
  "let st = DateTime 0 (8 * 3600 * NANOS_PER_SEC); en = DateTime 0 (17 * 3600 * NANOS_PER_SEC);
       noon = 12 * 3600 * NANOS_PER_SEC
   in \<exists>d. weekday d = 2 \<and> in_week_of st en 2 6 d (DateTime (julianDate 2024 1 8) noon) \<and>
        in_week_of st en 2 6 d (DateTime (julianDate 2024 1 12) noon)"
proof -
  let ?st = "DateTime 0 (8 * 3600 * NANOS_PER_SEC)" and ?en = "DateTime 0 (17 * 3600 * NANOS_PER_SEC)"
  let ?t1 = "DateTime (julianDate 2024 1 8) (12 * 3600 * NANOS_PER_SEC)"
  let ?t2 = "DateTime (julianDate 2024 1 12) (12 * 3600 * NANOS_PER_SEC)"
  have d: "day_time ?t1" "day_time ?t2" "time_only ?st" "time_only ?en"
    by (simp_all add: time_only_def day_time_def NANOS_PER_DAY_def NANOS_PER_SEC_def)
  have v: "valid_date 2024 1 8" "valid_date 2024 1 12" by (simp_all add: valid_date_def month_days_def)
  have "on_calendar ?t1" "on_calendar ?t2"
    using on_calendarI [OF d(1) v(1)] on_calendarI [OF d(2) v(2)] by simp_all
  moreover have "isInSameRange (TimeRange False ?st ?en 2 6) ?t1 ?t2" by code_simp
  ultimately show ?thesis
    using session_weeks [of ?t1 ?t2 2 6 ?st ?en ?en False] d by (simp add: week_clear_def)
qed

text \<open>
  For a session over midnight the answer depends on the order of the two times: only when the
  first is the later one is the time already spent in the session taken off.
\<close>

lemma overnight_asymmetric:
  "let st = DateTime 0 (18 * 3600 * NANOS_PER_SEC); en = DateTime 0 (17 * 3600 * NANOS_PER_SEC);
       t1 = DateTime 2460000 (16 * 3600 * NANOS_PER_SEC); t2 = DateTime 2460000 (19 * 3600 * NANOS_PER_SEC)
   in isInSameRange (TimeRange False st en (- 1) (- 1)) t1 t2 \<and> \<not> isInSameRange (TimeRange False st en (- 1) (- 1)) t2 t1"
  by code_simp

end
