(* ===== verification/MessageStores.thy ===== *)
theory MessageStores
  imports Exceptions DateTimes
begin

text \<open>
  The message stores: \<open>MemoryStore\<close>, and \<open>PlanningStore\<close>, whose sequence numbers stay in
  the domain of the wire and whose reset is refused. Both keep the messages that were sent
  under their sequence numbers, and the next number to send and to receive. The interface
  is the locale \<open>message_store\<close>; both stores are instances of it.
\<close>

type_synonym seqnum = "64 word"

section \<open>The memory store\<close>

record memory_store =
  ms_messages :: "(seqnum \<times> string) list"
  ms_nextSender :: seqnum
  ms_nextTarget :: seqnum
  ms_creationTime :: date_time

definition MemoryStore :: "date_time \<Rightarrow> memory_store" where
  "MemoryStore now = \<lparr>ms_messages = [], ms_nextSender = 1, ms_nextTarget = 1, ms_creationTime = now\<rparr>"

definition ms_set :: "seqnum \<Rightarrow> string \<Rightarrow> memory_store \<Rightarrow> bool \<times> memory_store" where
  "ms_set n msg s = (True, s\<lparr>ms_messages := map_put n msg (ms_messages s)\<rparr>)"

text \<open>\<open>find(begin)\<close> and then every message up to \<open>end\<close>: nothing when \<open>begin\<close> itself is absent.\<close>

definition messages_between :: "seqnum \<Rightarrow> seqnum \<Rightarrow> (seqnum \<times> string) list \<Rightarrow> string list" where
  "messages_between begin end ms = map snd (takeWhile (\<lambda>p. fst p \<le> end) (dropWhile (\<lambda>p. fst p \<noteq> begin) ms))"

definition ms_get :: "seqnum \<Rightarrow> seqnum \<Rightarrow> memory_store \<Rightarrow> string list" where
  "ms_get begin end s = messages_between begin end (ms_messages s)"

definition ms_setNextSender :: "seqnum \<Rightarrow> memory_store \<Rightarrow> memory_store" where
  "ms_setNextSender n s = s\<lparr>ms_nextSender := n\<rparr>"

definition ms_setNextTarget :: "seqnum \<Rightarrow> memory_store \<Rightarrow> memory_store" where
  "ms_setNextTarget n s = s\<lparr>ms_nextTarget := n\<rparr>"

definition ms_incrNextSender :: "memory_store \<Rightarrow> memory_store" where
  "ms_incrNextSender s = s\<lparr>ms_nextSender := ms_nextSender s + 1\<rparr>"

definition ms_incrNextTarget :: "memory_store \<Rightarrow> memory_store" where
  "ms_incrNextTarget s = s\<lparr>ms_nextTarget := ms_nextTarget s + 1\<rparr>"

definition ms_setCreationTime :: "date_time \<Rightarrow> memory_store \<Rightarrow> memory_store" where
  "ms_setCreationTime t s = s\<lparr>ms_creationTime := t\<rparr>"

definition ms_reset :: "date_time \<Rightarrow> memory_store \<Rightarrow> memory_store" where
  "ms_reset now s = s\<lparr>ms_nextSender := 1, ms_nextTarget := 1, ms_messages := [], ms_creationTime := now\<rparr>"

definition ms_refresh :: "memory_store \<Rightarrow> memory_store" where
  "ms_refresh s = s"

section \<open>The planning store\<close>

definition FIX_SEQUENCE_BOUND :: seqnum where "FIX_SEQUENCE_BOUND = 2 ^ 63 - 1"

record planning_store =
  ps_messages :: "(seqnum \<times> string) list"
  ps_nextSender :: seqnum
  ps_nextTarget :: seqnum
  ps_creationTime :: date_time

definition PlanningStore :: "date_time \<Rightarrow> planning_store" where
  "PlanningStore creationTime =
     \<lparr>ps_messages = [], ps_nextSender = 1, ps_nextTarget = 1, ps_creationTime = creationTime\<rparr>"

definition requireWireValue :: "seqnum \<Rightarrow> unit result" where
  "requireWireValue v = throw_if (v = 0 \<or> v \<ge> FIX_SEQUENCE_BOUND) (InvalidArgument ''Planning sequence domain'')"

definition ps_increment :: "seqnum \<Rightarrow> seqnum result" where
  "ps_increment v =
     (if v = 0 \<or> v \<ge> FIX_SEQUENCE_BOUND then Inl (InvalidArgument ''Planning sequence exhausted'') else Inr (v + 1))"

definition ps_set :: "seqnum \<Rightarrow> string \<Rightarrow> planning_store \<Rightarrow> bool result \<times> planning_store" where
  "ps_set n msg s =
     (case requireWireValue n of
        Inl e \<Rightarrow> (Inl e, s)
      | Inr _ \<Rightarrow> (Inr True, s\<lparr>ps_messages := map_put n msg (ps_messages s)\<rparr>))"

definition ps_get :: "seqnum \<Rightarrow> seqnum \<Rightarrow> planning_store \<Rightarrow> string list result" where
  "ps_get begin end s =
     rbind (requireWireValue begin) (\<lambda>_. rbind (requireWireValue end) (\<lambda>_.
       Inr (messages_between begin end (ps_messages s))))"

definition ps_getNextSender :: "planning_store \<Rightarrow> seqnum result" where
  "ps_getNextSender s =
     (if ps_nextSender s \<ge> FIX_SEQUENCE_BOUND then Inl (InvalidArgument ''Planning sender exhausted'')
      else Inr (ps_nextSender s))"

definition ps_getNextTarget :: "planning_store \<Rightarrow> seqnum" where
  "ps_getNextTarget s = ps_nextTarget s"

definition ps_setNextSender :: "seqnum \<Rightarrow> planning_store \<Rightarrow> unit result \<times> planning_store" where
  "ps_setNextSender n s =
     (case requireWireValue n of Inl e \<Rightarrow> (Inl e, s) | Inr _ \<Rightarrow> (Inr (), s\<lparr>ps_nextSender := n\<rparr>))"

definition ps_setNextTarget :: "seqnum \<Rightarrow> planning_store \<Rightarrow> unit result \<times> planning_store" where
  "ps_setNextTarget n s =
     (case requireWireValue n of Inl e \<Rightarrow> (Inl e, s) | Inr _ \<Rightarrow> (Inr (), s\<lparr>ps_nextTarget := n\<rparr>))"

definition ps_incrNextSender :: "planning_store \<Rightarrow> unit result \<times> planning_store" where
  "ps_incrNextSender s =
     (case ps_increment (ps_nextSender s) of Inl e \<Rightarrow> (Inl e, s) | Inr n \<Rightarrow> (Inr (), s\<lparr>ps_nextSender := n\<rparr>))"

definition ps_incrNextTarget :: "planning_store \<Rightarrow> unit result \<times> planning_store" where
  "ps_incrNextTarget s =
     (case ps_increment (ps_nextTarget s) of Inl e \<Rightarrow> (Inl e, s) | Inr n \<Rightarrow> (Inr (), s\<lparr>ps_nextTarget := n\<rparr>))"

definition ps_reset :: "date_time \<Rightarrow> planning_store \<Rightarrow> unit result \<times> planning_store" where
  "ps_reset now s = (Inl (LogicError ''Detached planning reset''), s)"

section \<open>Messages by number\<close>

lemma dropWhile_key: "map_sorted ms \<Longrightarrow> dropWhile (\<lambda>p. fst p \<noteq> b) ms =
    (if b \<in> fst ` set ms then filter (\<lambda>p. b \<le> fst p) ms else [])" for b :: "'k::linorder"
proof (induction ms)
  case (Cons p ms)
  obtain k v where p: "p = (k, v)" by (cases p)
  have k: "\<forall>x\<in>fst ` set ms. k < x" and s: "map_sorted ms" using Cons(2) p by (auto simp: map_sorted_def)
  show ?case
  proof (cases "k = b")
    case True
    then have "filter (\<lambda>p. b \<le> fst p) ms = ms" using k by (auto intro!: filter_True)
    then show ?thesis using p True by simp
  next
    case False
    moreover have "b \<in> fst ` set ms \<Longrightarrow> \<not> b \<le> k" using k by auto
    ultimately show ?thesis using p Cons(1) s by auto
  qed
qed simp

lemma takeWhile_key: "map_sorted ms \<Longrightarrow> takeWhile (\<lambda>p. fst p \<le> e) ms = filter (\<lambda>p. fst p \<le> e) ms" for e :: "'k::linorder"
proof (induction ms)
  case (Cons p ms)
  obtain k v where p: "p = (k, v)" by (cases p)
  have k: "\<forall>x\<in>fst ` set ms. k < x" and s: "map_sorted ms" using Cons(2) p by (auto simp: map_sorted_def)
  have "\<not> k \<le> e \<Longrightarrow> filter (\<lambda>p. fst p \<le> e) ms = []" using k by (fastforce intro!: filter_False)
  then show ?case using p Cons(1) s by auto
qed simp

lemma map_sorted_filter: "map_sorted ms \<Longrightarrow> map_sorted (filter P ms)"
  by (simp add: map_sorted_def sorted_wrt_map sorted_wrt_filter)

lemma messages_between_filter: "map_sorted ms \<Longrightarrow> messages_between b e ms =
    (if b \<in> fst ` set ms then map snd (filter (\<lambda>p. b \<le> fst p \<and> fst p \<le> e) ms) else [])"
  by (auto simp: messages_between_def dropWhile_key takeWhile_key map_sorted_filter conj_commute)

lemma map_sorted_keys: "map_sorted ms \<Longrightarrow> map fst ms = sorted_list_of_set (dom (map_of ms))"
  for ms :: "('k::linorder \<times> 'v) list"
  unfolding dom_map_of_conv_image_fst map_sorted_def
  by (metis list.set_map sorted_list_of_set.idem_if_sorted_distinct strict_sorted_iff)

lemma map_sorted_values: "map_sorted ms \<Longrightarrow> map snd ms = map (\<lambda>n. the (map_of ms n)) (map fst ms)"
  for ms :: "('k::linorder \<times> 'v) list"
  unfolding map_sorted_def by (auto simp: strict_sorted_iff intro!: map_cong)

text \<open>The messages of a range in the order of their numbers.\<close>

definition in_order :: "(seqnum \<Rightarrow> string option) \<Rightarrow> seqnum \<Rightarrow> seqnum \<Rightarrow> string list" where
  "in_order m b e = map (\<lambda>n. the (m n)) (filter (\<lambda>n. b \<le> n \<and> n \<le> e) (sorted_list_of_set (dom m)))"

lemma messages_between_order: "map_sorted ms \<Longrightarrow>
    messages_between b e ms = (if map_of ms b = None then [] else in_order (map_of ms) b e)"
proof -
  assume s: "map_sorted ms"
  let ?fs = "filter (\<lambda>p. b \<le> fst p \<and> fst p \<le> e) ms"
  have f: "map fst ?fs = filter (\<lambda>n. b \<le> n \<and> n \<le> e) (map fst ms)"
    by (simp add: filter_map o_def)
  have "map snd ?fs = map (\<lambda>n. the (map_of ms n)) (map fst ?fs)"
    using s unfolding map_sorted_def by (auto simp: strict_sorted_iff intro!: map_cong)
  then show ?thesis
    unfolding in_order_def messages_between_filter [OF s] map_sorted_keys [OF s, symmetric] f
    by (simp add: map_of_eq_None_iff)
qed

section \<open>The interface\<close>

text \<open>Sending: each message is put under the next number, which then advances (\<open>Session::persist\<close>).\<close>

fun store_all :: "(seqnum \<Rightarrow> string \<Rightarrow> 's \<Rightarrow> bool result \<times> 's) \<Rightarrow> ('s \<Rightarrow> seqnum result) \<Rightarrow> ('s \<Rightarrow> unit result \<times> 's)
    \<Rightarrow> string list \<Rightarrow> 's \<Rightarrow> 's result" where
  "store_all put next_number advance [] s = Inr s"
| "store_all put next_number advance (m # ms) s =
     rbind (next_number s) (\<lambda>n. rbind (fst (put n m s)) (\<lambda>_. rbind (fst (advance (snd (put n m s)))) (\<lambda>_.
       store_all put next_number advance ms (snd (advance (snd (put n m s)))))))"

lemma sorted_unique: "sorted_wrt (<) xs \<Longrightarrow> set xs = A \<Longrightarrow> sorted_list_of_set A = xs" for xs :: "'k::linorder list"
  by (auto simp: strict_sorted_iff sorted_list_of_set.idem_if_sorted_distinct)

lemma unat_small: "x < 2 ^ 64 \<Longrightarrow> unat (of_nat x :: seqnum) = x"
  by (simp add: unat_of_nat take_bit_nat_eq_self_iff)

lemma unat_add_small: "unat n + i < 2 ^ 64 \<Longrightarrow> unat (n + of_nat i) = unat n + i" for n :: seqnum
  using unat_small [of "unat n + i"] by simp

lemma word_interval:
  assumes "unat n + len < 2 ^ 64" "0 < len"
  shows "{k :: seqnum. n \<le> k \<and> k \<le> n + of_nat len - 1} = {k. n \<le> k \<and> unat k < unat n + len}"
proof -
  have "n + of_nat len - 1 = n + (of_nat (len - 1) :: seqnum)" using assms(2) by (simp add: of_nat_diff)
  moreover have "unat (n + (of_nat (len - 1) :: seqnum)) = unat n + (len - 1)" by (rule unat_add_small) (use assms in simp)
  ultimately have "unat (n + of_nat len - 1 :: seqnum) = unat n + (len - 1)" by (simp only:)
  then show ?thesis using assms by (auto simp: word_le_nat_alt)
qed

lemma sorted_interval:
  assumes "unat n + len < 2 ^ 64"
  shows "sorted_list_of_set {k :: seqnum. n \<le> k \<and> unat k < unat n + len} = map (\<lambda>i. n + of_nat i) [0..<len]"
proof -
  have u: "unat (n + of_nat i) = unat n + i" if "i < len" for i by (rule unat_add_small) (use assms that in simp)
  have "sorted_wrt (<) (map (\<lambda>i. n + of_nat i) [0..<len])"
    by (auto simp: sorted_wrt_iff_nth_less word_less_nat_alt u)
  moreover have "set (map (\<lambda>i. n + of_nat i) [0..<len]) = {k. n \<le> k \<and> unat k < unat n + len}" (is "?A = ?B")
  proof
    show "?A \<subseteq> ?B" by (auto simp: word_le_nat_alt u)
    show "?B \<subseteq> ?A"
    proof
      fix k assume "k \<in> ?B"
      then have k: "unat n \<le> unat k" "unat k < unat n + len" by (auto simp: word_le_nat_alt)
      then have "k = n + of_nat (unat k - unat n)" by (simp add: of_nat_diff)
      then show "k \<in> ?A" using k by (auto intro!: image_eqI [of _ _ "unat k - unat n"])
    qed
  qed
  ultimately show ?thesis by (rule sorted_unique)
qed

text \<open>
  A store as its clients see it: \<open>messages\<close> and \<open>sender\<close> are what it keeps, \<open>ok\<close> the sequence
  numbers it accepts.
\<close>

locale message_store =
  fixes inv :: "'s \<Rightarrow> bool"
    and ok :: "seqnum \<Rightarrow> bool"
    and messages :: "'s \<Rightarrow> seqnum \<Rightarrow> string option"
    and sender :: "'s \<Rightarrow> seqnum"
    and put :: "seqnum \<Rightarrow> string \<Rightarrow> 's \<Rightarrow> bool result \<times> 's"
    and range :: "seqnum \<Rightarrow> seqnum \<Rightarrow> 's \<Rightarrow> string list result"
    and next_number :: "'s \<Rightarrow> seqnum result"
    and advance :: "'s \<Rightarrow> unit result \<times> 's"
  assumes put: "inv s \<Longrightarrow> ok n \<Longrightarrow> fst (put n m s) = Inr True \<and> inv (snd (put n m s)) \<and>
      messages (snd (put n m s)) = (messages s)(n \<mapsto> m) \<and> sender (snd (put n m s)) = sender s"
    and range: "inv s \<Longrightarrow> ok b \<Longrightarrow> ok e \<Longrightarrow>
      range b e s = Inr (if messages s b = None then [] else in_order (messages s) b e)"
    and next_number: "inv s \<Longrightarrow> ok (sender s) \<Longrightarrow> next_number s = Inr (sender s)"
    and advance: "inv s \<Longrightarrow> ok (sender s) \<Longrightarrow> fst (advance s) = Inr () \<and> inv (snd (advance s)) \<and>
      messages (snd (advance s)) = messages s \<and> sender (snd (advance s)) = sender s + 1"
    and finite_messages: "inv s \<Longrightarrow> finite (dom (messages s))"
begin

lemma store_all_messages:
  assumes "inv s" "\<And>i. i < length ms \<Longrightarrow> ok (sender s + of_nat i)" "unat (sender s) + length ms < 2 ^ 64"
  shows "\<exists>s'. store_all put next_number advance ms s = Inr s' \<and> inv s' \<and> sender s' = sender s + of_nat (length ms) \<and>
    messages s' = (\<lambda>k. if sender s \<le> k \<and> unat k < unat (sender s) + length ms
      then Some (ms ! (unat k - unat (sender s))) else messages s k)"
  using assms
proof (induction ms arbitrary: s)
  case Nil
  then show ?case by (auto simp: word_le_nat_alt fun_eq_iff)
next
  case (Cons m ms)
  let ?n = "sender s"
  define s1 where "s1 = snd (put ?n m s)"
  define s2 where "s2 = snd (advance s1)"
  have ok: "ok ?n" using Cons(3) [of 0] by simp
  have 1: "fst (put ?n m s) = Inr True" "inv s1" "messages s1 = (messages s)(?n \<mapsto> m)" "sender s1 = ?n"
    using put [OF Cons(2) ok, of m] by (auto simp: s1_def)
  have 2: "fst (advance s1) = Inr ()" "inv s2" "messages s2 = messages s1" "sender s2 = ?n + 1"
    using advance [of s1] 1 ok by (auto simp: s2_def)
  have u: "unat (?n + 1) = Suc (unat ?n)" using unat_add_small [of ?n 1] Cons(4) by simp
  have "ok (sender s2 + of_nat i)" if "i < length ms" for i
    using Cons(3) [of "Suc i"] that by (simp add: 2(4) add.assoc)
  then obtain s' where s': "store_all put next_number advance ms s2 = Inr s'" "inv s'" "sender s' = sender s2 + of_nat (length ms)"
    "messages s' = (\<lambda>k. if sender s2 \<le> k \<and> unat k < unat (sender s2) + length ms
      then Some (ms ! (unat k - unat (sender s2))) else messages s2 k)"
    using Cons(1) [of s2] 2 u Cons(4) by auto
  have "store_all put next_number advance (m # ms) s = Inr s'"
    using next_number [OF Cons(2) ok] 1(1) 2(1) s'(1) by (simp add: s1_def s2_def)
  moreover have "messages s' = (\<lambda>k. if ?n \<le> k \<and> unat k < unat ?n + length (m # ms)
      then Some ((m # ms) ! (unat k - unat ?n)) else messages s k)"
  proof
    fix k
    show "messages s' k = (if ?n \<le> k \<and> unat k < unat ?n + length (m # ms)
      then Some ((m # ms) ! (unat k - unat ?n)) else messages s k)"
      using u unfolding s'(4) 2(3,4) 1(3)
      by (cases "k = ?n") (auto simp: word_le_nat_alt nth_Cons' word_unat_eq_iff)
  qed
  ultimately show ?case using s'(2,3) 2(4) by (intro exI [of _ s']) (simp add: algebra_simps)
qed

text \<open>What was sent from a number on is what the store gives back for that range, in order.\<close>

lemma store_all_range:
  assumes "inv s" "\<And>i. i < length ms \<Longrightarrow> ok (sender s + of_nat i)" "unat (sender s) + length ms < 2 ^ 64" "ms \<noteq> []"
  shows "\<exists>s'. store_all put next_number advance ms s = Inr s' \<and> sender s' = sender s + of_nat (length ms) \<and>
    range (sender s) (sender s + of_nat (length ms) - 1) s' = Inr ms"
proof -
  let ?n = "sender s" and ?len = "length ms"
  obtain s' where s': "store_all put next_number advance ms s = Inr s'" "inv s'" "sender s' = ?n + of_nat ?len"
    "messages s' = (\<lambda>k. if ?n \<le> k \<and> unat k < unat ?n + ?len then Some (ms ! (unat k - unat ?n)) else messages s k)"
    using store_all_messages [OF assms(1-3)] by blast
  have len: "0 < ?len" using assms(4) by simp
  have oks: "ok ?n" "ok (?n + of_nat ?len - 1)"
    using assms(2) [of 0] assms(2) [of "?len - 1"] len by (simp_all add: of_nat_diff algebra_simps)
  let ?I = "{k. ?n \<le> k \<and> unat k < unat ?n + ?len}"
  have sub: "?I \<subseteq> dom (messages s')" by (auto simp: s'(4))
  have "filter (\<lambda>k. ?n \<le> k \<and> k \<le> ?n + of_nat ?len - 1) (sorted_list_of_set (dom (messages s'))) = sorted_list_of_set ?I"
  proof -
    have "{k. ?n \<le> k \<and> k \<le> ?n + of_nat ?len - 1} = ?I" by (rule word_interval [OF assms(3) len])
    then have "set (filter (\<lambda>k. ?n \<le> k \<and> k \<le> ?n + of_nat ?len - 1) (sorted_list_of_set (dom (messages s')))) = ?I"
      using sub finite_messages [OF s'(2)] by auto
    moreover have "sorted_wrt (<) (filter (\<lambda>k. ?n \<le> k \<and> k \<le> ?n + of_nat ?len - 1) (sorted_list_of_set (dom (messages s'))))"
      by (intro sorted_wrt_filter) simp
    ultimately show ?thesis by (rule sorted_unique [symmetric, rotated])
  qed
  then have "in_order (messages s') ?n (?n + of_nat ?len - 1) = map (\<lambda>i. the (messages s' (?n + of_nat i))) [0..<?len]"
    by (simp add: in_order_def sorted_interval [OF assms(3)] o_def)
  also have "\<dots> = ms"
  proof (rule nth_equalityI)
    fix i assume i: "i < length (map (\<lambda>i. the (messages s' (?n + of_nat i))) [0..<?len])"
    have "unat (?n + of_nat i) = unat ?n + i" by (rule unat_add_small) (use assms(3) i in simp)
    then show "map (\<lambda>i. the (messages s' (?n + of_nat i))) [0..<?len] ! i = ms ! i"
      using i by (simp add: s'(4) word_le_nat_alt)
  qed simp
  finally have "range ?n (?n + of_nat ?len - 1) s' = Inr ms"
    using range [OF s'(2) oks] len by (auto simp: s'(4))
  then show ?thesis using s'(1,3) by blast
qed

end

interpretation memory: message_store "\<lambda>s. map_sorted (ms_messages s)" "\<lambda>_. True" "\<lambda>s. map_of (ms_messages s)" ms_nextSender
  "\<lambda>n m s. apfst Inr (ms_set n m s)" "\<lambda>b e s. Inr (ms_get b e s)" "\<lambda>s. Inr (ms_nextSender s)" "\<lambda>s. (Inr (), ms_incrNextSender s)"
  by unfold_locales (auto simp: ms_set_def ms_get_def ms_incrNextSender_def messages_between_order finite_dom_map_of)

definition wire_number :: "seqnum \<Rightarrow> bool" where
  "wire_number n \<longleftrightarrow> n \<noteq> 0 \<and> n < FIX_SEQUENCE_BOUND"

lemma requireWireValue_iff [simp]: "requireWireValue n = Inr u \<longleftrightarrow> wire_number n"
  "wire_number n \<Longrightarrow> requireWireValue n = Inr ()"
  by (auto simp: requireWireValue_def wire_number_def throw_if_def)

lemma requireWireValue_cases: "requireWireValue n = (if wire_number n then Inr () else Inl (InvalidArgument ''Planning sequence domain''))"
  by (auto simp: requireWireValue_def wire_number_def throw_if_def)

lemma ps_increment_cases: "ps_increment n = (if wire_number n then Inr (n + 1) else Inl (InvalidArgument ''Planning sequence exhausted''))"
  by (auto simp: ps_increment_def wire_number_def)

interpretation planning: message_store "\<lambda>s. map_sorted (ps_messages s)" wire_number "\<lambda>s. map_of (ps_messages s)" ps_nextSender
  ps_set ps_get ps_getNextSender ps_incrNextSender
  by unfold_locales (auto simp: ps_set_def ps_get_def ps_getNextSender_def ps_incrNextSender_def ps_increment_def wire_number_def
      messages_between_order finite_dom_map_of)

section \<open>Properties\<close>

text \<open>C38: messages that are sent one after the other, each stored under the next number which then
  advances, are what a store gives back, all of them and in the order they were sent, for
  the range of their numbers; for the planning store as long as the numbers stay in the
  domain of the wire.\<close>

theorem stores_give_back:
  assumes "map_sorted (ms_messages s)" "msgs \<noteq> []" "unat (ms_nextSender s) + length msgs < 2 ^ 64"
    and "map_sorted (ps_messages p)" "0 < ps_nextSender p" "unat (ps_nextSender p) + length msgs < 2 ^ 63"
  shows "(\<exists>s'. store_all (\<lambda>n m s. apfst Inr (ms_set n m s)) (\<lambda>s. Inr (ms_nextSender s)) (\<lambda>s. (Inr (), ms_incrNextSender s)) msgs s = Inr s' \<and>
      ms_nextSender s' = ms_nextSender s + of_nat (length msgs) \<and>
      ms_get (ms_nextSender s) (ms_nextSender s + of_nat (length msgs) - 1) s' = msgs) \<and>
    (\<exists>p'. store_all ps_set ps_getNextSender ps_incrNextSender msgs p = Inr p' \<and>
      ps_nextSender p' = ps_nextSender p + of_nat (length msgs) \<and>
      ps_get (ps_nextSender p) (ps_nextSender p + of_nat (length msgs) - 1) p' = Inr msgs)"
proof -
  have "wire_number (ps_nextSender p + of_nat i)" if "i < length msgs" for i
  proof -
    have "unat (ps_nextSender p + of_nat i) = unat (ps_nextSender p) + i"
      by (rule unat_add_small) (use assms(6) that in simp)
    moreover have "0 < unat (ps_nextSender p)" using assms(5) by (simp add: word_less_nat_alt)
    ultimately show ?thesis using assms(6) that by (auto simp: wire_number_def FIX_SEQUENCE_BOUND_def word_less_nat_alt unat_eq_0)
  qed
  then show ?thesis
    using memory.store_all_range [OF assms(1) _ assms(3,2)] planning.store_all_range [OF assms(4) _ _ assms(2)] assms(6)
    by simp
qed

theorem stores_give_back_witness:
  "\<exists>s'. store_all (\<lambda>n m s. apfst Inr (ms_set n m s)) (\<lambda>s. Inr (ms_nextSender s)) (\<lambda>s. (Inr (), ms_incrNextSender s))
      [''a'', ''b''] (MemoryStore (DateTime 0 0)) = Inr s' \<and> ms_get 1 2 s' = [''a'', ''b'']"
  using stores_give_back [of "MemoryStore (DateTime 0 0)" "[''a'', ''b'']" "PlanningStore (DateTime 0 0)"]
  by (auto simp: MemoryStore_def PlanningStore_def map_sorted_def)

definition planned :: "planning_store \<Rightarrow> memory_store" where
  "planned p = \<lparr>ms_messages = ps_messages p, ms_nextSender = ps_nextSender p, ms_nextTarget = ps_nextTarget p,
     ms_creationTime = ps_creationTime p\<rparr>"

text \<open>C39: the planning store is the memory store restricted to the numbers of the wire: each of its
  operations does what the memory store does when the number it is given, or advances, is
  in the domain, and otherwise throws and leaves the store as it was; it is never reset.\<close>

theorem planning_store_refines:
  "(if wire_number n then fst (ps_set n m p) = Inr True \<and> planned (snd (ps_set n m p)) = snd (ms_set n m (planned p))
    else ps_set n m p = (Inl (InvalidArgument ''Planning sequence domain''), p)) \<and>
   ps_get b e p = (if wire_number b \<and> wire_number e then Inr (ms_get b e (planned p))
     else Inl (InvalidArgument ''Planning sequence domain'')) \<and>
   (if wire_number n then fst (ps_setNextSender n p) = Inr () \<and> planned (snd (ps_setNextSender n p)) = ms_setNextSender n (planned p)
    else ps_setNextSender n p = (Inl (InvalidArgument ''Planning sequence domain''), p)) \<and>
   (if wire_number n then fst (ps_setNextTarget n p) = Inr () \<and> planned (snd (ps_setNextTarget n p)) = ms_setNextTarget n (planned p)
    else ps_setNextTarget n p = (Inl (InvalidArgument ''Planning sequence domain''), p)) \<and>
   (if wire_number (ps_nextSender p)
    then fst (ps_incrNextSender p) = Inr () \<and> planned (snd (ps_incrNextSender p)) = ms_incrNextSender (planned p)
    else ps_incrNextSender p = (Inl (InvalidArgument ''Planning sequence exhausted''), p)) \<and>
   (if wire_number (ps_nextTarget p)
    then fst (ps_incrNextTarget p) = Inr () \<and> planned (snd (ps_incrNextTarget p)) = ms_incrNextTarget (planned p)
    else ps_incrNextTarget p = (Inl (InvalidArgument ''Planning sequence exhausted''), p)) \<and>
   ps_reset now p = (Inl (LogicError ''Detached planning reset''), p)"
  by (simp add: ps_set_def ps_get_def ps_setNextSender_def ps_setNextTarget_def ps_incrNextSender_def ps_incrNextTarget_def
      ps_increment_cases ps_reset_def requireWireValue_cases planned_def ms_set_def ms_get_def ms_setNextSender_def
      ms_setNextTarget_def ms_incrNextSender_def ms_incrNextTarget_def del: requireWireValue_iff)

end
