(* ===== verification/LogRedactions.thy ===== *)
theory LogRedactions
  imports Prelude
begin

text \<open>
  \<open>redactLogonCredentials\<close>: what a session writes to its log has the values of the fields
  553 (Username) and 554 (Password) replaced. The code keeps the place up to which it has
  copied; the model returns the text instead.
\<close>

section \<open>Code\<close>

text \<open>
  The tag of a credential at the start of a field, leading zeros and the equals sign included,
  and what follows it.
\<close>

definition credential_at :: "string \<Rightarrow> (string \<times> string) option" where
  "credential_at s =
     (let zeros = takeWhile (\<lambda>c. c = CHR ''0'') s;
          tag = dropWhile (\<lambda>c. c = CHR ''0'') s;
          digits = takeWhile is_digit tag;
          rest = dropWhile is_digit tag
      in if length digits = 3 \<and> rest \<noteq> [] \<and> hd rest = CHR ''='' \<and> (digits = ''553'' \<or> digits = ''554'')
         then Some (zeros @ digits @ ''='', tl rest) else None)"

lemma dropWhile_shorter: "dropWhile P xs = y # ys \<Longrightarrow> length ys < length xs"
  using length_dropWhile_le [of P xs] by simp

lemma credential_at_shorter: "credential_at s = Some (p, r) \<Longrightarrow> length r < length s"
proof -
  assume "credential_at s = Some (p, r)"
  then have r: "r = tl (dropWhile is_digit (dropWhile (\<lambda>c. c = CHR ''0'') s))" "dropWhile is_digit (dropWhile (\<lambda>c. c = CHR ''0'') s) \<noteq> []"
    by (auto simp: credential_at_def Let_def split: if_splits)
  have "length (dropWhile is_digit (dropWhile (\<lambda>c. c = CHR ''0'') s)) \<le> length s"
    using length_dropWhile_le [of is_digit] length_dropWhile_le [of "\<lambda>c. c = CHR ''0''" s] by (meson order_trans)
  then show ?thesis using r by (cases "dropWhile is_digit (dropWhile (\<lambda>c. c = CHR ''0'') s)") auto
qed

function redact :: "bool \<Rightarrow> string \<Rightarrow> string" where
  "redact fieldBoundary [] = []"
| "redact fieldBoundary (c # cs) =
     (case (if fieldBoundary then credential_at (c # cs) else None) of
        None \<Rightarrow> c # redact (c = SOH) cs
      | Some (kept, v) \<Rightarrow>
          kept @ ''<redacted>'' @
            (case dropWhile (\<lambda>c. c \<noteq> SOH) v of [] \<Rightarrow> [] | _ # rest \<Rightarrow> SOH # redact True rest))"
  by pat_completeness auto

termination
by (relation "measure (\<lambda>(_, s). length s)")
    (auto split: if_splits dest!: dropWhile_shorter dest: credential_at_shorter)


definition redactLogonCredentials :: "string \<Rightarrow> string" where
  "redactLogonCredentials value = redact True value"

section \<open>Field by field\<close>

text \<open>The fields of a text and the text of a list of fields.\<close>

function fields_of :: "string \<Rightarrow> string list" where
  "fields_of s =
     takeWhile (\<lambda>c. c \<noteq> SOH) s #
       (case dropWhile (\<lambda>c. c \<noteq> SOH) s of [] \<Rightarrow> [] | _ # rest \<Rightarrow> fields_of rest)"
  by pat_completeness auto

termination
by (relation "measure length") (auto dest!: dropWhile_shorter)


declare fields_of.simps [simp del]

fun join_fields :: "string list \<Rightarrow> string" where
  "join_fields [] = []"
| "join_fields [f] = f"
| "join_fields (f # fs) = f @ SOH # join_fields fs"

text \<open>
  Which fields are credentials, said without the scan of the code: what stands before the first
  equals sign is a decimal numeral, leading zeros allowed, of the value 553 or 554. Of such a
  field the numeral and the equals sign stay.
\<close>

definition field_credential :: "string \<Rightarrow> bool" where
  "field_credential f \<longleftrightarrow>
     CHR ''='' \<in> set f \<and> dec_nat (takeWhile (\<lambda>c. c \<noteq> CHR ''='') f) \<in> {Some 553, Some 554}"

definition redact_field :: "string \<Rightarrow> string" where
  "redact_field f =
     (if field_credential f then takeWhile (\<lambda>c. c \<noteq> CHR ''='') f @ ''=<redacted>'' else f)"

section \<open>The scan finds the credentials\<close>

lemma dec_val_zeros: "dec_val_from 0 (dropWhile (\<lambda>c. c = CHR ''0'') s) = dec_val_from 0 s"
  by (induction s) (auto simp: digit_val_def)

lemma digit_val_char: "is_digit c \<Longrightarrow> c = digit_char (digit_val c)"
  by (auto simp: is_digit_def digit_val_def digit_char_def)

lemma digit_chars: "digit_char 0 = CHR ''0''" "digit_char 3 = CHR ''3''" "digit_char 4 = CHR ''4''" "digit_char 5 = CHR ''5''"
  by code_simp+

lemma numeral_of_three:
  assumes "list_all is_digit ds" "ds = [] \<or> hd ds \<noteq> CHR ''0''" "dec_val_from 0 ds = 100 * a + 10 * b + c"
    "0 < a" "a < 10" "b < 10" "c < 10"
  shows "ds = [digit_char a, digit_char b, digit_char c]"
proof -
  have d: "ds \<noteq> []" using assms(3,4) by auto
  then obtain x xs where x: "ds = x # xs" by (cases ds) auto
  have "digit_val x \<noteq> 0"
  proof
    assume "digit_val x = 0"
    then have "x = CHR ''0''" using digit_val_char [of x] assms(1) x digit_chars(1) by simp
    then show False using assms(2) x by simp
  qed
  then have "1 * 10 ^ length xs \<le> digit_val x * 10 ^ length xs" by (intro mult_le_mono1) simp
  also have "\<dots> \<le> dec_val_from 0 ds" using dec_val_from_linear [of "digit_val x" xs] x by simp
  finally have "10 ^ length xs < (10 :: nat) ^ 3" using assms(3-7) by simp
  then have "length xs < 3" by (rule power_less_imp_less_exp [rotated]) simp
  then consider "xs = []" | y where "xs = [y]" | y z where "xs = [y, z]"
    by (cases xs; cases "tl xs"; cases "tl (tl xs)") auto
  then show ?thesis
  proof cases
    case 1
    then show ?thesis using assms(1,3,4) x digit_val_less [of x] by simp
  next
    case 2
    then show ?thesis using assms(1,3,4) x digit_val_less [of x] digit_val_less [of y] by simp
  next
    case 3
    have l: "digit_val x < 10" "digit_val y < 10" "digit_val z < 10" "is_digit x" "is_digit y" "is_digit z"
      using assms(1) x 3 by (simp_all add: digit_val_less)
    have u: "m = n \<and> j = k" if "10 * m + j = 10 * n + k" "j < 10" "k < 10" for m n j k :: nat
      using that by presburger
    have "10 * (10 * digit_val x + digit_val y) + digit_val z = 10 * (10 * a + b) + c" using assms(3) x 3 by simp
    note e = u [OF this l(3) assms(7)]
    note e' = u [OF conjunct1 [OF e] l(2) assms(6)]
    have "x = digit_char a" "y = digit_char b" "z = digit_char c"
      using e e' digit_val_char [OF l(4)] digit_val_char [OF l(5)] digit_val_char [OF l(6)] by simp_all
    then show ?thesis using x 3 by simp
  qed
qed

lemma number_credential:
  assumes "list_all is_digit ds" "ds = [] \<or> hd ds \<noteq> CHR ''0''"
  shows "dec_val_from 0 ds \<in> {553, 554} \<longleftrightarrow> ds = ''553'' \<or> ds = ''554''"
proof
  assume "dec_val_from 0 ds \<in> {553, 554}"
  then show "ds = ''553'' \<or> ds = ''554''"
    using numeral_of_three [OF assms, of 5 5 3] numeral_of_three [OF assms, of 5 5 4] digit_chars by fastforce
qed (auto simp: digit_val_def)

lemma digits_before:
  assumes "\<not> is_digit x"
  shows "(dropWhile is_digit s \<noteq> [] \<and> hd (dropWhile is_digit s) = x) \<longleftrightarrow> x \<in> set s \<and> list_all is_digit (takeWhile (\<lambda>c. c \<noteq> x) s)"
    "x \<in> set s \<Longrightarrow> list_all is_digit (takeWhile (\<lambda>c. c \<noteq> x) s) \<Longrightarrow>
       takeWhile is_digit s = takeWhile (\<lambda>c. c \<noteq> x) s \<and> dropWhile is_digit s = dropWhile (\<lambda>c. c \<noteq> x) s"
  using assms by (induction s) (auto split: if_splits)

lemma zeros_before:
  assumes "x \<noteq> z"
  shows "takeWhile (\<lambda>c. c \<noteq> x) s = takeWhile (\<lambda>c. c = z) s @ takeWhile (\<lambda>c. c \<noteq> x) (dropWhile (\<lambda>c. c = z) s)"
    "dropWhile (\<lambda>c. c = z) (takeWhile (\<lambda>c. c \<noteq> x) s) = takeWhile (\<lambda>c. c \<noteq> x) (dropWhile (\<lambda>c. c = z) s)"
    "dropWhile (\<lambda>c. c \<noteq> x) (dropWhile (\<lambda>c. c = z) s) = dropWhile (\<lambda>c. c \<noteq> x) s"
    "x \<in> set (dropWhile (\<lambda>c. c = z) s) \<longleftrightarrow> x \<in> set s"
  using assms by (induction s) auto

lemma credential_at_field:
  "credential_at f = (if field_credential f
     then Some (takeWhile (\<lambda>c. c \<noteq> CHR ''='') f @ ''='', tl (dropWhile (\<lambda>c. c \<noteq> CHR ''='') f)) else None)"
proof -
  let ?z = "takeWhile (\<lambda>c. c = CHR ''0'') f" and ?d = "dropWhile (\<lambda>c. c = CHR ''0'') f"
  let ?t = "takeWhile (\<lambda>c. c \<noteq> CHR ''='') ?d"
  have ne: "CHR ''='' \<noteq> CHR ''0''" by simp
  note zb = zeros_before [OF ne, of f]
  note db = digits_before [of "CHR ''=''" ?d, OF not_digit(2)]
  have z: "list_all is_digit ?z" unfolding list_all_iff by (auto simp: is_digit_def dest!: set_takeWhileD)
  have h: "?t = [] \<or> hd ?t \<noteq> CHR ''0''"
  proof (cases ?d)
    case (Cons x xs)
    then have "x \<noteq> CHR ''0''" using hd_dropWhile [of "\<lambda>c. c = CHR ''0''" f] by simp
    then show ?thesis unfolding Cons by simp
  next
    case Nil
    show ?thesis unfolding Nil by simp
  qed
  have v: "dec_val_from 0 (takeWhile (\<lambda>c. c \<noteq> CHR ''='') f) = dec_val_from 0 ?t"
    using dec_val_zeros [of "takeWhile (\<lambda>c. c \<noteq> CHR ''='') f"] unfolding zb(2) by (rule sym)
  have a: "list_all is_digit (takeWhile (\<lambda>c. c \<noteq> CHR ''='') f) \<longleftrightarrow> list_all is_digit ?t"
    unfolding zb(1) list_all_append using z by simp
  have n: "dec_nat (takeWhile (\<lambda>c. c \<noteq> CHR ''='') f) \<in> {Some 553, Some 554} \<longleftrightarrow> list_all is_digit ?t \<and> (?t = ''553'' \<or> ?t = ''554'')"
  proof (cases "list_all is_digit ?t")
    case True
    have "takeWhile (\<lambda>c. c \<noteq> CHR ''='') f = [] \<Longrightarrow> ?t = []" unfolding zb(1) by (rule append_is_Nil_conv [THEN iffD1, THEN conjunct2])
    then show ?thesis using number_credential [OF True h] True unfolding dec_nat_def a v by auto
  next
    case False
    then show ?thesis unfolding dec_nat_def a by simp
  qed
  show ?thesis
  proof (cases "CHR ''='' \<in> set f \<and> list_all is_digit ?t")
    case True
    then have e: "takeWhile is_digit ?d = ?t" "dropWhile is_digit ?d = dropWhile (\<lambda>c. c \<noteq> CHR ''='') f"
      using db(2) zb(3,4) by simp_all
    have "dropWhile is_digit ?d \<noteq> [] \<and> hd (dropWhile is_digit ?d) = CHR ''=''" using db(1) True zb(4) by blast
    moreover have "length ?t = 3 \<and> (?t = ''553'' \<or> ?t = ''554'') \<longleftrightarrow> (?t = ''553'' \<or> ?t = ''554'')" by auto
    ultimately show ?thesis using True n
      unfolding credential_at_def field_credential_def Let_def e zb(1) by simp
  next
    case False
    then have "\<not> (dropWhile is_digit ?d \<noteq> [] \<and> hd (dropWhile is_digit ?d) = CHR ''='')" using db(1) zb(4) by blast
    moreover have "\<not> field_credential f" using n False unfolding field_credential_def by blast
    ultimately show ?thesis unfolding credential_at_def Let_def by auto
  qed
qed
lemma redact_field_scan: "redact_field f = (case credential_at f of None \<Rightarrow> f | Some (tag, _) \<Rightarrow> tag @ ''<redacted>'')"
  by (simp add: redact_field_def credential_at_field)

lemma credential_at_value:
  assumes "CHR ''='' \<notin> set tag" "dec_nat tag \<in> {Some 553, Some 554}"
  shows "credential_at (tag @ CHR ''='' # v) = Some (tag @ ''='', v)"
proof -
  have "takeWhile (\<lambda>c. c \<noteq> CHR ''='') (tag @ CHR ''='' # v) = tag" "dropWhile (\<lambda>c. c \<noteq> CHR ''='') (tag @ CHR ''='' # v) = CHR ''='' # v"
    using assms(1) by (induction tag) auto
  then show ?thesis using assms(2) by (simp add: credential_at_field field_credential_def)
qed

section \<open>The text field by field\<close>

lemma takeWhile_no_stop: "x \<notin> set xs \<Longrightarrow> takeWhile (\<lambda>c. c \<noteq> x) xs = xs"
  by (induction xs) auto

lemma dropWhile_no_stop: "x \<notin> set xs \<Longrightarrow> dropWhile (\<lambda>c. c \<noteq> x) xs = []"
  by (induction xs) auto

lemma fields_of_one: "SOH \<notin> set f \<Longrightarrow> fields_of f = [f]"
  by (subst fields_of.simps) (simp add: takeWhile_no_stop dropWhile_no_stop)

lemma fields_of_more: "SOH \<notin> set f \<Longrightarrow> fields_of (f @ SOH # r) = f # fields_of r"
proof -
  assume f: "SOH \<notin> set f"
  then have "takeWhile (\<lambda>c. c \<noteq> SOH) (f @ SOH # r) = f" "dropWhile (\<lambda>c. c \<noteq> SOH) (f @ SOH # r) = SOH # r"
    by (induction f) auto
  then show ?thesis by (subst fields_of.simps) simp
qed

lemma redact_inside: "SOH \<notin> set f \<Longrightarrow> redact False f = f" "SOH \<notin> set f \<Longrightarrow> redact False (f @ SOH # r) = f @ SOH # redact True r"
  by (induction f) auto

text \<open>The end of a field ends every scan that looks for a credential.\<close>

lemma scan_to_end: "SOH \<notin> set f \<Longrightarrow> \<not> P SOH \<Longrightarrow>
    takeWhile P (f @ SOH # r) = takeWhile P f \<and> dropWhile P (f @ SOH # r) = dropWhile P f @ SOH # r"
  by (induction f) auto

lemma set_dropWhile_subset: "x \<in> set (dropWhile P xs) \<Longrightarrow> x \<in> set xs"
  by (induction xs) (auto split: if_splits)

lemma credential_in_field: "SOH \<notin> set f \<Longrightarrow>
    credential_at (f @ SOH # r) = map_option (\<lambda>(p, v). (p, v @ SOH # r)) (credential_at f)"
proof -
  assume f: "SOH \<notin> set f"
  let ?z = "\<lambda>c. c = CHR ''0''"
  have z: "takeWhile ?z (f @ SOH # r) = takeWhile ?z f" "dropWhile ?z (f @ SOH # r) = dropWhile ?z f @ SOH # r"
    using scan_to_end [OF f, of ?z r] by simp_all
  have g: "SOH \<notin> set (dropWhile ?z f)" using f by (auto dest: set_dropWhile_subset)
  have d: "takeWhile is_digit (dropWhile ?z f @ SOH # r) = takeWhile is_digit (dropWhile ?z f)"
    "dropWhile is_digit (dropWhile ?z f @ SOH # r) = dropWhile is_digit (dropWhile ?z f) @ SOH # r"
    using scan_to_end [OF g, of is_digit r] by simp_all
  show ?thesis
  proof (cases "dropWhile is_digit (dropWhile ?z f)")
    case Nil
    show ?thesis unfolding credential_at_def Let_def z d Nil by simp
  next
    case (Cons a as)
    show ?thesis unfolding credential_at_def Let_def z d Cons by auto
  qed
qed

lemma credential_value: "credential_at f = Some (p, v) \<Longrightarrow> SOH \<notin> set f \<Longrightarrow> SOH \<notin> set v"
proof -
  assume c: "credential_at f = Some (p, v)" and f: "SOH \<notin> set f"
  let ?d = "dropWhile is_digit (dropWhile (\<lambda>c. c = CHR ''0'') f)"
  have "v = tl ?d" using c by (auto simp: credential_at_def Let_def split: if_splits)
  moreover have "SOH \<notin> set ?d" using f by (auto dest: set_dropWhile_subset)
  ultimately show ?thesis by (cases ?d) auto
qed

lemma redact_field_last: "SOH \<notin> set f \<Longrightarrow> redact True f = redact_field f"
proof (cases f)
  case (Cons c cs)
  assume f: "SOH \<notin> set f"
  show ?thesis
  proof (cases "credential_at f")
    case None
    then show ?thesis using f redact_inside(1) [of cs] by (auto simp: Cons redact_field_scan)
  next
    case (Some pv)
    then obtain p v where pv: "credential_at f = Some (p, v)" by (cases pv) auto
    then have "SOH \<notin> set v" using credential_value f by blast
    then show ?thesis using pv by (simp add: Cons redact_field_scan dropWhile_no_stop)
  qed
qed (simp add: redact_field_scan credential_at_def)

lemma redact_field_more: "SOH \<notin> set f \<Longrightarrow> redact True (f @ SOH # r) = redact_field f @ SOH # redact True r"
proof -
  assume f: "SOH \<notin> set f"
  obtain c cs where s: "f @ SOH # r = c # cs" by (cases f) auto
  show ?thesis
  proof (cases "credential_at f")
    case None
    then have n: "credential_at (c # cs) = None" using credential_in_field [OF f, of r] s by simp
    show ?thesis
    proof (cases f)
      case Nil
      then show ?thesis using n s None by (auto simp: redact_field_scan)
    next
      case (Cons d ds)
      then show ?thesis using n s None f redact_inside(2) [of ds r] by (auto simp: redact_field_scan)
    qed
  next
    case (Some pv)
    then obtain p v where pv: "credential_at f = Some (p, v)" by (cases pv) auto
    have "credential_at (c # cs) = Some (p, v @ SOH # r)" using credential_in_field [OF f, of r] pv s by simp
    moreover have "dropWhile (\<lambda>c. c \<noteq> SOH) (v @ SOH # r) = SOH # r"
      using scan_to_end [of v "\<lambda>c. c \<noteq> SOH" r] credential_value [OF pv f] by (auto simp: dropWhile_eq_Nil_conv)
    ultimately show ?thesis using pv s by (simp add: redact_field_scan)
  qed
qed

lemma redacted_text: "redactLogonCredentials s = join_fields (map redact_field (fields_of s))"
proof (induction s rule: fields_of.induct)
  case (1 s)
  let ?f = "takeWhile (\<lambda>c. c \<noteq> SOH) s"
  have f: "SOH \<notin> set ?f" by (auto dest: set_takeWhileD)
  show ?case
  proof (cases "dropWhile (\<lambda>c. c \<noteq> SOH) s")
    case Nil
    then have "s = ?f" using takeWhile_dropWhile_id [of "\<lambda>c. c \<noteq> SOH" s] by (metis append_Nil2)
    then show ?thesis using redact_field_last [OF f] fields_of_one [OF f] by (simp add: redactLogonCredentials_def)
  next
    case (Cons x r)
    then have x: "x = SOH" using hd_dropWhile [of "\<lambda>c. c \<noteq> SOH" s] by simp
    have s: "s = ?f @ SOH # r" using takeWhile_dropWhile_id [of "\<lambda>c. c \<noteq> SOH" s] Cons x by simp
    obtain g gs where g: "fields_of r = g # gs" by (subst (asm) fields_of.simps) auto
    have "redactLogonCredentials s = redact_field ?f @ SOH # join_fields (map redact_field (fields_of r))"
      using redact_field_more [OF f, of r] 1 [OF Cons] s by (simp add: redactLogonCredentials_def)
    then show ?thesis using fields_of_more [OF f, of r] s g by (metis join_fields.simps(3) list.simps(9))
  qed
qed

section \<open>What redaction leaves\<close>

lemma fields_of_join:
  assumes "fs \<noteq> []" "\<forall>f\<in>set fs. SOH \<notin> set f"
  shows "fields_of (join_fields fs) = fs"
  using assms
proof (induction fs rule: join_fields.induct)
  case (3 f g gs)
  then show ?case by (simp add: fields_of_more)
qed (simp_all add: fields_of_one)

lemma set_fields_of: "set (fields_of s) = insert (takeWhile (\<lambda>c. c \<noteq> SOH) s)
    (case dropWhile (\<lambda>c. c \<noteq> SOH) s of [] \<Rightarrow> {} | _ # r \<Rightarrow> set (fields_of r))"
  by (subst fields_of.simps) (cases "dropWhile (\<lambda>c. c \<noteq> SOH) s"; simp only: list.case list.set)

lemma fields_of_no_separator: "f \<in> set (fields_of s) \<Longrightarrow> SOH \<notin> set f"
proof (induction s rule: fields_of.induct)
  case (1 s)
  show ?case
    using 1(2) 1(1) unfolding set_fields_of [of s] by (auto split: list.splits dest: set_takeWhileD)
qed

lemma credential_kept: "credential_at f = Some (p, v) \<Longrightarrow> credential_at (p @ x) = Some (p, x)"
proof -
  assume c: "credential_at f = Some (p, v)"
  define z where "z = takeWhile (\<lambda>c. c = CHR ''0'') f"
  have z: "\<forall>c\<in>set z. c = CHR ''0''" by (auto simp: z_def dest: set_takeWhileD)
  have "p = z @ ''553='' \<or> p = z @ ''554=''" using c by (auto simp: credential_at_def Let_def z_def split: if_splits)
  moreover have "takeWhile (\<lambda>c. c = CHR ''0'') (z @ CHR ''5'' # y) = z" "dropWhile (\<lambda>c. c = CHR ''0'') (z @ CHR ''5'' # y) = CHR ''5'' # y" for y
    using z by (induction z) auto
  ultimately show ?thesis by (auto simp: credential_at_def Let_def is_digit_def)
qed

lemma redacted_fields:
  assumes "f \<in> set (fields_of (redactLogonCredentials s))" "credential_at f = Some (t, v)"
  shows "v = ''<redacted>''"
proof -
  let ?fs = "map redact_field (fields_of s)"
  have no_sep: "SOH \<notin> set (redact_field g)" if "g \<in> set (fields_of s)" for g
    using fields_of_no_separator [OF that]
    by (auto simp: redact_field_scan credential_at_def Let_def split: option.split if_splits dest: set_takeWhileD)
  have "?fs \<noteq> []" by (subst fields_of.simps) simp
  then have "fields_of (redactLogonCredentials s) = ?fs"
    using no_sep by (simp add: redacted_text fields_of_join)
  then obtain g where g: "f = redact_field g" using assms(1) by auto
  then show ?thesis
    using assms(2) credential_kept [of g _ _ "''<redacted>''"] by (auto simp: redact_field_scan split: option.splits)
qed

section \<open>Property\<close>

text \<open>C40: the redacted text is the text field by field, the separators kept, with every field
  whose tag is a numeral of the value 553 or 554 cut down to its tag and the word
  \<open><redacted>\<close>, and every other field as it was. Which fields these are is said by the number
  before the equals sign and not by the scan of the code.\<close>

theorem redaction_by_field: "redactLogonCredentials s = join_fields (map redact_field (fields_of s))"
  by (rule redacted_text)

end
