(* ===== verification/SessionStates.thy ===== *)
theory SessionStates
  imports MessageStores Messages "HOL-Library.Log_Nat"
begin

text \<open>
  \<open>SessionState\<close>: what a session remembers between messages, the queue of the messages that
  came too early, and the tests on elapsed time. The store is the memory store; whether there
  is a log is a flag, what is logged is recorded by the session. The tests of an ordinary
  session multiply as \<open>double\<close>; those of a detached session (\<open>exact...\<close> of
  \<open>Session.cpp\<close>) use 64-bit integers only.
\<close>

section \<open>The state\<close>

record session_state =
  m_enabled :: bool
  m_receivedLogon :: bool
  m_sentLogout :: bool
  m_sentLogon :: bool
  m_sentReset :: bool
  m_receivedReset :: bool
  m_initiate :: bool
  m_logonTimeout :: int
  m_logoutTimeout :: int
  m_testRequest :: int
  m_resendRange :: "seqnum \<times> seqnum"
  m_heartBtInt :: field_base
  m_lastSentTime :: date_time
  m_lastReceivedTime :: date_time
  m_logoutReason :: string
  m_queue :: "(seqnum \<times> message) list"
  m_pStore :: memory_store
  m_pLog :: bool

definition SessionState :: "date_time \<Rightarrow> memory_store \<Rightarrow> session_state" where
  "SessionState now store =
     \<lparr>m_enabled = True, m_receivedLogon = False, m_sentLogout = False, m_sentLogon = False, m_sentReset = False,
      m_receivedReset = False, m_initiate = False, m_logonTimeout = 10, m_logoutTimeout = 2, m_testRequest = 0,
      m_resendRange = (0, 0), m_heartBtInt = FieldBase F_HeartBtInt [], m_lastSentTime = now,
      m_lastReceivedTime = now, m_logoutReason = [], m_queue = [], m_pStore = store, m_pLog = False\<rparr>"

definition resendRequested :: "session_state \<Rightarrow> bool" where
  "resendRequested s \<longleftrightarrow> \<not> (fst (m_resendRange s) = 0 \<and> snd (m_resendRange s) = 0)"

definition shouldSendLogon :: "session_state \<Rightarrow> bool" where
  "shouldSendLogon s \<longleftrightarrow> m_initiate s \<and> \<not> m_sentLogon s"

definition alreadySentLogon :: "session_state \<Rightarrow> bool" where
  "alreadySentLogon s \<longleftrightarrow> m_initiate s \<and> m_sentLogon s"

section \<open>The queue\<close>

definition queue_put :: "seqnum \<Rightarrow> message \<Rightarrow> session_state \<Rightarrow> session_state" where
  "queue_put msgSeqNum m s = s\<lparr>m_queue := map_put msgSeqNum m (m_queue s)\<rparr>"

definition retrieve :: "seqnum \<Rightarrow> session_state \<Rightarrow> message option \<times> session_state" where
  "retrieve msgSeqNum s =
     (case map_of (m_queue s) msgSeqNum of
        None \<Rightarrow> (None, s)
      | Some m \<Rightarrow> (Some m, s\<lparr>m_queue := map_erase msgSeqNum (m_queue s)\<rparr>))"

definition clearQueue :: "session_state \<Rightarrow> session_state" where
  "clearQueue s = s\<lparr>m_queue := []\<rparr>"

definition clearQueueUpTo :: "seqnum \<Rightarrow> session_state \<Rightarrow> session_state" where
  "clearQueueUpTo msgSeqNum s = s\<lparr>m_queue := dropWhile (\<lambda>p. fst p < msgSeqNum) (m_queue s)\<rparr>"

section \<open>Products of doubles\<close>

text \<open>
  A \<open>double\<close> is an integer times a power of two; a result with more than 53 binary digits is
  rounded to the nearest, ties to even. The range of the exponent is not reached.
\<close>

type_synonym double = "int \<times> int"

definition round_double :: "int \<Rightarrow> int \<Rightarrow> double" where
  "round_double m e =
     (let a = nat \<bar>m\<bar>; n = floorlog 2 a; k = n - 53 in
      if n \<le> 53 then (m, e)
      else let q = a div 2 ^ k; r = a mod 2 ^ k; half = 2 ^ (k - 1);
               q' = (if r > half \<or> (r = half \<and> odd q) then q + 1 else q)
           in (sgn m * int q', e + int k))"

definition double_mult :: "double \<Rightarrow> double \<Rightarrow> double" where
  "double_mult x y = round_double (fst x * fst y) (snd x + snd y)"

definition double_of_int :: "int \<Rightarrow> double" where "double_of_int i = (i, 0)"

text \<open>\<open>i >= x\<close> of an \<open>int\<close> and a \<open>double\<close>\<close>

definition int_ge_double :: "int \<Rightarrow> double \<Rightarrow> bool" where
  "int_ge_double i x =
     (if snd x \<ge> 0 then i \<ge> fst x * 2 ^ nat (snd x) else i * 2 ^ nat (- snd x) \<ge> fst x)"

text \<open>The doubles nearest to 1.2 and 2.4.\<close>

definition double_1_2 :: double where "double_1_2 = (5404319552844595, - 52)"
definition double_2_4 :: double where "double_2_4 = (5404319552844595, - 51)"

section \<open>Timeouts\<close>

definition logonTimedOut :: "session_state \<Rightarrow> date_time \<Rightarrow> bool" where
  "logonTimedOut s now \<longleftrightarrow> diff_seconds now (m_lastReceivedTime s) \<ge> m_logonTimeout s"

definition logoutTimedOut :: "session_state \<Rightarrow> date_time \<Rightarrow> bool" where
  "logoutTimedOut s now \<longleftrightarrow> m_sentLogout s \<and> diff_seconds now (m_lastSentTime s) \<ge> m_logoutTimeout s"

definition withinHeartBeat :: "int \<Rightarrow> session_state \<Rightarrow> date_time \<Rightarrow> bool" where
  "withinHeartBeat hb s now \<longleftrightarrow> diff_seconds now (m_lastSentTime s) < hb \<and> diff_seconds now (m_lastReceivedTime s) < hb"

definition timedOut :: "int \<Rightarrow> session_state \<Rightarrow> date_time \<Rightarrow> bool" where
  "timedOut hb s now \<longleftrightarrow> int_ge_double (diff_seconds now (m_lastReceivedTime s)) (double_mult double_2_4 (double_of_int hb))"

definition needHeartbeat :: "int \<Rightarrow> session_state \<Rightarrow> date_time \<Rightarrow> bool" where
  "needHeartbeat hb s now \<longleftrightarrow> diff_seconds now (m_lastSentTime s) \<ge> hb \<and> m_testRequest s = 0"

definition needTestRequest :: "int \<Rightarrow> session_state \<Rightarrow> date_time \<Rightarrow> bool" where
  "needTestRequest hb s now \<longleftrightarrow>
     int_ge_double (diff_seconds now (m_lastReceivedTime s))
       (double_mult (double_mult double_1_2 (double_of_int (m_testRequest s + 1))) (double_of_int hb))"

section \<open>Exact deadlines\<close>

definition exactDeadlineReached :: "date_time \<Rightarrow> date_time \<Rightarrow> 64 word \<Rightarrow> bool" where
  "exactDeadlineReached now since seconds =
     (let nowSeconds = getTimeT now; sinceSeconds = getTimeT since in
      if nowSeconds < sinceSeconds then False
      else
        let elapsed =
          (if sinceSeconds < 0 \<and> nowSeconds \<ge> 0
           then word_of_int nowSeconds + word_of_int (- (sinceSeconds + 1)) + 1
           else word_of_int (nowSeconds - sinceSeconds) :: 64 word)
        in seconds \<le> elapsed)"

definition exactScaledDeadlineReached :: "date_time \<Rightarrow> date_time \<Rightarrow> 64 word \<Rightarrow> 64 word \<Rightarrow> 64 word \<Rightarrow> bool" where
  "exactScaledDeadlineReached now since v numerator denominator =
     (if v > ((- 1) - (denominator - 1)) div numerator then False
      else exactDeadlineReached now since ((v * numerator + denominator - 1) div denominator))"

definition exactLogonTimedOut :: "session_state \<Rightarrow> date_time \<Rightarrow> bool" where
  "exactLogonTimedOut s now \<longleftrightarrow>
     m_logonTimeout s < 0 \<or> exactDeadlineReached now (m_lastSentTime s) (word_of_int (m_logonTimeout s))"

definition exactLogoutTimedOut :: "session_state \<Rightarrow> date_time \<Rightarrow> bool" where
  "exactLogoutTimedOut s now \<longleftrightarrow>
     m_sentLogout s \<and>
     (m_logoutTimeout s < 0 \<or> exactDeadlineReached now (m_lastSentTime s) (word_of_int (m_logoutTimeout s)))"

definition exactWithinHeartBeat :: "int \<Rightarrow> session_state \<Rightarrow> date_time \<Rightarrow> bool" where
  "exactWithinHeartBeat hb s now \<longleftrightarrow>
     hb > 0 \<and> \<not> exactDeadlineReached now (m_lastSentTime s) (word_of_int hb) \<and>
     \<not> exactDeadlineReached now (m_lastReceivedTime s) (word_of_int hb)"

definition exactTimedOut :: "int \<Rightarrow> session_state \<Rightarrow> date_time \<Rightarrow> bool" where
  "exactTimedOut hb s now \<longleftrightarrow>
     hb > 0 \<and> exactScaledDeadlineReached now (m_lastReceivedTime s) (word_of_int hb) 12 5"

definition exactNeedHeartbeat :: "int \<Rightarrow> session_state \<Rightarrow> date_time \<Rightarrow> bool" where
  "exactNeedHeartbeat hb s now \<longleftrightarrow>
     hb > 0 \<and> exactDeadlineReached now (m_lastSentTime s) (word_of_int hb) \<and> m_testRequest s = 0"

definition exactNeedTestRequest :: "int \<Rightarrow> session_state \<Rightarrow> date_time \<Rightarrow> bool" where
  "exactNeedTestRequest hb s now =
     (if m_testRequest s < 0 \<or> hb \<le> 0 then False
      else
        let requests = word_of_int (m_testRequest s) + 1 :: 64 word in
        if requests > (- 1) div word_of_int hb then False
        else exactScaledDeadlineReached now (m_lastReceivedTime s) (requests * word_of_int hb) 6 5)"

end
