(* ===== verification/SessionOps.thy ===== *)
theory SessionOps
  imports SessionStates TimeRanges LogRedactions SessionRegistries Validations
begin

text \<open>
  The state a \<open>Session\<close> works on and the operations its methods are made of. A method is a
  function from the session to what it returns or throws and the session after it; what the
  session is connected to (the clock, the application, the transport) is a parameter that
  works on a state of its own, and every call to it is recorded, as are the lines that are
  logged.
\<close>

section \<open>Methods\<close>

text \<open>A method throws, or the bound put on the recursion of the model is exhausted.\<close>

datatype fault = Threw exn | OutOfFuel

text \<open>What a session calls: the transport, the application, the log.\<close>

datatype call =
    Sent nat string | Disconnected nat
  | ToAdmin message | ToApp message | FromAdmin message | FromApp message
  | OnCreate | OnLogon | OnLogout
  | LogIncoming string | LogOutgoing string | LogEvent string

text \<open>
  The callbacks of \<open>Application\<close>, the methods of \<open>Responder\<close> (the argument tells which one)
  and the clock. \<open>toAdmin\<close> and \<open>toApp\<close> return the message as they leave it.
\<close>

record 'e outside =
  m_timestamper :: "'e \<Rightarrow> date_time \<times> 'e"
  system_now :: "'e \<Rightarrow> date_time \<times> 'e"
  app_onCreate :: "'e \<Rightarrow> unit result \<times> 'e"
  app_onLogon :: "'e \<Rightarrow> unit result \<times> 'e"
  app_onLogout :: "'e \<Rightarrow> unit result \<times> 'e"
  app_toAdmin :: "message \<Rightarrow> 'e \<Rightarrow> message result \<times> 'e"
  app_toApp :: "message \<Rightarrow> 'e \<Rightarrow> message result \<times> 'e"
  app_fromAdmin :: "message \<Rightarrow> 'e \<Rightarrow> unit result \<times> 'e"
  app_fromApp :: "message \<Rightarrow> 'e \<Rightarrow> unit result \<times> 'e"
  responder_send :: "nat \<Rightarrow> string \<Rightarrow> 'e \<Rightarrow> bool \<times> 'e"
  responder_disconnect :: "nat \<Rightarrow> 'e \<Rightarrow> 'e"
  localtime :: "int \<Rightarrow> date_time"

record 'e session =
  m_outside :: "'e outside"
  m_sessionID :: session_id
  m_sessionTime :: time_range
  m_logonTime :: time_range
  m_senderDefaultApplVerID :: string
  m_targetDefaultApplVerID :: string
  m_sendRedundantResendRequests :: bool
  m_checkCompId :: bool
  m_checkLatency :: bool
  m_maxLatency :: int
  m_resetOnLogon :: bool
  m_resetOnLogout :: bool
  m_resetOnDisconnect :: bool
  m_refreshOnLogon :: bool
  m_timestampPrecision :: int
  m_persistMessages :: bool
  m_validateLengthAndChecksum :: bool
  m_sendNextExpectedMsgSeqNum :: bool
  m_isNonStopSession :: bool
  m_allowedRemoteAddresses :: "string list"
  m_certificateAcceptedPeerName :: string
  m_dataDictionaryProvider :: dictionary_provider
  m_detached :: bool
  m_state :: session_state
  m_pResponder :: "nat option"
  s_registry :: "nat session_registry"
  environment :: 'e
  calls :: "call list"

type_synonym ('e, 'a) op = "'e session \<Rightarrow> (fault + 'a) \<times> 'e session"

definition sreturn :: "'a \<Rightarrow> ('e, 'a) op" where
  "sreturn a w = (Inr a, w)"

definition sbind :: "('e, 'a) op \<Rightarrow> ('a \<Rightarrow> ('e, 'b) op) \<Rightarrow> ('e, 'b) op" where
  "sbind m k w = (case m w of (Inl e, w') \<Rightarrow> (Inl e, w') | (Inr a, w') \<Rightarrow> k a w')"

abbreviation sthen :: "('e, unit) op \<Rightarrow> ('e, 'b) op \<Rightarrow> ('e, 'b) op" where
  "sthen m k \<equiv> sbind m (\<lambda>_. k)"

definition sthrow :: "exn \<Rightarrow> ('e, 'a) op" where
  "sthrow e w = (Inl (Threw e), w)"

definition scatch :: "('e, 'a) op \<Rightarrow> (exn \<Rightarrow> ('e, 'a) op) \<Rightarrow> ('e, 'a) op" where
  "scatch m h w = (case m w of (Inl (Threw e), w') \<Rightarrow> h e w' | r \<Rightarrow> r)"

text \<open>A \<open>try\<close> whose \<open>catch\<close> has conditions rethrows what it does not name.\<close>

definition sget :: "('e session \<Rightarrow> 'a) \<Rightarrow> ('e, 'a) op" where
  "sget f w = (Inr (f w), w)"

definition sresult :: "'a result \<Rightarrow> ('e, 'a) op" where
  "sresult r = (case r of Inl e \<Rightarrow> sthrow e | Inr a \<Rightarrow> sreturn a)"

definition swhen :: "bool \<Rightarrow> ('e, unit) op \<Rightarrow> ('e, unit) op" where
  "swhen b m = (if b then m else sreturn ())"

text \<open>Conditions that are evaluated from left to right and only as far as needed.\<close>

definition sand :: "('e, bool) op \<Rightarrow> ('e, bool) op \<Rightarrow> ('e, bool) op" where
  "sand a b = sbind a (\<lambda>x. if x then b else sreturn False)"

definition sor :: "('e, bool) op \<Rightarrow> ('e, bool) op \<Rightarrow> ('e, bool) op" where
  "sor a b = sbind a (\<lambda>x. if x then sreturn True else b)"

definition sif :: "('e, bool) op \<Rightarrow> ('e, 'a) op \<Rightarrow> ('e, 'a) op \<Rightarrow> ('e, 'a) op" where
  "sif c a b = sbind c (\<lambda>x. if x then a else b)"

fun steps :: "('e, unit) op list \<Rightarrow> ('e, unit) op" where
  "steps [] = sreturn ()"
| "steps (m # ms) = sthen m (steps ms)"

abbreviation steps_then :: "('e, unit) op list \<Rightarrow> ('e, 'a) op \<Rightarrow> ('e, 'a) op" where
  "steps_then ms m \<equiv> sthen (steps ms) m"

section \<open>The state of the session\<close>

definition state_get :: "(session_state \<Rightarrow> 'a) \<Rightarrow> ('e, 'a) op" where
  "state_get f = sget (\<lambda>w. f (m_state w))"

definition state_update :: "(session_state \<Rightarrow> session_state) \<Rightarrow> ('e, unit) op" where
  "state_update f w = (Inr (), w\<lparr>m_state := f (m_state w)\<rparr>)"

definition getExpectedSenderNum :: "('e, seqnum) op" where
  "getExpectedSenderNum = state_get (\<lambda>s. ms_nextSender (m_pStore s))"

definition getExpectedTargetNum :: "('e, seqnum) op" where
  "getExpectedTargetNum = state_get (\<lambda>s. ms_nextTarget (m_pStore s))"

definition store_update :: "(memory_store \<Rightarrow> memory_store) \<Rightarrow> ('e, unit) op" where
  "store_update f = state_update (\<lambda>s. s\<lparr>m_pStore := f (m_pStore s)\<rparr>)"

definition incrNextTargetMsgSeqNum :: "('e, unit) op" where
  "incrNextTargetMsgSeqNum = store_update ms_incrNextTarget"

definition incrNextSenderMsgSeqNum :: "('e, unit) op" where
  "incrNextSenderMsgSeqNum = store_update ms_incrNextSender"

definition setNextTargetMsgSeqNum :: "seqnum \<Rightarrow> ('e, unit) op" where
  "setNextTargetMsgSeqNum n = store_update (ms_setNextTarget n)"

definition setNextSenderMsgSeqNum :: "seqnum \<Rightarrow> ('e, unit) op" where
  "setNextSenderMsgSeqNum n = store_update (ms_setNextSender n)"

definition state_reset :: "date_time \<Rightarrow> ('e, unit) op" where
  "state_reset now = store_update (ms_reset now)"

definition refresh :: "('e, unit) op" where
  "refresh = store_update ms_refresh"

definition set_receivedLogon :: "bool \<Rightarrow> ('e, unit) op" where
  "set_receivedLogon b = state_update (\<lambda>s. s\<lparr>m_receivedLogon := b\<rparr>)"

definition set_sentLogon :: "bool \<Rightarrow> ('e, unit) op" where
  "set_sentLogon b = state_update (\<lambda>s. s\<lparr>m_sentLogon := b\<rparr>)"

definition set_sentLogout :: "bool \<Rightarrow> ('e, unit) op" where
  "set_sentLogout b = state_update (\<lambda>s. s\<lparr>m_sentLogout := b\<rparr>)"

definition set_receivedReset :: "bool \<Rightarrow> ('e, unit) op" where
  "set_receivedReset b = state_update (\<lambda>s. s\<lparr>m_receivedReset := b\<rparr>)"

definition set_sentReset :: "bool \<Rightarrow> ('e, unit) op" where
  "set_sentReset b = state_update (\<lambda>s. s\<lparr>m_sentReset := b\<rparr>)"

definition set_testRequest :: "int \<Rightarrow> ('e, unit) op" where
  "set_testRequest n = state_update (\<lambda>s. s\<lparr>m_testRequest := n\<rparr>)"

definition set_resendRange :: "seqnum \<Rightarrow> seqnum \<Rightarrow> ('e, unit) op" where
  "set_resendRange b e = state_update (\<lambda>s. s\<lparr>m_resendRange := (b, e)\<rparr>)"

definition set_heartBtInt :: "field_base \<Rightarrow> ('e, unit) op" where
  "set_heartBtInt f = state_update (\<lambda>s. s\<lparr>m_heartBtInt := f\<rparr>)"

definition set_lastSentTime :: "date_time \<Rightarrow> ('e, unit) op" where
  "set_lastSentTime t = state_update (\<lambda>s. s\<lparr>m_lastSentTime := t\<rparr>)"

definition set_lastReceivedTime :: "date_time \<Rightarrow> ('e, unit) op" where
  "set_lastReceivedTime t = state_update (\<lambda>s. s\<lparr>m_lastReceivedTime := t\<rparr>)"

definition set_responder :: "nat option \<Rightarrow> ('e, unit) op" where
  "set_responder r w = (Inr (), w\<lparr>m_pResponder := r\<rparr>)"

section \<open>Calls to the outside\<close>

definition outside_call :: "call list \<Rightarrow> ('e outside \<Rightarrow> 'e \<Rightarrow> 'a result \<times> 'e) \<Rightarrow> ('e, 'a) op" where
  "outside_call c f w =
     (let (r, e) = f (m_outside w) (environment w)
      in (case r of Inl x \<Rightarrow> Inl (Threw x) | Inr a \<Rightarrow> Inr a, w\<lparr>environment := e, calls := calls w @ c\<rparr>))"

definition timestamp :: "('e, date_time) op" where
  "timestamp = outside_call [] (\<lambda>out e. apfst Inr (m_timestamper out e))"

definition utc_now :: "('e, date_time) op" where
  "utc_now = outside_call [] (\<lambda>out e. apfst Inr (system_now out e))"

definition log_call :: "(string \<Rightarrow> call) \<Rightarrow> string \<Rightarrow> ('e, unit) op" where
  "log_call c s = sbind (state_get m_pLog) (\<lambda>l.
     swhen l (outside_call [c (redactLogonCredentials s)] (\<lambda>_ e. (Inr (), e))))"

definition onIncoming :: "string \<Rightarrow> ('e, unit) op" where "onIncoming = log_call LogIncoming"
definition onOutgoing :: "string \<Rightarrow> ('e, unit) op" where "onOutgoing = log_call LogOutgoing"
definition onEvent :: "string \<Rightarrow> ('e, unit) op" where "onEvent = log_call LogEvent"

definition toAdmin :: "message \<Rightarrow> ('e, message) op" where
  "toAdmin m = outside_call [ToAdmin m] (\<lambda>out. app_toAdmin out m)"

definition toApp :: "message \<Rightarrow> ('e, message) op" where
  "toApp m = outside_call [ToApp m] (\<lambda>out. app_toApp out m)"

definition fromAdmin :: "message \<Rightarrow> ('e, unit) op" where
  "fromAdmin m = outside_call [FromAdmin m] (\<lambda>out. app_fromAdmin out m)"

definition fromApp :: "message \<Rightarrow> ('e, unit) op" where
  "fromApp m = outside_call [FromApp m] (\<lambda>out. app_fromApp out m)"

definition onCreate :: "('e, unit) op" where "onCreate = outside_call [OnCreate] app_onCreate"
definition onLogon :: "('e, unit) op" where "onLogon = outside_call [OnLogon] app_onLogon"
definition onLogout :: "('e, unit) op" where "onLogout = outside_call [OnLogout] app_onLogout"

definition pResponder_send :: "nat \<Rightarrow> string \<Rightarrow> ('e, bool) op" where
  "pResponder_send r s = outside_call [Sent r s] (\<lambda>out e. apfst Inr (responder_send out r s e))"

definition pResponder_disconnect :: "nat \<Rightarrow> ('e, unit) op" where
  "pResponder_disconnect r = outside_call [Disconnected r] (\<lambda>out e. (Inr (), responder_disconnect out r e))"

section \<open>Fields of a message\<close>

text \<open>\<open>getField\<close> and \<open>getFieldIfSet\<close> copy the text of a field; it is converted where it is used.\<close>

definition field_of :: "int \<Rightarrow> fieldmap \<Rightarrow> ('e, field_base) op" where
  "field_of tag fm = sresult (getFieldRef tag fm)"

definition field_or :: "field_base \<Rightarrow> fieldmap \<Rightarrow> field_base" where
  "field_or f fm = (case getFieldIfSet (m_tag f) fm of None \<Rightarrow> f | Some g \<Rightarrow> g)"

definition as_seqnum :: "field_base \<Rightarrow> ('e, seqnum) op" where "as_seqnum f = sresult (SeqNumField_getValue f)"
definition as_int :: "field_base \<Rightarrow> ('e, int) op" where "as_int f = sresult (IntField_getValue f)"
definition as_bool :: "field_base \<Rightarrow> ('e, bool) op" where "as_bool f = sresult (BoolField_getValue f)"
definition as_time :: "field_base \<Rightarrow> ('e, date_time) op" where "as_time f = sresult (UtcTimeStampField_getValue f)"

definition set_header :: "field_base \<Rightarrow> message \<Rightarrow> message" where
  "set_header f m = m\<lparr>m_header := setField f True (m_header m)\<rparr>"

definition set_body :: "field_base \<Rightarrow> message \<Rightarrow> message" where
  "set_body f m = m\<lparr>m_body := setField f True (m_body m)\<rparr>"

text \<open>The decimal text of a number.\<close>

definition num :: "seqnum \<Rightarrow> string" where "num n = UInt64Convertor_to n"

end
