(* ===== verification/SessionSends.thy ===== *)
theory SessionSends
  imports SessionOps
begin

text \<open>
  The methods of \<open>Session\<close> that send: the header of an outgoing message, storing and sending
  it, the administrative messages a session generates, the end of a connection, and the
  answer to a request to send messages again.
\<close>

abbreviation MsgType_Heartbeat :: string where "MsgType_Heartbeat \<equiv> ''0''"
abbreviation MsgType_TestRequest :: string where "MsgType_TestRequest \<equiv> ''1''"
abbreviation MsgType_ResendRequest :: string where "MsgType_ResendRequest \<equiv> ''2''"
abbreviation MsgType_Reject :: string where "MsgType_Reject \<equiv> ''3''"
abbreviation MsgType_SequenceReset :: string where "MsgType_SequenceReset \<equiv> ''4''"
abbreviation MsgType_Logout :: string where "MsgType_Logout \<equiv> ''5''"
abbreviation MsgType_Logon :: string where "MsgType_Logon \<equiv> ''A''"
abbreviation MsgType_BusinessMessageReject :: string where "MsgType_BusinessMessageReject \<equiv> ''j''"
abbreviation BeginString_FIX41 :: string where "BeginString_FIX41 \<equiv> ''FIX.4.1''"
abbreviation BeginString_FIX42 :: string where "BeginString_FIX42 \<equiv> ''FIX.4.2''"
abbreviation BeginString_FIXT11 :: string where "BeginString_FIXT11 \<equiv> ''FIXT.1.1''"

section \<open>Queries\<close>

definition isLoggedOn :: "'e session \<Rightarrow> bool" where
  "isLoggedOn w \<longleftrightarrow> m_receivedLogon (m_state w) \<and> m_sentLogon (m_state w)"

definition beginString_of :: "'e session \<Rightarrow> string" where
  "beginString_of w = id_beginString (m_sessionID w)"

definition supportsSubSecondTimestamps :: "string \<Rightarrow> bool" where
  "supportsSubSecondTimestamps beginString =
     (if beginString = BeginString_FIXT11 then True else beginString \<ge> BeginString_FIX42)"

definition getSupportedTimestampPrecision :: "'e session \<Rightarrow> int" where
  "getSupportedTimestampPrecision w = (if supportsSubSecondTimestamps (beginString_of w) then m_timestampPrecision w else 0)"

definition checkSessionTime :: "date_time \<Rightarrow> 'e session \<Rightarrow> bool" where
  "checkSessionTime now w =
     (if m_isNonStopSession w then True
      else isInSameRange_utc (localtime (m_outside w)) (m_sessionTime w) now (ms_creationTime (m_pStore (m_state w))))"

definition isLogonTime :: "date_time \<Rightarrow> 'e session \<Rightarrow> bool" where
  "isLogonTime now w = isInRange_utc (localtime (m_outside w)) (m_logonTime w) now"

definition shouldSendReset :: "'e session \<Rightarrow> bool" where
  "shouldSendReset w \<longleftrightarrow>
     beginString_of w \<ge> BeginString_FIX41 \<and> (m_resetOnLogon w \<or> m_resetOnLogout w \<or> m_resetOnDisconnect w) \<and>
     ms_nextSender (m_pStore (m_state w)) = 1 \<and> ms_nextTarget (m_pStore (m_state w)) = 1"

definition sessionDataDictionary :: "'e session \<Rightarrow> data_dictionary" where
  "sessionDataDictionary w = getSessionDataDictionary (beginString_of w) (m_dataDictionaryProvider w)"

text \<open>The new message of a type; with a dictionary that keeps the order of fields, in that order.\<close>

definition newMessage :: "string \<Rightarrow> 'e session \<Rightarrow> message result" where
  "newMessage msgType w =
     (let sessionDD = sessionDataDictionary w; typed = set_header (FieldBase F_MsgType msgType) in
      if \<not> m_storeMsgFieldsOrder (dd sessionDD) then Inr (typed Message_new)
      else
        rbind (getHeaderOrderedFields sessionDD) (\<lambda>ho.
        rbind (getTrailerOrderedFields sessionDD) (\<lambda>to.
        if \<not> id_isFIXT (m_sessionID w) \<or> isAdminMsgType msgType
        then rbind (getMessageOrderedFields msgType sessionDD) (\<lambda>bo. Inr (typed (Message_of_orders ho to bo)))
        else
          rbind (getApplicationDataDictionary (m_senderDefaultApplVerID w) (m_dataDictionaryProvider w)) (\<lambda>applicationDD.
          rbind (getMessageOrderedFields msgType applicationDD) (\<lambda>bo. Inr (typed (Message_of_orders ho to bo)))))))"

definition new_message :: "string \<Rightarrow> ('e, message) op" where
  "new_message msgType = sbind (sget (newMessage msgType)) sresult"

section \<open>The header\<close>

definition insertSendingTime :: "message \<Rightarrow> ('e, message) op" where
  "insertSendingTime m =
     sbind timestamp (\<lambda>t. sbind (sget getSupportedTimestampPrecision) (\<lambda>p.
       sreturn (set_header (UtcTimeStampField F_SendingTime t p) m)))"

definition insertOrigSendingTime :: "date_time \<Rightarrow> message \<Rightarrow> ('e, message) op" where
  "insertOrigSendingTime now m =
     sbind (sget getSupportedTimestampPrecision) (\<lambda>p. sreturn (set_header (UtcTimeStampField F_OrigSendingTime now p) m))"

definition fill :: "message \<Rightarrow> ('e, message) op" where
  "fill m =
     sbind timestamp (\<lambda>t. sthen (set_lastSentTime t)
       (sbind (sget m_sessionID) (\<lambda>i. sbind getExpectedSenderNum (\<lambda>n.
          insertSendingTime
            (set_header (SeqNumField F_MsgSeqNum n)
            (set_header (FieldBase F_TargetCompID (id_targetCompID i))
            (set_header (FieldBase F_SenderCompID (id_senderCompID i))
            (set_header (FieldBase F_BeginString (id_beginString i)) m))))))))"

section \<open>Sending\<close>

definition send_text :: "string \<Rightarrow> ('e, bool) op" where
  "send_text s =
     sbind (sget m_pResponder) (\<lambda>r.
       case r of
         None \<Rightarrow> sreturn False
       | Some p \<Rightarrow> sthen (onOutgoing s) (pResponder_send p s))"

definition persist :: "message \<Rightarrow> string \<Rightarrow> ('e, unit) op" where
  "persist m messageString =
     sbind (field_of F_MsgSeqNum (m_header m)) (\<lambda>msgSeqNum.
     sbind (sget m_persistMessages) (\<lambda>p.
       sthen (swhen p (sbind (as_seqnum msgSeqNum) (\<lambda>n. store_update (\<lambda>s. snd (ms_set n messageString s)))))
         incrNextSenderMsgSeqNum))"

text \<open>A Logon that carries the reset flag resets the store and takes the first number.\<close>

definition reset_on_sent_logon :: "string \<Rightarrow> message \<Rightarrow> ('e, message) op" where
  "reset_on_sent_logon msgType m =
     sbind (state_get m_receivedReset) (\<lambda>received.
       if msgType = MsgType_Logon \<and> \<not> received
       then
         sbind (as_bool (field_or (BoolField F_ResetSeqNumFlag False) (m_body m))) (\<lambda>flag.
         sbind (sget m_detached) (\<lambda>detached.
         sbind (if \<not> detached \<and> flag
                then sbind timestamp (\<lambda>t. sthen (state_reset t)
                       (sbind getExpectedSenderNum (\<lambda>n. sreturn (set_header (SeqNumField F_MsgSeqNum n) m))))
                else sreturn m) (\<lambda>m'.
         sthen (set_sentReset flag) (sreturn m'))))
       else sreturn m)"

definition send_admin :: "string \<Rightarrow> message \<Rightarrow> seqnum \<Rightarrow> ('e, bool) op" where
  "send_admin msgType m n =
     sbind (toAdmin m) (\<lambda>m1.
     sbind (reset_on_sent_logon msgType m1) (\<lambda>m2.
     sbind (sresult (toString_default m2)) (\<lambda>(messageString, m3).
     sthen (swhen (n = 0) (persist m3 messageString))
       (sbind (sget (\<lambda>w.
           msgType = MsgType_Logon \<or> msgType = MsgType_Logout \<or> msgType = MsgType_ResendRequest \<or>
           msgType = MsgType_SequenceReset \<or> (m_detached w \<and> msgType = MsgType_Reject) \<or> isLoggedOn w)) (\<lambda>b.
        sbind (if b then send_text messageString else sreturn False) (\<lambda>_. sreturn True))))))"

definition send_app :: "message \<Rightarrow> seqnum \<Rightarrow> ('e, bool) op" where
  "send_app m n =
     sbind (sget (\<lambda>w. \<not> isLoggedOn w \<and> shouldSendReset w)) (\<lambda>cleared.
       if cleared then sreturn False
       else
         scatch
           (sbind (toApp m) (\<lambda>m1.
            sbind (sresult (toString_default m1)) (\<lambda>(messageString, m2).
            sthen (swhen (n = 0) (persist m2 messageString))
              (sbind (sget isLoggedOn) (\<lambda>b.
               sbind (if b then send_text messageString else sreturn False) (\<lambda>_. sreturn True))))))
           (\<lambda>e. if e = DoNotSend then sreturn False else sthrow e))"

definition sendRaw :: "message \<Rightarrow> seqnum \<Rightarrow> ('e, bool) op" where
  "sendRaw m n =
     scatch
       (let msgType = m_string (field_or (FieldBase F_MsgType []) (m_header m)) in
        sbind (fill m) (\<lambda>m1.
          let m2 = (if n \<noteq> 0 then set_header (SeqNumField F_MsgSeqNum n) m1 else m1) in
          if isAdminMsgType msgType then send_admin msgType m2 n else send_app m2 n))
       (\<lambda>e. case e of IOException d \<Rightarrow> sthen (onEvent (exn_what e)) (sreturn False) | _ \<Rightarrow> sthrow e)"

definition send_admin_message :: "message \<Rightarrow> ('e, unit) op" where
  "send_admin_message m = sbind (sendRaw m 0) (\<lambda>_. sreturn ())"

definition Session_send :: "message \<Rightarrow> ('e, bool) op" where
  "Session_send m =
     sendRaw (m\<lparr>m_header := removeField F_OrigSendingTime (removeField F_PossDupFlag (m_header m))\<rparr>) 0"

section \<open>The end of a connection\<close>

definition disconnect_with :: "bool \<Rightarrow> ('e, unit) op" where
  "disconnect_with resetStore = steps
     [sbind (sget m_pResponder) (\<lambda>r.
        case r of
          None \<Rightarrow> sreturn ()
        | Some p \<Rightarrow> steps [onEvent ''Disconnecting'', pResponder_disconnect p, set_responder None]),
      sbind (state_get (\<lambda>s. m_receivedLogon s \<or> m_sentLogon s)) (\<lambda>b.
        swhen b (steps [set_receivedLogon False, set_sentLogon False, onLogout])),
      set_sentLogout False,
      set_receivedReset False,
      set_sentReset False,
      state_update clearQueue,
      sbind (sget m_detached) (\<lambda>detached. swhen (\<not> detached \<and> resetStore) (sbind timestamp state_reset)),
      set_resendRange 0 0]"

definition disconnect :: "('e, unit) op" where
  "disconnect = sbind (sget m_resetOnDisconnect) disconnect_with"

definition disconnectIfConnected :: "('e, unit) op" where
  "disconnectIfConnected = sbind (sget m_pResponder) (\<lambda>r. swhen (r \<noteq> None) disconnect)"

section \<open>Generated messages\<close>

definition generateLogon :: "('e, unit) op" where
  "generateLogon =
     sbind (new_message MsgType_Logon) (\<lambda>m0.
     sbind (state_get m_heartBtInt) (\<lambda>hb.
     sbind (sget m_sessionID) (\<lambda>i.
     sbind (sget m_senderDefaultApplVerID) (\<lambda>v.
     let m1 = set_body hb (set_body (IntField F_EncryptMethod 0) m0);
         m2 = (if id_isFIXT i then set_body (FieldBase F_DefaultApplVerID v) m1 else m1) in
     sthen (sbind (sget m_refreshOnLogon) (\<lambda>b. swhen b refresh))
     (sthen (sbind (sget (\<lambda>w. \<not> m_detached w \<and> m_resetOnLogon w)) (\<lambda>b. swhen b (sbind timestamp state_reset)))
     (sbind (sget shouldSendReset) (\<lambda>r.
      sbind (sget m_sendNextExpectedMsgSeqNum) (\<lambda>x.
      sbind getExpectedTargetNum (\<lambda>n.
        let m3 = (if r then set_body (BoolField F_ResetSeqNumFlag True) m2 else m2);
            m4 = (if x then set_body (SeqNumField F_NextExpectedMsgSeqNum n) m3 else m3) in
        sbind (fill m4) (\<lambda>m5.
        sbind timestamp (\<lambda>t.
        steps [set_lastReceivedTime t, set_testRequest 0, set_sentLogon True, send_admin_message m5])))))))))))"

definition generateLogon_reply :: "message \<Rightarrow> ('e, unit) op" where
  "generateLogon_reply aLogon =
     sbind (new_message MsgType_Logon) (\<lambda>m0.
     sbind (sget m_sessionID) (\<lambda>i.
     sbind (sget m_senderDefaultApplVerID) (\<lambda>v.
     sbind (state_get m_receivedReset) (\<lambda>r.
     let m1 = set_body (IntField F_EncryptMethod 0) m0;
         m2 = (if id_isFIXT i then set_body (FieldBase F_DefaultApplVerID v) m1 else m1);
         m3 = (if r then set_body (BoolField F_ResetSeqNumFlag True) m2 else m2) in
     sbind (field_of F_HeartBtInt (m_body aLogon)) (\<lambda>hb.
     sbind (sget m_sendNextExpectedMsgSeqNum) (\<lambda>x.
     sbind getExpectedTargetNum (\<lambda>n.
     let m4 = set_body hb m3;
         m5 = (if x then set_body (SeqNumField F_NextExpectedMsgSeqNum (n + 1)) m4 else m4) in
     sbind (fill m5) (\<lambda>m6. steps [send_admin_message m6, set_sentLogon True]))))))))"

definition generateResendRequest :: "string \<Rightarrow> field_base \<Rightarrow> ('e, unit) op" where
  "generateResendRequest beginString msgSeqNum =
     sbind (new_message MsgType_ResendRequest) (\<lambda>m0.
     sbind getExpectedTargetNum (\<lambda>beginSeqNo.
     sbind (as_seqnum msgSeqNum) (\<lambda>n.
     let endSeqNo = (if beginString \<ge> BeginString_FIX42 then 0
                     else if beginString \<le> BeginString_FIX41 then 999999 else n - 1) in
     sbind (fill (set_body (SeqNumField F_EndSeqNo endSeqNo) (set_body (SeqNumField F_BeginSeqNo beginSeqNo) m0))) (\<lambda>m1.
       steps
         [send_admin_message m1,
          onEvent (''Sent ResendRequest FROM: '' @ num beginSeqNo @ '' TO: '' @ num endSeqNo),
          set_resendRange beginSeqNo (n - 1)]))))"

definition generateSequenceReset :: "seqnum \<Rightarrow> seqnum \<Rightarrow> ('e, unit) op" where
  "generateSequenceReset beginSeqNo endSeqNo =
     sbind (new_message MsgType_SequenceReset) (\<lambda>m0.
     sbind (fill (set_body (SeqNumField F_NewSeqNo endSeqNo) (set_header (BoolField F_PossDupFlag True) m0))) (\<lambda>m1.
     sbind (field_of F_SendingTime (m_header m1)) (\<lambda>f.
     sbind (as_time f) (\<lambda>sendingTime.
     sbind (insertOrigSendingTime sendingTime m1) (\<lambda>m2.
     sbind (sendRaw (set_body (BoolField F_GapFillFlag True) (set_header (SeqNumField F_MsgSeqNum beginSeqNo) m2)) beginSeqNo) (\<lambda>_.
       onEvent (''Sent SequenceReset TO: '' @ num endSeqNo)))))))"

definition generateHeartbeat :: "('e, unit) op" where
  "generateHeartbeat = sbind (new_message MsgType_Heartbeat) (\<lambda>m. sbind (fill m) send_admin_message)"

definition generateHeartbeat_reply :: "message \<Rightarrow> ('e, unit) op" where
  "generateHeartbeat_reply testRequest =
     sbind (new_message MsgType_Heartbeat) (\<lambda>m. sbind (fill m) (\<lambda>m1.
       send_admin_message (case getFieldIfSet F_TestReqID (m_body testRequest) of None \<Rightarrow> m1 | Some f \<Rightarrow> set_body f m1)))"

definition generateTestRequest :: "string \<Rightarrow> ('e, unit) op" where
  "generateTestRequest i =
     sbind (new_message MsgType_TestRequest) (\<lambda>m. sbind (fill m) (\<lambda>m1.
       send_admin_message (set_body (FieldBase F_TestReqID i) m1)))"

definition generateLogout :: "string \<Rightarrow> ('e, unit) op" where
  "generateLogout reason =
     sbind (new_message MsgType_Logout) (\<lambda>m. sbind (fill m) (\<lambda>m1.
       steps [send_admin_message (if reason \<noteq> [] then set_body (FieldBase F_Text reason) m1 else m1), set_sentLogout True]))"

end
