(* ===== verification/SessionReceives.thy ===== *)
theory SessionReceives
  imports SessionSends
begin

text \<open>
  The methods of \<open>Session\<close> that judge and answer what is received: rejects, the checks of
  \<open>verify\<close>, and the retransmission of stored messages.
\<close>

section \<open>Rejects\<close>

definition session_reject_text :: "int \<Rightarrow> string option" where
  "session_reject_text err = map_of
     [(0, ''Invalid tag number''), (1, ''Required tag missing''), (2, ''Tag not defined for this message type''),
      (4, ''Tag specified without a value''), (5, ''Value is incorrect (out of range) for this tag''),
      (6, ''Incorrect data format for value''), (9, ''CompID problem''), (10, ''SendingTime accuracy problem''),
      (11, ''Invalid MsgType''), (13, ''Tag appears more than once''), (14, ''Tag specified out of required order''),
      (16, ''Incorrect NumInGroup count for repeating group''), (18, ''Invalid or unsupported application version'')] err"

definition business_reject_text :: "int \<Rightarrow> string option" where
  "business_reject_text err = map_of
     [(0, ''Other''), (1, ''Unknown ID''), (2, ''Unknown Security''), (3, ''Unsupported Message Type''),
      (4, ''Application Not Available''), (5, ''Conditionally Required Field Missing''), (6, ''Not Authorized''),
      (7, ''Deliver to firm not available at this time'')] err"

definition populateRejectReason :: "string \<Rightarrow> int \<Rightarrow> string \<Rightarrow> message \<Rightarrow> message result" where
  "populateRejectReason beginString field reason m =
     rbind (getField F_MsgType (m_header m)) (\<lambda>msgType.
       if msgType = MsgType_Reject \<and> beginString \<ge> BeginString_FIX42
       then Inr (set_body (FieldBase F_Text reason) (set_body (IntField F_RefTagID field) m))
       else Inr (set_body (FieldBase F_Text (reason @ '' ('' @ int_digits field @ '')'')) m))"

text \<open>
  The reason is put into the reject and the rejection is logged. \<open>with_field\<close> tells whether the
  field is named.
\<close>

definition reject_reason :: "string option \<Rightarrow> bool \<Rightarrow> int \<Rightarrow> string \<Rightarrow> message \<Rightarrow> ('e, message) op" where
  "reject_reason reason with_field field msgSeqNum m =
     (case reason of
        None \<Rightarrow> sthen (onEvent (''Message '' @ msgSeqNum @ '' Rejected'')) (sreturn m)
      | Some r \<Rightarrow>
          if with_field
          then sbind (sget beginString_of) (\<lambda>b.
                 sbind (sresult (populateRejectReason b field r m)) (\<lambda>m'.
                   sthen (onEvent (''Message '' @ msgSeqNum @ '' Rejected: '' @ r @ '':'' @ num (word_of_int field))) (sreturn m')))
          else sthen (onEvent (''Message '' @ msgSeqNum @ '' Rejected: '' @ r)) (sreturn (set_body (FieldBase F_Text r) m)))"

definition generateReject :: "message \<Rightarrow> int \<Rightarrow> int \<Rightarrow> ('e, unit) op" where
  "generateReject message err field =
     sbind (sget beginString_of) (\<lambda>beginString.
     sbind (new_message MsgType_Reject) (\<lambda>m0.
     sbind (fill (reverseRoute (m_header message) m0)) (\<lambda>m1.
     sbind (field_of F_MsgType (m_header message)) (\<lambda>typeField.
     let msgType = m_string typeField; msgSeqNum = field_or (FieldBase F_MsgSeqNum []) (m_header message) in
     sbind (if getFieldIfSet F_MsgSeqNum (m_header message) \<noteq> None \<and> m_string msgSeqNum \<noteq> []
            then sbind (as_seqnum msgSeqNum) (\<lambda>n. sreturn (Some n)) else sreturn None) (\<lambda>refSeqNum.
     let m2 = (case refSeqNum of None \<Rightarrow> m1 | Some n \<Rightarrow> set_body (SeqNumField F_RefSeqNum n) m1);
         m3 = (if beginString \<ge> BeginString_FIX42 \<and> msgType \<noteq> [] then set_body (FieldBase F_RefMsgType msgType) m2 else m2);
         m4 = (if beginString \<ge> BeginString_FIX42 \<and>
                  ((beginString = BeginString_FIX42 \<and> err \<le> 11) \<or> beginString > BeginString_FIX42)
               then set_body (IntField F_SessionRejectReason err) m3 else m3) in
     sthen (if msgType \<noteq> MsgType_Logon \<and> msgType \<noteq> MsgType_SequenceReset
            then sbind (as_seqnum msgSeqNum) (\<lambda>n. sbind getExpectedTargetNum (\<lambda>t. swhen (n = t) incrNextTargetMsgSeqNum))
            else sreturn ())
     (sbind (reject_reason (session_reject_text err) (field \<noteq> 0 \<or> err = 0) field (m_string msgSeqNum) m4) (\<lambda>m5.
      sbind (sget (\<lambda>w. \<not> m_receivedLogon (m_state w) \<and> \<not> m_detached w)) (\<lambda>b.
        if b then sthrow (StdRuntimeError ''Tried to send a reject while not logged on'')
        else send_admin_message m5))))))))"

definition generateReject_text :: "message \<Rightarrow> string \<Rightarrow> ('e, unit) op" where
  "generateReject_text message reason =
     sbind (sget beginString_of) (\<lambda>beginString.
     sbind (new_message MsgType_Reject) (\<lambda>m0.
     sbind (fill (reverseRoute (m_header message) m0)) (\<lambda>m1.
     sbind (field_of F_MsgType (m_header message)) (\<lambda>msgType.
     sbind (field_of F_MsgSeqNum (m_header message)) (\<lambda>msgSeqNum.
     let m2 = (if beginString \<ge> BeginString_FIX42 then set_body (FieldBase F_RefMsgType (m_string msgType)) m1 else m1) in
     sbind (as_seqnum msgSeqNum) (\<lambda>n.
       steps
         [swhen (m_string msgType \<noteq> MsgType_Logon \<and> m_string msgType \<noteq> MsgType_SequenceReset) incrNextTargetMsgSeqNum,
          send_admin_message (set_body (FieldBase F_Text reason) (set_body (SeqNumField F_RefSeqNum n) m2)),
          onEvent (''Message '' @ m_string msgSeqNum @ '' Rejected: '' @ reason)]))))))"

definition generateBusinessReject :: "message \<Rightarrow> int \<Rightarrow> int \<Rightarrow> ('e, unit) op" where
  "generateBusinessReject message err field =
     sbind (new_message MsgType_BusinessMessageReject) (\<lambda>m0.
     sbind (field_of F_MsgSeqNum (m_header message)) (\<lambda>msgSeqNum.
     sbind (field_of F_MsgType (m_header message)) (\<lambda>msgType.
     sbind (sget m_sessionID) (\<lambda>i.
     sbind (sget m_senderDefaultApplVerID) (\<lambda>v.
     sbind (fill (if id_isFIXT i then set_body (FieldBase F_DefaultApplVerID v) m0 else m0)) (\<lambda>m1.
     sbind (as_seqnum msgSeqNum) (\<lambda>n.
     let m2 = set_body (IntField F_BusinessRejectReason err)
                (set_body (SeqNumField F_RefSeqNum n) (set_body (FieldBase F_RefMsgType (m_string msgType)) m1)) in
     sthen incrNextTargetMsgSeqNum
       (sbind (reject_reason (business_reject_text err) (field \<noteq> 0) field (m_string msgSeqNum) m2) send_admin_message))))))))"

section \<open>Checks\<close>

definition isGoodTime :: "field_base \<Rightarrow> ('e, bool) op" where
  "isGoodTime sendingTime =
     sbind (sget m_checkLatency) (\<lambda>c.
       if \<not> c then sreturn True
       else sbind timestamp (\<lambda>now. sbind (as_time sendingTime) (\<lambda>t. sbind (sget m_maxLatency) (\<lambda>l.
              sreturn (\<bar>diff_seconds now t\<bar> \<le> l)))))"

definition isCorrectCompID :: "string \<Rightarrow> string \<Rightarrow> 'e session \<Rightarrow> bool" where
  "isCorrectCompID senderCompID targetCompID w =
     (if \<not> m_checkCompId w then True
      else id_senderCompID (m_sessionID w) = targetCompID \<and> id_targetCompID (m_sessionID w) = senderCompID)"

definition isTargetTooHigh :: "field_base \<Rightarrow> ('e, bool) op" where
  "isTargetTooHigh msgSeqNum = sbind (as_seqnum msgSeqNum) (\<lambda>n. sbind getExpectedTargetNum (\<lambda>t. sreturn (n > t)))"

definition isTargetTooLow :: "field_base \<Rightarrow> ('e, bool) op" where
  "isTargetTooLow msgSeqNum = sbind (as_seqnum msgSeqNum) (\<lambda>n. sbind getExpectedTargetNum (\<lambda>t. sreturn (n < t)))"

definition answersPendingLogon :: "string \<Rightarrow> 'e session \<Rightarrow> bool" where
  "answersPendingLogon msgType w \<longleftrightarrow> m_sentLogon (m_state w) \<and> (msgType = MsgType_Logout \<or> msgType = MsgType_Reject)"

definition validLogonState :: "string \<Rightarrow> 'e session \<Rightarrow> bool" where
  "validLogonState msgType w =
     (let s = m_state w in
      if msgType \<noteq> MsgType_Logon \<and> \<not> m_receivedLogon s then answersPendingLogon msgType w
      else if (msgType = MsgType_Logon \<and> m_sentReset s) \<or> m_receivedReset s then True
      else if (msgType = MsgType_Logon \<and> \<not> m_receivedLogon s) \<or> (msgType \<noteq> MsgType_Logon \<and> m_receivedLogon s) then True
      else if msgType = MsgType_Logout \<and> m_sentLogon s then True
      else if msgType \<noteq> MsgType_Logout \<and> m_sentLogout s then True
      else if msgType = MsgType_SequenceReset then True
      else if msgType = MsgType_Reject then True
      else False)"

definition fromCallback :: "string \<Rightarrow> message \<Rightarrow> ('e, unit) op" where
  "fromCallback msgType m = (if isAdminMsgType msgType then fromAdmin m else fromApp m)"

definition doBadTime :: "message \<Rightarrow> ('e, unit) op" where
  "doBadTime m = steps [generateReject m 10 0, generateLogout []]"

definition doBadCompID :: "message \<Rightarrow> ('e, unit) op" where
  "doBadCompID m = steps [generateReject m 9 0, generateLogout []]"

definition doPossDup :: "message \<Rightarrow> ('e, bool) op" where
  "doPossDup m =
     sbind timestamp (\<lambda>_.
     sbind (field_of F_MsgType (m_header m)) (\<lambda>msgType.
     sbind (field_of F_SendingTime (m_header m)) (\<lambda>sendingTime.
       if m_string msgType \<noteq> MsgType_SequenceReset
       then
         case getFieldIfSet F_OrigSendingTime (m_header m) of
           None \<Rightarrow> sthen (generateReject m 1 F_OrigSendingTime) (sreturn False)
         | Some f \<Rightarrow>
             sbind (as_time f) (\<lambda>origTime. sbind (as_time sendingTime) (\<lambda>t.
               if date_time_greater origTime t
               then sthen (generateReject m 10 0) (sthen (generateLogout []) (sreturn False))
               else sreturn True))
       else sreturn True)))"

definition doTargetTooLow :: "message \<Rightarrow> ('e, bool) op" where
  "doTargetTooLow m =
     sbind (field_of F_MsgSeqNum (m_header m)) (\<lambda>msgSeqNum.
     sbind (as_bool (field_or (BoolField F_PossDupFlag False) (m_header m))) (\<lambda>possDup.
       if \<not> possDup
       then sbind getExpectedTargetNum (\<lambda>t.
              let reason = ''MsgSeqNum too low, expecting '' @ num t @ '' but received '' @ m_string msgSeqNum in
              sthen (generateLogout reason) (sthrow (LogicError reason)))
       else doPossDup m))"

definition doTargetTooHigh :: "message \<Rightarrow> ('e, unit) op" where
  "doTargetTooHigh m =
     sbind (field_of F_BeginString (m_header m)) (\<lambda>beginString.
     sbind (field_of F_MsgSeqNum (m_header m)) (\<lambda>msgSeqNum.
     sbind getExpectedTargetNum (\<lambda>t.
     sbind (as_seqnum msgSeqNum) (\<lambda>n.
     sthen (onEvent (''MsgSeqNum too high, expecting '' @ num t @ '' but received '' @ num n))
     (sthen (state_update (queue_put n m))
     (sbind (sget (\<lambda>w. resendRequested (m_state w) \<and> \<not> m_sendRedundantResendRequests w \<and> n \<ge> fst (m_resendRange (m_state w)))) (\<lambda>already.
      sbind (state_get m_resendRange) (\<lambda>range.
        if already
        then onEvent (''Already sent ResendRequest FROM: '' @ num (fst range) @ '' TO: '' @ num (snd range) @
               ''.  Not sending another.'')
        else generateResendRequest (m_string beginString) msgSeqNum))))))))"

text \<open>
  The part of \<open>verify\<close> inside its \<open>try\<close>: the type of the message when it passes. An exception
  ends the connection.
\<close>

definition verify_checks :: "message \<Rightarrow> bool \<Rightarrow> bool \<Rightarrow> ('e, string option) op" where
  "verify_checks m checkTooHigh checkTooLow =
     sbind (field_of F_MsgType (m_header m)) (\<lambda>typeField.
     sbind (field_of F_SenderCompID (m_header m)) (\<lambda>senderCompID.
     sbind (field_of F_TargetCompID (m_header m)) (\<lambda>targetCompID.
     sbind (field_of F_SendingTime (m_header m)) (\<lambda>sendingTime.
     sbind (if checkTooHigh \<or> checkTooLow then field_of F_MsgSeqNum (m_header m) else sreturn (FieldBase F_MsgSeqNum [])) (\<lambda>msgSeqNum.
     sbind (sget (validLogonState (m_string typeField))) (\<lambda>valid.
       if \<not> valid then sthrow (LogicError ''Logon state is not valid for message'')
       else
     sbind (isGoodTime sendingTime) (\<lambda>good.
       if \<not> good then sthen (doBadTime m) (sreturn None)
       else
     sbind (sget (isCorrectCompID (m_string senderCompID) (m_string targetCompID))) (\<lambda>correct.
       if \<not> correct then sthen (doBadCompID m) (sreturn None)
       else
     sbind (if checkTooHigh then isTargetTooHigh msgSeqNum else sreturn False) (\<lambda>high.
       if high then sthen (doTargetTooHigh m) (sreturn None)
       else
     sbind (if checkTooLow then isTargetTooLow msgSeqNum else sreturn False) (\<lambda>low.
       if low then sbind (doTargetTooLow m) (\<lambda>_. sreturn None)
       else
     sbind (state_get resendRequested) (\<lambda>requested.
     sbind (state_get m_resendRange) (\<lambda>range.
     sthen (if (checkTooHigh \<or> checkTooLow) \<and> requested
            then sbind (as_seqnum msgSeqNum) (\<lambda>n.
                   swhen (n \<ge> snd range) (steps
                     [onEvent (''ResendRequest for messages FROM: '' @ num (fst range) @ '' TO: '' @ num (snd range) @
                        '' has been satisfied.''),
                      set_resendRange 0 0]))
            else sreturn ())
       (sreturn (Some (m_string typeField)))))))))))))))"

definition verify :: "message \<Rightarrow> bool \<Rightarrow> bool \<Rightarrow> bool \<Rightarrow> ('e, bool) op" where
  "verify m checkTooHigh checkTooLow invokeCallback =
     sbind (scatch (verify_checks m checkTooHigh checkTooLow)
              (\<lambda>e. sthen (onEvent (exn_what e)) (sthen disconnect (sreturn None)))) (\<lambda>r.
       case r of
         None \<Rightarrow> sreturn False
       | Some msgType \<Rightarrow>
           sbind timestamp (\<lambda>t. sthen (set_lastReceivedTime t) (sthen (set_testRequest 0)
             (sthen (swhen invokeCallback (fromCallback msgType m)) (sreturn True)))))"

end
