(* ===== verification/SessionSteps.thy ===== *)
theory SessionSteps
  imports SessionReceives
begin

text \<open>
  The handlers of \<open>Session\<close>: what it does with each type of message, with a message that is
  admitted or was queued, with a tick of the clock and with a Logon that a new connection
  offers. Handling a message handles the queued messages that follow it, so the methods call
  each other; the handlers take that call as a parameter, \<open>nextQueued\<close> ties the knot with a
  bound on its depth.
\<close>

section \<open>Retransmission\<close>

definition resend :: "message \<Rightarrow> ('e, bool \<times> message) op" where
  "resend m =
     sbind (field_of F_SendingTime (m_header m)) (\<lambda>sendingTime.
     sbind (field_of F_MsgSeqNum (m_header m)) (\<lambda>_.
     sbind (as_time sendingTime) (\<lambda>t.
     sbind (insertOrigSendingTime t m) (\<lambda>m1.
     sbind (insertSendingTime (set_header (BoolField F_PossDupFlag True) m1)) (\<lambda>m2.
       scatch (sbind (toApp m2) (\<lambda>m3. sreturn (True, m3)))
         (\<lambda>e. if e = DoNotSend then sreturn (False, m2) else sthrow e))))))"

text \<open>The type in the text of a stored message; \<open>npos + 4\<close> wraps around to 3.\<close>

definition stored_type :: "string \<Rightarrow> string result" where
  "stored_type s =
     (let equalSign = (case find_sub ([SOH] @ ''35='') s of None \<Rightarrow> 3 | Some i \<Rightarrow> i + 4)
      in if length s < equalSign then Inl (LogicError ''out_of_range'')
         else Inr (takeWhile (\<lambda>c. c \<noteq> SOH) (drop equalSign s)))"

text \<open>Reading a stored message back, and whether it may be sent again.\<close>

definition stored_message :: "string \<Rightarrow> ('e, bool \<times> message) op" where
  "stored_message s =
     sbind (sget sessionDataDictionary) (\<lambda>sessionDD.
     sbind (sget m_validateLengthAndChecksum) (\<lambda>v.
     sbind (if m_storeMsgFieldsOrder (dd sessionDD) then sresult (stored_type s) else sreturn []) (\<lambda>strMsgType.
     sbind (sget (\<lambda>w. id_isFIXT (m_sessionID w))) (\<lambda>fixt.
     if fixt
     then
       sbind (sresult (setStringHeader s Message_new)) (\<lambda>(_, m).
       sbind (sget m_senderDefaultApplVerID) (\<lambda>dflt.
       let applVerID = m_string (field_or (FieldBase F_ApplVerID dflt) (m_header m)) in
       sbind (sget (\<lambda>w. getApplicationDataDictionary applVerID (m_dataDictionaryProvider w))) (\<lambda>r.
         case r of
           Inl (DataDictionaryNotFound version d) \<Rightarrow>
             sbind (sresult (getField F_MsgSeqNum (m_header m))) (\<lambda>n.
             sthen (onEvent (''Gap filling stored message '' @ n @ '': '' @ exn_what (DataDictionaryNotFound version d) @
                 '' for ApplVerID '' @ version))
               (sreturn (False, m)))
         | Inl e \<Rightarrow> sthrow e
         | Inr applicationDD \<Rightarrow>
             if strMsgType = []
             then sbind (sresult (Message_parse_dds s sessionDD applicationDD v)) (\<lambda>m'. sreturn (True, m'))
             else
               sbind (sresult (getHeaderOrderedFields sessionDD)) (\<lambda>ho.
               sbind (sresult (getTrailerOrderedFields sessionDD)) (\<lambda>to.
               sbind (sresult (getMessageOrderedFields strMsgType applicationDD)) (\<lambda>bo.
               sbind (sresult (Message_parse_orders ho to bo s sessionDD applicationDD v)) (\<lambda>m'.
                 sreturn (True, m'))))))))
     else if strMsgType = []
     then sbind (sresult (Message_parse_dd s sessionDD v)) (\<lambda>m'. sreturn (True, m'))
     else
       sbind (sresult (getHeaderOrderedFields sessionDD)) (\<lambda>ho.
       sbind (sresult (getTrailerOrderedFields sessionDD)) (\<lambda>to.
       sbind (sresult (getMessageOrderedFields strMsgType sessionDD)) (\<lambda>bo.
       sbind (sresult (setString s v (Some sessionDD) (Some sessionDD) (Message_of_orders ho to bo))) (\<lambda>m'.
         sreturn (True, m')))))))))"

text \<open>The variables of the loop over the stored messages.\<close>

record retransmission =
  rt_msgSeqNum :: seqnum
  rt_begin :: seqnum
  rt_current :: seqnum
  rt_appMessageJustSent :: bool

fun retransmit_loop :: "string list \<Rightarrow> retransmission \<Rightarrow> ('e, retransmission) op" where
  "retransmit_loop [] v = sreturn v"
| "retransmit_loop (s # ss) v =
     sbind (stored_message s) (\<lambda>(resendable, m).
     sbind (field_of F_MsgSeqNum (m_header m)) (\<lambda>seqField.
     sbind (field_of F_MsgType (m_header m)) (\<lambda>msgType.
     sbind (as_seqnum seqField) (\<lambda>n.
     let b = (if rt_current v \<noteq> n \<and> rt_begin v = 0 then rt_current v else rt_begin v);
         skipped = \<lparr>rt_msgSeqNum = n, rt_begin = (if b = 0 then n else b), rt_current = n + 1, rt_appMessageJustSent = False\<rparr> in
     if \<not> resendable \<or> isAdminMsgType (m_string msgType) then retransmit_loop ss skipped
     else
       sbind (resend m) (\<lambda>(ok, m1).
         if ok
         then
           sthen (swhen (b \<noteq> 0) (generateSequenceReset b n))
           (sbind (sresult (toString_default m1)) (\<lambda>(messageString, _).
            sbind (send_text messageString) (\<lambda>_.
            sthen (onEvent (''Resending Message: '' @ num n))
              (retransmit_loop ss \<lparr>rt_msgSeqNum = n, rt_begin = 0, rt_current = n + 1, rt_appMessageJustSent = True\<rparr>))))
         else retransmit_loop ss skipped)))))"

definition generateRetransmits :: "seqnum \<Rightarrow> seqnum \<Rightarrow> ('e, unit) op" where
  "generateRetransmits beginSeqNo endSeqNo =
     sbind (state_get (\<lambda>s. ms_get beginSeqNo endSeqNo (m_pStore s))) (\<lambda>messages.
     sbind (retransmit_loop messages
         \<lparr>rt_msgSeqNum = 0, rt_begin = 0, rt_current = beginSeqNo, rt_appMessageJustSent = False\<rparr>) (\<lambda>v.
     sthen (swhen (rt_begin v \<noteq> 0) (generateSequenceReset (rt_begin v) (rt_msgSeqNum v + 1)))
       (if endSeqNo > rt_msgSeqNum v
        then sbind getExpectedSenderNum (\<lambda>next.
               generateSequenceReset (if rt_appMessageJustSent v then rt_msgSeqNum v + 1 else beginSeqNo)
                 (if endSeqNo + 1 > next then next else endSeqNo + 1))
        else sreturn ())))"

text \<open>The answer when messages are not stored: one gap fill for the range.\<close>

definition retransmit_or_fill :: "seqnum \<Rightarrow> seqnum \<Rightarrow> ('e, unit) op" where
  "retransmit_or_fill beginSeqNo endSeqNo =
     sbind (sget m_persistMessages) (\<lambda>p.
       if \<not> p
       then sbind getExpectedSenderNum (\<lambda>next.
              generateSequenceReset beginSeqNo (if endSeqNo + 1 > next then next else endSeqNo + 1))
       else generateRetransmits beginSeqNo endSeqNo)"

section \<open>The handlers\<close>

definition Session_reset :: "('e, unit) op" where
  "Session_reset =
     sbind (sget m_detached) (\<lambda>detached.
       if detached then sthrow (LogicError ''Detached Session reset'')
       else steps [generateLogout [], disconnect, sbind timestamp state_reset])"

definition nextLogon_sequence :: "('e, unit) op \<Rightarrow> message \<Rightarrow> field_base \<Rightarrow> ('e, unit) op" where
  "nextLogon_sequence nextQueued logon resetSeqNumFlag =
     sbind (field_of F_MsgSeqNum (m_header logon)) (\<lambda>msgSeqNum.
     sbind (sand (isTargetTooHigh msgSeqNum) (sbind (as_bool resetSeqNumFlag) (\<lambda>b. sreturn (\<not> b)))) (\<lambda>high.
       if high
       then
         sbind (sget m_sendNextExpectedMsgSeqNum) (\<lambda>x.
           if x
           then
             sbind getExpectedTargetNum (\<lambda>t. sbind (as_seqnum msgSeqNum) (\<lambda>n. steps
               [onEvent (''Expecting retransmits FROM: '' @ num t @ '' TO: '' @ num (n - 1)),
                state_update (queue_put n logon),
                set_resendRange t (n - 1)]))
           else doTargetTooHigh logon)
       else steps [incrNextTargetMsgSeqNum, nextQueued]))"

definition nextLogon_reply :: "message \<Rightarrow> ('e, unit) op" where
  "nextLogon_reply logon =
     sbind (state_get (\<lambda>s. \<not> m_initiate s \<or> (m_receivedReset s \<and> \<not> m_sentReset s))) (\<lambda>request.
       if request
       then
         sbind (state_get m_heartBtInt) (\<lambda>hb. steps
           [set_heartBtInt (field_or hb (m_body logon)),
            onEvent ''Received logon request'',
            generateLogon_reply logon,
            onEvent ''Responding to logon request''])
       else onEvent ''Received logon response'')"

definition nextLogon_retransmit :: "seqnum \<Rightarrow> ('e, unit) op" where
  "nextLogon_retransmit beginSeqNo =
     sbind getExpectedSenderNum (\<lambda>n. steps
       [onEvent (''Sending retransmits due to received NextExpectedMsgSeqNum is too low. FROM: '' @ num beginSeqNo @
          '' TO: '' @ num (n - 1)),
        retransmit_or_fill beginSeqNo (n - 1)])"

definition nextLogon_accepted :: "('e, unit) op \<Rightarrow> message \<Rightarrow> field_base \<Rightarrow> ('e, unit) op" where
  "nextLogon_accepted nextQueued logon resetSeqNumFlag =
     sthen (set_receivedLogon True)
     (sbind (case getFieldIfSet F_NextExpectedMsgSeqNum (m_body logon) of
               None \<Rightarrow> sreturn (None, None)
             | Some f \<Rightarrow>
                 sbind (as_seqnum f) (\<lambda>n. sbind getExpectedSenderNum (\<lambda>s.
                   if n < s then sreturn (Some n, None)
                   else if n > s
                   then sreturn (None, Some (''NextExpectedMsgSeqNum too high, expecting '' @ num s @ '' but received '' @ m_string f))
                   else sreturn (None, None)))) (\<lambda>(retransmit_from, too_high).
       case too_high of
         Some reason \<Rightarrow> steps [onEvent reason, generateLogout reason, disconnect]
       | None \<Rightarrow> steps
           [nextLogon_reply logon,
            set_sentReset False,
            set_receivedReset False,
            nextLogon_sequence nextQueued logon resetSeqNumFlag,
            sbind (sget isLoggedOn) (\<lambda>b. swhen b onLogon),
            (case retransmit_from of None \<Rightarrow> sreturn () | Some n \<Rightarrow> nextLogon_retransmit n)]))"

definition reset_store_when :: "('e session \<Rightarrow> bool) \<Rightarrow> ('e, unit) op" where
  "reset_store_when c = sbind (sget c) (\<lambda>b. swhen b (sbind timestamp state_reset))"

definition nextLogon :: "('e, unit) op \<Rightarrow> message \<Rightarrow> date_time \<Rightarrow> ('e, unit) op" where
  "nextLogon nextQueued logon now =
     sbind (field_of F_SenderCompID (m_header logon)) (\<lambda>_.
     sbind (field_of F_TargetCompID (m_header logon)) (\<lambda>_.
     sthen (sbind (sget m_refreshOnLogon) (\<lambda>b. swhen b refresh))
     (sbind (state_get m_enabled) (\<lambda>enabled.
      if \<not> enabled then steps [onEvent ''Session is not enabled for logon'', disconnect]
      else
      sbind (sget (isLogonTime now)) (\<lambda>logonTime.
      if \<not> logonTime then steps [onEvent ''Received logon outside of valid logon time'', disconnect]
      else
      let resetSeqNumFlag = field_or (BoolField F_ResetSeqNumFlag False) (m_body logon) in
      sbind (as_bool resetSeqNumFlag) (\<lambda>flag.
      sthen (set_receivedReset flag)
      (sthen (if flag
              then steps
                [onEvent ''Logon contains ResetSeqNumFlag=Y, reseting sequence numbers to 1'',
                 reset_store_when (\<lambda>w. \<not> m_detached w \<and> \<not> m_sentReset (m_state w))]
              else sreturn ())
      (sbind (state_get (\<lambda>s. shouldSendLogon s \<and> \<not> m_receivedReset s)) (\<lambda>early.
       if early then steps [onEvent ''Received logon response before sending request'', disconnect]
       else
       sthen (reset_store_when (\<lambda>w. \<not> m_detached w \<and> \<not> m_initiate (m_state w) \<and> m_resetOnLogon w))
       (sbind (verify logon False True False) (\<lambda>ok.
          if \<not> ok then sreturn () else nextLogon_accepted nextQueued logon resetSeqNumFlag)))))))))))"

definition nextHeartbeat :: "('e, unit) op \<Rightarrow> message \<Rightarrow> ('e, unit) op" where
  "nextHeartbeat nextQueued heartbeat =
     sbind (verify heartbeat True True True) (\<lambda>ok. swhen ok (steps [incrNextTargetMsgSeqNum, nextQueued]))"

definition nextTestRequest :: "('e, unit) op \<Rightarrow> message \<Rightarrow> ('e, unit) op" where
  "nextTestRequest nextQueued testRequest =
     sbind (verify testRequest True True True) (\<lambda>ok.
       swhen ok (steps [generateHeartbeat_reply testRequest, incrNextTargetMsgSeqNum, nextQueued]))"

definition nextLogout :: "message \<Rightarrow> ('e, unit) op" where
  "nextLogout logout =
     sbind (verify logout False False True) (\<lambda>ok. swhen ok (steps
       [sbind (state_get m_sentLogout) (\<lambda>sent.
          if \<not> sent
          then steps [onEvent ''Received logout request'', generateLogout [], onEvent ''Sending logout response'']
          else onEvent ''Received logout response''),
        incrNextTargetMsgSeqNum,
        reset_store_when (\<lambda>w. \<not> m_detached w \<and> m_resetOnLogout w),
        disconnect]))"

definition nextReject :: "('e, unit) op \<Rightarrow> message \<Rightarrow> ('e, unit) op" where
  "nextReject nextQueued reject =
     sbind (verify reject False True True) (\<lambda>ok. swhen ok (steps [incrNextTargetMsgSeqNum, nextQueued]))"

definition nextSequenceReset :: "('e, unit) op \<Rightarrow> message \<Rightarrow> ('e, unit) op" where
  "nextSequenceReset nextQueued sequenceReset =
     sbind (case getFieldIfSet F_GapFillFlag (m_body sequenceReset) of None \<Rightarrow> sreturn False | Some f \<Rightarrow> as_bool f) (\<lambda>isGapFill.
     sbind (verify sequenceReset isGapFill isGapFill True) (\<lambda>ok.
       if \<not> ok then sreturn ()
       else
         case getFieldIfSet F_NewSeqNo (m_body sequenceReset) of
           None \<Rightarrow> sreturn ()
         | Some f \<Rightarrow>
             sbind getExpectedTargetNum (\<lambda>t.
             sbind (as_seqnum f) (\<lambda>newSeqNo.
             sthen (onEvent (''Received SequenceReset FROM: '' @ num t @ '' TO: '' @ num newSeqNo))
               (if newSeqNo > t
                then steps
                  [setNextTargetMsgSeqNum newSeqNo,
                   swhen isGapFill (steps [state_update (clearQueueUpTo newSeqNo), nextQueued])]
                else if newSeqNo < t then generateReject sequenceReset 5 0
                else sreturn ())))))"

definition nextResendRequest :: "message \<Rightarrow> ('e, unit) op" where
  "nextResendRequest resendRequest =
     sbind (verify resendRequest False False True) (\<lambda>ok.
       if \<not> ok then sreturn ()
       else
         sbind (field_of F_BeginSeqNo (m_body resendRequest)) (\<lambda>beginField.
         sbind (field_of F_EndSeqNo (m_body resendRequest)) (\<lambda>endField.
         sbind (as_seqnum beginField) (\<lambda>beginSeqNo.
         sbind (as_seqnum endField) (\<lambda>endSeqNo.
         sthen (onEvent (''Received ResendRequest FROM: '' @ num beginSeqNo @ '' TO: '' @ num endSeqNo))
         (sbind (sget beginString_of) (\<lambda>beginString.
          sbind getExpectedSenderNum (\<lambda>sender.
          let last_num = (if (beginString \<ge> BeginString_FIX42 \<and> endSeqNo = 0)
                             \<or> (beginString \<le> BeginString_FIX42 \<and> endSeqNo = 999999) \<or> endSeqNo \<ge> sender
                          then sender - 1 else endSeqNo) in
          sthen (retransmit_or_fill beginSeqNo last_num)
          (sbind (field_of F_MsgSeqNum (m_header resendRequest)) (\<lambda>msgSeqNum.
           sbind (isTargetTooHigh msgSeqNum) (\<lambda>high.
           sbind (isTargetTooLow msgSeqNum) (\<lambda>low.
             swhen (\<not> high \<and> \<not> low) incrNextTargetMsgSeqNum))))))))))))"

definition authenticateLogon :: "message \<Rightarrow> date_time \<Rightarrow> ('e, bool) op" where
  "authenticateLogon logon now =
     scatch
       (let reset = field_or (BoolField F_ResetSeqNumFlag False) (m_body logon); header = m_header logon in
        sbind (field_of F_MsgType header) (\<lambda>msgType.
        if m_string msgType \<noteq> MsgType_Logon then sreturn False
        else
        sbind (field_of F_BeginString header) (\<lambda>beginString.
        sbind (sget (\<lambda>w. m_string beginString \<noteq> beginString_of w \<or> \<not> m_enabled (m_state w) \<or> \<not> isLogonTime now w)) (\<lambda>refused.
        if refused then sreturn False
        else
        sbind (as_bool reset) (\<lambda>r.
        sbind (sget (validLogonState MsgType_Logon)) (\<lambda>valid.
        if \<not> r \<and> \<not> valid then sreturn False
        else
        sbind (field_of F_SendingTime header) (\<lambda>sendingTime.
        sbind (isGoodTime sendingTime) (\<lambda>good.
        sbind (state_get m_receivedLogon) (\<lambda>received.
        if \<not> good then sthen (swhen received (doBadTime logon)) (sreturn False)
        else
        sbind (field_of F_SenderCompID header) (\<lambda>senderCompID.
        sbind (field_of F_TargetCompID header) (\<lambda>targetCompID.
        sbind (sget (isCorrectCompID (m_string senderCompID) (m_string targetCompID))) (\<lambda>correct.
        if \<not> correct then sthen (swhen received (doBadCompID logon)) (sreturn False)
        else sthen (fromCallback MsgType_Logon logon) (sreturn True)))))))))))))
       (\<lambda>e. case e of RejectLogon d \<Rightarrow> sthrow e | _ \<Rightarrow> sthen (onEvent (exn_what e)) (sreturn False))"

section \<open>A message\<close>

text \<open>A Logon that was not authenticated yet; the result tells whether to go on.\<close>

definition admit_logon :: "message \<Rightarrow> date_time \<Rightarrow> ('e, bool) op" where
  "admit_logon m now =
     sbind (sget sessionDataDictionary) (\<lambda>dictionary.
     sthen (sresult (dd_validate_one dictionary m False))
     (sbind (authenticateLogon m now) (\<lambda>ok.
        if ok then sreturn True
        else
        sbind (state_get (\<lambda>s. m_receivedLogon s \<or> m_sentLogon s)) (\<lambda>b.
        sthen (if b then disconnect
               else sbind (sget m_pResponder) (\<lambda>r.
                 case r of
                   None \<Rightarrow> sreturn ()
                 | Some p \<Rightarrow> steps
                     [pResponder_disconnect p,
                      sbind (sget (isLogonTime now)) (\<lambda>t. swhen (\<not> t) (set_responder None))]))
          (sreturn False)))))"

text \<open>The result is false when the method returns without going on to the queue.\<close>

definition next_dispatch :: "('e, unit) op \<Rightarrow> message \<Rightarrow> date_time \<Rightarrow> string \<Rightarrow> ('e, bool) op" where
  "next_dispatch nextQueued m now msgType =
     (if msgType = MsgType_Logon then sthen (nextLogon nextQueued m now) (sreturn True)
      else if msgType = MsgType_Heartbeat then sthen (nextHeartbeat nextQueued m) (sreturn True)
      else if msgType = MsgType_TestRequest then sthen (nextTestRequest nextQueued m) (sreturn True)
      else if msgType = MsgType_SequenceReset then sthen (nextSequenceReset nextQueued m) (sreturn True)
      else if msgType = MsgType_Logout then sthen (nextLogout m) (sreturn True)
      else if msgType = MsgType_ResendRequest then sthen (nextResendRequest m) (sreturn True)
      else if msgType = MsgType_Reject then sthen (nextReject nextQueued m) (sreturn True)
      else sbind (verify m True True True) (\<lambda>ok. if ok then sthen incrNextTargetMsgSeqNum (sreturn True) else sreturn False))"

definition set_targetDefaultApplVerID :: "string \<Rightarrow> ('e, unit) op" where
  "set_targetDefaultApplVerID v w = (Inr (), w\<lparr>m_targetDefaultApplVerID := v\<rparr>)"

text \<open>The dictionaries a message is validated against.\<close>

definition validate_received :: "message \<Rightarrow> ('e, unit) op" where
  "validate_received m =
     sbind (sget sessionDataDictionary) (\<lambda>sessionDD.
     sbind (sget (\<lambda>w. id_isFIXT (m_sessionID w))) (\<lambda>fixt.
     sbind (sget m_targetDefaultApplVerID) (\<lambda>dflt.
       if fixt \<and> isApp m
       then
         let applVerID = m_string (field_or (FieldBase F_ApplVerID dflt) (m_header m)) in
         sbind (sget (\<lambda>w. getApplicationDataDictionary applVerID (m_dataDictionaryProvider w))) (\<lambda>r.
         sbind (sresult r) (\<lambda>applicationDD. sresult (dd_validate m (Some sessionDD) (Some applicationDD))))
       else sresult (dd_validate_one sessionDD m False))))"

text \<open>What is done with a message that is admitted; the result is false when the method returns there.\<close>

definition next_admitted :: "('e, unit) op \<Rightarrow> message \<Rightarrow> date_time \<Rightarrow> string \<Rightarrow> string \<Rightarrow> ('e, bool) op" where
  "next_admitted nextQueued m now msgType beginString =
     sbind (sget (\<lambda>w. id_isFIXT (m_sessionID w))) (\<lambda>fixt.
     sthen (if msgType = MsgType_Logon \<and> fixt
            then sbind (field_of F_DefaultApplVerID (m_body m)) (\<lambda>v.
                 sbind (sget (\<lambda>w. getApplicationDataDictionary (m_string v) (m_dataDictionaryProvider w))) (\<lambda>r.
                 sbind (sresult r) (\<lambda>_. sreturn ())))
            else sreturn ())
     (sbind (sget (checkSessionTime now)) (\<lambda>in_session.
     if \<not> in_session then sthen (sbind (sget m_detached) (\<lambda>d. swhen (\<not> d) Session_reset)) (sreturn False)
     else
     sthen (if msgType = MsgType_Logon
            then if fixt then sbind (field_of F_DefaultApplVerID (m_body m)) (\<lambda>v. set_targetDefaultApplVerID (m_string v))
                 else set_targetDefaultApplVerID (toApplVerID beginString)
            else sreturn ())
     (sthen (validate_received m)
     (next_dispatch nextQueued m now msgType)))))"

text \<open>The part of \<open>next\<close> inside its \<open>try\<close>; the result is false when the method returns there.\<close>

definition next_try :: "('e, unit) op \<Rightarrow> message \<Rightarrow> date_time \<Rightarrow> bool \<Rightarrow> ('e, bool) op" where
  "next_try nextQueued m now authenticated =
     sbind (field_of F_MsgType (m_header m)) (\<lambda>typeField.
     let msgType = m_string typeField in
     sbind (sget (\<lambda>w. msgType \<noteq> MsgType_Logon \<and> \<not> m_receivedLogon (m_state w) \<and> \<not> answersPendingLogon msgType w)) (\<lambda>early.
     if early
     then
       sbind (state_get m_sentLogon) (\<lambda>sent.
       sthen (if sent then disconnect
              else sbind (sget m_pResponder) (\<lambda>r. case r of None \<Rightarrow> sreturn () | Some p \<Rightarrow> pResponder_disconnect p))
         (sreturn False))
     else
     sbind (field_of F_BeginString (m_header m)) (\<lambda>beginString.
     sbind (field_of F_SenderCompID (m_header m)) (\<lambda>_.
     sbind (field_of F_TargetCompID (m_header m)) (\<lambda>_.
     sbind (sget (\<lambda>w. m_string beginString \<noteq> beginString_of w)) (\<lambda>other_version.
     if other_version then sthrow UnsupportedVersion
     else
     sbind (if msgType = MsgType_Logon \<and> \<not> authenticated then admit_logon m now else sreturn True) (\<lambda>go_on.
     if \<not> go_on then sreturn False
     else next_admitted nextQueued m now msgType (m_string beginString))))))))"

text \<open>\<open>LOGEX\<close>\<close>

definition logex :: "('e, unit) op \<Rightarrow> ('e, unit) op" where
  "logex m = scatch m (\<lambda>e. onEvent (exn_what e))"

definition business_level :: "message \<Rightarrow> ('e, bool) op" where
  "business_level m = sbind (sresult (getField F_BeginString (m_header m))) (\<lambda>b. sreturn (b \<ge> BeginString_FIX42))"

definition next_catch :: "message \<Rightarrow> exn \<Rightarrow> ('e, unit) op" where
  "next_catch m e =
     (case e of
        MessageParseError _ \<Rightarrow> onEvent (exn_what e)
      | DataDictionaryNotFound _ _ \<Rightarrow>
          sthen (onEvent (exn_what e))
            (if isApp m then logex (generateReject m 18 F_ApplVerID)
             else sthen (generateLogout (exn_what e))
               (sbind (field_of F_MsgType (m_header m)) (\<lambda>t.
                sbind (sget m_resetOnDisconnect) (\<lambda>r.
                  disconnect_with (m_string t \<noteq> MsgType_Logon \<and> r)))))
      | RequiredTagMissing f \<Rightarrow> logex (generateReject m 1 f)
      | FieldNotFound f \<Rightarrow>
          sbind (business_level m) (\<lambda>b.
            if b \<and> isApp m then logex (generateBusinessReject m 5 f)
            else
              sthen (logex (generateReject m 1 f))
              (sbind (sresult (getField F_MsgType (m_header m))) (\<lambda>t.
                 swhen (t = MsgType_Logon) (steps [onEvent ''Required field missing from logon'', disconnect]))))
      | InvalidTagNumber f \<Rightarrow> logex (generateReject m 0 f)
      | NoTagValue f \<Rightarrow> logex (generateReject m 4 f)
      | TagNotDefinedForMessage f \<Rightarrow> logex (generateReject m 2 f)
      | InvalidMessageType \<Rightarrow> logex (generateReject m 11 0)
      | UnsupportedMessageType \<Rightarrow>
          sbind (business_level m) (\<lambda>b.
            if b then logex (generateBusinessReject m 3 0) else logex (generateReject_text m ''Unsupported message type''))
      | TagOutOfOrder f \<Rightarrow> logex (generateReject m 14 f)
      | IncorrectDataFormat f _ \<Rightarrow> logex (generateReject m 6 f)
      | IncorrectTagValue f \<Rightarrow> logex (generateReject m 5 f)
      | RepeatedTag f \<Rightarrow> logex (generateReject m 13 f)
      | RepeatingGroupCountMismatch f \<Rightarrow> logex (generateReject m 16 f)
      | InvalidMessage _ \<Rightarrow> onEvent (exn_what e)
      | RejectLogon _ \<Rightarrow>
          steps
            [onEvent (exn_what e),
             generateLogout (exn_what e),
             sbind (sget (\<lambda>w. (m_receivedLogon (m_state w) \<or> m_sentLogon (m_state w)) \<and> m_resetOnDisconnect w)) disconnect_with]
      | UnsupportedVersion \<Rightarrow>
          sbind (sresult (getField F_MsgType (m_header m))) (\<lambda>t.
            if t = MsgType_Logout then nextLogout m
            else steps [generateLogout ''Incorrect BeginString'', incrNextTargetMsgSeqNum])
      | IOException _ \<Rightarrow> steps [onEvent (exn_what e), disconnect]
      | _ \<Rightarrow> sthrow e)"

section \<open>A tick of the clock\<close>

text \<open>The tests of a detached session take the time they are given, those of an ordinary one ask.\<close>

definition deadline :: "(session_state \<Rightarrow> date_time \<Rightarrow> bool) \<Rightarrow> (session_state \<Rightarrow> date_time \<Rightarrow> bool) \<Rightarrow> date_time \<Rightarrow> ('e, bool) op" where
  "deadline exact usual now =
     sbind (sget m_detached) (\<lambda>d.
       if d then state_get (\<lambda>s. exact s now)
       else sbind timestamp (\<lambda>t. state_get (\<lambda>s. usual s t)))"

definition next_heartbeats :: "date_time \<Rightarrow> ('e, unit) op" where
  "next_heartbeats now =
     sbind (state_get m_heartBtInt) (\<lambda>f. sbind (as_int f) (\<lambda>hb.
       if hb = 0 then sreturn ()
       else
         sthen
           (sbind (deadline exactLogoutTimedOut logoutTimedOut now) (\<lambda>b.
              swhen b (steps [onEvent ''Timed out waiting for logout response'', disconnect])))
         (sbind (deadline (exactWithinHeartBeat hb) (withinHeartBeat hb) now) (\<lambda>in_time.
          if in_time then sreturn ()
          else
          sbind (deadline (exactTimedOut hb) (timedOut hb) now) (\<lambda>timed_out.
          if timed_out then steps [onEvent ''Timed out waiting for heartbeat'', disconnect]
          else
          sbind (deadline (exactNeedTestRequest hb) (needTestRequest hb) now) (\<lambda>test.
          if test
          then steps
            [generateTestRequest ''TEST'',
             sbind (state_get m_testRequest) (\<lambda>n. set_testRequest (n + 1)),
             onEvent ''Sent test request TEST'']
          else sbind (deadline (exactNeedHeartbeat hb) (needHeartbeat hb) now) (\<lambda>b. swhen b generateHeartbeat)))))))"

definition next_time_try :: "date_time \<Rightarrow> date_time \<Rightarrow> ('e, unit) op" where
  "next_time_try now scheduleNow =
     sbind (sget (checkSessionTime scheduleNow)) (\<lambda>in_session.
     if \<not> in_session then sbind (sget m_detached) (\<lambda>d. swhen (\<not> d) Session_reset)
     else
     sbind (sget (\<lambda>w. \<not> m_enabled (m_state w) \<or> \<not> isLogonTime scheduleNow w)) (\<lambda>closed.
     sbind (sget isLoggedOn) (\<lambda>logged_on.
     if closed \<and> \<not> logged_on then sreturn ()
     else
     sthen (if closed
            then sbind (state_get m_sentLogout) (\<lambda>sent. swhen (\<not> sent)
                   (steps [onEvent ''Initiated logout request'', sbind (state_get m_logoutReason) generateLogout]))
            else sreturn ())
     (sbind (state_get m_receivedLogon) (\<lambda>received.
     if \<not> received
     then
       sbind (sget (\<lambda>w. shouldSendLogon (m_state w) \<and> isLogonTime scheduleNow w)) (\<lambda>send_it.
       if send_it then steps [generateLogon, onEvent ''Initiated logon request'']
       else
         sbind (sand (state_get alreadySentLogon) (deadline exactLogonTimedOut logonTimedOut now)) (\<lambda>b.
           swhen b (steps [onEvent ''Timed out waiting for logon response'', disconnect])))
     else next_heartbeats now)))))"

definition next_time :: "date_time \<Rightarrow> date_time \<Rightarrow> ('e, unit) op" where
  "next_time now scheduleNow =
     scatch (next_time_try now scheduleNow)
       (\<lambda>e. case e of IOException _ \<Rightarrow> steps [onEvent (exn_what e), disconnect] | _ \<Rightarrow> sthrow e)"

section \<open>The knot\<close>

definition next_message_with :: "('e, unit) op \<Rightarrow> message \<Rightarrow> date_time \<Rightarrow> bool \<Rightarrow> bool \<Rightarrow> ('e, unit) op" where
  "next_message_with nextQueued m now queued authenticated =
     sbind (scatch (next_try nextQueued m now authenticated) (\<lambda>e. sthen (next_catch m e) (sreturn True))) (\<lambda>go_on.
       if \<not> go_on then sreturn ()
       else
         sthen (swhen (\<not> queued) nextQueued)
           (sbind (sget isLoggedOn) (\<lambda>b. swhen b (sbind timestamp (\<lambda>t. next_time t t)))))"

definition nextQueued_one :: "(message \<Rightarrow> ('e, unit) op) \<Rightarrow> seqnum \<Rightarrow> ('e, bool) op" where
  "nextQueued_one next n =
     sbind (state_get (\<lambda>s. fst (retrieve n s))) (\<lambda>r.
       case r of
         None \<Rightarrow> sreturn False
       | Some m \<Rightarrow>
           sthen (state_update (\<lambda>s. snd (retrieve n s)))
           (sthen (onEvent (''Processing QUEUED message: '' @ num n))
           (sbind (field_of F_MsgType (m_header m)) (\<lambda>t.
            sthen (if m_string t = MsgType_Logon \<or> m_string t = MsgType_ResendRequest
                   then incrNextTargetMsgSeqNum else next m)
              (sreturn True)))))"

fun nextQueued :: "nat \<Rightarrow> date_time \<Rightarrow> ('e, unit) op" where
  "nextQueued 0 now = (\<lambda>w. (Inl OutOfFuel, w))"
| "nextQueued (Suc fuel) now =
     sbind getExpectedTargetNum (\<lambda>n.
     sbind (nextQueued_one (\<lambda>m. next_message_with (nextQueued fuel now) m now True False) n) (\<lambda>again.
       if again then nextQueued fuel now else sreturn ()))"

definition next_message :: "nat \<Rightarrow> message \<Rightarrow> date_time \<Rightarrow> bool \<Rightarrow> bool \<Rightarrow> ('e, unit) op" where
  "next_message fuel m now queued authenticated = next_message_with (nextQueued fuel now) m now queued authenticated"

text \<open>A message as text.\<close>

definition next_text :: "nat \<Rightarrow> string \<Rightarrow> date_time \<Rightarrow> bool \<Rightarrow> ('e, unit) op" where
  "next_text fuel s now queued =
     scatch
       (sthen (onIncoming s)
       (sbind (sget sessionDataDictionary) (\<lambda>sessionDD.
        sbind (sget m_validateLengthAndChecksum) (\<lambda>v.
        sbind (sget (\<lambda>w. id_isFIXT (m_sessionID w))) (\<lambda>fixt.
        sbind (if fixt
               then sbind (sget (\<lambda>w. getApplicationDataDictionary (m_senderDefaultApplVerID w) (m_dataDictionaryProvider w))) (\<lambda>r.
                    sbind (sresult r) (\<lambda>applicationDD. sresult (Message_parse_dds s sessionDD applicationDD v)))
               else sresult (Message_parse_dd s sessionDD v)) (\<lambda>m.
          next_message fuel m now queued False))))))
       (\<lambda>e. case e of
          DataDictionaryNotFound _ _ \<Rightarrow> steps [onEvent (exn_what e), disconnect]
        | InvalidMessage _ \<Rightarrow>
            steps
              [onEvent (exn_what e),
               scatch
                 (sbind (sresult (identifyType s)) (\<lambda>t.
                    swhen (t = MsgType_Logon) (steps [onEvent ''Logon message is not valid'', disconnect])))
                 (\<lambda>x. case x of MessageParseError _ \<Rightarrow> sreturn () | _ \<Rightarrow> sthrow x),
               sthrow e]
        | _ \<Rightarrow> sthrow e)"

end
