(* ===== verification/SessionLives.thy ===== *)
theory SessionLives
  imports SessionSteps
begin

text \<open>
  The life of a \<open>Session\<close>: its construction, \<open>logon\<close> and \<open>logout\<close> of its owner, the
  connection of a responder, and the Logon with which a new connection asks for an ordinary
  session.
\<close>

definition Session_logon :: "('e, unit) op" where
  "Session_logon = state_update (\<lambda>s. s\<lparr>m_enabled := True, m_logoutReason := []\<rparr>)"

definition Session_logout :: "string \<Rightarrow> ('e, unit) op" where
  "Session_logout reason = state_update (\<lambda>s. s\<lparr>m_enabled := False, m_logoutReason := reason\<rparr>)"

definition setResponder :: "nat option \<Rightarrow> ('e, unit) op" where
  "setResponder r =
     steps
       [(case r of
           None \<Rightarrow> sreturn ()
         | Some _ \<Rightarrow> steps
             [sbind (sget m_refreshOnLogon) (\<lambda>b. swhen b refresh),
              sbind (sget m_detached) (\<lambda>detached.
                if detached then sreturn ()
                else sbind timestamp (\<lambda>t. sbind (sget (checkSessionTime t)) (\<lambda>b. swhen (\<not> b) Session_reset)))]),
        set_responder r]"

section \<open>Construction\<close>

text \<open>The members as the constructor initialises them; \<open>now\<close> is what the clock says first.\<close>

definition Session_members :: "'e outside \<Rightarrow> session_id \<Rightarrow> dictionary_provider \<Rightarrow> time_range \<Rightarrow> int \<Rightarrow> bool \<Rightarrow> bool
    \<Rightarrow> date_time \<Rightarrow> date_time \<Rightarrow> nat session_registry \<Rightarrow> 'e \<Rightarrow> 'e session" where
  "Session_members out i provider sessionTime heartBtInt logged detached now created registry e =
     \<lparr>m_outside = out, m_sessionID = i, m_sessionTime = sessionTime, m_logonTime = sessionTime,
      m_senderDefaultApplVerID = ''7'', m_targetDefaultApplVerID = ''7'', m_sendRedundantResendRequests = False,
      m_checkCompId = True, m_checkLatency = True, m_maxLatency = 120, m_resetOnLogon = False, m_resetOnLogout = False,
      m_resetOnDisconnect = False, m_refreshOnLogon = False, m_timestampPrecision = 3, m_persistMessages = True,
      m_validateLengthAndChecksum = True, m_sendNextExpectedMsgSeqNum = False, m_isNonStopSession = False,
      m_allowedRemoteAddresses = [], m_certificateAcceptedPeerName = [],
      m_dataDictionaryProvider = provider, m_detached = detached,
      m_state = (SessionState now (MemoryStore created))
        \<lparr>m_heartBtInt := IntField F_HeartBtInt heartBtInt, m_initiate := (heartBtInt \<noteq> 0), m_pLog := logged\<rparr>,
      m_pResponder = None, s_registry = registry, environment = e, calls = []\<rparr>"

definition registry_update :: "(nat session_registry \<Rightarrow> 'a \<times> nat session_registry) \<Rightarrow> ('e, 'a) op" where
  "registry_update f w = (let (a, r) = f (s_registry w) in (Inr a, w\<lparr>s_registry := r\<rparr>))"

text \<open>The rest of the constructor; \<open>me\<close> stands for the address of the session.\<close>

definition Session_construct :: "nat \<Rightarrow> ('e, unit) op" where
  "Session_construct me =
     sthen (sbind (sget m_detached) (\<lambda>detached.
       if detached then sreturn ()
       else sbind timestamp (\<lambda>t. sbind (sget (checkSessionTime t)) (\<lambda>b.
              swhen (\<not> b) (sbind timestamp state_reset)))))
     (sbind (sget m_detached) (\<lambda>detached.
      sbind (sget m_sessionID) (\<lambda>i.
        if detached then sreturn ()
        else
          sbind (registry_update (addSession i me)) (\<lambda>registered.
          scatch (steps [onCreate, onEvent ''Created session''])
            (\<lambda>e. sthen (swhen registered (registry_update (\<lambda>r. ((), removeSession i r)))) (sthrow e))))))"

section \<open>Configuration\<close>

text \<open>The setters with which the owner configures a session.\<close>

definition setLogonTime :: "time_range \<Rightarrow> 'e session \<Rightarrow> 'e session" where "setLogonTime v w = w\<lparr>m_logonTime := v\<rparr>"
definition setSenderDefaultApplVerID :: "string \<Rightarrow> 'e session \<Rightarrow> 'e session" where
  "setSenderDefaultApplVerID v w = w\<lparr>m_senderDefaultApplVerID := v\<rparr>"
definition setTargetDefaultApplVerID :: "string \<Rightarrow> 'e session \<Rightarrow> 'e session" where
  "setTargetDefaultApplVerID v w = w\<lparr>m_targetDefaultApplVerID := v\<rparr>"
definition setSendRedundantResendRequests :: "bool \<Rightarrow> 'e session \<Rightarrow> 'e session" where
  "setSendRedundantResendRequests v w = w\<lparr>m_sendRedundantResendRequests := v\<rparr>"
definition setCheckCompId :: "bool \<Rightarrow> 'e session \<Rightarrow> 'e session" where "setCheckCompId v w = w\<lparr>m_checkCompId := v\<rparr>"
definition setCheckLatency :: "bool \<Rightarrow> 'e session \<Rightarrow> 'e session" where "setCheckLatency v w = w\<lparr>m_checkLatency := v\<rparr>"
definition setMaxLatency :: "int \<Rightarrow> 'e session \<Rightarrow> 'e session" where "setMaxLatency v w = w\<lparr>m_maxLatency := v\<rparr>"
definition setLogonTimeout :: "int \<Rightarrow> 'e session \<Rightarrow> 'e session" where
  "setLogonTimeout v w = w\<lparr>m_state := (m_state w)\<lparr>m_logonTimeout := v\<rparr>\<rparr>"
definition setLogoutTimeout :: "int \<Rightarrow> 'e session \<Rightarrow> 'e session" where
  "setLogoutTimeout v w = w\<lparr>m_state := (m_state w)\<lparr>m_logoutTimeout := v\<rparr>\<rparr>"
definition setResetOnLogon :: "bool \<Rightarrow> 'e session \<Rightarrow> 'e session" where "setResetOnLogon v w = w\<lparr>m_resetOnLogon := v\<rparr>"
definition setResetOnLogout :: "bool \<Rightarrow> 'e session \<Rightarrow> 'e session" where "setResetOnLogout v w = w\<lparr>m_resetOnLogout := v\<rparr>"
definition setResetOnDisconnect :: "bool \<Rightarrow> 'e session \<Rightarrow> 'e session" where
  "setResetOnDisconnect v w = w\<lparr>m_resetOnDisconnect := v\<rparr>"
definition setRefreshOnLogon :: "bool \<Rightarrow> 'e session \<Rightarrow> 'e session" where "setRefreshOnLogon v w = w\<lparr>m_refreshOnLogon := v\<rparr>"
definition setMillisecondsInTimeStamp :: "bool \<Rightarrow> 'e session \<Rightarrow> 'e session" where
  "setMillisecondsInTimeStamp v w = w\<lparr>m_timestampPrecision := (if v then 3 else 0)\<rparr>"
definition setTimestampPrecision :: "int \<Rightarrow> 'e session \<Rightarrow> 'e session" where
  "setTimestampPrecision v w = (if v < 0 \<or> v > 9 then w else w\<lparr>m_timestampPrecision := v\<rparr>)"
definition setPersistMessages :: "bool \<Rightarrow> 'e session \<Rightarrow> 'e session" where "setPersistMessages v w = w\<lparr>m_persistMessages := v\<rparr>"
definition setValidateLengthAndChecksum :: "bool \<Rightarrow> 'e session \<Rightarrow> 'e session" where
  "setValidateLengthAndChecksum v w = w\<lparr>m_validateLengthAndChecksum := v\<rparr>"
definition setSendNextExpectedMsgSeqNum :: "bool \<Rightarrow> 'e session \<Rightarrow> 'e session" where
  "setSendNextExpectedMsgSeqNum v w = w\<lparr>m_sendNextExpectedMsgSeqNum := v\<rparr>"
definition setIsNonStopSession :: "bool \<Rightarrow> 'e session \<Rightarrow> 'e session" where
  "setIsNonStopSession v w = w\<lparr>m_isNonStopSession := v\<rparr>"
definition setAllowedRemoteAddresses :: "string list \<Rightarrow> 'e session \<Rightarrow> 'e session" where
  "setAllowedRemoteAddresses v w = w\<lparr>m_allowedRemoteAddresses := v\<rparr>"
definition setCertificateAcceptedPeerName :: "string \<Rightarrow> 'e session \<Rightarrow> 'e session" where
  "setCertificateAcceptedPeerName v w = w\<lparr>m_certificateAcceptedPeerName := v\<rparr>"

definition inAllowedRemoteAddresses :: "string \<Rightarrow> 'e session \<Rightarrow> bool" where
  "inAllowedRemoteAddresses v w \<longleftrightarrow> v \<in> set (m_allowedRemoteAddresses w)"

lemmas setter_defs = setLogonTime_def setSenderDefaultApplVerID_def setTargetDefaultApplVerID_def
  setSendRedundantResendRequests_def setCheckCompId_def setCheckLatency_def setMaxLatency_def setLogonTimeout_def
  setLogoutTimeout_def setResetOnLogon_def setResetOnLogout_def setResetOnDisconnect_def setRefreshOnLogon_def
  setMillisecondsInTimeStamp_def setTimestampPrecision_def setPersistMessages_def setValidateLengthAndChecksum_def
  setSendNextExpectedMsgSeqNum_def setIsNonStopSession_def setAllowedRemoteAddresses_def setCertificateAcceptedPeerName_def

text \<open>A session after any number of these calls, in any order.\<close>

inductive configured :: "'e session \<Rightarrow> 'e session \<Rightarrow> bool" for w where
  configured_none: "configured w w"
| configured_set: "configured w v \<Longrightarrow>
    v' \<in> {setLogonTime hours v, setSenderDefaultApplVerID s v, setTargetDefaultApplVerID s v,
      setSendRedundantResendRequests b v, setCheckCompId b v, setCheckLatency b v, setMaxLatency i v, setLogonTimeout i v,
      setLogoutTimeout i v, setResetOnLogon b v, setResetOnLogout b v, setResetOnDisconnect b v, setRefreshOnLogon b v,
      setMillisecondsInTimeStamp b v, setTimestampPrecision i v, setPersistMessages b v, setValidateLengthAndChecksum b v,
      setSendNextExpectedMsgSeqNum b v, setIsNonStopSession b v, setAllowedRemoteAddresses names v,
      setCertificateAcceptedPeerName s v} \<Longrightarrow> configured w v'"

definition same_life :: "'e session \<Rightarrow> 'e session \<Rightarrow> bool" where
  "same_life w w' \<longleftrightarrow> calls w' = calls w \<and> m_outside w' = m_outside w \<and> m_sessionID w' = m_sessionID w \<and>
     m_pStore (m_state w') = m_pStore (m_state w) \<and> m_queue (m_state w') = m_queue (m_state w) \<and>
     m_receivedLogon (m_state w') = m_receivedLogon (m_state w) \<and> m_initiate (m_state w') = m_initiate (m_state w) \<and>
     m_sessionTime w' = m_sessionTime w \<and> m_dataDictionaryProvider w' = m_dataDictionaryProvider w \<and>
     m_detached w' = m_detached w \<and> s_registry w' = s_registry w \<and> environment w' = environment w"

lemma setters_keep:
  "same_life v (setLogonTime hours v)" "same_life v (setSenderDefaultApplVerID s v)"
  "same_life v (setTargetDefaultApplVerID s v)" "same_life v (setSendRedundantResendRequests b v)"
  "same_life v (setCheckCompId b v)" "same_life v (setCheckLatency b v)" "same_life v (setMaxLatency i v)"
  "same_life v (setLogonTimeout i v)" "same_life v (setLogoutTimeout i v)" "same_life v (setResetOnLogon b v)"
  "same_life v (setResetOnLogout b v)" "same_life v (setResetOnDisconnect b v)" "same_life v (setRefreshOnLogon b v)"
  "same_life v (setMillisecondsInTimeStamp b v)" "same_life v (setTimestampPrecision i v)"
  "same_life v (setPersistMessages b v)" "same_life v (setValidateLengthAndChecksum b v)"
  "same_life v (setSendNextExpectedMsgSeqNum b v)" "same_life v (setIsNonStopSession b v)"
  "same_life v (setAllowedRemoteAddresses names v)" "same_life v (setCertificateAcceptedPeerName s v)"
  by (simp_all add: same_life_def setter_defs)

lemma configured_same: "configured w w' \<Longrightarrow> same_life w w'"
proof (induction rule: configured.induct)
  case (configured_set v v' hours s b i names)
  have "same_life v v'"
    using configured_set(2) by (elim insertE emptyE; hypsubst; intro setters_keep)
  then show ?case using configured_set(3) by (simp add: same_life_def)
qed (simp add: same_life_def)

lemmas configured_keeps = configured_same [unfolded same_life_def]

lemma configured_setters:
  "configured w v \<Longrightarrow> configured w (setLogonTime hours v)" "configured w v \<Longrightarrow> configured w (setSenderDefaultApplVerID s v)"
  "configured w v \<Longrightarrow> configured w (setTargetDefaultApplVerID s v)"
  "configured w v \<Longrightarrow> configured w (setSendRedundantResendRequests b v)" "configured w v \<Longrightarrow> configured w (setCheckCompId b v)"
  "configured w v \<Longrightarrow> configured w (setCheckLatency b v)" "configured w v \<Longrightarrow> configured w (setMaxLatency i v)"
  "configured w v \<Longrightarrow> configured w (setLogonTimeout i v)" "configured w v \<Longrightarrow> configured w (setLogoutTimeout i v)"
  "configured w v \<Longrightarrow> configured w (setResetOnLogon b v)" "configured w v \<Longrightarrow> configured w (setResetOnLogout b v)"
  "configured w v \<Longrightarrow> configured w (setResetOnDisconnect b v)" "configured w v \<Longrightarrow> configured w (setRefreshOnLogon b v)"
  "configured w v \<Longrightarrow> configured w (setMillisecondsInTimeStamp b v)" "configured w v \<Longrightarrow> configured w (setTimestampPrecision i v)"
  "configured w v \<Longrightarrow> configured w (setPersistMessages b v)" "configured w v \<Longrightarrow> configured w (setValidateLengthAndChecksum b v)"
  "configured w v \<Longrightarrow> configured w (setSendNextExpectedMsgSeqNum b v)" "configured w v \<Longrightarrow> configured w (setIsNonStopSession b v)"
  "configured w v \<Longrightarrow> configured w (setAllowedRemoteAddresses names v)"
  "configured w v \<Longrightarrow> configured w (setCertificateAcceptedPeerName s v)"
  by (erule configured_set, (rule insertI1 | rule insertI2)+)+

section \<open>Admission of a Logon\<close>

definition refuseLogon :: "string \<Rightarrow> nat \<Rightarrow> string \<Rightarrow> ('e, unit) op" where
  "refuseLogon wire responder reason =
     sbind (sget m_pResponder) (\<lambda>previous.
       scatch
         (steps
           [set_responder (Some responder), onIncoming wire, onEvent reason, generateLogout reason,
            disconnect_with False, set_responder previous])
         (\<lambda>e. sthen (set_responder previous) (sthrow e)))"

text \<open>Reading, validating and authenticating the Logon: the message, or whether it is refused and why.\<close>

definition read_logon :: "string \<Rightarrow> date_time \<Rightarrow> ('e, (message + string) option) op" where
  "read_logon wire now =
     scatch
       (sbind (sget sessionDataDictionary) (\<lambda>dictionary.
        sbind (sget m_validateLengthAndChecksum) (\<lambda>v.
        sbind (sresult (Message_parse_dd wire dictionary v)) (\<lambda>logon.
        sthen (sresult (dd_validate_one dictionary logon False))
          (sbind (authenticateLogon logon now) (\<lambda>ok. sreturn (if ok then Some (Inl logon) else None)))))))
       (\<lambda>e. case e of
          RejectLogon _ \<Rightarrow> sreturn (Some (Inr (exn_what e)))
        | _ \<Rightarrow> sthen (onEvent (exn_what e)) (sreturn None))"

definition release_logon :: "nat option \<Rightarrow> bool \<Rightarrow> ('e, unit) op" where
  "release_logon previous registered = steps
     [set_responder previous, set_receivedLogon False, set_sentLogon False, set_sentLogout False,
      set_receivedReset False, set_sentReset False, state_update clearQueue, set_resendRange 0 0,
      sbind (sget m_sessionID) (\<lambda>i. swhen registered (registry_update (\<lambda>r. ((), unregisterSession i r))))]"

text \<open>After registration; what escapes gives the registration back.\<close>

definition admitted_logon :: "nat \<Rightarrow> string \<Rightarrow> nat \<Rightarrow> message \<Rightarrow> date_time \<Rightarrow> ('e, bool) op" where
  "admitted_logon fuel wire responder logon now =
     sbind (sget m_pResponder) (\<lambda>previous.
     sbind (sget m_sessionID) (\<lambda>i.
       scatch
         (steps_then
            [setResponder (Some responder), onIncoming wire, next_message fuel logon now False True]
            (sbind (state_get m_receivedLogon) (\<lambda>received.
               if received then sreturn True
               else sthen (set_responder previous)
                 (sthen (registry_update (\<lambda>r. ((), unregisterSession i r))) (sreturn False)))))
         (\<lambda>e. sthen (release_logon previous True) (sthrow e))))"

text \<open>What is done with a Logon that was read: refused, or registered and handled.\<close>

definition accept_read :: "nat \<Rightarrow> string \<Rightarrow> nat \<Rightarrow> date_time \<Rightarrow> message + string \<Rightarrow> ('e, bool) op" where
  "accept_read fuel wire responder now l =
     sbind (sget m_sessionID) (\<lambda>i.
     sbind (sget m_pResponder) (\<lambda>previous.
       case l of
         Inr reason \<Rightarrow>
           scatch (sthen (refuseLogon wire responder reason) (sreturn False))
             (\<lambda>e. sthen (release_logon previous False) (sthrow e))
       | Inl logon \<Rightarrow>
           sbind (scatch
             (if id_isFIXT i \<and> isSetField F_DefaultApplVerID (m_body logon)
              then
                sbind (sresult (getField F_DefaultApplVerID (m_body logon))) (\<lambda>v.
                sbind (sget (\<lambda>w. getApplicationDataDictionary v (m_dataDictionaryProvider w))) (\<lambda>d.
                  case d of
                    Inl e \<Rightarrow> (case e of
                        DataDictionaryNotFound _ _ \<Rightarrow> sthen (refuseLogon wire responder (exn_what e)) (sreturn False)
                      | _ \<Rightarrow> sthrow e)
                  | Inr _ \<Rightarrow> sreturn True))
              else sreturn True)
             (\<lambda>e. sthen (release_logon previous False) (sthrow e))) (\<lambda>go_on.
           if \<not> go_on then sreturn False
           else
           sbind (registry_update (registerSession i)) (\<lambda>p.
             case p of None \<Rightarrow> sreturn False | Some _ \<Rightarrow> admitted_logon fuel wire responder logon now))))"

definition acceptLogon :: "nat \<Rightarrow> string \<Rightarrow> nat \<Rightarrow> ('e, bool) op" where
  "acceptLogon fuel wire responder =
     sbind (sget (\<lambda>w. isSessionRegistered (m_sessionID w) (s_registry w))) (\<lambda>already.
     if already then sreturn False
     else
     sbind utc_now (\<lambda>now.
     sbind (read_logon wire now) (\<lambda>r.
       case r of None \<Rightarrow> sreturn False | Some l \<Rightarrow> accept_read fuel wire responder now l)))"

section \<open>Sending to a session by its identifier\<close>

text \<open>\<open>sendToTarget\<close>: the sessions by their address, as a function; the one that is found sends.\<close>

definition sendToTarget_id :: "message \<Rightarrow> session_id \<Rightarrow> nat session_registry \<Rightarrow> (message \<times> nat) result" where
  "sendToTarget_id m i r =
     (case lookupSession i r of None \<Rightarrow> Inl SessionNotFound | Some p \<Rightarrow> Inr (setSessionID i m, p))"

definition sendToTarget :: "message \<Rightarrow> string \<Rightarrow> nat session_registry \<Rightarrow> (message \<times> nat) result" where
  "sendToTarget m qualifier r =
     (case getSessionID qualifier m of
        Inl (FieldNotFound _) \<Rightarrow> Inl SessionNotFound
      | Inl e \<Rightarrow> Inl e
      | Inr i \<Rightarrow> sendToTarget_id m i r)"

definition sendToTarget_names :: "message \<Rightarrow> string \<Rightarrow> string \<Rightarrow> string \<Rightarrow> nat session_registry \<Rightarrow> (message \<times> nat) result" where
  "sendToTarget_names m sender target qualifier r =
     sendToTarget (set_header (FieldBase F_TargetCompID target) (set_header (FieldBase F_SenderCompID sender) m)) qualifier r"

end
