(* ===== verification/SessionRelations.thy ===== *)
theory SessionRelations
  imports SessionLives
begin

text \<open>
  What all methods of a session share. A relation between the session before a method and
  after it (and whether the bound on the recursion of the model was exhausted) that is
  reflexive, composes, and holds for the elementary changes of the session, holds for
  every method. The locales state the elementary changes as their laws; every invariant of
  sessions is an interpretation of one of them.
\<close>

named_theorems session_first \<open>rules for methods that return a message\<close>
named_theorems session_rules \<open>rules for all methods\<close>

definition related :: "('e session \<Rightarrow> bool \<Rightarrow> 'e session \<Rightarrow> bool) \<Rightarrow> ('e, 'a) op \<Rightarrow> bool" where
  "related R m \<longleftrightarrow> (\<forall>w. R w (fst (m w) = Inl OutOfFuel) (snd (m w)))"

lemmas related_splits =
  option.split [where P = "related R" for R, THEN iffD2]
  sum.split [where P = "related R" for R, THEN iffD2]
  prod.split [where P = "related R" for R, THEN iffD2]
  exn.split [where P = "related R" for R, THEN iffD2]
  if_split [where P = "related R" for R, THEN iffD2]

section \<open>Messages a session sends\<close>

text \<open>A header in which tags are looked up as they should be: the one every message starts with.\<close>

definition header_ok :: "message \<Rightarrow> bool" where
  "header_ok m \<longleftrightarrow> fm_inv (m_header m)"

lemma header_ok_set [session_rules]: "header_ok m \<Longrightarrow> header_ok (set_header f m)" "header_ok m \<Longrightarrow> header_ok (set_body f m)"
  by (simp_all add: header_ok_def set_header_def set_body_def)

lemmas header_ok_splits [session_rules] =
  option.split [where P = header_ok, THEN iffD2] if_split [where P = header_ok, THEN iffD2]

lemma header_ok_new: "newMessage msgType w = Inr m \<Longrightarrow> header_ok m"
  by (auto simp: newMessage_def Let_def header_ok_def set_header_def Message_new_def Message_of_orders_def
      getHeaderOrderedFields_def rbind_Inr split: if_splits)

lemma fm_inv_copy_route: "fm_inv h \<Longrightarrow> fm_inv (copy_route a b other h)"
  by (simp add: copy_route_def split: option.split)

lemma fm_inv_removeField: "fm_inv fm \<Longrightarrow> fm_inv (removeField t fm)"
  by (rule fm.inv_remove)

lemma fm_inv_removeFields: "fm_inv fm \<Longrightarrow> fm_inv (fold removeField ts fm)"
  by (induction ts arbitrary: fm) (simp_all add: fm_inv_removeField)

lemma header_ok_reverseRoute [session_rules]: "header_ok m \<Longrightarrow> header_ok (reverseRoute other m)"
  by (simp add: header_ok_def reverseRoute_def Let_def fm_inv_copy_route fm_inv_removeFields setField_tag_def
      del: fold.simps split: option.split)

section \<open>The laws\<close>

text \<open>
  A change of the state that touches neither the store nor the queue nor whether there is a
  log, and does not record that a Logon was received.
\<close>

definition bookkeeping :: "(session_state \<Rightarrow> session_state) \<Rightarrow> bool" where
  "bookkeeping f \<longleftrightarrow> (\<forall>s. m_pStore (f s) = m_pStore s \<and> m_queue (f s) = m_queue s \<and> m_pLog (f s) = m_pLog s \<and>
     (m_receivedLogon (f s) \<longrightarrow> m_receivedLogon s))"

text \<open>A call that does not deliver a message of the application; the lines of a log are redacted.\<close>

fun redacted_call :: "call \<Rightarrow> bool" where
  "redacted_call (LogIncoming s) \<longleftrightarrow> s \<in> range redactLogonCredentials"
| "redacted_call (LogOutgoing s) \<longleftrightarrow> s \<in> range redactLogonCredentials"
| "redacted_call (LogEvent s) \<longleftrightarrow> s \<in> range redactLogonCredentials"
| "redacted_call _ \<longleftrightarrow> True"

definition elementary_call :: "call \<Rightarrow> bool" where
  "elementary_call c \<longleftrightarrow> redacted_call c \<and> (\<forall>m. c \<noteq> FromApp m)"

locale session_effects =
  fixes R :: "'e session \<Rightarrow> bool \<Rightarrow> 'e session \<Rightarrow> bool"
  assumes same: "R w False w"
    and chain: "R w False w' \<Longrightarrow> R w' b w'' \<Longrightarrow> R w b w''"
    and bookkeeping: "bookkeeping f \<Longrightarrow> R w False (w\<lparr>m_state := f (m_state w)\<rparr>)"
    and outside: "list_all elementary_call c \<Longrightarrow> R w False (w\<lparr>environment := e, calls := calls w @ c\<rparr>)"
    and responder: "R w False (w\<lparr>m_pResponder := r\<rparr>)"
    and registry: "R w False (w\<lparr>s_registry := g\<rparr>)"
    and version: "R w False (w\<lparr>m_targetDefaultApplVerID := v\<rparr>)"
    and target_up: "related R incrNextTargetMsgSeqNum"
    and target_set: "related R (setNextTargetMsgSeqNum n)"
    and store_reset: "related R (state_reset t)"
    and dequeue: "related R (state_update clearQueue)" "related R (state_update (clearQueueUpTo n))"
begin

lemma related_pure [session_rules]: "related R (sreturn a)" "related R (sthrow e)" "related R (sget f)" "related R (sresult r)"
  "related R (state_get h)" "related R getExpectedTargetNum" "related R getExpectedSenderNum"
  by (simp_all add: related_def sreturn_def sthrow_def sget_def sresult_def state_get_def getExpectedTargetNum_def
      getExpectedSenderNum_def same split: sum.split)

lemma related_bind [session_rules]:
  assumes "related R m" "\<And>a. related R (k a)"
  shows "related R (sbind m k)"
  unfolding related_def
proof
  fix w
  obtain r w' where m: "m w = (r, w')" by (cases "m w") auto
  have first: "R w (r = Inl OutOfFuel) w'" using assms(1) m by (simp add: related_def) (metis fst_conv snd_conv)
  show "R w (fst (sbind m k w) = Inl OutOfFuel) (snd (sbind m k w))"
  proof (cases r)
    case (Inl e)
    then show ?thesis using first m by (simp add: sbind_def)
  next
    case (Inr a)
    then have "R w False w'" using first by simp
    then show ?thesis using chain assms(2) [of a] Inr m by (simp add: sbind_def related_def)
  qed
qed

lemma related_catch [session_rules]:
  assumes "related R m" "\<And>e. related R (h e)"
  shows "related R (scatch m h)"
  unfolding related_def
proof
  fix w
  obtain r w' where m: "m w = (r, w')" by (cases "m w") auto
  have first: "R w (r = Inl OutOfFuel) w'" using assms(1) m by (simp add: related_def) (metis fst_conv snd_conv)
  show "R w (fst (scatch m h w) = Inl OutOfFuel) (snd (scatch m h w))"
  proof (cases "\<exists>e. r = Inl (Threw e)")
    case True
    then obtain e where e: "r = Inl (Threw e)" by blast
    then have "R w False w'" using first by simp
    then show ?thesis using chain assms(2) [of e] e m by (simp add: scatch_def related_def)
  next
    case False
    then have "scatch m h w = (r, w')" using m by (cases r) (auto simp: scatch_def split: fault.split)
    then show ?thesis using first by simp
  qed
qed

lemma related_when [session_rules]: "related R m \<Longrightarrow> related R (swhen b m)"
  unfolding swhen_def by (simp add: related_pure)

lemma related_sand [session_rules]: "related R a \<Longrightarrow> related R b \<Longrightarrow> related R (sand a b)"
  unfolding sand_def by (rule related_bind) (simp_all add: related_pure)

lemma related_steps [session_rules]: "related R (steps [])" "related R m \<Longrightarrow> related R (steps ms) \<Longrightarrow> related R (steps (m # ms))"
  by (simp_all add: related_pure related_bind)

lemmas related_case [session_rules] = related_splits [where R = R] conjI allI impI

lemma related_bookkeeping: "bookkeeping f \<Longrightarrow> related R (state_update f)"
  using bookkeeping by (simp add: related_def state_update_def)

lemma related_set [session_rules]: "related R (set_receivedLogon False)" "related R (set_sentLogon b)" "related R (set_sentLogout b)"
  "related R (set_receivedReset b)" "related R (set_sentReset b)" "related R (set_testRequest n)"
  "related R (set_resendRange x y)" "related R (set_heartBtInt f)" "related R (set_lastSentTime t)"
  "related R (set_lastReceivedTime t)" "related R Session_logon" "related R (Session_logout reason)"
  by (simp_all add: set_receivedLogon_def set_sentLogon_def set_sentLogout_def set_receivedReset_def set_sentReset_def
      set_testRequest_def set_resendRange_def set_heartBtInt_def set_lastSentTime_def set_lastReceivedTime_def
      Session_logon_def Session_logout_def related_bookkeeping bookkeeping_def)

lemma related_members [session_rules]: "related R (set_responder r)" "related R (set_targetDefaultApplVerID v)" "related R refresh"
  using responder version bookkeeping [of "\<lambda>s. s\<lparr>m_pStore := ms_refresh (m_pStore s)\<rparr>"]
  by (simp_all add: related_def set_responder_def set_targetDefaultApplVerID_def refresh_def store_update_def state_update_def
      bookkeeping_def ms_refresh_def)

lemma related_registry [session_rules]: "related R (registry_update f)"
  using registry by (simp add: related_def registry_update_def split_beta)

lemmas related_laws [session_rules] = target_up target_set store_reset dequeue

lemma related_outside: "list_all elementary_call c \<Longrightarrow> related R (outside_call c f)"
  using outside by (simp add: related_def outside_call_def split_beta split: sum.split)

lemma related_log: "(\<And>t. elementary_call (c (redactLogonCredentials t))) \<Longrightarrow> related R (log_call c s)"
  unfolding log_call_def by (intro related_bind related_when related_outside) (simp_all add: related_pure)

lemma related_calls [session_rules]: "related R (onEvent s)" "related R (onIncoming s)" "related R (onOutgoing s)"
  "related R timestamp" "related R utc_now" "related R (toAdmin m)" "related R (toApp m)" "related R (fromAdmin m)"
  "related R onCreate" "related R onLogon" "related R onLogout" "related R (pResponder_send r s)"
  "related R (pResponder_disconnect r)"
  by (simp_all add: onEvent_def onIncoming_def onOutgoing_def timestamp_def utc_now_def toAdmin_def toApp_def fromAdmin_def
      onCreate_def onLogon_def onLogout_def pResponder_send_def pResponder_disconnect_def related_log related_outside
      elementary_call_def)

lemma related_fields [session_rules]: "related R (field_of t fm)" "related R (as_seqnum f)" "related R (as_int f)"
  "related R (as_bool f)" "related R (as_time f)"
  by (simp_all add: field_of_def as_seqnum_def as_int_def as_bool_def as_time_def related_pure)

text \<open>The methods that return a message: what follows may rely on its header.\<close>

lemma header_ok_fill: "header_ok m \<Longrightarrow> fst (fill m w) = Inr m' \<Longrightarrow> header_ok m'"
  unfolding fill_def sbind_def insertSendingTime_def
  by (auto simp: set_lastSentTime_def state_update_def sget_def sreturn_def header_ok_set split: prod.splits sum.splits)

lemma related_insert [session_rules]: "related R (insertSendingTime m)" "related R (insertOrigSendingTime t m)" "related R (fill m)"
  unfolding insertSendingTime_def insertOrigSendingTime_def fill_def by (intro session_rules)+

lemma related_new_message: "related R (new_message msgType)"
  unfolding new_message_def by (intro session_rules)

lemma related_bind_value:
  assumes "related R m" "\<And>w a. fst (m w) = Inr a \<Longrightarrow> P a" "\<And>a. P a \<Longrightarrow> related R (k a)"
  shows "related R (sbind m k)"
proof -
  have "related R (sbind m (\<lambda>a. if P a then k a else sreturn undefined))"
    by (intro related_bind assms) (simp add: assms(3) related_pure)
  moreover have "sbind m (\<lambda>a. if P a then k a else sreturn undefined) = sbind m k"
    using assms(2) by (auto simp: sbind_def fun_eq_iff split: prod.split sum.split) (metis fst_conv)
  ultimately show ?thesis by simp
qed

lemma related_bind_new [session_first]:
  "(\<And>m. header_ok m \<Longrightarrow> related R (k m)) \<Longrightarrow> related R (sbind (new_message msgType) k)"
  by (rule related_bind_value [OF related_new_message, where P = header_ok])
    (auto simp: new_message_def sbind_def sget_def sresult_def sthrow_def sreturn_def header_ok_new split: sum.splits)

lemma related_bind_fill [session_first]:
  "header_ok m \<Longrightarrow> (\<And>m'. header_ok m' \<Longrightarrow> related R (k m')) \<Longrightarrow> related R (sbind (fill m) k)"
  by (rule related_bind_value [OF related_insert(3), where P = header_ok]) (auto intro: header_ok_fill)

lemma related_bind_insert [session_first]:
  "header_ok m \<Longrightarrow> (\<And>m'. header_ok m' \<Longrightarrow> related R (k m')) \<Longrightarrow> related R (sbind (insertOrigSendingTime t m) k)"
  by (rule related_bind_value [OF related_insert(2), where P = header_ok])
    (auto simp: insertOrigSendingTime_def sbind_def sget_def sreturn_def header_ok_set)

lemma related_bind_reason [session_first]:
  assumes "header_ok m" "\<And>m'. header_ok m' \<Longrightarrow> related R (k m')"
  shows "related R (sbind (reject_reason reason b field n m) k)"
proof (rule related_bind_value [where P = header_ok])
  show "related R (reject_reason reason b field n m)"
    unfolding reject_reason_def by (intro session_rules)+
  show "header_ok m'" if "fst (reject_reason reason b field n m w) = Inr m'" for w m'
    using that assms(1)
    by (auto simp: reject_reason_def sbind_def sget_def sreturn_def sresult_def sthrow_def populateRejectReason_def rbind_Inr
        header_ok_set split: option.splits if_splits prod.splits sum.splits)
qed (rule assms(2))

lemma related_construct [session_rules]: "related R (Session_construct me)"
  unfolding Session_construct_def by (intro session_rules)+

end

section \<open>What a session sends\<close>

locale session_core = session_effects +
  assumes send: "header_ok m \<Longrightarrow> related R (sendRaw m n)"
begin

lemmas related_send_law [session_rules] = send

lemma related_send_admin_message [session_rules]: "header_ok m \<Longrightarrow> related R (send_admin_message m)"
  unfolding send_admin_message_def by (intro session_rules)

lemma related_sends [session_rules]: "related R (send_text s)" "related R (disconnect_with b)"
  unfolding send_text_def disconnect_with_def by (intro session_rules)+

lemma related_disconnect [session_rules]: "related R disconnect" "related R disconnectIfConnected"
  unfolding disconnect_def disconnectIfConnected_def by (intro session_rules)+

lemma related_generated [session_rules]:
  "related R generateLogon" "related R (generateLogon_reply m)" "related R (generateResendRequest b f)"
  "related R (generateSequenceReset x y)" "related R generateHeartbeat" "related R (generateHeartbeat_reply m)"
  "related R (generateTestRequest i)" "related R (generateLogout reason)"
  unfolding generateLogon_def generateLogon_reply_def generateResendRequest_def generateSequenceReset_def generateHeartbeat_def
    generateHeartbeat_reply_def generateTestRequest_def generateLogout_def Let_def
  by ((rule session_first | assumption | rule session_rules)+)

lemma related_rejects [session_rules]:
  "related R (generateReject m err field)" "related R (generateReject_text m reason)" "related R (generateBusinessReject m err field)"
  unfolding generateReject_def generateReject_text_def generateBusinessReject_def Let_def
  by ((rule session_first | assumption | rule session_rules)+)

lemma related_checks [session_rules]:
  "related R (isGoodTime f)" "related R (isTargetTooHigh f)" "related R (isTargetTooLow f)" "related R (doBadTime m)" "related R (doBadCompID m)" "related R (doPossDup m)" "related R (doTargetTooLow m)"
  unfolding isGoodTime_def isTargetTooHigh_def isTargetTooLow_def doBadTime_def doBadCompID_def doPossDup_def
    doTargetTooLow_def Let_def
  by ((rule session_first | assumption | rule session_rules)+)

lemma related_retransmits [session_rules]: "related R (resend m)" "related R (stored_message s)"
  unfolding resend_def stored_message_def Let_def
  by (intro session_rules)+

lemma related_retransmit_loop [session_rules]: "related R (retransmit_loop ss v)"
proof (induction ss arbitrary: v)
  case (Cons s ss)
  show ?case
    unfolding retransmit_loop.simps Let_def by ((rule Cons | rule session_rules)+)
qed (simp add: related_pure)

lemma related_retransmit [session_rules]: "related R (generateRetransmits b e)" "related R (retransmit_or_fill b e)"
  unfolding retransmit_or_fill_def generateRetransmits_def by (intro session_rules)+

lemma related_whole [session_rules]: "related R Session_reset" "related R (setResponder r)" "related R (next_heartbeats now)"
  "related R (next_time now later)"
  unfolding Session_reset_def setResponder_def next_time_def next_time_try_def next_heartbeats_def deadline_def
  by (intro session_rules)+

end

text \<open>Where storing a message is an elementary change, sending one is covered.\<close>

locale session_persisting = session_effects +
  assumes persist: "related R (persist m s)"
begin

lemma related_sendRaw: "related R (sendRaw m n)"
  unfolding sendRaw_def send_admin_def send_app_def reset_on_sent_logon_def send_text_def Let_def
  by ((rule persist | rule session_rules)+)

end

sublocale session_persisting \<subseteq> session_core
  by unfold_locales (rule related_sendRaw)

section \<open>What a session does with a message\<close>

text \<open>The number a message carries.\<close>

definition own_number :: "message \<Rightarrow> seqnum result" where
  "own_number m = rbind (getFieldRef F_MsgSeqNum (m_header m)) SeqNumField_getValue"

text \<open>With a law for the queue: the checks of a message.\<close>

locale session_queueing = session_core +
  assumes enqueue: "own_number m = Inr n \<Longrightarrow> related R (state_update (queue_put n m))"
begin

text \<open>What a field is converted to is known afterwards.\<close>

lemma related_bind_number:
  assumes "getFieldRef F_MsgSeqNum (m_header m) = Inr f" "\<And>n. own_number m = Inr n \<Longrightarrow> related R (k n)"
  shows "related R (sbind (as_seqnum f) k)"
  by (rule related_bind_value [OF related_fields(2), where P = "\<lambda>n. own_number m = Inr n"])
    (use assms in \<open>auto simp: as_seqnum_def sresult_def own_number_def sreturn_def sthrow_def split: sum.splits\<close>)

lemma related_bind_seq_field:
  assumes "\<And>f. getFieldRef F_MsgSeqNum (m_header m) = Inr f \<Longrightarrow> related R (k f)"
  shows "related R (sbind (field_of F_MsgSeqNum (m_header m)) k)"
  by (rule related_bind_value [OF related_fields(1), where P = "\<lambda>f. getFieldRef F_MsgSeqNum (m_header m) = Inr f"])
    (use assms in \<open>auto simp: field_of_def sresult_def sreturn_def sthrow_def split: sum.splits\<close>)

lemma related_target_too_high [session_rules]: "related R (doTargetTooHigh m)"
  unfolding doTargetTooHigh_def
  by ((rule related_bind_seq_field | (rule related_bind_number, assumption) | (rule enqueue, assumption) | rule session_rules)+)

lemma related_verify_checks [session_rules]: "related R (verify_checks m h l)"
  unfolding verify_checks_def by (intro session_rules)+

lemma related_logon_sequence: "related R nq \<Longrightarrow> related R (nextLogon_sequence nq m f)"
  unfolding nextLogon_sequence_def
  by ((rule related_bind_seq_field | (rule related_bind_number, assumption) | (rule enqueue, assumption) | assumption | rule session_rules)+)

lemma related_logon_parts [session_rules]: "related R (nextLogon_reply m)" "related R (nextLogon_retransmit n)" "related R (reset_store_when c)"
  unfolding nextLogon_reply_def nextLogon_retransmit_def reset_store_when_def by (intro session_rules)+

end

text \<open>With a law for messages that pass all checks: the handlers of all messages but the Logon.\<close>

locale session_verifying = session_queueing +
  assumes verified: "related R (verify m h l c)"
begin

lemmas related_verified [session_rules] = verified

lemma related_handlers: "related R nq \<Longrightarrow> related R (nextHeartbeat nq m)" "related R nq \<Longrightarrow> related R (nextTestRequest nq m)"
  "related R nq \<Longrightarrow> related R (nextReject nq m)" "related R nq \<Longrightarrow> related R (nextSequenceReset nq m)"
  unfolding nextHeartbeat_def nextTestRequest_def nextReject_def nextSequenceReset_def
  by ((assumption | rule session_rules)+)

lemma related_nextLogout [session_rules]: "related R (nextLogout m)" "related R (nextResendRequest m)"
  unfolding nextLogout_def nextResendRequest_def Let_def by (intro session_rules)+

lemma related_fromCallback_logon [session_rules]: "related R (fromCallback MsgType_Logon m)"
  unfolding fromCallback_def by (simp add: isAdminMsgType_def related_calls)

lemma related_admission [session_rules]: "related R (authenticateLogon m now)" "related R (admit_logon m now)" "related R (validate_received m)"
  unfolding authenticateLogon_def admit_logon_def validate_received_def Let_def by (intro session_rules)+

lemma related_next_dispatch: "t \<noteq> MsgType_Logon \<Longrightarrow> related R nq \<Longrightarrow> related R (next_dispatch nq m now t)"
  unfolding next_dispatch_def
  by ((simp only: if_False) | (rule related_handlers | assumption | rule session_rules)+)+

lemma related_next_admitted: "t \<noteq> MsgType_Logon \<Longrightarrow> related R nq \<Longrightarrow> related R (next_admitted nq m now t b)"
  unfolding next_admitted_def
  by ((simp only: if_False simp_thms) | (rule related_next_dispatch, assumption) | assumption | rule session_rules)+

lemma related_next_catch [session_rules]: "related R (next_catch m e)"
  unfolding next_catch_def logex_def business_level_def by (intro session_rules)+

lemma related_admission_parts [session_rules]: "related R (read_logon wire now)" "related R (refuseLogon wire r reason)"
  "related R (release_logon p b)"
  unfolding refuseLogon_def read_logon_def release_logon_def by (intro session_rules)+

end

text \<open>With laws for the Logon and for the delivery of a message: what a session does with any message.\<close>

locale session_handlers = session_queueing +
  assumes received: "related R (set_receivedLogon True)"
    and deliver: "related R (fromApp m)"
begin

lemma related_deliver [session_rules]: "related R (set_receivedLogon True)" "related R (fromCallback t m)"
  unfolding fromCallback_def by (intro session_rules received deliver)+

lemma related_verify: "related R (verify m h l c)"
  unfolding verify_def by (intro session_rules)+

end

sublocale session_handlers \<subseteq> session_verifying
  by unfold_locales (rule related_verify)

context session_handlers
begin

lemma related_nextLogon: "related R nq \<Longrightarrow> related R (nextLogon_accepted nq m f)" "related R nq \<Longrightarrow> related R (nextLogon nq m now)"
  unfolding nextLogon_def nextLogon_accepted_def Let_def
  by ((rule related_logon_sequence | assumption | rule session_rules)+)

lemma related_next_try: "related R nq \<Longrightarrow> related R (next_dispatch nq m now t)"
  "related R nq \<Longrightarrow> related R (next_admitted nq m now t v)" "related R nq \<Longrightarrow> related R (next_try nq m now b)"
  unfolding next_try_def next_admitted_def next_dispatch_def Let_def
  by ((rule related_nextLogon related_handlers | assumption | rule session_rules)+)

lemma related_next_message_with: "related R nq \<Longrightarrow> related R (next_message_with nq m now q b)"
  unfolding next_message_with_def by ((rule related_next_try | assumption | rule session_rules)+)

end

text \<open>With laws for taking a message from the queue and for an exhausted bound: all methods.\<close>

locale session_relation = session_handlers +
  assumes take: "related R (state_update (\<lambda>s. snd (retrieve n s)))"
    and exhausted: "R w True w"
begin

lemma related_nextQueued [session_rules]: "related R (nextQueued fuel now)"
proof (induction fuel)
  case 0
  then show ?case by (simp add: related_def exhausted)
next
  case (Suc fuel)
  show ?case
    unfolding nextQueued.simps nextQueued_one_def
    by ((rule Suc related_next_message_with take | rule session_rules)+)
qed

lemma related_next [session_rules]: "related R (next_message fuel m now q b)" "related R (next_text fuel s now q)"
  unfolding next_message_def next_text_def
  by ((rule related_next_message_with | rule session_rules)+)

lemma related_acceptLogon [session_rules]: "related R (accept_read fuel wire r now l)" "related R (acceptLogon fuel wire r)"
  unfolding acceptLogon_def accept_read_def admitted_logon_def by (intro session_rules)+

lemma related_Session_send: "header_ok m \<Longrightarrow> related R (Session_send m)"
  unfolding Session_send_def by (rule send) (simp add: header_ok_def fm_inv_removeField)

end

section \<open>The life of a session\<close>

text \<open>
  What can happen to a session that was constructed and then configured in any way, one step
  at a time. The store's numbers can also be set from
  outside (\<open>setNextSenderMsgSeqNum\<close>, \<open>setNextTargetMsgSeqNum\<close>); those steps are left out.
\<close>

inductive session_step :: "'e session \<Rightarrow> 'e session \<Rightarrow> bool" where
  step_message: "session_step w (snd (next_message fuel m now False False w))"
| step_text: "session_step w (snd (next_text fuel s now False w))"
| step_time: "session_step w (snd (next_time now now w))"
| step_accept: "session_step w (snd (acceptLogon fuel wire r w))"
| step_send: "header_ok m \<Longrightarrow> session_step w (snd (Session_send m w))"
| step_logon: "session_step w (snd (Session_logon w))"
| step_logout: "session_step w (snd (Session_logout reason w))"
| step_responder: "session_step w (snd (setResponder r w))"
| step_disconnect: "session_step w (snd (disconnect w))"
| step_disconnect_if: "session_step w (snd (disconnectIfConnected w))"
| step_reset: "session_step w (snd (Session_reset w))"
| step_refresh: "session_step w (snd (refresh w))"

inductive session_reachable :: "'e session \<Rightarrow> 'e session \<Rightarrow> bool" for w0 where
  reachable_constructed: "configured (snd (Session_construct me w0)) w \<Longrightarrow> session_reachable w0 w"
| reachable_step: "session_reachable w0 w \<Longrightarrow> session_step w w' \<Longrightarrow> session_reachable w0 w'"

context session_relation
begin

lemma relatedD: "related R m \<Longrightarrow> \<exists>b. R w b (snd (m w))"
  unfolding related_def by blast

lemma related_step: "session_step w w' \<Longrightarrow> \<exists>b. R w b w'"
  by (induction rule: session_step.induct)
    (rule relatedD, (assumption | rule related_Session_send | rule session_rules)+)+

end

end
