(* ===== verification/SessionInvariants.thy ===== *)
theory SessionInvariants
  imports SessionRelations
begin

text \<open>
  Invariants of every session, whatever it receives and whatever the application does: its
  containers are well formed, and what it logs is redacted.
\<close>

section \<open>Well-formed sessions\<close>

definition session_wf :: "'e session \<Rightarrow> bool" where
  "session_wf w \<longleftrightarrow>
     map_sorted (ms_messages (m_pStore (m_state w))) \<and> map_sorted (m_queue (m_state w)) \<and>
     (\<forall>(n, m)\<in>set (m_queue (m_state w)). own_number m = Inr n)"

definition session_ok :: "'e session \<Rightarrow> bool" where
  "session_ok w \<longleftrightarrow> session_wf w \<and> list_all redacted_call (calls w)"

definition keeps_ok :: "'e session \<Rightarrow> bool \<Rightarrow> 'e session \<Rightarrow> bool" where
  "keeps_ok w b w' \<longleftrightarrow> session_ok w \<longrightarrow> session_ok w'"

lemma session_ok_update:
  "m_pStore s = m_pStore (m_state w) \<Longrightarrow> m_queue s = m_queue (m_state w) \<Longrightarrow> session_ok (w\<lparr>m_state := s\<rparr>) = session_ok w"
  by (simp add: session_ok_def session_wf_def)

lemma map_sorted_dropWhile: "map_sorted xs \<Longrightarrow> map_sorted (dropWhile P xs)"
  unfolding map_sorted_def sorted_wrt_map by (induction xs) auto

lemma dropWhile_subset: "set (dropWhile P xs) \<subseteq> set xs"
  by (auto dest: set_dropWhileD)

lemmas store_ops = store_update_def state_update_def ms_incrNextTarget_def ms_incrNextSender_def ms_setNextTarget_def
  ms_reset_def ms_set_def

interpretation ok_effects: session_effects keeps_ok
proof
  show "related keeps_ok incrNextTargetMsgSeqNum" "related keeps_ok (setNextTargetMsgSeqNum n)" "related keeps_ok (state_reset t)"
    for n t
    by (auto simp: related_def keeps_ok_def incrNextTargetMsgSeqNum_def setNextTargetMsgSeqNum_def state_reset_def store_ops
        session_ok_def session_wf_def map_sorted_def)
  show "related keeps_ok (state_update clearQueue)"
    by (auto simp: related_def keeps_ok_def state_update_def clearQueue_def session_ok_def session_wf_def map_sorted_def)
  show "related keeps_ok (state_update (clearQueueUpTo n))" for n
    using dropWhile_subset
    by (fastforce simp: related_def keeps_ok_def state_update_def clearQueueUpTo_def session_ok_def session_wf_def
        map_sorted_dropWhile)
  show "keeps_ok w False (w\<lparr>m_state := f (m_state w)\<rparr>)" if "bookkeeping f" for f and w :: "'a session"
    using that by (simp add: keeps_ok_def session_ok_update bookkeeping_def)
  show "keeps_ok w False (w\<lparr>environment := e, calls := calls w @ c\<rparr>)" if "list_all elementary_call c" for c e and w :: "'a session"
  proof -
    have "list_all redacted_call c" using that by (simp add: list_all_iff elementary_call_def)
    then show ?thesis by (simp add: keeps_ok_def session_ok_def session_wf_def)
  qed
  show "keeps_ok w False w" "keeps_ok w False w' \<Longrightarrow> keeps_ok w' b w'' \<Longrightarrow> keeps_ok w b w''" for w w' w'' :: "'a session" and b
    by (simp_all add: keeps_ok_def)
  show "keeps_ok w False (w\<lparr>m_pResponder := r\<rparr>)" "keeps_ok w False (w\<lparr>s_registry := g\<rparr>)"
    "keeps_ok w False (w\<lparr>m_targetDefaultApplVerID := v\<rparr>)" for w :: "'a session" and r g v
    by (simp_all add: keeps_ok_def session_ok_def session_wf_def)
qed

interpretation ok: session_persisting keeps_ok
proof
  have "related keeps_ok (store_update (\<lambda>s. snd (ms_set n t s)))" "related keeps_ok incrNextSenderMsgSeqNum" for n t
    by (auto simp: related_def keeps_ok_def incrNextSenderMsgSeqNum_def store_ops session_ok_def session_wf_def)
  then show "related keeps_ok (persist m s)" for m s
    unfolding persist_def by (intro ok_effects.related_bind ok_effects.related_when ok_effects.related_fields ok_effects.related_pure)
qed

interpretation ok: session_relation keeps_ok
proof
  show "own_number m = Inr n \<Longrightarrow> related keeps_ok (state_update (queue_put n m))" for m n
    using set_map_put [of n m]
    by (fastforce simp: related_def keeps_ok_def state_update_def queue_put_def session_ok_def session_wf_def)
  show "related keeps_ok (set_receivedLogon True)"
    by (simp add: related_def keeps_ok_def set_receivedLogon_def state_update_def session_ok_def session_wf_def)
  show "related keeps_ok (fromApp m)" for m
    by (simp add: related_def keeps_ok_def fromApp_def outside_call_def session_ok_def session_wf_def split_beta)
  show "related keeps_ok (state_update (\<lambda>s. snd (retrieve n s)))" for n
    by (auto simp: related_def keeps_ok_def state_update_def retrieve_def session_ok_def session_wf_def map_erase_def
        dest: map_erase_sorted [unfolded map_erase_def, where k = n] split: option.split)
qed (simp add: keeps_ok_def)

lemma session_ok_new: "session_ok (Session_members out i provider st hb logged detached now created registry e)"
  by (simp add: session_ok_def session_wf_def Session_members_def SessionState_def MemoryStore_def map_sorted_def)

lemma session_ok_reachable: "session_reachable w0 w \<Longrightarrow> session_ok w0 \<Longrightarrow> session_ok w"
proof (induction rule: session_reachable.induct)
  case (reachable_constructed me w)
  then show ?case using ok.relatedD [OF ok_effects.related_construct, of w0 me] configured_keeps [OF reachable_constructed(1)]
    by (simp add: keeps_ok_def session_ok_def session_wf_def)
next
  case (reachable_step w w')
  then show ?case using ok.related_step [of w w'] by (auto simp: keeps_ok_def)
qed

lemma session_ok_life:
  assumes "session_reachable w0 w"
    and "w0 = Session_members out i provider st hb logged detached now created registry e"
  shows "session_ok w"
  using session_ok_reachable [OF assms(1)] assms(2) by (simp add: session_ok_new)

section \<open>Properties\<close>

text \<open>A session of the engine: some members the constructor can start from.\<close>

definition sample_time :: date_time where "sample_time = DateTime 2460000 0"

definition sample_outside :: "nat outside" where
  "sample_outside =
     \<lparr>m_timestamper = (\<lambda>e. (add_seconds (int e) sample_time, e + 1)), system_now = (\<lambda>e. (sample_time, e)),
      app_onCreate = (\<lambda>e. (Inr (), e)), app_onLogon = (\<lambda>e. (Inr (), e)), app_onLogout = (\<lambda>e. (Inr (), e)),
      app_toAdmin = (\<lambda>m e. (Inr m, e)), app_toApp = (\<lambda>m e. (Inr m, e)),
      app_fromAdmin = (\<lambda>m e. (Inr (), e)), app_fromApp = (\<lambda>m e. (Inr (), e)),
      responder_send = (\<lambda>r s e. (True, e)), responder_disconnect = (\<lambda>r e. e), localtime = (\<lambda>t. sample_time)\<rparr>"

definition sample_session :: "nat session" where
  "sample_session = Session_members sample_outside (SessionID ''FIX.4.2'' ''ME'' ''YOU'' [])
     \<lparr>m_transportDictionaries = [], m_applicationDictionaries = []\<rparr>
     (TimeRange False (DateTime 0 0) (DateTime 0 0) (- 1) (- 1)) 0 True False sample_time sample_time registry_empty 0"

text \<open>What happens to the sample session: a connection, a Logon with a password, a tick.\<close>

definition sample_logon :: string where
  "sample_logon = ''8=FIX.4.2'' @ [SOH] @ ''9=67'' @ [SOH] @ ''35=A'' @ [SOH] @ ''34=1'' @ [SOH] @ ''49=YOU'' @ [SOH] @
     ''52=20230224-00:00:00'' @ [SOH] @ ''56=ME'' @ [SOH] @ ''98=0'' @ [SOH] @ ''108=30'' @ [SOH] @ ''554=secret'' @ [SOH] @
     ''10=019'' @ [SOH]"

definition sample_life :: "nat session" where
  "sample_life = snd (next_time sample_time sample_time (snd (next_text 3 sample_logon sample_time False
     (snd (setResponder (Some 7) (snd (Session_construct 1 sample_session)))))))"

lemma sample_life_reachable: "session_reachable sample_session sample_life"
  unfolding sample_life_def
  by (rule reachable_step [OF reachable_step [OF reachable_step [OF reachable_constructed [OF configured_none] step_responder] step_text] step_time])

lemma sample_session_ok: "session_ok sample_session"
  unfolding sample_session_def by (rule session_ok_new)

text \<open>C4: in every state a session can reach, by any sequence of received messages, ticks of the
  clock, messages sent, connections and disconnections, and whatever the application, the
  clock and the transport do, the messages in the store and in the queue are each there once
  and in the order of their numbers, and a queued message is filed under the number it
  carries itself.\<close>

theorem session_well_formed:
  assumes "session_reachable w0 w"
    and "w0 = Session_members out i provider st hb logged detached now created registry e"
  shows "map_sorted (ms_messages (m_pStore (m_state w))) \<and> map_sorted (m_queue (m_state w)) \<and>
    (\<forall>(n, m)\<in>set (m_queue (m_state w)). own_number m = Inr n)"
  using session_ok_life [OF assms] by (simp add: session_ok_def session_wf_def)

theorem session_well_formed_witness:
  "map_sorted (ms_messages (m_pStore (m_state sample_life))) \<and> map_sorted (m_queue (m_state sample_life))"
  using session_well_formed [OF sample_life_reachable sample_session_def] by blast

text \<open>C5: no line a session gives to its log, received text, sent text or event, shows a
  credential: in every field of the line whose tag, what stands before its first equals sign, is a numeral of
  the value 553 or 554 (leading zeros included) there is only the word \<open><redacted>\<close>.\<close>

theorem logs_show_no_credentials:
  assumes "session_reachable w0 w"
    and "w0 = Session_members out i provider st hb logged detached now created registry e"
    and "c \<in> set (calls w)" "c \<in> {LogIncoming line, LogOutgoing line, LogEvent line}"
    and "tag @ CHR ''='' # v \<in> set (fields_of line)" "CHR ''='' \<notin> set tag" "dec_nat tag \<in> {Some 553, Some 554}"
  shows "v = ''<redacted>''"
proof -
  have "redacted_call c" using session_ok_life [OF assms(1,2)] assms(3) by (simp add: session_ok_def list_all_iff)
  then have "line \<in> range redactLogonCredentials" using assms(4) by auto
  then show ?thesis using redacted_fields credential_at_value [OF assms(6,7)] assms(5) by blast
qed

theorem logs_show_no_credentials_witness:
  "\<nexists>line. LogIncoming line \<in> set (calls sample_life) \<and> ''554=secret'' \<in> set (fields_of line)"
proof -
  have "CHR ''='' \<notin> set ''554''" "dec_nat ''554'' \<in> {Some 553, Some 554}"
    by (simp_all add: dec_nat_def digit_val_def is_digit_def)
  then show ?thesis
    using logs_show_no_credentials [OF sample_life_reachable sample_session_def, where tag = "''554''" and v = "''secret''"]
    by fastforce
qed

end
