(* ===== verification/SessionNumbers.thy ===== *)
theory SessionNumbers
  imports SessionInvariants
begin

text \<open>
  The outgoing numbers: with an application that leaves the number of an outgoing message
  alone, the store holds exactly the messages with the numbers from one up to the one before
  the next, so that a range that is asked for again is there without a gap. (When the 64-bit
  counter is exhausted the store holds the last number of all; that case is part of the
  statement.)
\<close>

section \<open>The store without gaps\<close>

definition stored :: "'e session \<Rightarrow> seqnum \<Rightarrow> bool" where
  "stored w n \<longleftrightarrow> map_of (ms_messages (m_pStore (m_state w))) n \<noteq> None"

definition next_sender :: "'e session \<Rightarrow> seqnum" where
  "next_sender w = ms_nextSender (m_pStore (m_state w))"

definition gapless :: "'e session \<Rightarrow> bool" where
  "gapless w \<longleftrightarrow> next_sender w \<noteq> 0 \<and> (\<forall>n. stored w n \<longleftrightarrow> 0 < n \<and> n < next_sender w)"

definition numbers_ok :: "'e session \<Rightarrow> bool" where
  "numbers_ok w \<longleftrightarrow> map_sorted (ms_messages (m_pStore (m_state w))) \<and> (gapless w \<or> stored w (- 1))"

text \<open>An application that keeps the header of an outgoing message in order and its number as it is.\<close>

definition polite :: "'e outside \<Rightarrow> bool" where
  "polite out \<longleftrightarrow>
     (\<forall>m e m' e'. header_ok m \<longrightarrow> app_toAdmin out m e = (Inr m', e') \<or> app_toApp out m e = (Inr m', e') \<longrightarrow>
        header_ok m' \<and> field_value F_MsgSeqNum (m_header m') = field_value F_MsgSeqNum (m_header m))"

definition good_numbers :: "'e session \<Rightarrow> bool" where
  "good_numbers w \<longleftrightarrow> polite (m_outside w) \<and> m_persistMessages w \<and> numbers_ok w"

definition keeps_numbers :: "'e session \<Rightarrow> bool \<Rightarrow> 'e session \<Rightarrow> bool" where
  "keeps_numbers w b w' \<longleftrightarrow> good_numbers w \<longrightarrow> good_numbers w'"

lemma same_numbers:
  "m_pStore (m_state w') = m_pStore (m_state w) \<Longrightarrow> m_outside w' = m_outside w \<Longrightarrow> m_persistMessages w' = m_persistMessages w
    \<Longrightarrow> keeps_numbers w b w'"
  by (simp add: keeps_numbers_def good_numbers_def numbers_ok_def gapless_def stored_def next_sender_def)

lemma fresh_store: "numbers_ok (w\<lparr>m_state := s\<lparr>m_pStore := ms_reset t p\<rparr>\<rparr>)"
  by (auto simp: numbers_ok_def gapless_def stored_def next_sender_def ms_reset_def map_sorted_def word_less_1)

interpretation numbers: session_effects keeps_numbers
proof
  show "keeps_numbers w False w" "keeps_numbers w False w' \<Longrightarrow> keeps_numbers w' b w'' \<Longrightarrow> keeps_numbers w b w''"
    for w w' w'' :: "'a session" and b
    by (simp_all add: keeps_numbers_def)
  show "keeps_numbers w False (w\<lparr>m_state := f (m_state w)\<rparr>)" if "bookkeeping f" for f and w :: "'a session"
    by (rule same_numbers) (use that in \<open>simp_all add: bookkeeping_def\<close>)
  show "keeps_numbers w False (w\<lparr>environment := e, calls := calls w @ c\<rparr>)" "keeps_numbers w False (w\<lparr>m_pResponder := r\<rparr>)"
    "keeps_numbers w False (w\<lparr>s_registry := g\<rparr>)" "keeps_numbers w False (w\<lparr>m_targetDefaultApplVerID := v\<rparr>)"
    for e c r g v and w :: "'a session"
    by (rule same_numbers; simp)+
  show "related keeps_numbers incrNextTargetMsgSeqNum" "related keeps_numbers (setNextTargetMsgSeqNum n)" for n
    by (simp_all add: related_def keeps_numbers_def incrNextTargetMsgSeqNum_def setNextTargetMsgSeqNum_def store_ops
        good_numbers_def numbers_ok_def gapless_def stored_def next_sender_def)
  show "related keeps_numbers (state_reset t)" for t
    by (simp add: fresh_store related_def keeps_numbers_def state_reset_def store_update_def state_update_def good_numbers_def)
  show "related keeps_numbers (state_update clearQueue)" "related keeps_numbers (state_update (clearQueueUpTo n))" for n
    unfolding related_def state_update_def clearQueue_def clearQueueUpTo_def by (intro allI same_numbers; simp)+
qed

section \<open>Sending\<close>

text \<open>A message on its way: its header is in order and carries the next number.\<close>

lemma own_number_value:
  "own_number m = Inr n \<longleftrightarrow> (\<exists>v. field_value F_MsgSeqNum (m_header m) = Some v \<and> UInt64Convertor_from v = Some n)"
  by (auto simp: own_number_def getFieldRef_def field_value_def getFieldIfSet_def SeqNumField_getValue_def rbind_Inr
      split: option.splits)

definition on_its_way :: "message \<Rightarrow> 'e session \<Rightarrow> bool" where
  "on_its_way m w \<longleftrightarrow> good_numbers w \<and> header_ok m \<and> own_number m = Inr (next_sender w)"

text \<open>What holds after a method when a condition held before; after an exception the store is as it should be.\<close>

definition leads :: "('e session \<Rightarrow> bool) \<Rightarrow> ('e, 'a) op \<Rightarrow> ('a \<Rightarrow> 'e session \<Rightarrow> bool) \<Rightarrow> bool" where
  "leads P m Q \<longleftrightarrow> (\<forall>w. P w \<longrightarrow> (case m w of (Inl _, w') \<Rightarrow> good_numbers w' | (Inr a, w') \<Rightarrow> Q a w'))"

lemma leads_bind:
  assumes "leads P m Q" "\<And>a. leads (Q a) (k a) S"
  shows "leads P (sbind m k) S"
  using assms unfolding leads_def sbind_def by (fastforce split: prod.splits sum.splits)

lemma leads_catch:
  assumes "leads P m Q" "\<And>e. leads good_numbers (h e) Q"
  shows "leads P (scatch m h) Q"
  using assms unfolding leads_def scatch_def by (fastforce split: prod.splits sum.splits fault.splits)

lemma leads_related: "related keeps_numbers m \<Longrightarrow> (\<And>w. P w \<Longrightarrow> good_numbers w) \<Longrightarrow> leads P m (\<lambda>_. good_numbers)"
  unfolding leads_def related_def keeps_numbers_def by (fastforce split: prod.splits sum.splits)

lemma leads_cond: "(b \<Longrightarrow> leads P m Q) \<Longrightarrow> (\<not> b \<Longrightarrow> leads P n Q) \<Longrightarrow> leads P (if b then m else n) Q"
  by simp

lemma leads_get: "(\<And>w. P w \<Longrightarrow> Q (f w) w) \<Longrightarrow> leads P (sget f) Q"
  by (simp add: leads_def sget_def)

lemma leads_pure: "(\<And>w. P w \<Longrightarrow> Q a w) \<Longrightarrow> leads P (sreturn a) Q"
  by (simp add: leads_def sreturn_def)

lemma on_its_way_good: "on_its_way m w \<Longrightarrow> good_numbers w"
  by (simp add: on_its_way_def)

lemma same_store_good:
  "good_numbers w \<Longrightarrow> m_pStore (m_state w') = m_pStore (m_state w) \<Longrightarrow> m_outside w' = m_outside w
    \<Longrightarrow> m_persistMessages w' = m_persistMessages w \<Longrightarrow> good_numbers w'"
  using same_numbers [of w' w] by (simp add: keeps_numbers_def)

lemma leads_fill: "header_ok m \<Longrightarrow> leads good_numbers (fill m) on_its_way"
  unfolding leads_def
proof (intro allI impI)
  fix w :: "'e session"
  assume m: "header_ok m" and w: "good_numbers w"
  obtain m' w' where f: "fill m w = (Inr m', w')" "m_pStore (m_state w') = m_pStore (m_state w)" "m_outside w' = m_outside w"
    "m_persistMessages w' = m_persistMessages w" "own_number m' = Inr (next_sender w)"
    using m
    by (auto simp: fill_def insertSendingTime_def timestamp_def outside_call_def set_lastSentTime_def state_update_def sbind_def
        sget_def sreturn_def getExpectedSenderNum_def state_get_def split_beta own_number_value header_ok_def set_header_def
        field_value_setField fm_inv_def SeqNumField_def UtcTimeStampField_def FieldBase_def next_sender_def
        fm_sorted_setField distinct_tags_setField)
  then have "on_its_way m' w'"
    using same_store_good [OF w] numbers.header_ok_fill [OF m, of w m'] by (simp add: on_its_way_def next_sender_def)
  then show "case fill m w of (Inl _, w') \<Rightarrow> good_numbers w' | (Inr a, w') \<Rightarrow> on_its_way a w'" using f by simp
qed

lemma politeD:
  assumes "polite out" "header_ok m" "app_toAdmin out m e = (Inr m', e') \<or> app_toApp out m e = (Inr m', e')"
  shows "header_ok m'" "field_value F_MsgSeqNum (m_header m') = field_value F_MsgSeqNum (m_header m)"
  using assms unfolding polite_def by blast+

lemma on_its_way_renewed:
  assumes "on_its_way m w" "header_ok m'" "field_value F_MsgSeqNum (m_header m') = field_value F_MsgSeqNum (m_header m)"
    and "m_pStore (m_state w') = m_pStore (m_state w)" "m_outside w' = m_outside w" "m_persistMessages w' = m_persistMessages w"
  shows "on_its_way m' w'"
proof -
  have "good_numbers w'" using same_store_good [OF on_its_way_good [OF assms(1)] assms(4-6)] .
  moreover have "next_sender w' = next_sender w" using assms(4) by (simp add: next_sender_def)
  ultimately show ?thesis using assms(1-3) by (simp add: on_its_way_def own_number_value)
qed

lemma leads_outside:
  fixes f :: "'e outside \<Rightarrow> 'e \<Rightarrow> message result \<times> 'e"
  assumes "\<And>w m' e'. on_its_way m w \<Longrightarrow> f (m_outside w) (environment w) = (Inr m', e') \<Longrightarrow>
      header_ok m' \<and> field_value F_MsgSeqNum (m_header m') = field_value F_MsgSeqNum (m_header m)"
  shows "leads (on_its_way m) (outside_call c f) on_its_way"
  unfolding leads_def
proof (intro allI impI)
  fix w :: "'e session"
  assume w: "on_its_way m w"
  obtain r e' where r: "f (m_outside w) (environment w) = (r, e')" by (cases "f (m_outside w) (environment w)")
  let ?w = "w\<lparr>environment := e', calls := calls w @ c\<rparr>"
  show "case outside_call c f w of (Inl _, w') \<Rightarrow> good_numbers w' | (Inr a, w') \<Rightarrow> on_its_way a w'"
  proof (cases r)
    case (Inl e)
    have "good_numbers ?w" by (rule same_store_good [OF on_its_way_good [OF w]]) simp_all
    then show ?thesis using r Inl by (simp add: outside_call_def)
  next
    case (Inr m')
    have "on_its_way m' ?w"
      by (rule on_its_way_renewed [OF w]) (use assms [OF w] r Inr in simp_all)
    then show ?thesis using r Inr by (simp add: outside_call_def)
  qed
qed

lemma leads_callback: "leads (on_its_way m) (toAdmin m :: ('e, message) op) on_its_way" "leads (on_its_way m) (toApp m :: ('e, message) op) on_its_way"
proof -
  have p: "header_ok m' \<and> field_value F_MsgSeqNum (m_header m') = field_value F_MsgSeqNum (m_header m)"
    if "on_its_way m w"
      and c: "app_toAdmin (m_outside w) m (environment w) = (Inr m', e') \<or> app_toApp (m_outside w) m (environment w) = (Inr m', e')"
    for w :: "'e session" and m' e'
  proof -
    have "polite (m_outside w)" "header_ok m" using that(1) by (simp_all add: on_its_way_def good_numbers_def)
    then show ?thesis using politeD [OF _ _ c] by simp
  qed
  show "leads (on_its_way m) (toAdmin m :: ('e, message) op) on_its_way"
    unfolding toAdmin_def by (rule leads_outside, erule p, erule disjI1)
  show "leads (on_its_way m) (toApp m :: ('e, message) op) on_its_way"
    unfolding toApp_def by (rule leads_outside, erule p, erule disjI2)
qed

lemma leads_assume: "(header_ok m \<Longrightarrow> leads (on_its_way m) f Q) \<Longrightarrow> leads (on_its_way m) f Q"
  by (cases "header_ok m") (simp_all add: leads_def on_its_way_def)

lemma leads_still:
  assumes "\<And>w. m_pStore (m_state (snd (f w))) = m_pStore (m_state w) \<and> m_outside (snd (f w)) = m_outside w \<and>
      m_persistMessages (snd (f w)) = m_persistMessages w"
  shows "leads (on_its_way m) f (\<lambda>_. on_its_way m)"
  unfolding leads_def
proof (intro allI impI)
  fix w :: "'a session"
  assume w: "on_its_way m w"
  then have "on_its_way m (snd (f w))"
    using on_its_way_renewed [OF w, of m "snd (f w)"] assms [of w] by (simp add: on_its_way_def)
  then show "case f w of (Inl _, w') \<Rightarrow> good_numbers w' | (Inr a, w') \<Rightarrow> on_its_way m w'"
    using on_its_way_good by (cases "f w") (auto split: sum.split)
qed

text \<open>After a reset the message carries the first number.\<close>

lemma leads_state_reset: "leads (on_its_way m) (state_reset t) (\<lambda>_. good_numbers)"
  by (rule leads_related [OF numbers.related_laws(3) on_its_way_good])

lemma leads_renumber:
  assumes "header_ok m"
  shows "leads good_numbers (sbind getExpectedSenderNum (\<lambda>n. sreturn (set_header (SeqNumField F_MsgSeqNum n) m))) on_its_way"
  using assms header_ok_set(1) [OF assms]
  by (auto simp: leads_def getExpectedSenderNum_def state_get_def sget_def sbind_def sreturn_def on_its_way_def own_number_value
      set_header_def header_ok_def fm_inv_def field_value_setField SeqNumField_def FieldBase_def next_sender_def)

lemma leads_reset: "leads (on_its_way m) (reset_on_sent_logon t m) on_its_way"
proof (rule leads_assume)
  assume m: "header_ok m"
  have keep: "leads (on_its_way m') (set_sentReset b) (\<lambda>_. on_its_way m')" "leads (on_its_way m') timestamp (\<lambda>_. on_its_way m')"
    "leads (on_its_way m') (state_get h) (\<lambda>_. on_its_way m')" "leads (on_its_way m') (sget g) (\<lambda>_. on_its_way m')"
    "leads (on_its_way m') (as_bool f) (\<lambda>_. on_its_way m')" for m' b h g f
    by (rule leads_still; simp add: set_sentReset_def state_update_def timestamp_def outside_call_def state_get_def sget_def
        as_bool_def sresult_def sthrow_def sreturn_def split_beta split: sum.split)+
  show "leads (on_its_way m) (reset_on_sent_logon t m) on_its_way"
    unfolding reset_on_sent_logon_def
    by (rule keep leads_bind leads_cond leads_state_reset leads_renumber [OF m] leads_pure | assumption)+
qed

lemma toString_number:
  assumes "toString_default m = Inr (s, m')" "header_ok m"
  shows "header_ok m'" "field_value F_MsgSeqNum (m_header m') = field_value F_MsgSeqNum (m_header m)"
  using assms
  by (auto simp: toString_def rbind_Inr header_ok_def field_value_setField fm_inv_def fm_sorted_setField distinct_tags_setField
      IntField_def FieldBase_def Let_def split: prod.splits)

lemma leads_toString: "leads (on_its_way m) (sresult (toString_default m)) (\<lambda>(s, m'). on_its_way m')"
  unfolding leads_def sresult_def
proof (intro allI impI)
  fix w
  assume w: "on_its_way m w"
  show "case (case toString_default m of Inl e \<Rightarrow> sthrow e | Inr a \<Rightarrow> sreturn a) w of
      (Inl _, w') \<Rightarrow> good_numbers w' | (Inr a, w') \<Rightarrow> (case a of (s, m') \<Rightarrow> on_its_way m') w'"
  proof (cases "toString_default m")
    case (Inl e)
    then show ?thesis using on_its_way_good [OF w] by (simp add: sthrow_def)
  next
    case (Inr a)
    obtain s m' where a: "a = (s, m')" by (cases a)
    have "header_ok m" using w by (simp add: on_its_way_def)
    then have "on_its_way m' w" using on_its_way_renewed [OF w] toString_number [of m s m'] Inr a by simp
    then show ?thesis using Inr a by (simp add: sreturn_def)
  qed
qed

text \<open>Storing the message under its number and advancing keeps the store without gaps.\<close>

lemma less_next_word:
  fixes k n :: "64 word"
  assumes "n \<noteq> - 1"
  shows "n + 1 \<noteq> 0 \<and> (k < n + 1 \<longleftrightarrow> k = n \<or> k < n)"
proof -
  have z: "1 + n \<noteq> 0" using assms by (metis add.commute add_eq_0_iff)
  then have "unat (1 + n) = Suc (unat n)" by (rule unatSuc)
  then show ?thesis using z by (auto simp: word_less_nat_alt add.commute word_unat_eq_iff)
qed

lemma store_next:
  assumes "numbers_ok w"
  shows "numbers_ok (w\<lparr>m_state := (m_state w)\<lparr>m_pStore := ms_incrNextSender (snd (ms_set (next_sender w) t (m_pStore (m_state w))))\<rparr>\<rparr>)"
    (is "numbers_ok ?w")
proof -
  have s: "map_sorted (ms_messages (m_pStore (m_state w)))" using assms by (simp add: numbers_ok_def)
  have stored: "stored ?w k \<longleftrightarrow> k = next_sender w \<or> stored w k" for k
    using s by (simp add: stored_def ms_set_def ms_incrNextSender_def)
  have next_num: "next_sender ?w = next_sender w + 1" by (simp add: next_sender_def ms_set_def ms_incrNextSender_def)
  have "gapless ?w \<or> stored ?w (- 1)"
  proof (cases "stored w (- 1) \<or> next_sender w = - 1")
    case True
    then show ?thesis by (auto simp: stored)
  next
    case False
    then have "gapless w" using assms by (simp add: numbers_ok_def)
    moreover have "next_sender w \<noteq> - 1" using False by simp
    ultimately have "gapless ?w"
      using less_next_word [of "next_sender w"] unfolding gapless_def next_num stored by (auto simp: word_gt_0)
    then show ?thesis ..
  qed
  moreover have "map_sorted (ms_messages (m_pStore (m_state ?w)))" using s by (simp add: ms_set_def ms_incrNextSender_def)
  ultimately show ?thesis by (simp add: numbers_ok_def)
qed

lemma leads_persist: "leads (on_its_way m) (persist m s) (\<lambda>_. good_numbers)"
  unfolding leads_def
proof (intro allI impI)
  fix w :: "'e session"
  assume w: "on_its_way m w"
  let ?w = "w\<lparr>m_state := (m_state w)\<lparr>m_pStore := ms_incrNextSender (snd (ms_set (next_sender w) s (m_pStore (m_state w))))\<rparr>\<rparr>"
  obtain f where f: "getFieldRef F_MsgSeqNum (m_header m) = Inr f" "SeqNumField_getValue f = Inr (next_sender w)"
    using w by (auto simp: on_its_way_def own_number_def rbind_Inr)
  have "persist m s w = (Inr (), ?w)"
    using f w
    by (simp add: persist_def sbind_def field_of_def sresult_def sreturn_def sget_def swhen_def as_seqnum_def store_update_def
        state_update_def incrNextSenderMsgSeqNum_def on_its_way_def good_numbers_def)
  moreover have "good_numbers ?w" using store_next [of w s] w by (simp add: on_its_way_def good_numbers_def)
  ultimately show "case persist m s w of (Inl _, w') \<Rightarrow> good_numbers w' | (Inr _, w') \<Rightarrow> good_numbers w'" by simp
qed

lemma leads_sends:
  "leads (on_its_way m) (send_admin t m 0 :: ('e, bool) op) (\<lambda>_. good_numbers)"
  "leads (on_its_way m) (send_app m 0 :: ('e, bool) op) (\<lambda>_. good_numbers)"
proof -
  have keep: "leads (on_its_way m) (sget g) (\<lambda>_. on_its_way m)" for g :: "'e session \<Rightarrow> bool" and m
    by (rule leads_still) (simp add: sget_def)
  have out: "leads good_numbers (sbind (sget g) (\<lambda>b. sbind (if b then send_text s else sreturn False) (\<lambda>_. sreturn True)))
      (\<lambda>_. good_numbers)" for g :: "'e session \<Rightarrow> bool" and s :: string
    by (rule leads_related) (unfold send_text_def, (intro session_rules)+)
  have handler: "leads good_numbers (if e = DoNotSend then sreturn False else (sthrow e :: ('e, bool) op)) (\<lambda>_. good_numbers)" for e
    by (rule leads_related, (intro session_rules)+)
  show "leads (on_its_way m) (send_admin t m 0 :: ('e, bool) op) (\<lambda>_. good_numbers)"
    unfolding send_admin_def swhen_def
    by (simp only: split_def refl if_True)
      (rule out leads_bind leads_callback leads_reset leads_toString leads_persist | simp only: split_def)+
  show "leads (on_its_way m) (send_app m 0 :: ('e, bool) op) (\<lambda>_. good_numbers)"
    unfolding send_app_def swhen_def
    by (simp only: split_def refl if_True)
      (rule out handler leads_catch leads_bind keep leads_cond leads_callback leads_toString leads_persist leads_pure on_its_way_good
        | assumption | simp only: split_def)+
qed

lemma leads_sendRaw:
  assumes "header_ok m"
  shows "leads good_numbers (sendRaw m 0 :: ('e, bool) op) (\<lambda>_. good_numbers)"
proof -
  have handler: "leads good_numbers
      (case e of IOException d \<Rightarrow> sthen (onEvent (exn_what e)) (sreturn False) | _ \<Rightarrow> (sthrow e :: ('e, bool) op)) (\<lambda>_. good_numbers)" for e
    by (rule leads_related, (intro session_rules)+)
  show ?thesis
    unfolding sendRaw_def Let_def
    by (rule leads_catch [OF leads_bind [OF leads_fill [OF assms]] handler]) (simp add: leads_sends)
qed

text \<open>A message with a number of its own is not stored.\<close>

lemma numbers_unstored: "n \<noteq> 0 \<Longrightarrow> related keeps_numbers (sendRaw m n)"
proof -
  assume "n \<noteq> 0"
  then have n: "swhen (n = 0) f = sreturn ()" for f :: "('a, unit) op" by (simp add: swhen_def)
  show ?thesis
    unfolding sendRaw_def send_admin_def send_app_def reset_on_sent_logon_def send_text_def Let_def n
    by (intro session_rules)+
qed

interpretation numbers: session_relation keeps_numbers
proof
  show "related keeps_numbers (sendRaw m n)" if "header_ok m" for m n
  proof (cases "n = 0")
    case True
    then show ?thesis
      using leads_sendRaw [OF that] unfolding leads_def related_def keeps_numbers_def by (fastforce split: prod.splits sum.splits)
  qed (rule numbers_unstored)
  show "related keeps_numbers (state_update (queue_put n m))" "related keeps_numbers (set_receivedLogon True)"
    "related keeps_numbers (fromApp m)" "related keeps_numbers (state_update (\<lambda>s. snd (retrieve n s)))" for m n
    unfolding related_def state_update_def queue_put_def set_receivedLogon_def fromApp_def outside_call_def retrieve_def
    by (intro allI same_numbers; simp add: split_beta split: option.split)+
  show "keeps_numbers w True w" for w :: "'a session"
    by (simp add: keeps_numbers_def)
qed

text \<open>Whether messages are stored does not change while a session lives.\<close>

definition same_setting :: "'e session \<Rightarrow> bool \<Rightarrow> 'e session \<Rightarrow> bool" where
  "same_setting w b w' \<longleftrightarrow> m_persistMessages w' = m_persistMessages w"

lemma same_setting_state: "related same_setting (state_update f)"
  by (simp add: related_def same_setting_def state_update_def)

interpretation setting_effects: session_effects same_setting
  by unfold_locales (simp_all add: same_setting_state incrNextTargetMsgSeqNum_def setNextTargetMsgSeqNum_def state_reset_def
      store_update_def, simp_all add: same_setting_def)

interpretation setting: session_persisting same_setting
proof
  have "related same_setting (store_update f)" for f :: "memory_store \<Rightarrow> memory_store"
    by (simp add: same_setting_state store_update_def)
  then show "related same_setting (persist m s)" for m s
    unfolding persist_def incrNextSenderMsgSeqNum_def
    by (intro setting_effects.related_bind setting_effects.related_when setting_effects.related_fields setting_effects.related_pure)
qed

interpretation setting: session_relation same_setting
  by unfold_locales (simp_all add: same_setting_state set_receivedLogon_def fromApp_def, simp_all add: same_setting_def
      related_def outside_call_def split_beta)

lemma good_numbers_reachable: "session_reachable w0 w \<Longrightarrow> good_numbers w0 \<Longrightarrow> m_persistMessages w \<Longrightarrow> good_numbers w"
proof (induction rule: session_reachable.induct)
  case (reachable_constructed me w)
  then show ?case using numbers.relatedD [OF numbers.related_construct, of w0 me] configured_keeps [OF reachable_constructed(1)]
    by (simp add: keeps_numbers_def good_numbers_def numbers_ok_def gapless_def stored_def next_sender_def)
next
  case (reachable_step w w')
  then show ?case using numbers.related_step [of w w'] setting.related_step [of w w']
    by (auto simp: keeps_numbers_def same_setting_def)
qed

section \<open>Property\<close>

lemma word_positive: "1 \<le> n \<longleftrightarrow> n \<noteq> (0 :: seqnum)"
  by (simp add: word_le_nat_alt Suc_le_eq unat_gt_0)

lemma sample_outside_polite: "polite sample_outside"
  by (simp add: polite_def sample_outside_def)

text \<open>C1: in every state that a session which stores its messages can reach, with an application
  that neither renumbers an outgoing message nor breaks its header, the numbers of the stored
  messages are exactly one up to the last one given out: whatever is sent, rejected, answered
  or reset, no number is skipped and none is stored twice or late. (Or the last of the
  \<open>2 ^ 64\<close> numbers has been used.)\<close>

theorem stored_numbers_gapless:
  assumes "session_reachable w0 w"
    and "w0 = Session_members out i provider st hb logged detached now created registry e"
    and "m_persistMessages w" "polite out"
  shows "(0 < next_sender w \<and> (\<forall>n. stored w n \<longleftrightarrow> 1 \<le> n \<and> n < next_sender w)) \<or> stored w (- 1)"
proof -
  have "good_numbers w0"
    using assms(2,4) by (auto simp: good_numbers_def numbers_ok_def gapless_def stored_def next_sender_def Session_members_def
        SessionState_def MemoryStore_def map_sorted_def word_less_1)
  then have "numbers_ok w" using good_numbers_reachable [OF assms(1)] assms(3) by (simp add: good_numbers_def)
  then show ?thesis by (auto simp: numbers_ok_def gapless_def word_gt_0 word_positive)
qed

lemma persist_step: "session_step w w' \<Longrightarrow> m_persistMessages w \<Longrightarrow> m_persistMessages w'"
  using setting.related_step [of w w'] by (simp add: same_setting_def)

lemma sample_life_stores: "m_persistMessages sample_life"
proof -
  have "m_persistMessages (snd (Session_construct 1 sample_session))"
    using setting.relatedD [OF setting_effects.related_construct, of sample_session 1]
    by (simp only: same_setting_def sample_session_def Session_members_def session.select_convs simp_thms)
  then show ?thesis
    unfolding sample_life_def by (intro persist_step [OF step_time] persist_step [OF step_text] persist_step [OF step_responder])
qed

theorem stored_numbers_gapless_witness:
  "(0 < next_sender sample_life \<and> (\<forall>n. stored sample_life n \<longleftrightarrow> 1 \<le> n \<and> n < next_sender sample_life)) \<or> stored sample_life (- 1)"
  by (rule stored_numbers_gapless [OF sample_life_reachable sample_session_def sample_life_stores sample_outside_polite])

end
