(* ===== verification/SessionDeadlines.thy ===== *)
theory SessionDeadlines
  imports SessionStates
begin

text \<open>
  The tests on elapsed time compute what they mean: the 64-bit arithmetic of a detached session
  never overflows on the times of the calendar, and the products of doubles of an ordinary
  session are rounded so that the comparison with a number of seconds comes out exactly.
\<close>

section \<open>Times of the calendar\<close>

definition calendar_time :: "date_time \<Rightarrow> bool" where
  "calendar_time t \<longleftrightarrow> day_time t \<and> - (2 ^ 31) \<le> m_date t \<and> m_date t < 2 ^ 31"

text \<open>The whole seconds between two times.\<close>

definition elapsed :: "date_time \<Rightarrow> date_time \<Rightarrow> int" where
  "elapsed since now = getTimeT now - getTimeT since"

lemma calendar_getTimeT: "calendar_time t \<Longrightarrow> - (2 ^ 48) < getTimeT t \<and> getTimeT t < 2 ^ 48"
  using day_time_sec [of t]
  by (simp add: calendar_time_def getTimeT_def SECONDS_PER_DAY_def JULIAN_19700101_def)

lemma elapsed_bounds: "calendar_time since \<Longrightarrow> calendar_time now \<Longrightarrow> - (2 ^ 49) < elapsed since now \<and> elapsed since now < 2 ^ 49"
  using calendar_getTimeT [of since] calendar_getTimeT [of now] by (simp add: elapsed_def)

lemma diff_seconds_elapsed:
  assumes "calendar_time since" "calendar_time now" "- (2 ^ 31) \<le> elapsed since now" "elapsed since now < 2 ^ 31"
  shows "diff_seconds now since = elapsed since now"
proof -
  have "\<bar>m_date now - m_date since\<bar> < 2 ^ 31"
    using assms day_time_sec [of since] day_time_sec [of now]
    by (simp add: elapsed_def getTimeT_def calendar_time_def SECONDS_PER_DAY_def abs_less_iff algebra_simps)
  then show ?thesis
    using assms day_time_sec [of since] day_time_sec [of now]
    by (simp add: abs_less_iff diff_seconds_def elapsed_def getTimeT_def calendar_time_def SECONDS_PER_DAY_def algebra_simps)
qed

section \<open>Exact deadlines\<close>

lemma word_of_int_elapsed:
  "(if since < 0 \<and> now \<ge> 0 then word_of_int now + word_of_int (- (since + 1)) + 1 else word_of_int (now - since)) =
    (word_of_int (now - since) :: 64 word)"
proof -
  have "word_of_int now + word_of_int (- (since + 1)) + 1 = (word_of_int (now + - (since + 1) + 1) :: 64 word)"
    by (simp only: wi_hom_add [symmetric] word_of_int_1)
  then show ?thesis by (simp add: algebra_simps)
qed

lemma exactDeadlineReached_elapsed:
  assumes "calendar_time since" "calendar_time now"
  shows "exactDeadlineReached now since s \<longleftrightarrow> uint s \<le> elapsed since now"
proof (cases "getTimeT now < getTimeT since")
  case True
  then have "\<not> uint s \<le> elapsed since now" using uint_ge_0 [of s] unfolding elapsed_def by linarith
  then show ?thesis using True by (simp add: exactDeadlineReached_def Let_def)
next
  case False
  then have e: "0 \<le> elapsed since now" "elapsed since now < 2 ^ 64"
    using elapsed_bounds [OF assms] by (simp_all add: elapsed_def)
  have "exactDeadlineReached now since s \<longleftrightarrow> s \<le> word_of_int (elapsed since now)"
    using False by (simp only: exactDeadlineReached_def Let_def if_False word_of_int_elapsed elapsed_def)
  then show ?thesis using e by (simp add: word_le_def uint_word_of_int)
qed

lemma ceiling_div:
  fixes x d e :: int
  assumes "0 < d"
  shows "(x + d - 1) div d \<le> e \<longleftrightarrow> x \<le> d * e"
proof -
  define q r where "q = (x + d - 1) div d" and "r = (x + d - 1) mod d"
  have x: "x = d * q + r - d + 1" using mult_div_mod_eq [of d "x + d - 1"] by (simp add: q_def r_def)
  have r: "0 \<le> r" "r < d" using assms by (simp_all add: r_def)
  have "q \<le> e \<longleftrightarrow> d * q + r - d + 1 \<le> d * e"
  proof
    assume "q \<le> e"
    then have "d * q \<le> d * e" using assms by simp
    then show "d * q + r - d + 1 \<le> d * e" using r by linarith
  next
    assume l: "d * q + r - d + 1 \<le> d * e"
    have "d * q < d * (e + 1)" using l r unfolding distrib_left by linarith
    then have "q < e + 1" using assms by (simp add: mult_less_cancel_left_pos)
    then show "q \<le> e" by simp
  qed
  then show ?thesis unfolding q_def [symmetric] by (simp only: x)
qed

lemma exactScaledDeadlineReached_elapsed:
  assumes "calendar_time since" "calendar_time now" "n \<in> {6, 12}" "0 \<le> v" "v < 2 ^ 63"
  shows "exactScaledDeadlineReached now since (word_of_int v) (word_of_int n) 5 \<longleftrightarrow> n * v \<le> 5 * elapsed since now"
proof -
  define limit :: int where "limit = 18446744073709551611 div n"
  have v: "uint (word_of_int v :: 64 word) = v" using assms(4,5) by (simp add: uint_word_of_int)
  have n: "uint (word_of_int n :: 64 word) = n" using assms(3) by (auto simp: uint_word_of_int)
  have max: "uint ((- 1) - (5 - 1) :: 64 word) = 18446744073709551611" by simp
  have limit: "word_of_int v > (((- 1) - (5 - 1)) div word_of_int n :: 64 word) \<longleftrightarrow> limit < v"
    by (simp only: word_less_def uint_div v n max limit_def)
  show ?thesis
  proof (cases "limit < v")
    case True
    then have "5 * elapsed since now < n * v" using elapsed_bounds [OF assms(1,2)] assms(3) by (auto simp: limit_def)
    then show ?thesis using True limit by (simp add: exactScaledDeadlineReached_def)
  next
    case False
    then have small: "n * v \<le> 18446744073709551611" using assms(3) by (auto simp: limit_def)
    have "word_of_int v * word_of_int n + 5 - 1 = (word_of_int (n * v + 5 - 1) :: 64 word)"
      by (simp add: mult.commute)
    moreover have "(n * v + 5 - 1) mod 2 ^ 64 = n * v + 5 - 1"
      using small assms(3,4) by (intro mod_pos_pos_trivial) auto
    ultimately have "uint (word_of_int v * word_of_int n + 5 - 1 :: 64 word) = n * v + 5 - 1"
      by (simp only: uint_word_of_int) simp
    then have "uint ((word_of_int v * word_of_int n + 5 - 1) div 5 :: 64 word) = (n * v + 5 - 1) div 5"
      by (simp add: uint_div)
    then show ?thesis
      using False limit ceiling_div [of 5 "n * v"]
      by (simp add: exactScaledDeadlineReached_def exactDeadlineReached_elapsed [OF assms(1,2)])
  qed
qed

section \<open>Doubles\<close>

text \<open>Rounding moves a number by less than its last binary digit, and never over a number of fewer digits.\<close>

lemma round_double_near:
  assumes "0 < a" "a < 2 ^ 84"
  obtains q k where "round_double (int a) e = (int q, e + int k)" "k \<le> 31" "a < (q + 1) * 2 ^ k"
    "\<And>i. a \<le> i * 2 ^ k \<Longrightarrow> q \<le> i"
proof (cases "floorlog 2 a \<le> 53")
  case True
  then have "round_double (int a) e = (int a, e + int 0)" by (simp add: round_double_def)
  then show ?thesis using that [of a 0] by simp
next
  case False
  define k where "k = floorlog 2 a - 53"
  define q where "q = a div 2 ^ k"
  define q' where "q' = (if a mod 2 ^ k > 2 ^ (k - 1) \<or> (a mod 2 ^ k = 2 ^ (k - 1) \<and> odd q) then q + 1 else q)"
  have "floorlog 2 a \<le> 84" using assms(2) by (intro floorlog_leI) simp_all
  then have k: "k \<le> 31" by (simp add: k_def)
  have r: "round_double (int a) e = (int q', e + int k)"
    using False assms(1) by (simp add: round_double_def Let_def k_def q_def q'_def)
  have a: "a = q * 2 ^ k + a mod 2 ^ k" unfolding q_def by (rule div_mult_mod_eq [symmetric])
  have m: "a mod 2 ^ k < 2 ^ k" by simp
  have "a < (q + 1) * 2 ^ k" using a m unfolding distrib_right by linarith
  also have "\<dots> \<le> (q' + 1) * 2 ^ k" by (simp add: q'_def)
  finally have low: "a < (q' + 1) * 2 ^ k" .
  have "q' \<le> i" if "a \<le> i * 2 ^ k" for i
  proof (cases "a mod 2 ^ k = 0")
    case True
    then have "q' = q" by (simp add: q'_def)
    moreover have "q * 2 ^ k \<le> i * 2 ^ k" using that a True by linarith
    ultimately show ?thesis by simp
  next
    case False
    then have "q * 2 ^ k < i * 2 ^ k" using that a by linarith
    then have "q < i" by simp
    then show ?thesis by (simp add: q'_def)
  qed
  then show ?thesis using that [OF r k low] by blast
qed

text \<open>A product with the double just below \<open>n / 5\<close> is compared as the exact product would be.\<close>

lemma scaled_compare:
  fixes hb c n q j M K :: nat
  assumes "5 * c + 1 = n * (M * K)" "0 < M * K" "5 * K + hb \<le> M * K" "c * hb < (q + 1) * K" "c * hb \<le> (j * M) * K \<Longrightarrow> q \<le> j * M"
  shows "q \<le> j * M \<longleftrightarrow> n * hb \<le> 5 * j"
proof
  have e: "n * hb * (M * K) = 5 * (c * hb) + hb"
    using arg_cong [OF assms(1), of "\<lambda>x. x * hb"] by (simp add: algebra_simps)
  show "n * hb \<le> 5 * j" if "q \<le> j * M"
  proof -
    have "c * hb < (j * M + 1) * K" using assms(4) that mult_le_mono1 [of "q + 1" "j * M + 1" K] by linarith
    then have "n * hb * (M * K) < 5 * ((j * M + 1) * K) + hb" using e by linarith
    also have "\<dots> = 5 * j * (M * K) + (5 * K + hb)" by (simp add: algebra_simps)
    also have "\<dots> \<le> 5 * j * (M * K) + M * K" using assms(3) by simp
    also have "\<dots> = (5 * j + 1) * (M * K)" by (simp add: algebra_simps)
    finally have "n * hb < 5 * j + 1" by (rule mult_less_cancel2 [THEN iffD1, THEN conjunct2])
    then show ?thesis by simp
  qed
  show "q \<le> j * M" if "n * hb \<le> 5 * j"
  proof -
    have "n * hb * (M * K) \<le> 5 * j * (M * K)" using that by (rule mult_le_mono1)
    also have "5 * j * (M * K) = 5 * ((j * M) * K)" by simp
    finally have "5 * (c * hb) + hb \<le> 5 * ((j * M) * K)" using e by linarith
    then have "c * hb \<le> (j * M) * K" by linarith
    then show ?thesis by (rule assms(5))
  qed
qed

lemma int_ge_scaled:
  fixes hb c n :: nat and i :: int
  assumes "0 < hb" "hb < 2 ^ 31" "5 * c + 1 = n * 2 ^ d" "0 < c" "c < 2 ^ 53" "34 < d"
  shows "int_ge_double i (double_mult (int c, - int d) (double_of_int (int hb))) \<longleftrightarrow> int n * int hb \<le> 5 * i"
proof -
  have pos: "0 < c * hb" using assms by simp
  have "c * hb < 2 ^ 53 * 2 ^ 31" using assms by (intro mult_strict_mono) simp_all
  then have small: "c * hb < 2 ^ 84" by simp
  obtain q k where r: "round_double (int (c * hb)) (- int d) = (int q, - int d + int k)" "k \<le> 31" "c * hb < (q + 1) * 2 ^ k"
    and up: "\<And>i. c * hb \<le> i * 2 ^ k \<Longrightarrow> q \<le> i"
    using round_double_near [OF pos small] by blast
  have d: "d = (d - k) + k" "nat (int d - int k) = d - k" using r(2) assms(6) by simp_all
  have P: "(2 :: nat) ^ d = 2 ^ (d - k) * 2 ^ k" by (subst d(1)) (rule power_add)
  have "(2 :: nat) ^ 35 \<le> 2 ^ d" "(2 :: nat) ^ k \<le> 2 ^ 31" using assms(6) r(2) by (intro power_increasing; simp)+
  then have room: "5 * 2 ^ k + hb \<le> (2 :: nat) ^ (d - k) * 2 ^ k" using assms(2) P by simp
  have "int_ge_double i (double_mult (int c, - int d) (double_of_int (int hb))) \<longleftrightarrow> int q \<le> i * 2 ^ (d - k)"
    using r d(2) assms(6) by (simp add: double_mult_def double_of_int_def int_ge_double_def)
  also have "\<dots> \<longleftrightarrow> int n * int hb \<le> 5 * i"
  proof (cases "0 \<le> i")
    case True
    define j where "j = nat i"
    have i: "i = int j" using True by (simp add: j_def)
    have "q \<le> j * 2 ^ (d - k) \<longleftrightarrow> n * hb \<le> 5 * j"
      using assms(3) P room r(3) up by (intro scaled_compare [of c n "2 ^ (d - k)" "2 ^ k"]) simp_all
    moreover have "int q \<le> i * 2 ^ (d - k) \<longleftrightarrow> int q \<le> int (j * 2 ^ (d - k))" "int n * int hb \<le> 5 * i \<longleftrightarrow> int (n * hb) \<le> int (5 * j)"
      by (simp_all add: i)
    ultimately show ?thesis by (simp only: of_nat_le_iff)
  next
    case False
    then have "i * 2 ^ (d - k) < 0" by (simp add: mult_neg_pos)
    moreover have "0 \<le> int n * int hb" by simp
    ultimately show ?thesis using False by linarith
  qed
  finally show ?thesis .
qed

section \<open>Property\<close>

lemma timedOut_elapsed:
  assumes "0 < hb" "hb < 2 ^ 31"
  shows "timedOut hb s now \<longleftrightarrow> 12 * hb \<le> 5 * diff_seconds now (m_lastReceivedTime s)"
    and "m_testRequest s = 0 \<Longrightarrow> needTestRequest hb s now \<longleftrightarrow> 6 * hb \<le> 5 * diff_seconds now (m_lastReceivedTime s)"
proof -
  have h: "hb = int (nat hb)" "0 < nat hb" "nat hb < 2 ^ 31" using assms by auto
  let ?i = "diff_seconds now (m_lastReceivedTime s)"
  have "int_ge_double ?i (double_mult double_2_4 (double_of_int hb)) \<longleftrightarrow> 12 * hb \<le> 5 * ?i"
    using int_ge_scaled [OF h(2,3), of 5404319552844595 12 51 ?i] h by (simp add: double_2_4_def)
  then show "timedOut hb s now \<longleftrightarrow> 12 * hb \<le> 5 * ?i" by (simp add: timedOut_def)
  have "floorlog 2 5404319552844595 \<le> 53" by (intro floorlog_leI) simp_all
  then have "double_mult double_1_2 (double_of_int 1) = double_1_2"
    by (simp add: double_mult_def double_1_2_def double_of_int_def round_double_def)
  moreover have "int_ge_double ?i (double_mult double_1_2 (double_of_int hb)) \<longleftrightarrow> 6 * hb \<le> 5 * ?i"
    using int_ge_scaled [OF h(2,3), of 5404319552844595 6 52 ?i] h by (simp add: double_1_2_def)
  ultimately show "m_testRequest s = 0 \<Longrightarrow> needTestRequest hb s now \<longleftrightarrow> 6 * hb \<le> 5 * ?i"
    by (simp add: needTestRequest_def)
qed

lemma exact_elapsed:
  assumes "calendar_time (m_lastReceivedTime s)" "calendar_time now" "0 < hb" "hb < 2 ^ 31" "0 \<le> m_testRequest s" "m_testRequest s < 2 ^ 31"
  shows "exactTimedOut hb s now \<longleftrightarrow> 12 * hb \<le> 5 * elapsed (m_lastReceivedTime s) now"
    and "exactNeedTestRequest hb s now \<longleftrightarrow> 6 * ((m_testRequest s + 1) * hb) \<le> 5 * elapsed (m_lastReceivedTime s) now"
proof -
  show "exactTimedOut hb s now \<longleftrightarrow> 12 * hb \<le> 5 * elapsed (m_lastReceivedTime s) now"
    using exactScaledDeadlineReached_elapsed [OF assms(1,2), of 12 hb] assms(3,4) by (simp add: exactTimedOut_def)
  have m: "0 \<le> (m_testRequest s + 1) * hb" "(m_testRequest s + 1) * hb < 2 ^ 63"
    using assms(3-6) mult_mono [of "m_testRequest s + 1" "2 ^ 31" hb "2 ^ 31"] by simp_all
  have word: "uint (word_of_int x :: 64 word) = x" if "0 \<le> x" "x < 2 ^ 64" for x
    using that by (simp add: uint_word_of_int)
  have u: "uint (word_of_int hb :: 64 word) = hb" "uint (word_of_int (m_testRequest s + 1) :: 64 word) = m_testRequest s + 1"
    using assms(3-6) by (intro word; simp)+
  have fits: "(word_of_int (m_testRequest s + 1) > (- 1) div (word_of_int hb :: 64 word)) = False"
  proof -
    have "m_testRequest s + 1 \<le> (2 ^ 64 - 1) div hb"
      using assms(3) m(2) zdiv_mono1 [of "(m_testRequest s + 1) * hb" "2 ^ 64 - 1" hb] by simp
    moreover have "uint (- 1 :: 64 word) = 2 ^ 64 - 1" by (simp add: unsigned_minus_1_eq_mask mask_eq_exp_minus_1)
    ultimately show ?thesis by (simp only: word_less_def uint_div u) (simp only: linorder_not_less [symmetric] simp_thms)
  qed
  have sums: "word_of_int (m_testRequest s) + 1 = (word_of_int (m_testRequest s + 1) :: 64 word)"
    "word_of_int (m_testRequest s + 1) * word_of_int hb = (word_of_int ((m_testRequest s + 1) * hb) :: 64 word)"
    "(6 :: 64 word) = word_of_int 6"
    by simp_all
  have guard: "(m_testRequest s < 0 \<or> hb \<le> 0) = False" using assms(3,5) by simp
  have "exactNeedTestRequest hb s now \<longleftrightarrow>
      exactScaledDeadlineReached now (m_lastReceivedTime s) (word_of_int ((m_testRequest s + 1) * hb)) (word_of_int 6) 5"
    by (simp only: exactNeedTestRequest_def Let_def guard if_False sums fits)
  then show "exactNeedTestRequest hb s now \<longleftrightarrow> 6 * ((m_testRequest s + 1) * hb) \<le> 5 * elapsed (m_lastReceivedTime s) now"
    using exactScaledDeadlineReached_elapsed [OF assms(1,2) _ m, of 6] by simp
qed

text \<open>C15: a session notices at the right second that its peer is silent, in both arithmetics.
  With a heartbeat interval of \<open>hb\<close> seconds the session is timed out exactly when at least 2.4
  intervals have passed since the last message, and the test request number \<open>n + 1\<close> is due
  exactly when at least \<open>1.2 (n + 1)\<close> intervals have passed: the 64-bit arithmetic of a detached
  session overflows for no time of the calendar, and the rounding of the products of doubles
  changes no comparison (for the first test request, in the case of doubles).\<close>

theorem deadlines_exact:
  assumes "calendar_time (m_lastReceivedTime s)" "calendar_time now" "0 < hb" "hb < 2 ^ 31"
    and "0 \<le> m_testRequest s" "m_testRequest s < 2 ^ 31"
    and "t = elapsed (m_lastReceivedTime s) now" "- (2 ^ 31) \<le> t" "t < 2 ^ 31"
  shows "(exactTimedOut hb s now \<longleftrightarrow> 12 * hb \<le> 5 * t) \<and> (timedOut hb s now \<longleftrightarrow> 12 * hb \<le> 5 * t) \<and>
    (exactNeedTestRequest hb s now \<longleftrightarrow> 6 * ((m_testRequest s + 1) * hb) \<le> 5 * t) \<and>
    (needTestRequest hb (s\<lparr>m_testRequest := 0\<rparr>) now \<longleftrightarrow> 6 * hb \<le> 5 * t)"
  using exact_elapsed [OF assms(1-6)] timedOut_elapsed [OF assms(3,4), of s] timedOut_elapsed(2) [OF assms(3,4), of "s\<lparr>m_testRequest := 0\<rparr>"]
    diff_seconds_elapsed [OF assms(1,2)] assms(7-9)
  by simp

text \<open>With an interval of 30 seconds: 71 and 72 seconds of silence.\<close>

theorem deadlines_exact_witness:
  "\<not> exactTimedOut 30 (SessionState (DateTime 2460000 0) (MemoryStore (DateTime 2460000 0))) (DateTime 2460000 71999999999) \<and>
   \<not> timedOut 30 (SessionState (DateTime 2460000 0) (MemoryStore (DateTime 2460000 0))) (DateTime 2460000 71999999999) \<and>
   exactTimedOut 30 (SessionState (DateTime 2460000 0) (MemoryStore (DateTime 2460000 0))) (DateTime 2460000 72000000000) \<and>
   timedOut 30 (SessionState (DateTime 2460000 0) (MemoryStore (DateTime 2460000 0))) (DateTime 2460000 72000000000)"
proof -
  let ?s = "SessionState (DateTime 2460000 0) (MemoryStore (DateTime 2460000 0))"
  have c: "calendar_time (m_lastReceivedTime ?s)" "m_testRequest ?s = 0" "elapsed (m_lastReceivedTime ?s) (DateTime 2460000 71999999999) = 71"
    "elapsed (m_lastReceivedTime ?s) (DateTime 2460000 72000000000) = 72"
    by (simp_all add: SessionState_def calendar_time_def day_time_def NANOS_PER_DAY_def elapsed_def getTimeT_def NANOS_PER_SEC_def)
  have n: "calendar_time (DateTime 2460000 71999999999)" "calendar_time (DateTime 2460000 72000000000)"
    by (simp_all add: calendar_time_def day_time_def NANOS_PER_DAY_def)
  show ?thesis
    using deadlines_exact [OF c(1) n(1), of 30 71] deadlines_exact [OF c(1) n(2), of 30 72] c by simp
qed

end
