(* ===== verification/SessionTriples.thy ===== *)
theory SessionTriples
  imports SessionRelations
begin

text \<open>
  Conditions before and after a method: what holds when it returns a value, and a relation
  that it keeps only when it is called under a condition. Both compose along the order in
  which a method does its steps.
\<close>

section \<open>What a method returns\<close>

text \<open>What holds when a method returns a value, if a condition held before.\<close>

definition returns :: "('e session \<Rightarrow> bool) \<Rightarrow> ('e, 'a) op \<Rightarrow> ('a \<Rightarrow> 'e session \<Rightarrow> bool) \<Rightarrow> bool" where
  "returns P m Q \<longleftrightarrow> (\<forall>w a w'. P w \<longrightarrow> m w = (Inr a, w') \<longrightarrow> Q a w')"

lemma returns_bind: "returns P m Q \<Longrightarrow> (\<And>a. returns (Q a) (k a) S) \<Longrightarrow> returns P (sbind m k) S"
  unfolding returns_def sbind_def by (auto split: prod.splits sum.splits)

lemma returns_get: "returns P (sget f) (\<lambda>a w. P w \<and> a = f w)"
  by (simp add: returns_def sget_def)

lemma returns_pure: "(\<And>w. P w \<Longrightarrow> Q a w) \<Longrightarrow> returns P (sreturn a) Q"
  by (simp add: returns_def sreturn_def)

lemma returns_throw: "returns P (sthrow e) Q"
  by (simp add: returns_def sthrow_def)

lemma returns_if: "(b \<Longrightarrow> returns P m Q) \<Longrightarrow> (\<not> b \<Longrightarrow> returns P n Q) \<Longrightarrow> returns P (if b then m else n) Q"
  by simp

text \<open>A method that returns something in one of its branches only.\<close>

lemma returns_none: "returns P (sbind m (\<lambda>_. sreturn None)) (\<lambda>r w. \<forall>t. r = Some t \<longrightarrow> F t w)"
  unfolding returns_def sbind_def sreturn_def by (auto split: prod.splits sum.splits)

lemma returns_some: "(\<And>w. P w \<Longrightarrow> F t w) \<Longrightarrow> returns P (sreturn (Some t)) (\<lambda>r w. \<forall>t. r = Some t \<longrightarrow> F t w)"
  by (simp add: returns_def sreturn_def)

lemma returns_catch: "returns P m Q \<Longrightarrow> (\<And>e. returns (\<lambda>_. True) (h e) Q) \<Longrightarrow> returns P (scatch m h) Q"
  unfolding returns_def scatch_def by (auto split: prod.splits sum.splits fault.splits)

lemma returns_any: "returns P m (\<lambda>_ _. True)"
  by (simp add: returns_def)

lemma returns_field: "(\<And>f. getFieldRef t fm = Inr f \<Longrightarrow> returns P (k f) Q) \<Longrightarrow> returns P (sbind (field_of t fm) k) Q"
  by (auto simp: returns_def field_of_def sresult_def sbind_def sthrow_def sreturn_def split: sum.splits)

lemma returns_get_weak:
  "(\<And>w. P w \<Longrightarrow> I (f w) w) \<Longrightarrow> (\<And>a. returns (I a) (k a) Q) \<Longrightarrow> returns P (sbind (sget f) k) Q"
  unfolding returns_def sget_def sbind_def by simp blast

lemma returns_false:
  "returns P (sreturn False) (\<lambda>b w. b \<longrightarrow> S w)" "returns P (sbind m (\<lambda>_. sreturn False)) (\<lambda>b w. b \<longrightarrow> S w)"
  unfolding returns_def sbind_def sreturn_def by (auto split: prod.splits sum.splits)

section \<open>A relation that is kept under a condition\<close>

definition related_on :: "('e session \<Rightarrow> bool \<Rightarrow> 'e session \<Rightarrow> bool) \<Rightarrow> ('e session \<Rightarrow> bool) \<Rightarrow> ('e, 'a) op \<Rightarrow> bool" where
  "related_on R P m \<longleftrightarrow> (\<forall>w. P w \<longrightarrow> R w (fst (m w) = Inl OutOfFuel) (snd (m w)))"

lemma related_on_all: "related R m = related_on R (\<lambda>_. True) m"
  by (simp add: related_def related_on_def)

lemma related_on: "related R m \<Longrightarrow> related_on R P m"
  by (simp add: related_def related_on_def)

context session_effects
begin

lemma related_on_bind:
  assumes "related_on R P m" "returns P m Q" "\<And>a. related_on R (Q a) (k a)"
  shows "related_on R P (sbind m k)"
  unfolding related_on_def
proof (intro allI impI)
  fix w
  assume p: "P w"
  obtain r w' where m: "m w = (r, w')" by (cases "m w") auto
  have first: "R w (r = Inl OutOfFuel) w'" using assms(1) m p by (simp add: related_on_def) (metis fst_conv snd_conv)
  show "R w (fst (sbind m k w) = Inl OutOfFuel) (snd (sbind m k w))"
  proof (cases r)
    case (Inl e)
    then show ?thesis using first m by (simp add: sbind_def)
  next
    case (Inr a)
    then have "Q a w'" using assms(2) m p by (simp add: returns_def)
    then have "R w' (fst (k a w') = Inl OutOfFuel) (snd (k a w'))" using assms(3) by (simp add: related_on_def)
    moreover have "R w False w'" using first Inr by simp
    ultimately show ?thesis using Inr m chain by (simp add: sbind_def)
  qed
qed

end

end
