(* ===== verification/SessionAdmissions.thy ===== *)
theory SessionAdmissions
  imports SessionInvariants SessionTriples
begin

text \<open>
  Nothing reaches the application, and no session counts as logged on, before a Logon was
  checked and the application accepted it. The part that only says that calls are appended is
  a relation that all methods keep; the part about the Logon is kept by every method but the
  one that admits it, and there by the order of its steps.
\<close>

section \<open>Calls are appended\<close>

definition configuration :: "'e session \<Rightarrow> 'e outside \<times> session_id \<times> bool" where
  "configuration w = (m_outside w, m_sessionID w, m_checkCompId w)"

definition grows :: "'e session \<Rightarrow> bool \<Rightarrow> 'e session \<Rightarrow> bool" where
  "grows w b w' \<longleftrightarrow> configuration w' = configuration w \<and> (\<exists>c. calls w' = calls w @ c)"

lemma grows_state: "related grows (state_update f)"
  by (simp add: related_def grows_def configuration_def state_update_def)

lemma grows_outside: "related grows (outside_call c f)"
  by (simp add: related_def grows_def configuration_def outside_call_def split_beta)

lemma grows_trans: "grows w b w' \<Longrightarrow> grows w' b' w'' \<Longrightarrow> grows w b'' w''"
  by (auto simp: grows_def)

interpretation grows_effects: session_effects grows
proof
  show "grows w False w" "grows w False w' \<Longrightarrow> grows w' b w'' \<Longrightarrow> grows w b w''" for w w' w'' :: "'a session" and b
    by (simp add: grows_def) (rule grows_trans)
  show "grows w False (w\<lparr>m_state := f (m_state w)\<rparr>)" "grows w False (w\<lparr>environment := e, calls := calls w @ c\<rparr>)"
    "grows w False (w\<lparr>m_pResponder := r\<rparr>)" "grows w False (w\<lparr>s_registry := g\<rparr>)" "grows w False (w\<lparr>m_targetDefaultApplVerID := v\<rparr>)"
    for w :: "'a session" and f e c r g v
    by (simp_all add: grows_def configuration_def)
qed (simp_all add: grows_state incrNextTargetMsgSeqNum_def setNextTargetMsgSeqNum_def state_reset_def store_update_def)

interpretation grows: session_persisting grows
proof
  have "related grows (store_update f)" for f :: "memory_store \<Rightarrow> memory_store"
    by (simp add: grows_state store_update_def)
  then show "related grows (persist m s)" for m s
    unfolding persist_def incrNextSenderMsgSeqNum_def
    by (intro grows_effects.related_bind grows_effects.related_when grows_effects.related_fields grows_effects.related_pure)
qed

interpretation grows: session_relation grows
  by unfold_locales (simp_all add: grows_state set_receivedLogon_def fromApp_def grows_outside, simp add: grows_def)

section \<open>A Logon that was accepted\<close>

definition admissible :: "'e session \<Rightarrow> message \<Rightarrow> bool" where
  "admissible w l \<longleftrightarrow>
     getField F_MsgType (m_header l) = Inr MsgType_Logon \<and> getField F_BeginString (m_header l) = Inr (beginString_of w) \<and>
     (m_checkCompId w \<longrightarrow> getField F_SenderCompID (m_header l) = Inr (id_targetCompID (m_sessionID w)) \<and>
        getField F_TargetCompID (m_header l) = Inr (id_senderCompID (m_sessionID w))) \<and>
     (\<exists>e e'. app_fromAdmin (m_outside w) l e = (Inr (), e'))"

definition seen :: "'e session \<Rightarrow> bool" where
  "seen w \<longleftrightarrow> (\<exists>l. FromAdmin l \<in> set (calls w) \<and> admissible w l)"

text \<open>Every delivery to the application comes after such a Logon.\<close>

definition delivered_after :: "'e session \<Rightarrow> bool" where
  "delivered_after w \<longleftrightarrow> (\<forall>xs m ys. calls w = xs @ FromApp m # ys \<longrightarrow> (\<exists>l. FromAdmin l \<in> set xs \<and> admissible w l))"

definition authentic :: "'e session \<Rightarrow> bool" where
  "authentic w \<longleftrightarrow> (m_receivedLogon (m_state w) \<longrightarrow> seen w) \<and> delivered_after w"

definition keeps_authentic :: "'e session \<Rightarrow> bool \<Rightarrow> 'e session \<Rightarrow> bool" where
  "keeps_authentic w b w' \<longleftrightarrow> grows w b w' \<and> (authentic w \<longrightarrow> authentic w')"

lemma admissible_configuration: "configuration w' = configuration w \<Longrightarrow> admissible w' = admissible w"
  by (simp add: configuration_def admissible_def beginString_of_def fun_eq_iff)

lemma seen_grows: "grows w b w' \<Longrightarrow> seen w \<Longrightarrow> seen w'"
  unfolding seen_def grows_def using admissible_configuration [of w' w] by auto

lemma delivered_append:
  assumes "configuration w' = configuration w" "calls w' = calls w @ c" "delivered_after w" "\<forall>m. FromApp m \<notin> set c \<or> seen w"
  shows "delivered_after w'"
  unfolding delivered_after_def
proof (intro allI impI)
  fix xs m ys
  assume "calls w' = xs @ FromApp m # ys"
  then have "calls w @ c = xs @ FromApp m # ys" using assms(2) by simp
  then consider us where "calls w = xs @ FromApp m # us" | us where "xs = calls w @ us" "FromApp m \<in> set c"
    unfolding append_eq_append_conv2 by (auto simp: append_eq_Cons_conv)
  then have "\<exists>l. FromAdmin l \<in> set xs \<and> admissible w l"
  proof cases
    case 1
    then show ?thesis using assms(3) unfolding delivered_after_def by blast
  next
    case 2
    then have "seen w" using assms(4) by blast
    then show ?thesis using 2(1) by (auto simp: seen_def)
  qed
  then show "\<exists>l. FromAdmin l \<in> set xs \<and> admissible w' l" by (simp only: admissible_configuration [OF assms(1)])
qed

text \<open>Once the Logon was seen, everything is allowed.\<close>

lemma authentic_seen:
  assumes "grows w b w'" "authentic w" "seen w"
  shows "authentic w'"
proof -
  obtain c where "calls w' = calls w @ c" "configuration w' = configuration w" using assms(1) by (auto simp: grows_def)
  then have "delivered_after w'" using delivered_append [of w' w c] assms(2,3) by (auto simp: authentic_def)
  then show ?thesis using seen_grows [OF assms(1,3)] by (simp add: authentic_def)
qed

text \<open>Before that, nothing may be delivered and the session does not become logged on.\<close>

lemma authentic_quiet:
  assumes "configuration w' = configuration w" "calls w' = calls w @ c" "\<forall>m. FromApp m \<notin> set c"
    "m_receivedLogon (m_state w') \<longrightarrow> m_receivedLogon (m_state w)"
  shows "keeps_authentic w b w'"
proof -
  have g: "grows w b w'" using assms(1,2) by (auto simp: grows_def)
  have "authentic w'" if "authentic w"
    using delivered_append [OF assms(1,2)] assms(3,4) that seen_grows [OF g] by (auto simp: authentic_def)
  then show ?thesis using g by (simp add: keeps_authentic_def)
qed

lemma keeps_authentic_state:
  "(\<And>s. m_receivedLogon (f s) \<Longrightarrow> m_receivedLogon s) \<Longrightarrow> related keeps_authentic (state_update f)"
  unfolding related_def state_update_def
  by (intro allI authentic_quiet [where c = "[]"]) (auto simp: configuration_def)

interpretation authentic_effects: session_effects keeps_authentic
proof
  show "keeps_authentic w False w" for w :: "'a session" by (rule authentic_quiet [where c = "[]"]) simp_all
  show "keeps_authentic w False w' \<Longrightarrow> keeps_authentic w' b w'' \<Longrightarrow> keeps_authentic w b w''" for w w' w'' :: "'a session" and b
    by (auto simp: keeps_authentic_def intro: grows_trans)
  show "keeps_authentic w False (w\<lparr>m_state := f (m_state w)\<rparr>)" if "bookkeeping f" for w :: "'a session" and f
    by (rule authentic_quiet [where c = "[]"]) (use that in \<open>simp_all add: bookkeeping_def configuration_def\<close>)
  show "keeps_authentic w False (w\<lparr>environment := e, calls := calls w @ c\<rparr>)" if "list_all elementary_call c" for c e and w :: "'a session"
    by (rule authentic_quiet [where c = c]) (use that in \<open>auto simp: configuration_def list_all_iff elementary_call_def\<close>)
  show "keeps_authentic w False (w\<lparr>m_pResponder := r\<rparr>)" "keeps_authentic w False (w\<lparr>s_registry := g\<rparr>)"
    "keeps_authentic w False (w\<lparr>m_targetDefaultApplVerID := v\<rparr>)" for w :: "'a session" and r g v
    by (rule authentic_quiet [where c = "[]"]; simp add: configuration_def)+
qed (unfold incrNextTargetMsgSeqNum_def setNextTargetMsgSeqNum_def state_reset_def store_update_def clearQueue_def clearQueueUpTo_def,
    (rule keeps_authentic_state, simp)+)

interpretation authentic: session_persisting keeps_authentic
proof
  have "related keeps_authentic (store_update f)" for f :: "memory_store \<Rightarrow> memory_store"
    unfolding store_update_def by (rule keeps_authentic_state) simp
  then show "related keeps_authentic (persist m s)" for m s
    unfolding persist_def incrNextSenderMsgSeqNum_def
    by (intro authentic_effects.related_bind authentic_effects.related_when authentic_effects.related_fields authentic_effects.related_pure)
qed

interpretation authentic: session_queueing keeps_authentic
  by unfold_locales (rule keeps_authentic_state, simp add: queue_put_def)

section \<open>A message that passes the checks\<close>

definition logged_on_for :: "string \<Rightarrow> 'e session \<Rightarrow> bool" where
  "logged_on_for t w \<longleftrightarrow> isAdminMsgType t \<or> m_receivedLogon (m_state w)"

lemma valid_logged_on: "validLogonState t w \<Longrightarrow> logged_on_for t w"
  by (auto simp: validLogonState_def Let_def logged_on_for_def answersPendingLogon_def isAdminMsgType_def split: if_splits)

lemma returns_still:
  "(\<And>w. m_receivedLogon (m_state (snd (m w))) = m_receivedLogon (m_state w)) \<Longrightarrow> returns (logged_on_for t) m (\<lambda>_. logged_on_for t)"
  unfolding returns_def logged_on_for_def by (metis snd_conv)

lemma logged_on_still:
  "returns (logged_on_for t) (as_seqnum f) (\<lambda>_. logged_on_for t)" "returns (logged_on_for t) (field_of n fm) (\<lambda>_. logged_on_for t)"
  "returns (logged_on_for t) timestamp (\<lambda>_. logged_on_for t)" "returns (logged_on_for t) (as_time f) (\<lambda>_. logged_on_for t)"
  "returns (logged_on_for t) (onEvent s) (\<lambda>_. logged_on_for t)" "returns (logged_on_for t) (set_resendRange x y) (\<lambda>_. logged_on_for t)"
  "returns (logged_on_for t) (sget g) (\<lambda>_. logged_on_for t)" "returns (logged_on_for t) (state_get h) (\<lambda>_. logged_on_for t)"
  by (rule returns_still; simp add: as_seqnum_def as_time_def field_of_def timestamp_def onEvent_def log_call_def set_resendRange_def
      state_update_def sget_def state_get_def outside_call_def sresult_def sthrow_def sreturn_def sbind_def swhen_def split_beta split: sum.split)+

lemma logged_on_checks:
  "returns (logged_on_for t) (isGoodTime f) (\<lambda>_. logged_on_for t)" "returns (logged_on_for t) (isTargetTooHigh f) (\<lambda>_. logged_on_for t)"
  "returns (logged_on_for t) (isTargetTooLow f) (\<lambda>_. logged_on_for t)"
  unfolding isGoodTime_def isTargetTooHigh_def isTargetTooLow_def getExpectedTargetNum_def
  by (rule logged_on_still returns_bind returns_if returns_pure | assumption)+

lemma returns_bind_valid:
  "(\<And>b. returns (\<lambda>w. True \<and> b = validLogonState t w) (k b) Q) \<Longrightarrow> returns (\<lambda>_. True) (sbind (sget (validLogonState t)) k) Q"
  by (rule returns_bind [OF returns_get])

lemma returns_checked:
  assumes "\<And>w. Q None w" "returns (logged_on_for t) k Q"
  shows "returns (\<lambda>w. True \<and> b = validLogonState t w) (if \<not> b then sthrow e else k) Q"
  using assms(2) valid_logged_on by (fastforce simp: returns_def sthrow_def)

lemma returns_verify_checks: "returns (\<lambda>_. True) (verify_checks m h l) (\<lambda>r w. \<forall>t. r = Some t \<longrightarrow> logged_on_for t w)"
  unfolding verify_checks_def swhen_def steps.simps
  by (rule returns_bind_valid returns_bind [OF returns_any])+
    (rule returns_checked, simp,
      (assumption | rule returns_none returns_some logged_on_still logged_on_checks returns_bind returns_if returns_pure)+)

text \<open>Delivering a message of a session that is logged on.\<close>

text \<open>Once a Logon was seen, whatever only appends calls is allowed.\<close>

lemma authentic_on_seen: "related grows m \<Longrightarrow> related_on keeps_authentic seen m"
  unfolding related_def related_on_def keeps_authentic_def by (blast intro: authentic_seen)

lemma delivered_authentic:
  assumes "isAdminMsgType t \<or> m_receivedLogon (m_state w)" "fromCallback t m w = (r, w')"
  shows "keeps_authentic w b w'"
proof (cases "isAdminMsgType t")
  case True
  then have "w' = w\<lparr>environment := snd (app_fromAdmin (m_outside w) m (environment w)), calls := calls w @ [FromAdmin m]\<rparr>"
    using assms(2) by (auto simp: fromCallback_def fromAdmin_def outside_call_def split_beta)
  then show ?thesis by (intro authentic_quiet [where c = "[FromAdmin m]"]) (simp_all add: configuration_def)
next
  case False
  then have w': "w' = w\<lparr>environment := snd (app_fromApp (m_outside w) m (environment w)), calls := calls w @ [FromApp m]\<rparr>"
    using assms(2) by (auto simp: fromCallback_def fromApp_def outside_call_def split_beta)
  then have "grows w b w'" by (simp add: grows_def configuration_def)
  moreover have "authentic w \<Longrightarrow> seen w" using assms(1) False by (simp add: authentic_def)
  ultimately show ?thesis using authentic_seen [of w b w'] by (auto simp: keeps_authentic_def)
qed

lemma authentic_on_callback: "related_on keeps_authentic (logged_on_for t) (fromCallback t m)"
  unfolding related_on_def logged_on_for_def by (auto intro!: delivered_authentic prod.collapse [symmetric])

lemma authentic_verify: "related keeps_authentic (verify m h l c)"
proof -
  let ?Q = "\<lambda>r w. \<forall>t. r = Some t \<longrightarrow> logged_on_for t w"
  let ?checks = "scatch (verify_checks m h l) (\<lambda>e. sthen (onEvent (exn_what e)) (sthen disconnect (sreturn None)))"
  have checks: "related keeps_authentic ?checks" by (intro session_rules)+
  have checked: "returns (\<lambda>_. True) ?checks ?Q"
    by (rule returns_catch [OF returns_verify_checks], rule returns_bind [OF returns_any], rule returns_none)
  have pass: "related_on keeps_authentic (logged_on_for t) (sbind timestamp (\<lambda>now. sthen (set_lastReceivedTime now) (sthen (set_testRequest 0)
      (sthen (swhen c (fromCallback t m)) (sreturn True)))))" for t
  proof (intro authentic_effects.related_on_bind)
    show "related_on keeps_authentic (logged_on_for t) timestamp" "related_on keeps_authentic (logged_on_for t) (set_lastReceivedTime now)"
      "related_on keeps_authentic (logged_on_for t) (set_testRequest 0)" for now
      by (intro related_on session_rules)+
    show "returns (logged_on_for t) timestamp (\<lambda>_. logged_on_for t)" "returns (logged_on_for t) (set_lastReceivedTime now) (\<lambda>_. logged_on_for t)"
      "returns (logged_on_for t) (set_testRequest 0) (\<lambda>_. logged_on_for t)" for now
      by (rule logged_on_still returns_still; simp add: set_lastReceivedTime_def set_testRequest_def state_update_def)+
    show "related_on keeps_authentic (logged_on_for t) (swhen c (fromCallback t m))"
      by (simp add: swhen_def authentic_on_callback related_on authentic_effects.related_pure)
    show "returns (logged_on_for t) (swhen c (fromCallback t m)) (\<lambda>_ _. True)" "related_on keeps_authentic (\<lambda>_. True) (sreturn True)"
      by (rule returns_any) (intro related_on session_rules)
  qed
  show ?thesis
    unfolding verify_def related_on_all
  proof (rule authentic_effects.related_on_bind [OF _ checked])
    show "related_on keeps_authentic (\<lambda>_. True) ?checks" using checks by (rule related_on)
    show "related_on keeps_authentic (?Q r) (case r of None \<Rightarrow> sreturn False | Some t \<Rightarrow> sbind timestamp (\<lambda>now. sthen (set_lastReceivedTime now)
        (sthen (set_testRequest 0) (sthen (swhen c (fromCallback t m)) (sreturn True)))))" for r
      using pass by (cases r) (simp_all add: related_on authentic_effects.related_pure)
  qed
qed

interpretation authentic: session_verifying keeps_authentic
  by unfold_locales (rule authentic_verify)

section \<open>The Logon\<close>

text \<open>A condition on what does not change.\<close>

lemma returns_keep:
  assumes "related grows m" "\<And>w w'. configuration w' = configuration w \<Longrightarrow> P w \<Longrightarrow> P w'" "\<And>a. returns P (k a) Q"
  shows "returns P (sbind m k) Q"
  by (rule returns_bind [OF _ assms(3)])
    (use assms(1,2) in \<open>simp add: returns_def related_def grows_def\<close>, metis snd_conv)

definition fits :: "message \<Rightarrow> 'e session \<Rightarrow> bool" where
  "fits l w \<longleftrightarrow> getField F_MsgType (m_header l) = Inr MsgType_Logon \<and> getField F_BeginString (m_header l) = Inr (beginString_of w)"

definition named :: "message \<Rightarrow> 'e session \<Rightarrow> bool" where
  "named l w \<longleftrightarrow> m_checkCompId w \<longrightarrow> getField F_SenderCompID (m_header l) = Inr (id_targetCompID (m_sessionID w)) \<and>
     getField F_TargetCompID (m_header l) = Inr (id_senderCompID (m_sessionID w))"

lemma fits_stable: "configuration w' = configuration w \<Longrightarrow> fits l w \<Longrightarrow> fits l w'"
  by (simp add: fits_def configuration_def beginString_of_def)

lemma accepted_seen:
  "returns (\<lambda>w. fits l w \<and> named l w) (sthen (fromCallback MsgType_Logon l) (sreturn True)) (\<lambda>b w. b \<longrightarrow> seen w)"
  unfolding returns_def
proof (intro allI impI)
  fix w w' :: "'a session" and b
  assume w: "fits l w \<and> named l w" and r: "sthen (fromCallback MsgType_Logon l) (sreturn True) w = (Inr b, w')" and b
  obtain x e' where x: "app_fromAdmin (m_outside w) l (environment w) = (x, e')" by (cases "app_fromAdmin (m_outside w) l (environment w)")
  then have "x = Inr ()" "w' = w\<lparr>environment := e', calls := calls w @ [FromAdmin l]\<rparr>"
    using r by (auto simp: fromCallback_def isAdminMsgType_def fromAdmin_def outside_call_def sbind_def sreturn_def split: sum.splits)
  moreover have "admissible w l" using w x calculation(1) unfolding admissible_def fits_def named_def by blast
  ultimately show "seen w'" unfolding seen_def using admissible_configuration [of w' w] by (force simp: configuration_def)
qed

text \<open>The two places where the conditions are established, and the steps between them.\<close>

lemma returns_fits:
  assumes "getFieldRef F_MsgType (m_header l) = Inr t" "\<not> m_string t \<noteq> MsgType_Logon" "getFieldRef F_BeginString (m_header l) = Inr b"
    and "\<And>a. returns (fits l) (k a) (\<lambda>ok w. ok \<longrightarrow> S w)"
  shows "returns (\<lambda>_. True)
    (sbind (sget (\<lambda>w. m_string b \<noteq> beginString_of w \<or> \<not> m_enabled (m_state w) \<or> \<not> isLogonTime now w))
      (\<lambda>a. if a then sreturn False else k a)) (\<lambda>ok w. ok \<longrightarrow> S w)"
proof (rule returns_get_weak [where I = "\<lambda>a w. \<not> a \<longrightarrow> fits l w"])
  show "\<not> (m_string b \<noteq> beginString_of w \<or> \<not> m_enabled (m_state w) \<or> \<not> isLogonTime now w) \<longrightarrow> fits l w" for w
    using assms(1-3) by (auto simp: fits_def getField_def)
  show "returns (\<lambda>w. \<not> a \<longrightarrow> fits l w) (if a then sreturn False else k a) (\<lambda>ok w. ok \<longrightarrow> S w)" for a
    using assms(4) [of False] returns_false(1) [of "\<lambda>_. True" S] by (cases a) simp_all
qed

lemma returns_named:
  assumes "getFieldRef F_SenderCompID (m_header l) = Inr f" "getFieldRef F_TargetCompID (m_header l) = Inr g"
    and "\<And>a. returns (\<lambda>w. fits l w \<and> named l w) (k a) (\<lambda>ok w. ok \<longrightarrow> S w)"
  shows "returns (fits l)
    (sbind (sget (isCorrectCompID (m_string f) (m_string g))) (\<lambda>a. if \<not> a then sthen m (sreturn False) else k a)) (\<lambda>ok w. ok \<longrightarrow> S w)"
proof (rule returns_get_weak [where I = "\<lambda>a w. fits l w \<and> (a \<longrightarrow> named l w)"])
  show "fits l w \<and> (isCorrectCompID (m_string f) (m_string g) w \<longrightarrow> named l w)" if "fits l w" for w
    using assms(1,2) that by (auto simp: isCorrectCompID_def named_def getField_def)
  show "returns (\<lambda>w. fits l w \<and> (a \<longrightarrow> named l w)) (if \<not> a then sthen m (sreturn False) else k a) (\<lambda>ok w. ok \<longrightarrow> S w)" for a
    using assms(3) [of True] returns_false(2) [of "fits l" m S] by (cases a) simp_all
qed

lemma returns_fits_keep:
  "(\<And>a. returns (fits l) (k a) Q) \<Longrightarrow> returns (fits l) (sbind (as_bool f) k) Q"
  "(\<And>a. returns (fits l) (k a) Q) \<Longrightarrow> returns (fits l) (sbind (sget (validLogonState t)) k) Q"
  "(\<And>a. returns (fits l) (k a) Q) \<Longrightarrow> returns (fits l) (sbind (isGoodTime g) k) Q"
  "(\<And>a. returns (fits l) (k a) Q) \<Longrightarrow> returns (fits l) (sbind (state_get h) k) Q"
  by (rule returns_keep, (rule session_rules; fail), erule (1) fits_stable, assumption)+

lemma authenticated_seen: "returns (\<lambda>_. True) (authenticateLogon l now) (\<lambda>ok w. ok \<longrightarrow> seen w)"
proof -
  have handler: "returns (\<lambda>_. True) (case e of RejectLogon d \<Rightarrow> sthrow e | _ \<Rightarrow> sthen (onEvent (exn_what e)) (sreturn False)) (\<lambda>ok w. ok \<longrightarrow> seen w)"
    for e by (cases e) (simp_all add: returns_throw returns_false)
  show ?thesis
    unfolding authenticateLogon_def Let_def
    by (rule returns_catch handler returns_fits returns_named accepted_seen returns_field returns_fits_keep returns_false returns_if | assumption)+
qed

lemma returns_ok: "ok \<Longrightarrow> returns (\<lambda>w. ok \<longrightarrow> seen w) (sreturn True) (\<lambda>ok w. ok \<longrightarrow> seen w)"
  by (simp add: returns_def sreturn_def)

lemma admitted_seen: "returns (\<lambda>_. True) (admit_logon m now) (\<lambda>ok w. ok \<longrightarrow> seen w)"
  unfolding admit_logon_def
  by (rule returns_bind [OF authenticated_seen] returns_if returns_false returns_ok returns_bind [OF returns_any] | assumption)+

lemma read_seen: "returns (\<lambda>_. True) (read_logon wire now) (\<lambda>r w. \<forall>l. r = Some (Inl l) \<longrightarrow> seen w)"
proof -
  let ?Q = "\<lambda>r w. \<forall>l. r = Some (Inl l) \<longrightarrow> seen w"
  have handler: "returns (\<lambda>_. True) (case e of RejectLogon d \<Rightarrow> sreturn (Some (Inr (exn_what e))) | _ \<Rightarrow> sthen (onEvent (exn_what e)) (sreturn None)) ?Q"
    for e by (cases e) (simp_all add: returns_def sreturn_def sbind_def split: prod.splits sum.splits)
  have last: "returns (\<lambda>w. ok \<longrightarrow> seen w) (sreturn (if ok then Some (Inl l) else None)) ?Q" for ok l
    by (simp add: returns_def sreturn_def)
  show ?thesis
    unfolding read_logon_def
    by (intro returns_catch handler returns_bind [OF returns_any] returns_bind [OF authenticated_seen] last)
qed

section \<open>All methods\<close>

text \<open>A method of two parts, where the first tells whether a Logon was seen.\<close>

lemma authentic_then:
  assumes "related keeps_authentic m" "returns (\<lambda>_. True) m (\<lambda>a w. P a \<longrightarrow> seen w)"
    and "\<And>a. \<not> P a \<Longrightarrow> related keeps_authentic (k a)" "\<And>a. P a \<Longrightarrow> related grows (k a)"
  shows "related keeps_authentic (sbind m k)"
  unfolding related_on_all
proof (rule authentic_effects.related_on_bind [OF related_on [OF assms(1)] assms(2)])
  show "related_on keeps_authentic (\<lambda>w. P a \<longrightarrow> seen w) (k a)" for a
    using assms(3) [of a] assms(4) [of a] authentic_on_seen [of "k a"] by (cases "P a") (simp_all add: related_on)
qed

lemma authentic_next_try:
  fixes nq :: "('e, unit) op"
  assumes "related keeps_authentic nq" "related grows nq"
  shows "related keeps_authentic (next_try nq m now False)"
proof -
  have go_on: "related keeps_authentic (sbind (if t = MsgType_Logon \<and> \<not> False then admit_logon m now else sreturn True)
      (\<lambda>a. if \<not> a then sreturn False else next_admitted nq m now t b))" for t b
  proof (cases "t = MsgType_Logon")
    case True
    have "related keeps_authentic (sbind (admit_logon m now) (\<lambda>a. if \<not> a then sreturn False else next_admitted nq m now t b))"
    proof (rule authentic_then [OF _ admitted_seen])
      show "related keeps_authentic (admit_logon m now)" by (intro session_rules)
      show "\<not> a \<Longrightarrow> related keeps_authentic (if \<not> a then sreturn False else next_admitted nq m now t b)" for a
        by (simp add: authentic_effects.related_pure)
      show "a \<Longrightarrow> related grows (if \<not> a then sreturn False else next_admitted nq m now t b)" for a
        by (simp add: grows.related_next_try assms(2))
    qed
    then show ?thesis using True by simp
  next
    case False
    then have "related keeps_authentic (next_admitted nq m now t b)" by (rule authentic.related_next_admitted [OF _ assms(1)])
    then show ?thesis using False by (simp add: sbind_def sreturn_def related_def)
  qed
  show ?thesis
    unfolding next_try_def Let_def by ((rule go_on) | (rule session_rules))+
qed

lemma authentic_nextQueued: "related keeps_authentic (nextQueued fuel now)"
proof (induction fuel)
  case 0
  then show ?case by (simp add: related_def keeps_authentic_def grows_def)
next
  case (Suc fuel)
  have take: "related keeps_authentic (state_update (\<lambda>s. snd (retrieve n s)))" for n
    by (rule keeps_authentic_state) (simp add: retrieve_def split: option.splits)
  show ?case
    unfolding nextQueued.simps nextQueued_one_def next_message_with_def
    by ((rule Suc take authentic_next_try grows.related_nextQueued) | (rule session_rules))+
qed

lemma authentic_next_message:
  "related keeps_authentic (next_message fuel m now q False)" "related keeps_authentic (next_text fuel s now q)"
  unfolding next_text_def next_message_def next_message_with_def
  by ((rule authentic_next_try authentic_nextQueued grows.related_nextQueued) | (rule session_rules))+

lemma authentic_acceptLogon: "related keeps_authentic (acceptLogon fuel wire r)"
proof -
  have read: "related keeps_authentic (sbind (read_logon wire now) (\<lambda>x. case x of None \<Rightarrow> sreturn False | Some l \<Rightarrow> accept_read fuel wire r now l))" for now
  proof (rule authentic_then [where P = "\<lambda>x. \<exists>l. x = Some (Inl l)"])
    show "related keeps_authentic (read_logon wire now)" by (intro session_rules)
    show "returns (\<lambda>_. True) (read_logon wire now) (\<lambda>a w. (\<exists>l. a = Some (Inl l)) \<longrightarrow> seen w)"
      using read_seen by (simp add: returns_def)
    show "related keeps_authentic (case a of None \<Rightarrow> sreturn False | Some l \<Rightarrow> accept_read fuel wire r now l)"
      if none: "\<nexists>l. a = Some (Inl l)" for a
    proof (cases a)
      case (Some l)
      then obtain reason where "l = Inr reason" using none by (cases l) simp_all
      then show ?thesis using Some unfolding accept_read_def by simp (intro session_rules)+
    qed (simp add: authentic_effects.related_pure)
    show "related grows (case a of None \<Rightarrow> sreturn False | Some l \<Rightarrow> accept_read fuel wire r now l)" for a
      by (intro session_rules)+
  qed
  show ?thesis
    unfolding acceptLogon_def by (rule read | rule session_rules)+
qed

lemma authentic_Session_send: "header_ok m \<Longrightarrow> related keeps_authentic (Session_send m)"
  unfolding Session_send_def by (rule authentic.send) (simp add: header_ok_def fm_inv_removeField)

lemma keeps_authenticD: "related keeps_authentic m \<Longrightarrow> \<exists>b. keeps_authentic w b (snd (m w))"
  unfolding related_def by blast

lemma authentic_step: "session_step w w' \<Longrightarrow> \<exists>b. keeps_authentic w b w'"
  by (induction rule: session_step.induct)
    (rule keeps_authenticD, (assumption | rule authentic_Session_send authentic_next_message authentic_acceptLogon | rule session_rules)+)+

text \<open>A session that was only constructed has neither received a Logon nor delivered anything.\<close>

definition quiet :: "'e session \<Rightarrow> bool \<Rightarrow> 'e session \<Rightarrow> bool" where
  "quiet w b w' \<longleftrightarrow> (m_receivedLogon (m_state w') \<longrightarrow> m_receivedLogon (m_state w)) \<and> m_outside w' = m_outside w \<and>
     m_sessionID w' = m_sessionID w \<and> (\<forall>m. FromApp m \<in> set (calls w') \<longrightarrow> FromApp m \<in> set (calls w))"

lemma quiet_state: "(\<And>s. m_receivedLogon (f s) \<Longrightarrow> m_receivedLogon s) \<Longrightarrow> related quiet (state_update f)"
  by (simp add: related_def quiet_def state_update_def)

lemma quiet_updates: "related quiet incrNextTargetMsgSeqNum" "related quiet (setNextTargetMsgSeqNum n)"
  "related quiet (state_reset t)" "related quiet (state_update clearQueue)" "related quiet (state_update (clearQueueUpTo n))"
  unfolding incrNextTargetMsgSeqNum_def setNextTargetMsgSeqNum_def state_reset_def store_update_def clearQueue_def
    clearQueueUpTo_def
  by (rule quiet_state; simp)+

interpretation quiet: session_effects quiet
  by unfold_locales
    (simp_all add: quiet_updates, auto simp: quiet_def bookkeeping_def elementary_call_def list_all_iff)

lemma authentic_reachable:
  "session_reachable w0 w \<Longrightarrow> \<not> m_receivedLogon (m_state w0) \<Longrightarrow> calls w0 = [] \<Longrightarrow>
   authentic w \<and> m_outside w = m_outside w0 \<and> m_sessionID w = m_sessionID w0"
proof (induction rule: session_reachable.induct)
  case (reachable_constructed me w)
  have "\<exists>b. quiet w0 b (snd (Session_construct me w0))" using quiet.related_construct unfolding related_def by blast
  then have "quiet w0 True w" using configured_keeps [OF reachable_constructed(1)] by (auto simp: quiet_def)
  then show ?case using reachable_constructed(2,3) by (auto simp: quiet_def authentic_def delivered_after_def)
next
  case (reachable_step w w')
  then show ?case using authentic_step [of w w'] by (auto simp: keeps_authentic_def grows_def configuration_def)
qed

section \<open>Property\<close>

text \<open>C2: nothing happens before the Logon in a session that checks the names of its counterparty,
  however else it is configured. Take any part \<open>xs\<close> from the beginning of what a
  session has called so far: as long as the application was not offered, and did not accept, a
  Logon in the version of the session and with its two names, no message of the application
  is delivered, and the session is not logged on at the end. Whatever is received, queued,
  replayed or offered by new connections cannot go around the Logon.\<close>

theorem nothing_before_logon:
  assumes "session_reachable w0 w"
    and "w0 = Session_members out i provider st hb logged detached now created registry e"
    and "m_checkCompId w" "calls w = xs @ ys"
    and "\<nexists>l e e'. FromAdmin l \<in> set xs \<and> getField F_MsgType (m_header l) = Inr MsgType_Logon \<and>
      getField F_BeginString (m_header l) = Inr (id_beginString i) \<and>
      getField F_SenderCompID (m_header l) = Inr (id_targetCompID i) \<and>
      getField F_TargetCompID (m_header l) = Inr (id_senderCompID i) \<and> app_fromAdmin out l e = (Inr (), e')"
  shows "FromApp m \<notin> set xs \<and> (ys \<noteq> [] \<or> \<not> m_receivedLogon (m_state w))"
proof -
  have a: "authentic w" "m_outside w = out" "m_sessionID w = i"
    using authentic_reachable [OF assms(1)] assms(2) by (auto simp: Session_members_def SessionState_def)
  have "admissible w l \<longleftrightarrow> getField F_MsgType (m_header l) = Inr MsgType_Logon \<and>
      getField F_BeginString (m_header l) = Inr (id_beginString i) \<and>
      getField F_SenderCompID (m_header l) = Inr (id_targetCompID i) \<and>
      getField F_TargetCompID (m_header l) = Inr (id_senderCompID i) \<and> (\<exists>e e'. app_fromAdmin out l e = (Inr (), e'))" for l
    using assms(3) by (simp add: admissible_def a beginString_of_def)
  then have none: "\<not> (FromAdmin l \<in> set xs \<and> admissible w l)" for l
    using assms(5) by blast
  have "FromApp m \<notin> set xs"
  proof
    assume "FromApp m \<in> set xs"
    then obtain us vs where "xs = us @ FromApp m # vs" by (meson split_list)
    then have "\<exists>l. FromAdmin l \<in> set us \<and> admissible w l" "set us \<subseteq> set xs"
      using a(1) assms(4) by (auto simp: authentic_def delivered_after_def)
    then show False using none by blast
  qed
  moreover have "\<not> m_receivedLogon (m_state w)" if "ys = []"
    using a(1) none that assms(4) by (auto simp: authentic_def seen_def)
  ultimately show ?thesis by blast
qed

text \<open>A message of the application that comes first only ends the connection.\<close>

definition sample_order :: message where
  "sample_order = set_header (FieldBase F_MsgType ''D'') Message_new"

definition sample_quiet :: "nat session" where
  "sample_quiet = Session_members sample_outside (SessionID ''FIX.4.2'' ''ME'' ''YOU'' [])
     \<lparr>m_transportDictionaries = [], m_applicationDictionaries = []\<rparr>
     (TimeRange False (DateTime 0 0) (DateTime 0 0) (- 1) (- 1)) 0 False True sample_time sample_time registry_empty 0"

definition sample_refused :: "nat session" where
  "sample_refused = snd (next_message 1 sample_order sample_time False False
     (snd (setResponder (Some 7) (snd (Session_construct 1 sample_quiet)))))"

lemma sample_refused_calls: "calls sample_refused = [Disconnected 7]"
  by code_simp

lemma sample_refused_checks: "m_checkCompId sample_refused"
  by code_simp

lemma sample_refused_reachable: "session_reachable sample_quiet sample_refused"
  unfolding sample_refused_def
  by (rule reachable_step [OF reachable_step [OF reachable_constructed [OF configured_none] step_responder] step_message])

theorem nothing_before_logon_witness: "\<not> m_receivedLogon (m_state sample_refused)"
  using nothing_before_logon [OF sample_refused_reachable sample_quiet_def sample_refused_checks, of "calls sample_refused" "[]"]
  by (simp add: sample_refused_calls)

end
