(* ===== verification/SessionTerminations.thy ===== *)
theory SessionTerminations
  imports SessionInvariants SessionTriples
begin

text \<open>
  Handling a message ends, and the bound on the recursion of the model does not show: every
  message that is taken from the queue makes the queue shorter, because a queued message has
  the number that is expected next and is not queued again; the message that is handled first
  can add one.
\<close>

section \<open>The length of the queue\<close>

definition queue_length :: "'e session \<Rightarrow> nat" where
  "queue_length w = length (m_queue (m_state w))"

definition queue_wf :: "'e session \<Rightarrow> bool" where
  "queue_wf w \<longleftrightarrow> map_sorted (m_queue (m_state w)) \<and> (\<forall>(n, m)\<in>set (m_queue (m_state w)). own_number m = Inr n)"

text \<open>With less than \<open>b\<close> in the queue the bound is not exhausted, and at most \<open>k\<close> messages are added.\<close>

definition adds :: "nat \<Rightarrow> nat \<Rightarrow> 'e session \<Rightarrow> bool \<Rightarrow> 'e session \<Rightarrow> bool" where
  "adds k b w out w' \<longleftrightarrow> queue_wf w \<and> queue_length w + k < b \<longrightarrow>
     \<not> out \<and> queue_wf w' \<and> queue_length w' \<le> queue_length w + k"

lemma adds_same: "m_queue (m_state w') = m_queue (m_state w) \<Longrightarrow> adds k b w False w'"
  by (simp add: adds_def queue_wf_def queue_length_def)

lemma adds_mono: "adds 0 b w out w' \<Longrightarrow> adds k b w out w'"
  by (auto simp: adds_def)

lemma adds_state: "(\<And>s. m_queue (f s) = m_queue s) \<Longrightarrow> related (adds k b) (state_update f)"
  unfolding related_def state_update_def by (intro allI) (simp add: adds_same)

lemma adds_outside: "related (adds k b) (outside_call c f)"
  unfolding related_def outside_call_def by (auto simp: split_beta intro!: adds_same split: sum.split)

interpretation adds_effects: session_effects "adds 0 b" for b
proof
  show "adds 0 b w False w" "adds 0 b w False (w\<lparr>environment := e, calls := calls w @ c\<rparr>)" "adds 0 b w False (w\<lparr>m_pResponder := r\<rparr>)"
    "adds 0 b w False (w\<lparr>s_registry := g\<rparr>)" "adds 0 b w False (w\<lparr>m_targetDefaultApplVerID := v\<rparr>)" for e c r g v and w :: "'a session"
    by (rule adds_same; simp)+
  show "adds 0 b w False w' \<Longrightarrow> adds 0 b w' out w'' \<Longrightarrow> adds 0 b w out w''" for w w' w'' :: "'a session" and out
    by (auto simp: adds_def)
  show "adds 0 b w False (w\<lparr>m_state := f (m_state w)\<rparr>)" if "bookkeeping f" for w :: "'a session" and f
    by (rule adds_same) (use that in \<open>simp add: bookkeeping_def\<close>)
  show "related (adds 0 b) incrNextTargetMsgSeqNum" "related (adds 0 b) (setNextTargetMsgSeqNum n)" "related (adds 0 b) (state_reset t)" for n t
    unfolding incrNextTargetMsgSeqNum_def setNextTargetMsgSeqNum_def state_reset_def store_update_def by (rule adds_state; simp)+
  show "related (adds 0 b) (state_update clearQueue)"
    by (simp add: related_def state_update_def clearQueue_def adds_def queue_wf_def queue_length_def map_sorted_def)
  show "related (adds 0 b) (state_update (clearQueueUpTo n))" for n
    using dropWhile_subset
    by (fastforce simp: related_def state_update_def clearQueueUpTo_def adds_def queue_wf_def queue_length_def map_sorted_dropWhile
        intro: le_trans [OF length_dropWhile_le])
qed

interpretation adds: session_persisting "adds 0 b" for b
proof
  have "related (adds 0 b) (store_update f)" for f :: "memory_store \<Rightarrow> memory_store"
    unfolding store_update_def by (rule adds_state) simp
  then show "related (adds 0 b) (persist m s)" for m s
    unfolding persist_def incrNextSenderMsgSeqNum_def
    by (intro adds_effects.related_bind adds_effects.related_when adds_effects.related_fields adds_effects.related_pure)
qed

lemma adds_deliver [session_rules]: "related (adds 0 b) (set_receivedLogon True)" "related (adds 0 b) (fromCallback t m)"
  unfolding set_receivedLogon_def fromCallback_def fromAdmin_def fromApp_def by (simp_all add: adds_state adds_outside)

lemma adds_logon_parts [session_rules]: "related (adds 0 b) (nextLogon_reply m)" "related (adds 0 b) (nextLogon_retransmit n)"
  "related (adds 0 b) (reset_store_when c)"
  unfolding nextLogon_reply_def nextLogon_retransmit_def reset_store_when_def by (intro session_rules)+

lemma adds_admission [session_rules]: "related (adds 0 b) (authenticateLogon m now)" "related (adds 0 b) (admit_logon m now)"
  "related (adds 0 b) (validate_received m)"
  unfolding authenticateLogon_def admit_logon_def validate_received_def Let_def by (intro session_rules)+

section \<open>Under a condition\<close>

lemma adds_bind:
  assumes "related_on (adds j b) P m" "returns P m Q" "\<And>a. related_on (adds k b) (Q a) (c a)"
  shows "related_on (adds (j + k) b) P (sbind m c)"
  unfolding related_on_def
proof (intro allI impI)
  fix w
  assume p: "P w"
  obtain r w' where m: "m w = (r, w')" by (cases "m w") auto
  have first: "adds j b w (r = Inl OutOfFuel) w'" using assms(1) m p by (simp add: related_on_def) (metis fst_conv snd_conv)
  show "adds (j + k) b w (fst (sbind m c w) = Inl OutOfFuel) (snd (sbind m c w))"
  proof (cases r)
    case (Inl e)
    then show ?thesis using first m by (auto simp: sbind_def adds_def)
  next
    case (Inr a)
    then have "Q a w'" using assms(2) m p by (simp add: returns_def)
    then have "adds k b w' (fst (c a w') = Inl OutOfFuel) (snd (c a w'))" using assms(3) by (simp add: related_on_def)
    then show ?thesis using first Inr m by (auto simp: sbind_def adds_def)
  qed
qed

lemmas adds_bind_first = adds_bind [where j = 0, simplified]
lemmas adds_bind_last = adds_bind [where k = 0, simplified]

lemma adds_catch:
  assumes "related_on (adds k b) P m" "\<And>e. related (adds 0 b) (h e)"
  shows "related_on (adds k b) P (scatch m h)"
  unfolding related_on_def
proof (intro allI impI)
  fix w
  assume p: "P w"
  obtain r w' where m: "m w = (r, w')" by (cases "m w") auto
  have first: "adds k b w (r = Inl OutOfFuel) w'" using assms(1) m p by (simp add: related_on_def) (metis fst_conv snd_conv)
  have last: "adds 0 b w' (fst (h e w') = Inl OutOfFuel) (snd (h e w'))" for e using assms(2) by (simp add: related_def)
  show "adds k b w (fst (scatch m h w) = Inl OutOfFuel) (snd (scatch m h w))"
  proof (cases "\<exists>e. r = Inl (Threw e)")
    case True
    then obtain e where "r = Inl (Threw e)" by blast
    then show ?thesis using first last [of e] m by (auto simp: scatch_def adds_def)
  next
    case False
    then have "scatch m h w = (r, w')" using m by (cases r) (auto simp: scatch_def split: fault.split)
    then show ?thesis using first by simp
  qed
qed

lemma adds_none: "related (adds 0 b) m \<Longrightarrow> related_on (adds k b) P m"
  by (simp add: related_def related_on_def adds_mono)

lemma adds_if: "(c \<Longrightarrow> related_on R P m) \<Longrightarrow> (\<not> c \<Longrightarrow> related_on R P n) \<Longrightarrow> related_on R P (if c then m else n)"
  by simp

text \<open>Methods that change nothing keep every condition.\<close>

definition unchanged :: "('e, 'a) op \<Rightarrow> bool" where
  "unchanged m \<longleftrightarrow> (\<forall>w. snd (m w) = w)"

lemma unchanged_pure: "unchanged (sreturn a)" "unchanged (sthrow e)" "unchanged (sget f)" "unchanged (sresult r)" "unchanged (state_get h)"
  "unchanged (field_of t fm)" "unchanged (as_seqnum x)" "unchanged (as_bool x)" "unchanged (as_time x)" "unchanged getExpectedTargetNum"
  by (simp_all add: unchanged_def sreturn_def sthrow_def sget_def sresult_def state_get_def field_of_def as_seqnum_def as_bool_def
      as_time_def getExpectedTargetNum_def split: sum.split)

lemma unchanged_bind: "unchanged m \<Longrightarrow> (\<And>a. unchanged (k a)) \<Longrightarrow> unchanged (sbind m k)"
  unfolding unchanged_def sbind_def by (auto split: prod.split sum.split) (metis snd_conv)+

lemma unchanged_if: "unchanged m \<Longrightarrow> unchanged n \<Longrightarrow> unchanged (if c then m else n)"
  by simp

lemma unchanged_parts: "unchanged (isTargetTooHigh f)" "unchanged (isTargetTooLow f)" "unchanged (validate_received m)"
  unfolding isTargetTooHigh_def isTargetTooLow_def validate_received_def Let_def
  by (rule unchanged_bind unchanged_if unchanged_pure)+

lemma returns_unchanged: "unchanged m \<Longrightarrow> returns P m (\<lambda>_. P)"
  unfolding unchanged_def returns_def by (metis snd_conv)

text \<open>The message that is expected next.\<close>

definition at_target :: "message \<Rightarrow> 'e session \<Rightarrow> bool" where
  "at_target m w \<longleftrightarrow> own_number m = Inr (ms_nextTarget (m_pStore (m_state w)))"

lemma returns_at_target:
  "(\<And>w. m_pStore (m_state (snd (f w))) = m_pStore (m_state w)) \<Longrightarrow> returns (at_target m) f (\<lambda>_. at_target m)"
  unfolding returns_def at_target_def by (metis snd_conv)

lemma at_target_good_time: "returns (at_target m) (isGoodTime f) (\<lambda>_. at_target m)"
  by (rule returns_at_target)
    (simp add: isGoodTime_def sbind_def sget_def sreturn_def timestamp_def outside_call_def as_time_def sresult_def sthrow_def split_beta
      split: sum.split)

lemma at_target_event: "returns (at_target m) (onEvent s) (\<lambda>_. at_target m)"
  by (rule returns_at_target)
    (simp add: onEvent_def log_call_def sbind_def state_get_def sget_def swhen_def sreturn_def outside_call_def)

lemma at_target_not_high:
  "getFieldRef F_MsgSeqNum (m_header m) = Inr f \<Longrightarrow> returns (at_target m) (isTargetTooHigh f) (\<lambda>high w. \<not> high)"
  by (auto simp: returns_def at_target_def isTargetTooHigh_def sbind_def sreturn_def as_seqnum_def getExpectedTargetNum_def
      state_get_def sget_def sresult_def sthrow_def own_number_def split: sum.splits)

section \<open>The checks of a message\<close>

text \<open>The only step that adds to the queue.\<close>

lemma length_map_put: "length (map_put k v xs) \<le> Suc (length xs)"
  by (induction k v xs rule: map_put.induct) auto

lemma adds_queue_put: "own_number m = Inr n \<Longrightarrow> related (adds 1 b) (state_update (queue_put n m))"
  using set_map_put [of n m] length_map_put [of n m]
  by (fastforce simp: related_def adds_def state_update_def queue_put_def queue_wf_def queue_length_def)

lemma adds_then: "related (adds 0 b) m \<Longrightarrow> (\<And>a. related (adds k b) (c a)) \<Longrightarrow> related (adds k b) (sbind m c)"
  unfolding related_on_all by (rule adds_bind_first [OF _ returns_any])

lemma adds_after: "related (adds k b) m \<Longrightarrow> (\<And>a. related (adds 0 b) (c a)) \<Longrightarrow> related (adds k b) (sbind m c)"
  unfolding related_on_all by (rule adds_bind_last [OF _ returns_any])

lemma adds_seq_field:
  assumes "\<And>f. getFieldRef F_MsgSeqNum (m_header m) = Inr f \<Longrightarrow> related (adds k b) (c f)"
  shows "related (adds k b) (sbind (field_of F_MsgSeqNum (m_header m)) c)"
  using assms adds_none [OF adds_effects.related_pure(2), where P = "\<lambda>_. True", of k b]
  by (cases "getFieldRef F_MsgSeqNum (m_header m)")
    (simp_all add: field_of_def sresult_def sbind_def sthrow_def sreturn_def related_def related_on_def)

lemma adds_number:
  assumes "getFieldRef F_MsgSeqNum (m_header m) = Inr f" "\<And>n. own_number m = Inr n \<Longrightarrow> related (adds k b) (c n)"
  shows "related (adds k b) (sbind (as_seqnum f) c)"
  using assms adds_none [OF adds_effects.related_pure(2), where P = "\<lambda>_. True", of k b]
  by (cases "SeqNumField_getValue f")
    (simp_all add: own_number_def as_seqnum_def sresult_def sbind_def sthrow_def sreturn_def related_def related_on_def)

lemma adds_too_high: "related (adds 1 b) (doTargetTooHigh m)"
proof -
  have queue: "related (adds 1 b) (sthen (state_update (queue_put n m)) (sbind (sget g) (\<lambda>already. sbind (state_get m_resendRange) (\<lambda>range.
      if already then onEvent (x already range) else generateResendRequest y f))))"
    if "own_number m = Inr n" for n f x y and g :: "'a session \<Rightarrow> bool"
    by (rule adds_after [OF adds_queue_put [OF that]]) (intro session_rules)+
  show ?thesis
    unfolding doTargetTooHigh_def
    by (rule adds_then [OF adds_effects.related_fields(1)], rule adds_seq_field, rule adds_then [OF adds_effects.related_pure(6)],
        rule adds_number, assumption, rule adds_then [OF adds_effects.related_calls(1)], rule queue)
qed

text \<open>The checks, as far as they depend on the number of the message.\<close>

definition too_high_step :: "nat \<Rightarrow> nat \<Rightarrow> ('e session \<Rightarrow> bool) \<Rightarrow> message \<Rightarrow> bool \<Rightarrow> bool" where
  "too_high_step k b P m h \<longleftrightarrow>
     (\<forall>f rest. (h \<longrightarrow> getFieldRef F_MsgSeqNum (m_header m) = Inr f) \<longrightarrow> related (adds 0 b) rest \<longrightarrow>
        related_on (adds k b) P (sbind (if h then isTargetTooHigh f else sreturn False)
          (\<lambda>high. if high then sthen (doTargetTooHigh m) (sreturn (None :: string option)) else rest)))"

lemma too_high_queued: "too_high_step 0 b (at_target m) m h"
proof -
  have "related_on (adds 0 b) (at_target m) (sbind (if h then isTargetTooHigh f else sreturn False)
      (\<lambda>high. if high then sthen (doTargetTooHigh m) (sreturn (None :: string option)) else rest))"
    if f: "h \<longrightarrow> getFieldRef F_MsgSeqNum (m_header m) = Inr f" and r: "related (adds 0 b) rest" for f and rest :: "('a, string option) op"
  proof (rule adds_effects.related_on_bind)
    show "related_on (adds 0 b) (at_target m) (if h then isTargetTooHigh f else sreturn False)"
      by (intro related_on session_rules)+
    show "returns (at_target m) (if h then isTargetTooHigh f else sreturn False) (\<lambda>high _. \<not> high)"
    proof (cases h)
      case True
      then show ?thesis using at_target_not_high [of m f] f by simp
    qed (simp add: returns_def sreturn_def)
    show "related_on (adds 0 b) (\<lambda>_. \<not> high) (if high then sthen (doTargetTooHigh m) (sreturn None) else rest)" for high
      using r by (cases high) (simp_all add: related_on, simp add: related_on_def)
  qed
  then show ?thesis by (simp add: too_high_step_def)
qed

lemma too_high_first: "too_high_step 1 b (\<lambda>_. True) m h"
proof -
  have "related_on (adds 1 b) (\<lambda>_. True) (sbind (if h then isTargetTooHigh f else sreturn False)
      (\<lambda>high. if high then sthen (doTargetTooHigh m) (sreturn (None :: string option)) else rest))"
    if r: "related (adds 0 b) rest" for f and rest :: "('a, string option) op"
  proof (rule adds_bind_first [OF _ returns_any])
    show "related_on (adds 0 b) (\<lambda>_. True) (if h then isTargetTooHigh f else sreturn False)"
      by (intro related_on session_rules)+
    show "related_on (adds 1 b) (\<lambda>_. True) (if high then sthen (doTargetTooHigh m) (sreturn None) else rest)" for high
      using r adds_bind_last [OF related_on [OF adds_too_high] returns_any related_on [OF adds_effects.related_pure(1)]]
      by (cases high) (simp_all add: adds_none)
  qed
  then show ?thesis by (simp add: too_high_step_def)
qed

lemma too_high_unchecked: "too_high_step 0 b (\<lambda>_. True) m False"
  by (simp add: too_high_step_def sbind_def sreturn_def related_def related_on_def)

lemma adds_first:
  "related (adds 0 b) x \<Longrightarrow> returns P x (\<lambda>_. P) \<Longrightarrow> (\<And>a. related_on (adds k b) P (c a)) \<Longrightarrow> related_on (adds k b) P (sbind x c)"
  by (rule adds_bind_first [OF related_on])

lemma adds_last:
  "related_on (adds k b) P x \<Longrightarrow> (\<And>a. related (adds 0 b) (c a)) \<Longrightarrow> related_on (adds k b) P (sbind x c)"
  by (rule adds_bind_last [OF _ returns_any]) (simp_all add: related_on_all)

lemmas adds_get = adds_first [OF adds_effects.related_pure(3) returns_unchanged [OF unchanged_pure(3)]]
lemmas adds_field = adds_first [OF adds_effects.related_fields(1) returns_unchanged [OF unchanged_pure(6)]]

lemma adds_seq:
  assumes "\<And>f. (h \<longrightarrow> getFieldRef F_MsgSeqNum (m_header m) = Inr f) \<Longrightarrow> related_on (adds k b) P (c f)"
  shows "related_on (adds k b) P (sbind (if h \<or> l then field_of F_MsgSeqNum (m_header m) else sreturn x) c)"
proof (rule adds_bind_first [where Q = "\<lambda>f w. P w \<and> (h \<longrightarrow> getFieldRef F_MsgSeqNum (m_header m) = Inr f)"])
  show "related_on (adds 0 b) P (if h \<or> l then field_of F_MsgSeqNum (m_header m) else sreturn x)"
    by (intro related_on session_rules)+
  show "returns P (if h \<or> l then field_of F_MsgSeqNum (m_header m) else sreturn x)
      (\<lambda>f w. P w \<and> (h \<longrightarrow> getFieldRef F_MsgSeqNum (m_header m) = Inr f))"
    by (auto simp: returns_def field_of_def sresult_def sreturn_def sthrow_def split: sum.splits)
  show "related_on (adds k b) (\<lambda>w. P w \<and> (h \<longrightarrow> getFieldRef F_MsgSeqNum (m_header m) = Inr f)) (c f)" for f
    using assms [of f] by (auto simp: related_on_def)
qed

lemma adds_verify_checks:
  assumes step: "too_high_step k b P m h" and time: "\<And>f. returns P (isGoodTime f) (\<lambda>_. P)"
  shows "related_on (adds k b) P (verify_checks m h l)"
  unfolding verify_checks_def
  by (rule adds_field adds_seq adds_get adds_first [OF adds.related_checks(1) time] step [unfolded too_high_step_def, THEN spec, THEN spec, THEN mp, THEN mp]
      adds_if | assumption | rule adds_none, (intro session_rules)+)+
    (intro session_rules)+

lemma adds_verify:
  assumes "too_high_step k b P m h" "\<And>f. returns P (isGoodTime f) (\<lambda>_. P)"
  shows "related_on (adds k b) P (verify m h l c)"
  unfolding verify_def
  by (rule adds_last [OF adds_catch [OF adds_verify_checks [OF assms]]]) (intro session_rules)+

lemma verify_queued: "related_on (adds 0 b) (at_target m) (verify m h l c)"
  by (rule adds_verify [OF too_high_queued at_target_good_time])

lemma verify_first: "related_on (adds 1 b) (\<lambda>_. True) (verify m h l c)"
  by (rule adds_verify [OF too_high_first returns_any])

lemma verify_unchecked [session_rules]: "related (adds 0 b) (verify m False l c)"
  unfolding related_on_all by (rule adds_verify [OF too_high_unchecked returns_any])

section \<open>The handlers\<close>

lemma adds_nextLogout [session_rules]: "related (adds 0 b) (nextLogout m)" "related (adds 0 b) (nextResendRequest m)"
  unfolding nextLogout_def nextResendRequest_def Let_def by (intro session_rules)+

lemma adds_next_catch [session_rules]: "related (adds 0 b) (next_catch m e)"
  unfolding next_catch_def logex_def business_level_def by (intro session_rules)+

text \<open>A message whose checks add at most \<open>k\<close> when \<open>P\<close> holds; what follows adds nothing.\<close>

lemma unchanged_flag: "unchanged (case getFieldIfSet t fm of None \<Rightarrow> sreturn False | Some f \<Rightarrow> as_bool f)"
  by (simp add: unchanged_pure split: option.split)

lemma adds_handlers:
  assumes V: "\<And>h l c. related_on (adds k b) P (verify m h l c)" and nq: "related (adds 0 b) nq"
  shows "related_on (adds k b) P (nextHeartbeat nq m)" "related_on (adds k b) P (nextTestRequest nq m)"
    "related_on (adds k b) P (nextReject nq m)" "related_on (adds k b) P (nextSequenceReset nq m)"
proof -
  show "related_on (adds k b) P (nextHeartbeat nq m)" "related_on (adds k b) P (nextTestRequest nq m)"
    "related_on (adds k b) P (nextReject nq m)"
    unfolding nextHeartbeat_def nextTestRequest_def nextReject_def by (rule adds_last [OF V], (rule nq | rule session_rules)+)+
  show "related_on (adds k b) P (nextSequenceReset nq m)"
    unfolding nextSequenceReset_def
    by (rule adds_first [OF _ returns_unchanged [OF unchanged_flag] adds_last [OF V]]) (rule nq | rule session_rules)+
qed

lemma adds_dispatch:
  assumes V: "\<And>h l c. related_on (adds k b) P (verify m h l c)" and nq: "related (adds 0 b) nq"
    and logon: "t = MsgType_Logon \<Longrightarrow> related_on (adds k b) P (nextLogon nq m now)"
  shows "related_on (adds k b) P (next_dispatch nq m now t)"
  unfolding next_dispatch_def
  by (rule adds_if | (rule adds_last, erule logon) | rule adds_last [OF adds_handlers(1) [OF V nq]]
      adds_last [OF adds_handlers(2) [OF V nq]] adds_last [OF adds_handlers(3) [OF V nq]] adds_last [OF adds_handlers(4) [OF V nq]]
    | (rule adds_none, (intro session_rules; fail)) | rule adds_last [OF V] | rule session_rules)+

text \<open>The Logon is queued when its number is too high.\<close>

lemma adds_weaken: "related (adds 0 b) m \<Longrightarrow> related (adds k b) m"
  unfolding related_on_all by (rule adds_none) (simp add: related_on_all)

lemma adds_cond: "(c \<Longrightarrow> related R m) \<Longrightarrow> (\<not> c \<Longrightarrow> related R n) \<Longrightarrow> related R (if c then m else n)"
  by simp

lemma adds_logon_sequence:
  assumes "related (adds 0 b) nq"
  shows "related (adds 1 b) (nextLogon_sequence nq m f)"
proof -
  have queue: "related (adds 1 b) (steps [onEvent s, state_update (queue_put n m), set_resendRange x y])" if "own_number m = Inr n" for s n x y
    unfolding steps.simps
    by (rule adds_then [OF adds_effects.related_calls(1)], rule adds_after [OF adds_queue_put [OF that]]) (intro session_rules)+
  have last: "related (adds 1 b) (steps [incrNextTargetMsgSeqNum, nq])"
    by (rule adds_weaken, (rule assms | rule session_rules)+)
  show ?thesis
    unfolding nextLogon_sequence_def
    by (rule adds_seq_field)
      (rule last queue adds_too_high adds_cond | rule adds_number, assumption | (rule adds_then, (intro session_rules; fail)) | assumption)+
qed

lemma adds_cases:
  "(\<And>a c. p = (a, c) \<Longrightarrow> related R (f a c)) \<Longrightarrow> related R (case p of (a, c) \<Rightarrow> f a c)"
  "(x = None \<Longrightarrow> related R m) \<Longrightarrow> (\<And>a. x = Some a \<Longrightarrow> related R (g a)) \<Longrightarrow> related R (case x of None \<Rightarrow> m | Some a \<Rightarrow> g a)"
  "(\<And>a. y = Inl a \<Longrightarrow> related R (h a)) \<Longrightarrow> (\<And>a. y = Inr a \<Longrightarrow> related R (l a)) \<Longrightarrow> related R (case y of Inl a \<Rightarrow> h a | Inr a \<Rightarrow> l a)"
  by ((cases p; simp), (cases x; simp), (cases y; simp))

lemma adds_logon_accepted:
  assumes "related (adds 0 b) nq"
  shows "related (adds 1 b) (nextLogon_accepted nq m f)"
  unfolding nextLogon_accepted_def steps.simps
  by (rule adds_after [OF adds_logon_sequence [OF assms]] adds_cases | (rule adds_weaken, (intro session_rules; fail))
    | (rule adds_then, (intro session_rules; fail)) | (intro session_rules; fail))+

lemma adds_nextLogon:
  assumes "related (adds 0 b) nq"
  shows "related (adds 1 b) (nextLogon nq m now)"
  unfolding nextLogon_def Let_def
  by (rule adds_logon_accepted [OF assms] adds_cond | (rule adds_weaken, (intro session_rules; fail))
    | (rule adds_then, (intro session_rules; fail)))+

lemma adds_admitted:
  assumes V: "\<And>h l c. related_on (adds k b) P (verify m h l c)" and nq: "related (adds 0 b) nq"
    and logon: "t = MsgType_Logon \<Longrightarrow> P = (\<lambda>_. True) \<and> related_on (adds k b) P (nextLogon nq m now)"
  shows "related_on (adds k b) P (next_admitted nq m now t v)"
proof -
  have dispatch: "related_on (adds k b) P (next_dispatch nq m now t)" by (rule adds_dispatch [OF V nq]) (use logon in blast)
  have ver: "returns P (if t = MsgType_Logon then x else sreturn ()) (\<lambda>_. P)" for x :: "('a, unit) op"
    using logon by (auto simp: returns_def sreturn_def)
  have ver2: "returns P (if t = MsgType_Logon \<and> fixt then x else sreturn ()) (\<lambda>_. P)" for x :: "('a, unit) op" and fixt
    using logon by (auto simp: returns_def sreturn_def)
  show ?thesis
    unfolding next_admitted_def
    by (rule dispatch adds_get adds_first [OF _ ver] adds_first [OF _ ver2] adds_first [OF _ returns_unchanged [OF unchanged_parts(3)]] adds_if
      | (rule adds_none, (intro session_rules; fail)) | (intro session_rules; fail))+
qed

lemma adds_field_known:
  assumes "\<And>f. getFieldRef t fm = Inr f \<Longrightarrow> related_on (adds k b) P (c f)"
  shows "related_on (adds k b) P (sbind (field_of t fm) c)"
  using assms adds_none [OF adds_effects.related_pure(2), of k b P]
  by (cases "getFieldRef t fm") (simp_all add: field_of_def sresult_def sbind_def sthrow_def sreturn_def related_on_def)

lemma adds_try:
  assumes V: "\<And>h l c. related_on (adds k b) P (verify m h l c)" and nq: "related (adds 0 b) nq"
    and logon: "getField F_MsgType (m_header m) = Inr MsgType_Logon \<Longrightarrow> P = (\<lambda>_. True) \<and> related_on (adds k b) P (nextLogon nq m now)"
  shows "related_on (adds k b) P (next_try nq m now a)"
  unfolding next_try_def Let_def
proof (rule adds_field_known)
  fix f
  assume f: "getFieldRef F_MsgType (m_header m) = Inr f"
  have logon: "P = (\<lambda>_. True) \<and> related_on (adds k b) P (nextLogon nq m now)" if "m_string f = MsgType_Logon"
  proof -
    have "getField F_MsgType (m_header m) = Inr MsgType_Logon" using f that by (simp add: getField_def)
    then show ?thesis by (rule logon)
  qed
  have admitted: "related_on (adds k b) P (next_admitted nq m now (m_string f) v)" for v
    by (rule adds_admitted [OF V nq logon])
  have admit: "returns P (if m_string f = MsgType_Logon \<and> \<not> a then admit_logon m now else sreturn True) (\<lambda>_. P)"
    using logon by (auto simp: returns_def sreturn_def)
  show "related_on (adds k b) P (sbind (sget (\<lambda>w. m_string f \<noteq> MsgType_Logon \<and> \<not> m_receivedLogon (m_state w) \<and> \<not> answersPendingLogon (m_string f) w)) (\<lambda>early.
     if early
     then
       sbind (state_get m_sentLogon) (\<lambda>sent.
       sthen (if sent then disconnect
              else sbind (sget m_pResponder) (\<lambda>r. case r of None \<Rightarrow> sreturn () | Some p \<Rightarrow> pResponder_disconnect p))
         (sreturn False))
     else
     sbind (field_of F_BeginString (m_header m)) (\<lambda>beginString.
     sbind (field_of F_SenderCompID (m_header m)) (\<lambda>_.
     sbind (field_of F_TargetCompID (m_header m)) (\<lambda>_.
     sbind (sget (\<lambda>w. m_string beginString \<noteq> beginString_of w)) (\<lambda>other_version.
     if other_version then sthrow UnsupportedVersion
     else
     sbind (if m_string f = MsgType_Logon \<and> \<not> a then admit_logon m now else sreturn True) (\<lambda>go_on.
     if \<not> go_on then sreturn False
     else next_admitted nq m now (m_string f) (m_string beginString))))))))"
    by (rule admitted adds_get adds_field adds_first [OF _ admit] adds_if
      | (rule adds_none, (intro session_rules; fail)) | (intro session_rules; fail))+
qed

text \<open>The message and everything that comes after it, where the queue is only handled after the first.\<close>

lemma adds_message_with:
  assumes "related_on (adds k b) P (next_try nq m now a)" "related (adds 0 b) nq"
  shows "related_on (adds k b) P (next_message_with nq m now q a)"
proof -
  have catch: "related_on (adds k b) P (scatch (next_try nq m now a) (\<lambda>e. sthen (next_catch m e) (sreturn True)))"
    by (rule adds_catch [OF assms(1)]) (intro session_rules)
  show ?thesis
    unfolding next_message_with_def by (rule adds_last [OF catch]) (rule assms(2) | rule session_rules)+
qed

section \<open>The queue\<close>

text \<open>A message that is taken from the queue has the number that is expected.\<close>

lemma retrieve_shrinks:
  assumes "queue_wf w" "map_of (m_queue (m_state w)) n = Some m" "n = ms_nextTarget (m_pStore (m_state w))"
    and "w' = w\<lparr>m_state := snd (retrieve n (m_state w))\<rparr>"
  shows "queue_wf w'" "queue_length w' < queue_length w" "at_target m w'"
proof -
  have q: "m_queue (m_state w') = map_erase n (m_queue (m_state w))" "m_pStore (m_state w') = m_pStore (m_state w)"
    using assms(2,4) by (simp_all add: retrieve_def)
  have k: "(n, m) \<in> set (m_queue (m_state w))" using assms(2) by (rule map_of_SomeD)
  show "queue_wf w'" using assms(1) q by (auto simp: queue_wf_def) (auto simp: map_erase_def)
  show "queue_length w' < queue_length w"
    using k unfolding queue_length_def q map_erase_def by (intro length_filter_less [of "(n, m)"]) simp_all
  show "at_target m w'" using assms(1,3) k q by (auto simp: queue_wf_def at_target_def)
qed

lemma adds_taken:
  assumes "related (adds 0 b) (nextQueued b now :: ('e, unit) op)"
  shows "related_on (adds 0 b) (at_target m :: 'e session \<Rightarrow> bool)
    (sbind (sthen (onEvent s) (sbind (field_of F_MsgType (m_header m)) (\<lambda>t.
       sthen (if m_string t = MsgType_Logon \<or> m_string t = MsgType_ResendRequest then incrNextTargetMsgSeqNum
              else next_message_with (nextQueued b now) m now True False) (sreturn True))))
      (\<lambda>again. if again then nextQueued b now else sreturn ()))"
proof (rule adds_last)
  have handle: "related_on (adds 0 b) (at_target m :: 'e session \<Rightarrow> bool) (next_message_with (nextQueued b now) m now True False)"
    if "getFieldRef F_MsgType (m_header m) = Inr t" "m_string t \<noteq> MsgType_Logon" for t
  proof (rule adds_message_with [OF _ assms])
    show "related_on (adds 0 b) (at_target m :: 'e session \<Rightarrow> bool) (next_try (nextQueued b now) m now False)"
      by (rule adds_try [OF verify_queued assms]) (use that in \<open>simp add: getField_def\<close>)
  qed
  have take: "related_on (adds 0 b) (at_target m :: 'e session \<Rightarrow> bool) (sthen (if m_string t = MsgType_Logon \<or> m_string t = MsgType_ResendRequest
      then incrNextTargetMsgSeqNum else next_message_with (nextQueued b now) m now True False) (sreturn True))"
    if "getFieldRef F_MsgType (m_header m) = Inr t" for t
    by (rule adds_last [OF adds_if]) (use handle that in \<open>auto intro: related_on adds_effects.target_up adds_effects.related_pure\<close>)
  show "related_on (adds 0 b) (at_target m :: 'e session \<Rightarrow> bool) (sthen (onEvent s) (sbind (field_of F_MsgType (m_header m)) (\<lambda>t.
       sthen (if m_string t = MsgType_Logon \<or> m_string t = MsgType_ResendRequest then incrNextTargetMsgSeqNum
              else next_message_with (nextQueued b now) m now True False) (sreturn True))))"
    by (rule adds_first [OF adds_effects.related_calls(1) at_target_event], rule adds_field_known, rule take)
  show "related (adds 0 b) (if again then nextQueued b now else sreturn () :: ('e, unit) op)" for again
    using assms by (simp add: adds_effects.related_pure)
qed

lemma adds_nextQueued: "related (adds 0 b) (nextQueued b now)"
proof (induction b)
  case 0
  then show ?case by (simp add: related_def adds_def)
next
  case (Suc b)
  have "adds 0 (Suc b) w (fst (nextQueued (Suc b) now w) = Inl OutOfFuel) (snd (nextQueued (Suc b) now w))" for w :: "'a session"
  proof (cases "map_of (m_queue (m_state w)) (ms_nextTarget (m_pStore (m_state w)))")
    case None
    then have "nextQueued (Suc b) now w = (Inr (), w)"
      by (simp add: sbind_def getExpectedTargetNum_def state_get_def sget_def nextQueued_one_def retrieve_def sreturn_def)
    then show ?thesis by (simp add: adds_def)
  next
    case (Some m)
    define n where "n = ms_nextTarget (m_pStore (m_state w))"
    define w' where "w' = w\<lparr>m_state := snd (retrieve n (m_state w))\<rparr>"
    define taken :: "('a, unit) op" where "taken = sbind (sthen (onEvent (''Processing QUEUED message: '' @ num n)) (sbind (field_of F_MsgType (m_header m)) (\<lambda>t.
       sthen (if m_string t = MsgType_Logon \<or> m_string t = MsgType_ResendRequest then incrNextTargetMsgSeqNum
              else next_message_with (nextQueued b now) m now True False) (sreturn True))))
      (\<lambda>again. if again then nextQueued b now else sreturn ())"
    have e: "nextQueued (Suc b) now w = taken w'"
      using Some unfolding taken_def
      by (simp add: sbind_def getExpectedTargetNum_def state_get_def sget_def nextQueued_one_def state_update_def n_def w'_def
          retrieve_def)
    have taken: "related_on (adds 0 b) (at_target m) taken" unfolding taken_def by (rule adds_taken [OF Suc.IH])
    show ?thesis
    proof (cases "queue_wf w \<and> queue_length w < Suc b")
      case True
      then have r: "queue_wf w'" "queue_length w' < queue_length w" "at_target m w'"
        using retrieve_shrinks [of w n m w'] Some by (simp_all add: n_def w'_def)
      then have "adds 0 b w' (fst (taken w') = Inl OutOfFuel) (snd (taken w'))" using taken by (simp add: related_on_def)
      then show ?thesis using r True unfolding e by (simp add: adds_def)
    qed (auto simp: adds_def simp del: nextQueued.simps)
  qed
  then show ?case unfolding related_def by blast
qed

lemma adds_next_message: "related (adds 1 b) (next_message b m now q a)"
  unfolding next_message_def related_on_all
  by (rule adds_message_with [OF adds_try [OF verify_first adds_nextQueued] adds_nextQueued])
    (intro conjI refl related_on adds_nextLogon adds_nextQueued)

lemma adds_catch_all: "related (adds k b) m \<Longrightarrow> (\<And>e. related (adds 0 b) (h e)) \<Longrightarrow> related (adds k b) (scatch m h)"
  using adds_catch [of k b "\<lambda>_. True" m h] by (simp add: related_on_all)

lemma adds_admission_parts [session_rules]: "related (adds 0 b) (read_logon wire now)" "related (adds 0 b) (refuseLogon wire r reason)"
  "related (adds 0 b) (release_logon p x)"
  unfolding refuseLogon_def read_logon_def release_logon_def by (intro session_rules)+

lemma adds_next_text: "related (adds 1 b) (next_text b s now q)"
  unfolding next_text_def
  by (rule adds_catch_all)
    (rule adds_next_message | (rule adds_then, (intro session_rules; fail)) | (intro session_rules; fail))+

lemma adds_acceptLogon: "related (adds 1 b) (acceptLogon b wire r)"
proof -
  have admitted: "related (adds 1 b) (admitted_logon b wire r l now)" for l now
    unfolding admitted_logon_def steps.simps
    by (rule adds_catch_all adds_cond adds_after [OF adds_next_message] | (rule adds_then, (intro session_rules; fail)) | rule adds_after
      | (intro session_rules; fail))+
  show ?thesis
    unfolding acceptLogon_def accept_read_def
    by (rule admitted adds_cond adds_cases | (rule adds_weaken, (intro session_rules; fail)) | (rule adds_then, (intro session_rules; fail)))+
qed

section \<open>The bound does not matter\<close>

definition approximates :: "('e, 'a) op \<Rightarrow> ('e, 'a) op \<Rightarrow> bool" where
  "approximates m n \<longleftrightarrow> (\<forall>w. fst (m w) = Inl OutOfFuel \<or> m w = n w)"

lemma approximates_refl: "approximates m m"
  by (simp add: approximates_def)

lemma approximates_trans: "approximates m n \<Longrightarrow> approximates n p \<Longrightarrow> approximates m p"
  unfolding approximates_def by metis

lemma approximates_bind:
  assumes "approximates m n" "\<And>a. approximates (k a) (l a)"
  shows "approximates (sbind m k) (sbind n l)"
  unfolding approximates_def
proof
  fix w
  show "fst (sbind m k w) = Inl OutOfFuel \<or> sbind m k w = sbind n l w"
  proof (cases "fst (m w) = Inl OutOfFuel")
    case True
    then show ?thesis by (simp add: sbind_def split_beta)
  next
    case False
    then have "m w = n w" using assms(1) by (auto simp: approximates_def)
    then show ?thesis using assms(2) by (auto simp: sbind_def approximates_def split_beta split: sum.split)
  qed
qed

lemma approximates_catch:
  assumes "approximates m n" "\<And>e. approximates (k e) (l e)"
  shows "approximates (scatch m k) (scatch n l)"
  unfolding approximates_def
proof
  fix w
  show "fst (scatch m k w) = Inl OutOfFuel \<or> scatch m k w = scatch n l w"
  proof (cases "fst (m w) = Inl OutOfFuel")
    case True
    then show ?thesis by (simp add: scatch_def split_beta)
  next
    case False
    then have "m w = n w" using assms(1) by (auto simp: approximates_def)
    then show ?thesis using assms(2) by (auto simp: scatch_def approximates_def split_beta split: sum.split fault.split)
  qed
qed

lemma approximates_if: "approximates m n \<Longrightarrow> approximates k l \<Longrightarrow> approximates (if c then m else k) (if c then n else l)"
  by simp

lemma approximates_case:
  "(\<And>a b. approximates (f a b) (g a b)) \<Longrightarrow> approximates (case p of (a, b) \<Rightarrow> f a b) (case p of (a, b) \<Rightarrow> g a b)"
  "approximates m n \<Longrightarrow> (\<And>a. approximates (h a) (k a)) \<Longrightarrow> approximates (case x of None \<Rightarrow> m | Some a \<Rightarrow> h a) (case x of None \<Rightarrow> n | Some a \<Rightarrow> k a)"
  "(\<And>a. approximates (r a) (s a)) \<Longrightarrow> (\<And>a. approximates (t a) (u a)) \<Longrightarrow>
    approximates (case y of Inl a \<Rightarrow> r a | Inr a \<Rightarrow> t a) (case y of Inl a \<Rightarrow> s a | Inr a \<Rightarrow> u a)"
  by ((cases p; simp), (cases x; simp), (cases y; simp))

lemma approximates_handlers:
  assumes "approximates nq nq'"
  shows "approximates (next_message_with nq m now q a) (next_message_with nq' m now q a)"
  unfolding next_message_with_def next_try_def next_admitted_def next_dispatch_def nextLogon_def nextLogon_accepted_def
    nextLogon_sequence_def nextHeartbeat_def nextTestRequest_def nextReject_def nextSequenceReset_def Let_def swhen_def steps.simps
  by (rule assms approximates_refl | rule approximates_bind approximates_catch approximates_if approximates_case)+

lemma approximates_more: "approximates (nextQueued b now) (nextQueued (b + k) now)"
proof (induction b)
  case 0
  then show ?case by (simp add: approximates_def)
next
  case (Suc b)
  show ?case
    unfolding add_Suc nextQueued.simps nextQueued_one_def
    by (rule Suc approximates_refl | rule approximates_bind approximates_if approximates_case approximates_handlers)+
qed

lemma approximates_next_message: "b \<le> c \<Longrightarrow> approximates (next_message b m now q a) (next_message c m now q a)"
  unfolding next_message_def using approximates_handlers [OF approximates_more [of b now "c - b"]] by simp

lemma approximates_next_text: "b \<le> c \<Longrightarrow> approximates (next_text b s now q) (next_text c s now q)"
  unfolding next_text_def
  by (rule approximates_refl | rule approximates_bind approximates_catch approximates_next_message | assumption)+

lemma approximates_acceptLogon: "b \<le> c \<Longrightarrow> approximates (acceptLogon b wire r) (acceptLogon c wire r)"
  unfolding acceptLogon_def accept_read_def admitted_logon_def steps.simps
  by (rule approximates_refl | rule approximates_bind approximates_catch approximates_if approximates_case approximates_next_message | assumption)+

section \<open>Property\<close>

lemma enough:
  assumes "related (adds 1 b) (m :: ('e, 'a) op)" "approximates m n" "session_ok w" "queue_length w + 1 < b"
  shows "fst (m w) \<noteq> Inl OutOfFuel \<and> n w = m w \<and> queue_length (snd (m w)) \<le> queue_length w + 1"
proof -
  have "queue_wf w" using assms(3) by (auto simp: session_ok_def session_wf_def queue_wf_def)
  then have "fst (m w) \<noteq> Inl OutOfFuel" "queue_length (snd (m w)) \<le> queue_length w + 1"
    using assms(1,4) by (simp_all add: related_def adds_def)
  then show ?thesis using assms(2) by (auto simp: approximates_def)
qed

text \<open>C3: handling a received message comes to an end. With any bound on the recursion that is
  larger than the number of queued messages plus one, a message, a message as text and a Logon
  that is offered are handled without exhausting it, and with every larger bound the same
  happens: the loop over the queue and the handlers that call each other through it take a
  message from the queue each time, and only the message that was received can add one.\<close>

theorem handling_ends:
  assumes "session_reachable w0 w"
    and "w0 = Session_members out i provider st hb logged detached now created registry e"
    and "length (m_queue (m_state w)) + 1 < b" "b \<le> c"
  shows "fst (next_message b m t False False w) \<noteq> Inl OutOfFuel \<and> next_message c m t False False w = next_message b m t False False w \<and>
    fst (next_text b s t False w) \<noteq> Inl OutOfFuel \<and> next_text c s t False w = next_text b s t False w \<and>
    fst (acceptLogon b s r w) \<noteq> Inl OutOfFuel \<and> acceptLogon c s r w = acceptLogon b s r w \<and>
    length (m_queue (m_state (snd (next_message b m t False False w)))) \<le> length (m_queue (m_state w)) + 1"
proof -
  have w: "session_ok w" by (rule session_ok_life [OF assms(1,2)])
  have q: "queue_length w + 1 < b" using assms(3) by (simp add: queue_length_def)
  show ?thesis
    using enough [OF adds_next_message approximates_next_message [OF assms(4)] w q, of m t False False]
      enough [OF adds_next_text approximates_next_text [OF assms(4)] w q, of s t False]
      enough [OF adds_acceptLogon approximates_acceptLogon [OF assms(4)] w q, of s r]
    by (simp add: queue_length_def)
qed

text \<open>A session without queued messages handles a message with the bound two.\<close>

theorem handling_ends_witness:
  "fst (next_text 2 sample_logon sample_time False (snd (Session_construct 1 sample_session))) \<noteq> Inl OutOfFuel"
proof -
  have "length (m_queue (m_state (snd (Session_construct 1 sample_session)))) + 1 < 2"
    by code_simp
  then show ?thesis using handling_ends [OF reachable_constructed [OF configured_none] sample_session_def] by blast
qed

end
