(* ===== verification/Dictionaries.thy ===== *)
theory Dictionaries
  imports DateTimes
begin

text \<open>
  \<open>Dictionary\<close>: the named set of keys and values that a section of the settings is, and the
  string functions of \<open>Utility.cpp\<close> it uses. Keys are stored in upper case and
  stripped. Bytes are classified as the C locale does. The value of a \<open>double\<close> is a
  parameter, its reader and its printer come from the vendored double-conversion library.
\<close>

section \<open>String functions\<close>

definition char_toupper :: "char \<Rightarrow> char" where
  "char_toupper c = (let n = (of_char c :: nat) in if 97 \<le> n \<and> n \<le> 122 then char_of (n - 32) else c)"

definition char_tolower :: "char \<Rightarrow> char" where
  "char_tolower c = (let n = (of_char c :: nat) in if 65 \<le> n \<and> n \<le> 90 then char_of (n + 32) else c)"

definition string_toUpper :: "string \<Rightarrow> string" where "string_toUpper s = map char_toupper s"
definition string_toLower :: "string \<Rightarrow> string" where "string_toLower s = map char_tolower s"

definition is_blank :: "char \<Rightarrow> bool" where
  "is_blank c \<longleftrightarrow> c = CHR '' '' \<or> c = CHR 0x09 \<or> c = CHR 0x0D \<or> c = CHR 0x0A"

text \<open>A string of blanks only is returned as it is.\<close>

definition string_strip :: "string \<Rightarrow> string" where
  "string_strip s =
     (if list_all is_blank s then s else rev (dropWhile is_blank (rev (dropWhile is_blank s))))"

text \<open>The pieces between the delimiters; a piece of one byte that a delimiter ends is left out.\<close>

fun string_split_from :: "char \<Rightarrow> string \<Rightarrow> string \<Rightarrow> string list \<Rightarrow> string list" where
  "string_split_from delimiter piece [] found = (if piece = [] then found else insort_insert piece found)"
| "string_split_from delimiter piece (c # cs) found =
     (if c = delimiter
      then string_split_from delimiter [] cs (if length piece > 1 then insort_insert piece found else found)
      else string_split_from delimiter (piece @ [c]) cs found)"

definition string_split :: "string \<Rightarrow> char \<Rightarrow> string list" where
  "string_split value delimiter = string_split_from delimiter [] value []"

section \<open>The dictionary\<close>

record settings_dictionary =
  d_data :: "(string \<times> string) list"
  d_name :: string

definition Dictionary :: "string \<Rightarrow> settings_dictionary" where
  "Dictionary name = \<lparr>d_data = [], d_name = name\<rparr>"

definition dict_has :: "string \<Rightarrow> settings_dictionary \<Rightarrow> bool" where
  "dict_has key d \<longleftrightarrow> map_of (d_data d) (string_toUpper key) \<noteq> None"

definition dict_getString :: "string \<Rightarrow> bool \<Rightarrow> settings_dictionary \<Rightarrow> string result" where
  "dict_getString key capitalize d =
     (case map_of (d_data d) (string_toUpper key) of
        None \<Rightarrow> Inl (ConfigError (key @ '' not defined''))
      | Some v \<Rightarrow> Inr (if capitalize then map char_toupper v else v))"

text \<open>The conversions: \<open>getString\<close>, then the convertor; its error names the value and the key.\<close>

definition illegal_value :: "string \<Rightarrow> settings_dictionary \<Rightarrow> 'a result" where
  "illegal_value key d =
     rbind (dict_getString key False d) (\<lambda>v. Inl (ConfigError (''Illegal value '' @ v @ '' for '' @ key)))"

definition dict_get :: "(string \<Rightarrow> 'a option) \<Rightarrow> string \<Rightarrow> settings_dictionary \<Rightarrow> 'a result" where
  "dict_get convert key d =
     rbind (dict_getString key False d) (\<lambda>v. case convert v of Some a \<Rightarrow> Inr a | None \<Rightarrow> illegal_value key d)"

definition dict_getInt :: "string \<Rightarrow> settings_dictionary \<Rightarrow> int result" where
  "dict_getInt = dict_get IntConvertor_from"

definition dict_getDouble :: "(string \<Rightarrow> 'd) \<Rightarrow> string \<Rightarrow> settings_dictionary \<Rightarrow> 'd result" where
  "dict_getDouble fast_strtod = dict_get (DoubleConvertor_from fast_strtod)"

definition dict_getBool :: "string \<Rightarrow> settings_dictionary \<Rightarrow> bool result" where
  "dict_getBool = dict_get BoolConvertor_from"

definition day_of_abbr :: "string \<Rightarrow> int" where
  "day_of_abbr abbr =
     (if abbr = ''su'' then 1 else if abbr = ''mo'' then 2 else if abbr = ''tu'' then 3
      else if abbr = ''we'' then 4 else if abbr = ''th'' then 5 else if abbr = ''fr'' then 6
      else if abbr = ''sa'' then 7 else - 1)"

definition dict_getDay :: "string \<Rightarrow> settings_dictionary \<Rightarrow> int result" where
  "dict_getDay = dict_get (\<lambda>value. if length value < 2 then None else Some (day_of_abbr (map char_tolower (take 2 value))))"

definition numericKeys :: "string list" where
  "numericKeys = [''HEARTBTINT'', ''MAXLATENCY'', ''LOGONTIMEOUT'', ''LOGOUTTIMEOUT'', ''RECONNECTINTERVAL'', ''SOCKETCONNECTPORT'']"

definition dict_put :: "string \<Rightarrow> string \<Rightarrow> settings_dictionary \<Rightarrow> settings_dictionary" where
  "dict_put key value d = d\<lparr>d_data := map_put key value (d_data d)\<rparr>"

definition dict_key :: "string \<Rightarrow> string" where "dict_key key = string_strip (string_toUpper key)"

definition dict_setString :: "string \<Rightarrow> string \<Rightarrow> settings_dictionary \<Rightarrow> settings_dictionary result" where
  "dict_setString key value d =
     (let upperKey = dict_key key; strippedVal = string_strip value in
      if upperKey \<in> set numericKeys \<and> \<not> list_all is_digit strippedVal
      then Inl (ConfigError (''Expected numeric value for: '' @ upperKey))
      else Inr (dict_put upperKey strippedVal d))"

definition dict_setInt :: "string \<Rightarrow> int \<Rightarrow> settings_dictionary \<Rightarrow> settings_dictionary" where
  "dict_setInt key value = dict_put (dict_key key) (IntConvertor_to value)"

definition dict_setDouble :: "('d \<Rightarrow> string) \<Rightarrow> string \<Rightarrow> 'd \<Rightarrow> settings_dictionary \<Rightarrow> settings_dictionary" where
  "dict_setDouble convert key value = dict_put (dict_key key) (convert value)"

definition dict_setBool :: "string \<Rightarrow> bool \<Rightarrow> settings_dictionary \<Rightarrow> settings_dictionary" where
  "dict_setBool key value = dict_put (dict_key key) (BoolConvertor_to value)"

definition day_names :: "string list" where
  "day_names = [''SU'', ''MO'', ''TU'', ''WE'', ''TH'', ''FR'', ''SA'']"

definition dict_setDay :: "string \<Rightarrow> int \<Rightarrow> settings_dictionary \<Rightarrow> settings_dictionary result" where
  "dict_setDay key value d =
     (if 1 \<le> value \<and> value \<le> 7 then dict_setString key (day_names ! nat (value - 1)) d else Inr d)"

definition merge_data :: "(string \<times> string) list \<Rightarrow> (string \<times> string) list \<Rightarrow> (string \<times> string) list" where
  "merge_data toMerge data =
     fold (\<lambda>(k, v) m. if map_of m k = None then map_put k v m else m) toMerge data"

definition dict_merge :: "settings_dictionary \<Rightarrow> settings_dictionary \<Rightarrow> settings_dictionary" where
  "dict_merge toMerge d = d\<lparr>d_data := merge_data (d_data toMerge) (d_data d)\<rparr>"

section \<open>Lemmas\<close>

lemma string_strip_split:
  assumes "\<not> list_all is_blank s"
  obtains a b where "s = a @ string_strip s @ b" "list_all is_blank a" "list_all is_blank b"
proof
  let ?r = "dropWhile is_blank s"
  have "s = takeWhile is_blank s @ ?r" by simp
  also have "?r = rev (dropWhile is_blank (rev ?r)) @ rev (takeWhile is_blank (rev ?r))"
    by (metis rev_append rev_rev_ident takeWhile_dropWhile_id)
  finally show "s = takeWhile is_blank s @ string_strip s @ rev (takeWhile is_blank (rev ?r))"
    using assms by (simp add: string_strip_def)
qed (auto simp: list_all_iff dest: set_takeWhileD)

definition stripped :: "string \<Rightarrow> bool" where
  "stripped s \<longleftrightarrow> s = [] \<or> \<not> is_blank (hd s) \<and> \<not> is_blank (last s)"

lemma string_strip_stripped [simp]: "stripped s \<Longrightarrow> string_strip s = s"
proof (cases "s = []")
  case False
  assume "stripped s"
  with False have h: "\<not> is_blank (hd s)" "\<not> is_blank (last s)" by (auto simp: stripped_def)
  have "dropWhile is_blank s = s" using False h by (cases s) auto
  moreover have "dropWhile is_blank (rev s) = rev s" using False h by (cases s rule: rev_cases) auto
  ultimately show ?thesis by (simp add: string_strip_def)
qed (simp add: string_strip_def)

lemma stripped_strip: "s = [] \<or> \<not> list_all is_blank s \<Longrightarrow> stripped (string_strip s)"
proof (cases "s = []")
  case False
  assume "s = [] \<or> \<not> list_all is_blank s"
  with False have n: "\<not> list_all is_blank s" by simp
  let ?r = "dropWhile is_blank s"
  have r: "?r \<noteq> []" using n by (simp add: list_all_iff)
  then have h: "\<not> is_blank (hd ?r)" using hd_dropWhile by blast
  have q: "dropWhile is_blank (rev ?r) \<noteq> []"
    using r h by (metis dropWhile_eq_Nil_conv hd_in_set set_rev)
  then have l: "\<not> is_blank (hd (dropWhile is_blank (rev ?r)))" using hd_dropWhile by blast
  have "hd (rev (dropWhile is_blank (rev ?r))) = hd ?r"
    by (metis q h hd_append2 last_rev last_appendR rev_is_Nil_conv hd_rev takeWhile_dropWhile_id)
  then show ?thesis using n q l h by (simp add: string_strip_def stripped_def last_rev)
qed (simp add: string_strip_def stripped_def)

lemma string_toUpper_idem [simp]: "string_toUpper (string_toUpper s) = string_toUpper s"
proof -
  have "char_toupper (char_toupper c) = char_toupper c" for c
    by (auto simp: char_toupper_def Let_def of_char_of)
  then show ?thesis by (simp add: string_toUpper_def)
qed

end
