(* ===== verification/Settings.thy ===== *)
theory Settings
  imports Dictionaries SessionIDs
begin

text \<open>
  \<open>Settings\<close> and \<open>SessionSettings\<close>: the sections of a settings text, the substitution of
  environment variables, the settings of each session with the defaults merged in, and the
  text they are written as. The text is the whole stream, which is read to its end without
  an error of the stream; the environment is the parameter \<open>env\<close>. The map from session ids
  is kept under their texts, by which they are compared.
\<close>

section \<open>Lines\<close>

abbreviation NL :: char where "NL \<equiv> CHR 0x0A"

text \<open>The lines that \<open>std::getline\<close> gives one after the other.\<close>

fun getlines :: "string \<Rightarrow> string \<Rightarrow> string list" where
  "getlines line [] = (if line = [] then [] else [line])"
| "getlines line (c # cs) = (if c = NL then line # getlines [] cs else getlines (line @ [c]) cs)"

definition isComment :: "string \<Rightarrow> bool" where
  "isComment line \<longleftrightarrow> line \<noteq> [] \<and> hd line = CHR ''#''"

definition isSection :: "string \<Rightarrow> bool" where
  "isSection line \<longleftrightarrow> line \<noteq> [] \<and> hd line = CHR ''['' \<and> last line = CHR '']''"

definition splitSection :: "string \<Rightarrow> string" where
  "splitSection line = string_strip (take (length line - 2) (drop 1 line))"

definition isKeyValue :: "string \<Rightarrow> bool" where
  "isKeyValue line \<longleftrightarrow> CHR ''='' \<in> set line"

definition splitKeyValue :: "string \<Rightarrow> string \<times> string" where
  "splitKeyValue line = (takeWhile (\<lambda>c. c \<noteq> CHR ''='') line, drop 1 (dropWhile (\<lambda>c. c \<noteq> CHR ''='') line))"

section \<open>Environment variables\<close>

text \<open>The bytes that end the name of a variable; the zero byte is one, as \<open>strchr\<close> finds it.\<close>

definition ends_name :: "char \<Rightarrow> bool" where
  "ends_name c \<longleftrightarrow> c \<in> set ([CHR 0x00, CHR 0x22, CHR 0x27, CHR 0x09, CHR 0x0A] @ '' /:;,.=?#+*()[]{}$&%'')"

definition escaped :: "char \<Rightarrow> char" where
  "escaped c = (if c = CHR ''t'' then CHR 0x09 else if c = CHR ''r'' then CHR 0x0D else if c = CHR ''n'' then CHR 0x0A else c)"

text \<open>
  The argument is what is left from the position on. The first byte of a name is taken
  whatever it is, and a name whose first byte is the last of the string ends the loop.
\<close>

definition env_value :: "(string \<Rightarrow> string option) \<Rightarrow> string \<Rightarrow> string" where
  "env_value env varName = (case env (takeWhile (\<lambda>c. c \<noteq> CHR 0x00) varName) of None \<Rightarrow> [] | Some v \<Rightarrow> v)"

definition skip_brace :: "bool \<Rightarrow> string \<Rightarrow> string" where
  "skip_brace inBraces rest =
     (case rest of [] \<Rightarrow> [] | c # cs \<Rightarrow> if inBraces \<and> (c = CHR '')'' \<or> c = CHR ''}'') then cs else rest)"

lemma skip_brace_length: "length (skip_brace b rest) \<le> length rest"
  by (auto simp: skip_brace_def split: list.split)

function resolveEnvVars :: "(string \<Rightarrow> string option) \<Rightarrow> string \<Rightarrow> string" where
  "resolveEnvVars env [] = []"
| "resolveEnvVars env [c] = [c]"
| "resolveEnvVars env (c # d # cs) =
     (if c = CHR 0x5C then escaped d # resolveEnvVars env cs
      else if c = CHR ''$''
      then let inBraces = (d = CHR ''('' \<or> d = CHR ''{'');
               name = (if inBraces then cs else d # cs)
           in if length name \<le> 1 then []
              else env_value env (hd name # takeWhile (\<lambda>c. \<not> ends_name c) (tl name)) @
                   resolveEnvVars env (skip_brace inBraces (dropWhile (\<lambda>c. \<not> ends_name c) (tl name)))
      else c # resolveEnvVars env (d # cs))"
  by pat_completeness auto

termination
proof (relation "measure (\<lambda>(_, s). length s)", goal_cases)
  case (3 env c d cs inBraces name)
  have "length (skip_brace inBraces (dropWhile (\<lambda>c. \<not> ends_name c) (tl name))) \<le> length (tl name)"
    using le_trans [OF skip_brace_length length_dropWhile_le] .
  then show ?case using 3 by (auto split: if_splits)
qed auto

section \<open>Reading sections\<close>

record settings =
  s_sections :: "settings_dictionary list"
  s_resolveEnvVars :: bool

definition read_line :: "(string \<Rightarrow> string option) \<Rightarrow> bool \<Rightarrow> string \<Rightarrow> settings_dictionary list \<Rightarrow> settings_dictionary list result" where
  "read_line env resolve l sections =
     (let line = string_strip l in
      if isComment line then Inr sections
      else if isSection line then Inr (sections @ [Dictionary (splitSection line)])
      else if isKeyValue line
      then (let (key, value) = splitKeyValue line in
            if sections = [] then Inr sections
            else rbind (dict_setString key (if resolve then resolveEnvVars env value else value) (last sections))
                   (\<lambda>d. Inr (butlast sections @ [d])))
      else Inr sections)"

fun read_lines :: "(string \<Rightarrow> string option) \<Rightarrow> bool \<Rightarrow> string list \<Rightarrow> settings_dictionary list \<Rightarrow> settings_dictionary list result" where
  "read_lines env resolve [] sections = Inr sections"
| "read_lines env resolve (l # ls) sections = rbind (read_line env resolve l sections) (read_lines env resolve ls)"

definition settings_read :: "(string \<Rightarrow> string option) \<Rightarrow> string \<Rightarrow> settings \<Rightarrow> settings result" where
  "settings_read env stream s =
     rbind (read_lines env (s_resolveEnvVars s) (getlines [] stream) [])
       (\<lambda>sections. Inr (s\<lparr>s_sections := s_sections s @ sections\<rparr>))"

definition settings_get :: "string \<Rightarrow> settings \<Rightarrow> settings_dictionary list" where
  "settings_get name s = filter (\<lambda>d. d_name d = name) (s_sections s)"

section \<open>The settings of the sessions\<close>

record session_settings =
  ss_settings :: "(string \<times> session_id \<times> settings_dictionary) list"
  ss_defaults :: settings_dictionary
  ss_resolveEnvVars :: bool

definition SessionSettings :: "bool \<Rightarrow> session_settings" where
  "SessionSettings resolve = \<lparr>ss_settings = [], ss_defaults = Dictionary [], ss_resolveEnvVars = resolve\<rparr>"

definition ss_has :: "session_id \<Rightarrow> session_settings \<Rightarrow> bool" where
  "ss_has i s \<longleftrightarrow> map_of (ss_settings s) (id_text i) \<noteq> None"

definition ss_get :: "session_id \<Rightarrow> session_settings \<Rightarrow> settings_dictionary result" where
  "ss_get i s =
     (case map_of (ss_settings s) (id_text i) of
        None \<Rightarrow> Inl (ConfigError ''Session not found'')
      | Some (_, d) \<Rightarrow> Inr d)"

definition ss_getSessions :: "session_settings \<Rightarrow> session_id list" where
  "ss_getSessions s = map (\<lambda>(_, i, _). i) (ss_settings s)"

definition ss_validate :: "settings_dictionary \<Rightarrow> unit result" where
  "ss_validate d =
     rbind (dict_getString ''BeginString'' False d) (\<lambda>beginString.
     rbind (throw_if (beginString \<notin> set [''FIX.4.0'', ''FIX.4.1'', ''FIX.4.2'', ''FIX.4.3'', ''FIX.4.4'', ''FIXT.1.1''])
              (ConfigError ''BeginString must be FIX.4.0 to FIX.4.4 or FIXT.1.1'')) (\<lambda>_.
     rbind (dict_getString ''ConnectionType'' False d) (\<lambda>connectionType.
       throw_if (connectionType \<noteq> ''initiator'' \<and> connectionType \<noteq> ''acceptor'')
         (ConfigError (''ConnectionType must be '' @ [CHR 0x27] @ ''initiator'' @ [CHR 0x27] @ '' or ''
            @ [CHR 0x27] @ ''acceptor'' @ [CHR 0x27])))))"

definition ss_set :: "session_id \<Rightarrow> settings_dictionary \<Rightarrow> session_settings \<Rightarrow> session_settings result" where
  "ss_set i d s =
     rbind (throw_if (ss_has i s) (ConfigError (''Duplicate Session '' @ id_text i))) (\<lambda>_.
     rbind (dict_setString ''BeginString'' (id_beginString i) d) (\<lambda>d1.
     rbind (dict_setString ''SenderCompID'' (id_senderCompID i) d1) (\<lambda>d2.
     rbind (dict_setString ''TargetCompID'' (id_targetCompID i) d2) (\<lambda>d3.
     let d4 = dict_merge (ss_defaults s) d3 in
     rbind (ss_validate d4) (\<lambda>_.
       Inr (s\<lparr>ss_settings := map_put (id_text i) (i, d4) (ss_settings s)\<rparr>))))))"

definition ss_set_defaults :: "settings_dictionary \<Rightarrow> session_settings \<Rightarrow> session_settings" where
  "ss_set_defaults defaults s =
     s\<lparr>ss_defaults := defaults,
       ss_settings := map (\<lambda>(t, i, d). (t, i, dict_merge defaults d)) (ss_settings s)\<rparr>"

definition session_of_settings :: "settings_dictionary \<Rightarrow> session_id result" where
  "session_of_settings d =
     rbind (dict_getString ''BeginString'' False d) (\<lambda>beginString.
     rbind (dict_getString ''SenderCompID'' False d) (\<lambda>senderCompID.
     rbind (dict_getString ''TargetCompID'' False d) (\<lambda>targetCompID.
     rbind (if dict_has ''SessionQualifier'' d then dict_getString ''SessionQualifier'' False d else Inr []) (\<lambda>qualifier.
       Inr (SessionID beginString senderCompID targetCompID qualifier)))))"

definition read_session :: "settings_dictionary \<Rightarrow> settings_dictionary \<Rightarrow> session_settings \<Rightarrow> session_settings result" where
  "read_session def section s =
     (let d = dict_merge def section in rbind (session_of_settings d) (\<lambda>i. ss_set i d s))"

fun read_sessions :: "settings_dictionary \<Rightarrow> settings_dictionary list \<Rightarrow> session_settings \<Rightarrow> session_settings result" where
  "read_sessions def [] s = Inr s"
| "read_sessions def (d # ds) s = rbind (read_session def d s) (read_sessions def ds)"

definition ss_read :: "(string \<Rightarrow> string option) \<Rightarrow> string \<Rightarrow> session_settings \<Rightarrow> session_settings result" where
  "ss_read env stream s =
     rbind (settings_read env stream \<lparr>s_sections = [], s_resolveEnvVars = ss_resolveEnvVars s\<rparr>) (\<lambda>settings.
       let def = (case settings_get ''DEFAULT'' settings of [] \<Rightarrow> Dictionary [] | d # _ \<Rightarrow> d)
       in read_sessions def (settings_get ''SESSION'' settings) (ss_set_defaults def s))"

text \<open>Writing: the defaults, then each session without what it has from the defaults.\<close>

definition print_param :: "string \<times> string \<Rightarrow> string" where
  "print_param p = fst p @ ''='' @ snd p @ [NL]"

definition is_default :: "settings_dictionary \<Rightarrow> string \<times> string \<Rightarrow> bool" where
  "is_default defaults p \<longleftrightarrow> dict_has (fst p) defaults \<and> dict_getString (fst p) False defaults = Inr (snd p)"

definition print_section :: "settings_dictionary \<Rightarrow> settings_dictionary \<Rightarrow> string" where
  "print_section defaults d =
     ''[SESSION]'' @ [NL] @
     (if d_data d = [] then []
      else concat (map print_param (filter (\<lambda>p. \<not> is_default defaults p) (d_data d))) @ [NL])"

definition ss_print :: "session_settings \<Rightarrow> string" where
  "ss_print s =
     (if d_data (ss_defaults s) = [] then []
      else ''[DEFAULT]'' @ [NL] @ concat (map print_param (d_data (ss_defaults s))) @ [NL]) @
     concat (map (\<lambda>i. case ss_get i s of Inl _ \<Rightarrow> [] | Inr d \<Rightarrow> print_section (ss_defaults s) d) (ss_getSessions s))"

section \<open>Ordered lists of settings\<close>

lemma map_sorted_ext: "map_sorted a \<Longrightarrow> map_sorted b \<Longrightarrow> map_of a = map_of b \<Longrightarrow> a = b"
proof -
  assume s: "map_sorted a" "map_sorted b" and m: "map_of a = map_of b"
  have k: "sorted (map fst c) \<and> distinct (map fst c)" if "map_sorted c" for c :: "('a::linorder \<times> 'b) list"
    using that by (simp add: map_sorted_def strict_sorted_iff)
  have "fst ` set a = fst ` set b" using m by (metis dom_map_of_conv_image_fst)
  then have f: "map fst a = map fst b" using k [OF s(1)] k [OF s(2)] by (simp add: sorted_distinct_set_unique)
  have "c = map (\<lambda>x. (x, the (map_of c x))) (map fst c)" if "map_sorted c" for c :: "('a::linorder \<times> 'b) list"
    using k [OF that] by (auto intro!: nth_equalityI simp: map_of_eq_Some_iff prod_eq_iff dest: nth_mem)
      (metis distinct_map nth_mem map_of_is_SomeI option.sel prod.collapse)
  then show "a = b" using s f m by metis
qed

lemma map_put_same: "map_sorted m \<Longrightarrow> map_of m k = Some v \<Longrightarrow> map_put k v m = m"
  by (rule map_sorted_ext) (auto simp: fun_upd_idem)

lemma map_put_last: "\<forall>x\<in>fst ` set m. x < k \<Longrightarrow> map_put k v m = m @ [(k, v)]"
  by (induction k v m rule: map_put.induct) auto

lemma merge_data_sorted: "map_sorted m \<Longrightarrow> map_sorted (merge_data a m)"
  unfolding merge_data_def by (induction a arbitrary: m) auto

lemma map_of_merge_data: "map_sorted m \<Longrightarrow> map_of (merge_data a m) = map_of a ++ map_of m"
proof (induction a arbitrary: m)
  case (Cons p a)
  obtain k v where p: "p = (k, v)" by (cases p)
  have "map_of (merge_data a (if map_of m k = None then map_put k v m else m)) = map_of (p # a) ++ map_of m"
    using Cons p by (auto simp: map_add_def fun_eq_iff split: option.split)
  then show ?case using p by (simp add: merge_data_def fun_upd_def)
qed (simp add: merge_data_def)

lemma merge_data_none: "dom (map_of a) \<subseteq> dom (map_of m) \<Longrightarrow> merge_data a m = m"
  unfolding merge_data_def by (induction a arbitrary: m) auto

lemma fold_map_put_sorted: "map_sorted ps \<Longrightarrow> fold (\<lambda>(k, v). map_put k v) ps [] = ps"
proof -
  have "fold (\<lambda>(k, v). map_put k v) qs ps = ps @ qs" if "map_sorted (ps @ qs)" for qs ps :: "('a::linorder \<times> 'b) list"
    using that
  proof (induction qs arbitrary: ps)
    case (Cons q qs)
    then have "map_put (fst q) (snd q) ps = ps @ [q]"
      by (subst map_put_last) (auto simp: map_sorted_def sorted_wrt_append)
    then show ?case using Cons by (simp add: split_beta)
  qed simp
  from this [of "[]"] show "map_sorted ps \<Longrightarrow> fold (\<lambda>(k, v). map_put k v) ps [] = ps" by simp
qed

section \<open>Settings that can be written\<close>

text \<open>
  A key and value that a line of the text gives back: stripped, without line ends, the key in
  upper case, and the line neither a comment nor the head of a section.
\<close>

definition param_line :: "string \<times> string \<Rightarrow> string" where
  "param_line p = fst p @ ''='' @ snd p"

definition entry_ok :: "string \<times> string \<Rightarrow> bool" where
  "entry_ok p \<longleftrightarrow> stripped (fst p) \<and> string_toUpper (fst p) = fst p \<and> CHR ''='' \<notin> set (fst p) \<and> stripped (snd p) \<and>
     NL \<notin> set (param_line p) \<and> \<not> isComment (param_line p) \<and> \<not> isSection (param_line p) \<and>
     (fst p \<in> set numericKeys \<longrightarrow> list_all is_digit (snd p))"

definition section_ok :: "settings_dictionary \<Rightarrow> bool" where
  "section_ok d \<longleftrightarrow> map_sorted (d_data d) \<and> list_all entry_ok (d_data d)"

lemma section_ok_get: "section_ok d \<Longrightarrow> dict_getString k False d = Inr v \<Longrightarrow> entry_ok (string_toUpper k, v)"
  by (auto simp: section_ok_def dict_getString_def list_all_iff dest: map_of_SomeD split: option.splits)

lemma section_ok_merge: "section_ok a \<Longrightarrow> section_ok d \<Longrightarrow> section_ok (dict_merge a d)"
proof -
  assume a: "section_ok a" and d: "section_ok d"
  have "list_all entry_ok (merge_data ps m)" if "list_all entry_ok ps" "list_all entry_ok m" for ps m
    using that unfolding merge_data_def by (induction ps arbitrary: m) (simp_all add: map_put_all split_beta)
  then show ?thesis using a d by (simp add: section_ok_def dict_merge_def merge_data_sorted)
qed

lemma stripped_param: "entry_ok p \<Longrightarrow> stripped (param_line p)"
  by (cases "fst p") (auto simp: entry_ok_def stripped_def param_line_def is_blank_def)

lemma param_line_split: "entry_ok p \<Longrightarrow> splitKeyValue (param_line p) = p"
  unfolding entry_ok_def splitKeyValue_def param_line_def
  by (cases p) (simp add: takeWhile_sep dropWhile_sep takeWhile_append1)

lemma read_param:
  assumes "entry_ok p"
  shows "read_line env False (param_line p) (ds @ [d]) = Inr (ds @ [dict_put (fst p) (snd p) d])"
  using assms stripped_param [OF assms] param_line_split [OF assms]
  by (simp add: read_line_def isKeyValue_def entry_ok_def dict_setString_def dict_key_def Let_def split_beta)
    (simp add: param_line_def)

lemma read_lines_append: "read_lines env r (a @ b) ds = rbind (read_lines env r a ds) (read_lines env r b)"
proof (induction a arbitrary: ds)
  case (Cons l a)
  then show ?case by (cases "read_line env r l ds") auto
qed simp

lemma read_params:
  "list_all entry_ok ps \<Longrightarrow> read_lines env False (map param_line ps) (ds @ [d]) =
     Inr (ds @ [d\<lparr>d_data := fold (\<lambda>(k, v). map_put k v) ps (d_data d)\<rparr>])"
  by (induction ps arbitrary: d) (simp_all add: read_param dict_put_def split_beta)

definition section_lines :: "string \<Rightarrow> (string \<times> string) list \<Rightarrow> string list" where
  "section_lines name ps = (''['' @ name @ '']'') # map param_line ps @ [[]]"

lemma read_section_lines:
  assumes "list_all entry_ok ps" "map_sorted ps" "stripped name" "name \<noteq> []"
  shows "read_lines env False (section_lines name ps) ds = Inr (ds @ [\<lparr>d_data = ps, d_name = name\<rparr>])"
proof -
  have s: "stripped (''['' @ name @ '']'')" by (simp add: stripped_def is_blank_def)
  have "read_line env False (''['' @ name @ '']'') ds = Inr (ds @ [Dictionary name])"
    using string_strip_stripped [OF s] assms(3)
    by (simp add: read_line_def Let_def isComment_def isSection_def splitSection_def)
  moreover have "read_line env False [] es = Inr es" for es
    by (simp add: read_line_def string_strip_def isComment_def isSection_def isKeyValue_def Let_def)
  ultimately show ?thesis using assms
    by (simp add: section_lines_def read_lines_append read_params Dictionary_def fold_map_put_sorted)
qed

section \<open>The text as lines\<close>

definition text_of :: "string list \<Rightarrow> string" where
  "text_of ls = concat (map (\<lambda>l. l @ [NL]) ls)"

lemma getlines_line: "NL \<notin> set l \<Longrightarrow> getlines acc (l @ NL # s) = (acc @ l) # getlines [] s"
  by (induction l arbitrary: acc) auto

lemma getlines_text: "list_all (\<lambda>l. NL \<notin> set l) ls \<Longrightarrow> getlines [] (text_of ls) = ls"
  by (induction ls) (auto simp: text_of_def getlines_line)

lemma text_of_append: "text_of (a @ b) = text_of a @ text_of b"
  by (simp add: text_of_def)

lemma text_of_section:
  "text_of (section_lines name ps) = ''['' @ name @ '']'' @ [NL] @ concat (map print_param ps) @ [NL]"
proof -
  have "concat (map print_param ps) = text_of (map param_line ps)"
    by (induction ps) (simp_all add: text_of_def print_param_def param_line_def)
  then show ?thesis by (simp add: section_lines_def text_of_def)
qed

end
