(* ===== verification/SettingsTexts.thy ===== *)
theory SettingsTexts
  imports Settings
begin

text \<open>
  Settings that were read from a text are written as a text that reads back as the same
  settings: what reading establishes, and what writing needs.
\<close>

section \<open>What reading establishes\<close>

lemma getlines_no_NL: "NL \<notin> set acc \<Longrightarrow> list_all (\<lambda>l. NL \<notin> set l) (getlines acc s)"
  by (induction acc s rule: getlines.induct) auto

lemma char_toupper_same:
  "char_toupper c = CHR ''='' \<longleftrightarrow> c = CHR ''=''" "char_toupper c = NL \<longleftrightarrow> c = NL"
  "char_toupper c = CHR ''#'' \<longleftrightarrow> c = CHR ''#''" "char_toupper c = CHR ''['' \<longleftrightarrow> c = CHR ''[''"
  "is_blank (char_toupper c) \<longleftrightarrow> is_blank c"
proof -
  have *: "char_toupper c = d \<longleftrightarrow> c = d" if "(of_char d :: nat) < 65 \<or> 90 < (of_char d :: nat) \<and> (of_char d :: nat) < 97" for d
    using that unfolding char_toupper_def Let_def by (auto simp: of_char_of)
  show "char_toupper c = CHR ''='' \<longleftrightarrow> c = CHR ''=''" "char_toupper c = NL \<longleftrightarrow> c = NL"
    "char_toupper c = CHR ''#'' \<longleftrightarrow> c = CHR ''#''" "char_toupper c = CHR ''['' \<longleftrightarrow> c = CHR ''[''"
    by (simp_all add: *)
  show "is_blank (char_toupper c) \<longleftrightarrow> is_blank c" by (simp add: is_blank_def *)
qed

lemma set_string_strip: "set (string_strip s) \<subseteq> set s"
proof (cases "list_all is_blank s")
  case False
  then have "\<And>x. x \<in> set (string_strip s) \<Longrightarrow> x \<in> set s"
    by (metis string_strip_split in_set_conv_decomp append_assoc append_Cons)
  then show ?thesis by blast
qed (simp add: string_strip_def)

lemma hd_string_strip: "s \<noteq> [] \<Longrightarrow> \<not> is_blank (hd s) \<Longrightarrow> string_strip s \<noteq> [] \<and> hd (string_strip s) = hd s"
proof -
  assume s: "s \<noteq> []" "\<not> is_blank (hd s)"
  then obtain c cs where c: "s = c # cs" "\<not> is_blank c" by (cases s) auto
  then have "rev (dropWhile is_blank (rev s)) = c # rev (dropWhile is_blank (rev cs))"
    by (simp add: dropWhile_append3)
  then show ?thesis using c by (simp add: string_strip_def)
qed

lemma last_string_strip: "s \<noteq> [] \<Longrightarrow> \<not> is_blank (last s) \<Longrightarrow> string_strip s \<noteq> [] \<and> last (string_strip s) = last s"
proof -
  assume s: "s \<noteq> []" "\<not> is_blank (last s)"
  then obtain cs c where c: "s = cs @ [c]" "\<not> is_blank c" by (cases s rule: rev_cases) auto
  then have "dropWhile is_blank s = dropWhile is_blank cs @ [c]"
    by (metis dropWhile.simps(2) dropWhile_append2 dropWhile_append3 dropWhile_eq_Nil_conv self_append_conv2)
  then show ?thesis using c by (simp add: string_strip_def)
qed

lemma toUpper_fixed: "string_toUpper s = s \<longleftrightarrow> (\<forall>c\<in>set s. char_toupper c = c)"
  by (auto simp: string_toUpper_def map_idI) (metis in_set_conv_nth nth_map)

lemma toUpper_key [simp]: "string_toUpper (dict_key k) = dict_key k"
proof -
  have "char_toupper (char_toupper c) = char_toupper c" for c by (auto simp: char_toupper_def Let_def of_char_of)
  then have "\<forall>c\<in>set (string_toUpper k). char_toupper c = c" by (auto simp: string_toUpper_def)
  then show ?thesis unfolding toUpper_fixed dict_key_def using set_string_strip by blast
qed

text \<open>The key and the value of a line of the text.\<close>

lemma entry_of_line:
  assumes line: "stripped line" "NL \<notin> set line" "\<not> isComment line" "\<not> isSection line" "isKeyValue line"
    and kv: "splitKeyValue line = (key, val)"
    and num: "dict_key key \<in> set numericKeys \<Longrightarrow> list_all is_digit (string_strip val)"
  shows "entry_ok (dict_key key, string_strip val)"
proof -
  let ?k = "dict_key key" and ?v = "string_strip val"
  have eq: "CHR ''='' \<in> set line" using line(5) by (simp add: isKeyValue_def)
  then have l: "line = key @ CHR ''='' # val"
    using kv split_list_first [of "CHR ''=''" line] by (auto simp: splitKeyValue_def takeWhile_sep dropWhile_sep)
  have nk: "CHR ''='' \<notin> set key" using kv by (auto simp: splitKeyValue_def dest: set_takeWhileD)
  have kb: "key = [] \<or> \<not> is_blank (hd key)" "val = [] \<or> \<not> is_blank (last val)"
    using line(1) l by (cases key; auto simp: stripped_def)+
  have up: "string_toUpper key = [] \<or> \<not> is_blank (hd (string_toUpper key))"
    using kb(1) by (cases key) (auto simp: string_toUpper_def char_toupper_same)
  have sk: "stripped ?k" unfolding dict_key_def
    using up by (intro stripped_strip) (auto simp: list_all_iff dest: hd_in_set)
  have sv: "stripped ?v" using kb(2) by (intro stripped_strip) (auto simp: list_all_iff dest: last_in_set)
  have ks: "c \<in> set ?k \<Longrightarrow> \<exists>d\<in>set key. c = char_toupper d" for c
    using set_string_strip [of "string_toUpper key"] by (auto simp: dict_key_def string_toUpper_def)
  have hk: "key \<noteq> [] \<Longrightarrow> ?k \<noteq> [] \<and> hd ?k = char_toupper (hd line)"
    using hd_string_strip [of "string_toUpper key"] up l by (auto simp: dict_key_def string_toUpper_def hd_map)
  have ek: "key = [] \<Longrightarrow> ?k = []" by (simp add: dict_key_def string_toUpper_def string_strip_def)
  have hl: "hd (?k @ ''='' @ ?v) = char_toupper (hd line)"
    using hk ek l by (cases "key = []") (auto simp: char_toupper_def)
  have lv: "?v \<noteq> [] \<Longrightarrow> last ?v = last line"
    using last_string_strip [of val] kb(2) l by (cases "val = []") (auto simp: string_strip_def)
  have "NL \<notin> set ?v" using set_string_strip [of val] line(2) l by auto
  moreover have "NL \<notin> set key" using line(2) l by simp
  then have "NL \<notin> set ?k" using ks by (metis char_toupper_same(2))
  moreover have "CHR ''='' \<notin> set ?k" using ks nk by (metis char_toupper_same(1))
  moreover have "\<not> isComment (?k @ ''='' @ ?v)" using line(3) hl l by (auto simp: isComment_def char_toupper_same)
  moreover have "\<not> isSection (?k @ ''='' @ ?v)"
    using line(4) hl l lv by (cases "?v = []") (auto simp: isSection_def char_toupper_same)
  ultimately show ?thesis using sk sv num by (simp add: entry_ok_def param_line_def)
qed

lemma section_ok_put: "section_ok d \<Longrightarrow> entry_ok (k, v) \<Longrightarrow> section_ok (dict_put k v d)"
  by (auto simp: section_ok_def dict_put_def intro: map_put_all)

lemma read_line_ok:
  assumes "NL \<notin> set l" "list_all section_ok ds" "read_line env False l ds = Inr ds'"
  shows "list_all section_ok ds'"
proof -
  let ?line = "string_strip l"
  obtain key val where kv: "splitKeyValue ?line = (key, val)" by fastforce
  show ?thesis
  proof (cases "isComment ?line \<or> isSection ?line \<or> \<not> isKeyValue ?line \<or> ds = []")
    case True
    then show ?thesis using assms kv
      by (auto simp: read_line_def Let_def section_ok_def Dictionary_def split: if_splits)
  next
    case False
    then have r: "rbind (dict_setString key val (last ds)) (\<lambda>d. Inr (butlast ds @ [d])) = Inr ds'"
      using assms(3) kv by (simp add: read_line_def Let_def)
    then obtain d where d: "dict_setString key val (last ds) = Inr d" "ds' = butlast ds @ [d]"
      by (auto simp: rbind_Inr)
    have "\<not> list_all is_blank l"
    proof
      assume b: "list_all is_blank l"
      then have "CHR ''='' \<in> set l" using False by (simp add: string_strip_def isKeyValue_def)
      then have "is_blank (CHR ''='')" using b by (meson list_all_iff)
      then show False by (simp add: is_blank_def)
    qed
    then have s: "stripped ?line" by (intro stripped_strip) simp
    have "entry_ok (dict_key key, string_strip val)"
      using False s kv d(1) assms(1) set_string_strip [of l]
      by (intro entry_of_line [OF s _ _ _ _ kv]) (auto simp: dict_setString_def Let_def split: if_splits)
    moreover have "section_ok (last ds)" "list_all section_ok (butlast ds)"
      using False assms(2) by (auto simp: list_all_iff dest: in_set_butlastD)
    moreover have "d = dict_put (dict_key key) (string_strip val) (last ds)"
      using d(1) by (auto simp: dict_setString_def Let_def split: if_splits)
    ultimately show ?thesis using d(2) section_ok_put by simp
  qed
qed

lemma read_lines_ok:
  "list_all (\<lambda>l. NL \<notin> set l) ls \<Longrightarrow> list_all section_ok ds \<Longrightarrow> read_lines env False ls ds = Inr ds' \<Longrightarrow>
   list_all section_ok ds'"
  by (induction ls arbitrary: ds) (auto simp: rbind_Inr dest: read_line_ok)

section \<open>The settings of the sessions\<close>

text \<open>What holds of settings read from a text: sections that can be written, with the
  defaults merged in, valid, and each under its own session id.\<close>

definition own_session :: "settings_dictionary \<Rightarrow> string \<times> session_id \<times> settings_dictionary \<Rightarrow> bool" where
  "own_session def e \<longleftrightarrow> (case e of (t, i, d) \<Rightarrow>
     section_ok d \<and> d_name d = ''SESSION'' \<and> dom (map_of (d_data def)) \<subseteq> dom (map_of (d_data d)) \<and>
     session_of_settings d = Inr i \<and> ss_validate d = Inr () \<and> t = id_text i)"

definition ss_ok :: "session_settings \<Rightarrow> bool" where
  "ss_ok s \<longleftrightarrow> section_ok (ss_defaults s) \<and> map_sorted (ss_settings s) \<and>
     list_all (own_session (ss_defaults s)) (ss_settings s)"

lemma set_own_name:
  assumes "section_ok d" "dict_getString k False d = Inr v" "string_toUpper k \<notin> set numericKeys" "stripped (string_toUpper k)"
  shows "dict_setString k v d = Inr d"
proof -
  have e: "entry_ok (string_toUpper k, v)" using section_ok_get [OF assms(1,2)] .
  have "map_of (d_data d) (string_toUpper k) = Some v" using assms(2) by (simp add: dict_getString_def split: option.splits)
  then have "map_put (string_toUpper k) v (d_data d) = d_data d"
    using assms(1) by (intro map_put_same) (auto simp: section_ok_def)
  then show ?thesis using e assms(3,4) by (simp add: dict_setString_def Let_def dict_key_def dict_put_def entry_ok_def)
qed

lemma toUpper_names:
  "string_toUpper ''BeginString'' = ''BEGINSTRING''" "string_toUpper ''SenderCompID'' = ''SENDERCOMPID''"
  "string_toUpper ''TargetCompID'' = ''TARGETCOMPID''"
  by code_simp+

lemma dict_merge_none: "dom (map_of (d_data a)) \<subseteq> dom (map_of (d_data d)) \<Longrightarrow> dict_merge a d = d"
  by (simp add: dict_merge_def merge_data_none)

lemma set_own_session:
  assumes "section_ok d" "session_of_settings d = Inr i" "dom (map_of (d_data (ss_defaults s))) \<subseteq> dom (map_of (d_data d))"
  shows "ss_set i d s =
    rbind (throw_if (ss_has i s) (ConfigError (''Duplicate Session '' @ id_text i))) (\<lambda>_.
    rbind (ss_validate d) (\<lambda>_. Inr (s\<lparr>ss_settings := map_put (id_text i) (i, d) (ss_settings s)\<rparr>)))"
proof -
  have g: "dict_getString ''BeginString'' False d = Inr (id_beginString i)"
    "dict_getString ''SenderCompID'' False d = Inr (id_senderCompID i)"
    "dict_getString ''TargetCompID'' False d = Inr (id_targetCompID i)"
    using assms(2) by (auto simp: session_of_settings_def rbind_Inr SessionID_def split: if_splits)
  have "dict_setString ''BeginString'' (id_beginString i) d = Inr d"
    "dict_setString ''SenderCompID'' (id_senderCompID i) d = Inr d"
    "dict_setString ''TargetCompID'' (id_targetCompID i) d = Inr d"
    using g by (auto intro!: set_own_name [OF assms(1)] simp: toUpper_names numericKeys_def stripped_def is_blank_def)
  then show ?thesis using dict_merge_none [OF assms(3)] by (simp add: ss_set_def Let_def)
qed

lemma dom_merge: "map_sorted (d_data d) \<Longrightarrow> dom (map_of (d_data a)) \<subseteq> dom (map_of (d_data (dict_merge a d)))"
  by (auto simp: dict_merge_def map_of_merge_data)

lemma read_session_ok:
  assumes "ss_ok s" "section_ok d" "d_name d = ''SESSION''" "read_session (ss_defaults s) d s = Inr s'"
  shows "ss_ok s' \<and> ss_defaults s' = ss_defaults s"
proof -
  let ?d = "dict_merge (ss_defaults s) d"
  have d: "section_ok ?d" using assms(1,2) section_ok_merge by (simp add: ss_ok_def)
  have dom: "dom (map_of (d_data (ss_defaults s))) \<subseteq> dom (map_of (d_data ?d))"
    using assms(2) dom_merge by (simp add: section_ok_def)
  obtain i where i: "session_of_settings ?d = Inr i" "ss_set i ?d s = Inr s'"
    using assms(4) by (auto simp: read_session_def Let_def rbind_Inr)
  then have s': "ss_validate ?d = Inr ()" "s' = s\<lparr>ss_settings := map_put (id_text i) (i, ?d) (ss_settings s)\<rparr>"
    using set_own_session [OF d i(1) dom] by (auto simp: rbind_Inr)
  have "own_session (ss_defaults s) (id_text i, i, ?d)"
    using d dom i(1) s'(1) assms(3) by (simp add: own_session_def dict_merge_def)
  then show ?thesis using assms(1) s'(2) by (simp add: ss_ok_def map_put_all)
qed

lemma read_sessions_ok:
  "ss_ok s \<Longrightarrow> list_all (\<lambda>d. section_ok d \<and> d_name d = ''SESSION'') ds \<Longrightarrow> read_sessions (ss_defaults s) ds s = Inr s' \<Longrightarrow> ss_ok s'"
proof (induction ds arbitrary: s)
  case (Cons d ds)
  then obtain s1 where s1: "read_session (ss_defaults s) d s = Inr s1" "read_sessions (ss_defaults s) ds s1 = Inr s'"
    by (auto simp: rbind_Inr)
  have "ss_ok s1 \<and> ss_defaults s1 = ss_defaults s" using Cons.prems s1(1) by (intro read_session_ok [of s d]) auto
  then show ?case using Cons.IH [of s1] Cons.prems s1(2) by simp
qed simp

lemma ss_read_ok:
  assumes "ss_read env stream (SessionSettings False) = Inr s"
  shows "ss_ok s"
proof -
  obtain ds where ds: "read_lines env False (getlines [] stream) [] = Inr ds"
    "read_sessions (case filter (\<lambda>d. d_name d = ''DEFAULT'') ds of [] \<Rightarrow> Dictionary [] | d # _ \<Rightarrow> d)
      (filter (\<lambda>d. d_name d = ''SESSION'') ds)
      (ss_set_defaults (case filter (\<lambda>d. d_name d = ''DEFAULT'') ds of [] \<Rightarrow> Dictionary [] | d # _ \<Rightarrow> d) (SessionSettings False)) = Inr s"
    using assms by (auto simp: ss_read_def settings_read_def settings_get_def SessionSettings_def rbind_Inr Let_def)
  have ok: "list_all section_ok ds"
    using read_lines_ok [OF getlines_no_NL _ ds(1)] by simp
  define def where "def = (case filter (\<lambda>d. d_name d = ''DEFAULT'') ds of [] \<Rightarrow> Dictionary [] | d # _ \<Rightarrow> d)"
  have "section_ok def"
  proof (cases "filter (\<lambda>d. d_name d = ''DEFAULT'') ds")
    case (Cons d _)
    then have "d \<in> set ds" using filter_eq_ConsD [OF Cons] by auto
    then show ?thesis using ok Cons by (simp add: list_all_iff def_def)
  qed (simp add: def_def section_ok_def Dictionary_def)
  then have "ss_ok (ss_set_defaults def (SessionSettings False))" by (simp add: ss_ok_def ss_set_defaults_def SessionSettings_def)
  moreover have "ss_defaults (ss_set_defaults def (SessionSettings False)) = def" by (simp add: ss_set_defaults_def)
  moreover have "list_all (\<lambda>d. section_ok d \<and> d_name d = ''SESSION'') (filter (\<lambda>d. d_name d = ''SESSION'') ds)"
    using ok by (simp add: list_all_iff)
  moreover have "read_sessions def (filter (\<lambda>d. d_name d = ''SESSION'') ds) (ss_set_defaults def (SessionSettings False)) = Inr s"
    using ds(2) unfolding def_def .
  ultimately show ?thesis using read_sessions_ok [of "ss_set_defaults def (SessionSettings False)"] by simp
qed

section \<open>Reading what was written\<close>

definition own_params :: "settings_dictionary \<Rightarrow> settings_dictionary \<Rightarrow> (string \<times> string) list" where
  "own_params def d = filter (\<lambda>p. \<not> is_default def p) (d_data d)"

lemma is_default_entry:
  assumes "entry_ok (k, v)"
  shows "is_default def (k, v) \<longleftrightarrow> map_of (d_data def) k = Some v"
  using assms by (auto simp: is_default_def dict_has_def dict_getString_def entry_ok_def split: option.splits)

lemma merge_own_params:
  assumes "section_ok d" "dom (map_of (d_data def)) \<subseteq> dom (map_of (d_data d))"
  shows "map_sorted (own_params def d)" "list_all entry_ok (own_params def d)"
    "merge_data (d_data def) (own_params def d) = d_data d"
proof -
  let ?m = "d_data d" and ?f = "own_params def d"
  have s: "map_sorted ?m" "list_all entry_ok ?m" using assms(1) by (auto simp: section_ok_def)
  have fs: "map_sorted ?f" using s(1) unfolding map_sorted_def own_params_def by (simp add: sorted_wrt_map sorted_wrt_filter)
  then show "map_sorted ?f" .
  show "list_all entry_ok ?f" using s(2) by (auto simp: list_all_iff own_params_def)
  have dist: "distinct (map fst c)" if "map_sorted c" for c :: "(string \<times> string) list"
    using that by (simp add: map_sorted_def strict_sorted_iff)
  have f: "map_of ?f k = Some v \<longleftrightarrow> map_of ?m k = Some v \<and> map_of (d_data def) k \<noteq> Some v" for k v
    using dist [OF fs] dist [OF s(1)] s(2) is_default_entry
    by (auto simp: own_params_def map_of_eq_Some_iff list_all_iff)
  have "map_of (merge_data (d_data def) ?f) k = map_of ?m k" for k
  proof (cases "map_of ?m k")
    case None
    then have "map_of ?f k = None" using f by (metis not_None_eq option.discI)
    then show ?thesis using None assms(2) by (auto simp: map_of_merge_data [OF fs] map_add_def)
  next
    case (Some v)
    show ?thesis
    proof (cases "map_of (d_data def) k = Some v")
      case True
      then have "map_of ?f k = None" using f Some by (metis not_None_eq option.inject)
      then show ?thesis using Some True by (simp add: map_of_merge_data [OF fs] map_add_def)
    next
      case False
      then have "map_of ?f k = Some v" using f Some by blast
      then show ?thesis using Some by (simp add: map_of_merge_data [OF fs] map_add_def)
    qed
  qed
  then show "merge_data (d_data def) ?f = ?m" using s(1) fs by (intro map_sorted_ext merge_data_sorted) auto
qed

lemma read_own_session:
  assumes own: "own_session def e" and same: "d_data (ss_defaults s) = d_data def"
    and last: "\<forall>x\<in>fst ` set (ss_settings s). x < fst e"
  shows "read_session (ss_defaults s) \<lparr>d_data = own_params def (snd (snd e)), d_name = ''SESSION''\<rparr> s =
    Inr (s\<lparr>ss_settings := ss_settings s @ [e]\<rparr>)"
proof -
  obtain t i d where e: "e = (t, i, d)" by (cases e)
  have o: "section_ok d" "d_name d = ''SESSION''" "dom (map_of (d_data def)) \<subseteq> dom (map_of (d_data d))"
    "session_of_settings d = Inr i" "ss_validate d = Inr ()" "t = id_text i"
    using own by (auto simp: own_session_def e)
  have d: "dict_merge (ss_defaults s) \<lparr>d_data = own_params def d, d_name = ''SESSION''\<rparr> = d"
    using merge_own_params(3) [OF o(1,3)] o(2) same by (simp add: dict_merge_def)
  have "\<not> ss_has i s" using last o(6) by (auto simp: ss_has_def e dest!: map_of_SomeD)
  moreover have "map_put (id_text i) (i, d) (ss_settings s) = ss_settings s @ [e]"
    using last o(6) by (simp add: map_put_last e)
  ultimately show ?thesis using o d set_own_session [OF o(1,4), of s] same
    by (simp add: read_session_def e)
qed

lemma read_own_sessions:
  assumes "list_all (own_session def) es" "d_data (ss_defaults s) = d_data def" "map_sorted (ss_settings s @ es)"
  shows "read_sessions (ss_defaults s)
      (map (\<lambda>e. \<lparr>d_data = own_params def (snd (snd e)), d_name = ''SESSION''\<rparr>) es) s =
    Inr (s\<lparr>ss_settings := ss_settings s @ es\<rparr>)"
  using assms
proof (induction es arbitrary: s)
  case (Cons e es)
  let ?s = "s\<lparr>ss_settings := ss_settings s @ [e]\<rparr>"
  have "\<forall>x\<in>fst ` set (ss_settings s). x < fst e" using Cons.prems(3) by (auto simp: map_sorted_def sorted_wrt_append)
  then have "read_session (ss_defaults s) \<lparr>d_data = own_params def (snd (snd e)), d_name = ''SESSION''\<rparr> s = Inr ?s"
    using Cons.prems by (intro read_own_session) auto
  then show ?case using Cons.IH [of ?s] Cons.prems by simp
qed simp

definition printed_lines :: "session_settings \<Rightarrow> string list" where
  "printed_lines s =
     (if d_data (ss_defaults s) = [] then [] else section_lines ''DEFAULT'' (d_data (ss_defaults s))) @
     concat (map (\<lambda>e. section_lines ''SESSION'' (own_params (ss_defaults s) (snd (snd e)))) (ss_settings s))"

lemma session_not_empty: "own_session def (t, i, d) \<Longrightarrow> d_data d \<noteq> []"
  by (auto simp: own_session_def session_of_settings_def rbind_Inr dict_getString_def)

lemma ss_print_lines:
  assumes "ss_ok s"
  shows "ss_print s = text_of (printed_lines s)"
proof -
  have one: "(case ss_get (fst (snd e)) s of Inl _ \<Rightarrow> [] | Inr d \<Rightarrow> print_section (ss_defaults s) d) =
      text_of (section_lines ''SESSION'' (own_params (ss_defaults s) (snd (snd e))))" if "e \<in> set (ss_settings s)" for e
  proof -
    obtain t i d where e: "e = (t, i, d)" by (cases e)
    have o: "own_session (ss_defaults s) e" using assms that by (simp add: ss_ok_def list_all_iff)
    have "map_of (ss_settings s) t = Some (i, d)"
      using assms that by (simp add: ss_ok_def map_sorted_def strict_sorted_iff e)
    moreover have "id_text i = t" "d_data d \<noteq> []" using o session_not_empty by (auto simp: own_session_def e)
    ultimately show ?thesis by (simp add: e ss_get_def print_section_def own_params_def text_of_section)
  qed
  have "text_of (concat (map f es)) = concat (map (text_of \<circ> f) es)" for f and es :: "(string \<times> session_id \<times> settings_dictionary) list"
    by (induction es) (simp_all add: text_of_append, simp add: text_of_def)
  moreover have "map (\<lambda>i. case ss_get i s of Inl _ \<Rightarrow> [] | Inr d \<Rightarrow> print_section (ss_defaults s) d) (ss_getSessions s) =
      map (text_of \<circ> (\<lambda>e. section_lines ''SESSION'' (own_params (ss_defaults s) (snd (snd e))))) (ss_settings s)"
    using one by (auto simp: ss_getSessions_def split_beta)
  ultimately show ?thesis
    by (simp add: ss_print_def printed_lines_def text_of_append text_of_section text_of_def [of "[]"])
qed

lemma entry_lines_no_NL: "list_all entry_ok ps \<Longrightarrow> NL \<notin> set name \<Longrightarrow> list_all (\<lambda>l. NL \<notin> set l) (section_lines name ps)"
  by (auto simp: section_lines_def list_all_iff entry_ok_def)

lemma read_section_list:
  "\<forall>e\<in>set es. list_all entry_ok (f e) \<and> map_sorted (f e) \<Longrightarrow>
   read_lines env False (concat (map (\<lambda>e. section_lines ''SESSION'' (f e)) es)) ds =
     Inr (ds @ map (\<lambda>e. \<lparr>d_data = f e, d_name = ''SESSION''\<rparr>) es)"
proof (induction es arbitrary: ds)
  case (Cons e es)
  have "read_lines env False (section_lines ''SESSION'' (f e)) ds = Inr (ds @ [\<lparr>d_data = f e, d_name = ''SESSION''\<rparr>])"
    using Cons.prems by (intro read_section_lines) (auto simp: stripped_def is_blank_def)
  then show ?case using Cons by (simp add: read_lines_append)
qed simp

lemma ss_read_sections:
  assumes "read_lines env False (getlines [] t) [] = Inr ds"
    "(case filter (\<lambda>d. d_name d = ''DEFAULT'') ds of [] \<Rightarrow> Dictionary [] | d # _ \<Rightarrow> d) = def"
  shows "ss_read env t (SessionSettings False) =
    read_sessions def (filter (\<lambda>d. d_name d = ''SESSION'') ds) (ss_set_defaults def (SessionSettings False))"
  using assms by (simp add: ss_read_def settings_read_def settings_get_def SessionSettings_def Let_def)

lemma ss_read_print:
  assumes "ss_ok s"
  shows "ss_read env (ss_print s) (SessionSettings False) =
    Inr \<lparr>ss_settings = ss_settings s,
      ss_defaults = (if d_data (ss_defaults s) = [] then Dictionary []
        else \<lparr>d_data = d_data (ss_defaults s), d_name = ''DEFAULT''\<rparr>), ss_resolveEnvVars = False\<rparr>"
proof -
  let ?def = "ss_defaults s" and ?own = "\<lambda>e. own_params (ss_defaults s) (snd (snd e))"
  let ?one = "\<lambda>e. \<lparr>d_data = ?own e, d_name = ''SESSION''\<rparr>"
  define def where "def = (if d_data ?def = [] then Dictionary [] else \<lparr>d_data = d_data ?def, d_name = ''DEFAULT''\<rparr>)"
  define ds where "ds = (if d_data ?def = [] then [] else [\<lparr>d_data = d_data ?def, d_name = ''DEFAULT''\<rparr>]) @ map ?one (ss_settings s)"
  have d: "list_all entry_ok (d_data ?def)" "map_sorted (d_data ?def)" using assms by (auto simp: ss_ok_def section_ok_def)
  have own: "list_all entry_ok (?own e) \<and> map_sorted (?own e)" if "e \<in> set (ss_settings s)" for e
  proof -
    have "own_session ?def e" using assms that by (simp add: ss_ok_def list_all_iff)
    then show ?thesis using merge_own_params(1,2) by (auto simp: own_session_def split: prod.splits)
  qed
  have "list_all (\<lambda>l. NL \<notin> set l) (section_lines ''SESSION'' (?own e))" if "e \<in> set (ss_settings s)" for e
    using own [OF that] by (intro entry_lines_no_NL) auto
  moreover have "list_all (\<lambda>l. NL \<notin> set l) (section_lines ''DEFAULT'' (d_data ?def))"
    using d(1) by (intro entry_lines_no_NL) auto
  ultimately have lines: "list_all (\<lambda>l. NL \<notin> set l) (printed_lines s)"
    by (simp add: printed_lines_def list_all_iff ball_Un del: split_paired_All)
  have "read_lines env False (section_lines ''DEFAULT'' (d_data ?def)) [] = Inr [\<lparr>d_data = d_data ?def, d_name = ''DEFAULT''\<rparr>]"
    using read_section_lines [of "d_data ?def" "''DEFAULT''" env "[]"] d by (simp add: stripped_def is_blank_def)
  moreover have "read_lines env False (concat (map (\<lambda>e. section_lines ''SESSION'' (?own e)) (ss_settings s))) es =
      Inr (es @ map ?one (ss_settings s))" for es
    by (rule read_section_list) (rule ballI, rule own)
  ultimately have "read_lines env False (printed_lines s) [] = Inr ds"
    by (simp add: printed_lines_def ds_def read_lines_append)
  moreover have "filter (\<lambda>d. d_name d = ''SESSION'') ds = map ?one (ss_settings s)"
    "(case filter (\<lambda>d. d_name d = ''DEFAULT'') ds of [] \<Rightarrow> Dictionary [] | d # _ \<Rightarrow> d) = def"
    by (auto simp: ds_def def_def filter_map comp_def)
  moreover have "read_sessions def (map ?one (ss_settings s)) (ss_set_defaults def (SessionSettings False)) =
      Inr ((ss_set_defaults def (SessionSettings False))\<lparr>ss_settings := ss_settings s\<rparr>)"
    using read_own_sessions [of ?def "ss_settings s" "ss_set_defaults def (SessionSettings False)"] assms
    by (simp add: ss_ok_def ss_set_defaults_def SessionSettings_def def_def Dictionary_def)
  ultimately have "ss_read env (ss_print s) (SessionSettings False) = Inr ((ss_set_defaults def (SessionSettings False))\<lparr>ss_settings := ss_settings s\<rparr>)"
    by (simp add: ss_read_sections [of env _ ds def] ss_print_lines [OF assms] getlines_text [OF lines])
  then show ?thesis unfolding def_def [symmetric] by (simp add: SessionSettings_def ss_set_defaults_def)
qed

section \<open>Properties\<close>

text \<open>C12: settings that were read from a text, without the substitution of environment
  variables, are written as a text that is read back without an error, as the same defaults
  and the same settings of the same sessions, although the text leaves out what a session
  has from the defaults; this holds whatever the text was: its comments, blanks, unknown
  sections, repeated keys and letter case do not matter.\<close>

theorem settings_text_roundtrip:
  assumes "ss_read env stream (SessionSettings False) = Inr s"
  shows "\<exists>s'. ss_read env' (ss_print s) (SessionSettings False) = Inr s' \<and> ss_settings s' = ss_settings s \<and>
    d_data (ss_defaults s') = d_data (ss_defaults s)"
  using ss_read_print [OF ss_read_ok [OF assms]] by (auto simp: Dictionary_def)

definition sample_settings :: string where
  "sample_settings = ''[DEFAULT]'' @ [NL] @ ''ConnectionType = initiator'' @ [NL] @ ''[SESSION]'' @ [NL] @ ''BeginString=FIX.4.2'' @ [NL]
     @ ''SenderCompID=A'' @ [NL] @ ''TargetCompID=B''"

theorem settings_text_roundtrip_witness:
  "\<exists>s s'. ss_read Map.empty sample_settings (SessionSettings False) = Inr s \<and> ss_settings s \<noteq> [] \<and>
     ss_read Map.empty (ss_print s) (SessionSettings False) = Inr s' \<and> ss_settings s' = ss_settings s"
proof -
  let ?r = "ss_read Map.empty sample_settings (SessionSettings False)"
  have "\<not> isl ?r \<and> ss_settings (projr ?r) \<noteq> []" by code_simp
  then have "\<exists>s. ?r = Inr s \<and> ss_settings s \<noteq> []" by (cases ?r) auto
  then show ?thesis using settings_text_roundtrip [of Map.empty sample_settings _ Map.empty] by blast
qed

end
