(* ===== verification/DictionaryReaders.thy ===== *)
theory DictionaryReaders
  imports DataDicts
begin

text \<open>
  Reading a \<open>DataDictionary\<close> from an XML document. The parser is the vendored pugixml library;
  what the code asks of it is a document, that is what \<open>getNode\<close> returns for an XPath, and
  nodes with a name, attributes and children. Components may refer to each other in a circle,
  and then the code recurses without end, so the functions that follow them have fuel: it
  goes down with every component and every group that is entered.
\<close>

section \<open>Documents\<close>

datatype dom_node = DomNode (n_name: string) (n_attributes: "(string \<times> string) list") (n_children: "dom_node list")

type_synonym document = "string \<Rightarrow> dom_node option"

definition attr :: "string \<Rightarrow> dom_node \<Rightarrow> string option" where
  "attr name node = map_of (n_attributes node) name"

definition is_required :: "dom_node \<Rightarrow> bool" where
  "is_required node \<longleftrightarrow> attr ''required'' node = Some ''Y'' \<or> attr ''required'' node = Some ''y''"

datatype stop = Thrown exn | NoFuel

definition config_error :: "string \<Rightarrow> stop + 'a" where
  "config_error text = Inl (Thrown (ConfigError text))"

definition attr_or :: "string \<Rightarrow> string \<Rightarrow> dom_node \<Rightarrow> stop + string" where
  "attr_or text name node = (case attr name node of None \<Rightarrow> config_error text | Some v \<Rightarrow> Inr v)"

section \<open>Types\<close>

definition is_space :: "char \<Rightarrow> bool" where
  "is_space c \<longleftrightarrow> c = CHR '' '' \<or> 9 \<le> (of_char c :: nat) \<and> (of_char c :: nat) \<le> 13"

text \<open>\<open>atoi\<close> as the C library has it: \<open>strtol\<close>, which stops at the bounds of a \<open>long\<close>, cast to \<open>int\<close>.\<close>

definition atoi :: "string \<Rightarrow> int" where
  "atoi s =
     (let s1 = dropWhile is_space s;
          minus = (s1 \<noteq> [] \<and> hd s1 = CHR ''-'');
          s2 = (if s1 \<noteq> [] \<and> (hd s1 = CHR ''-'' \<or> hd s1 = CHR ''+'') then tl s1 else s1);
          n = int (dec_val_from 0 (takeWhile is_digit s2))
      in to_int (if minus then max (- (2 ^ 63)) (- n) else min (2 ^ 63 - 1) n))"

definition XML_types :: "(string \<times> field_type) list" where
  "XML_types =
     [(''STRING'', TYPE_String), (''CHAR'', TYPE_Char), (''PRICE'', TYPE_Price), (''INT'', TYPE_Int), (''AMT'', TYPE_Amt),
      (''QTY'', TYPE_Qty), (''CURRENCY'', TYPE_Currency), (''MULTIPLEVALUESTRING'', TYPE_MultipleValueString),
      (''MULTIPLESTRINGVALUE'', TYPE_MultipleStringValue), (''MULTIPLECHARVALUE'', TYPE_MultipleCharValue),
      (''EXCHANGE'', TYPE_Exchange), (''UTCTIMESTAMP'', TYPE_UtcTimeStamp), (''BOOLEAN'', TYPE_Boolean),
      (''LOCALMKTDATE'', TYPE_LocalMktDate), (''DATA'', TYPE_Data), (''FLOAT'', TYPE_Float),
      (''PRICEOFFSET'', TYPE_PriceOffset), (''MONTHYEAR'', TYPE_MonthYear), (''DAYOFMONTH'', TYPE_DayOfMonth),
      (''UTCDATE'', TYPE_UtcDate), (''UTCDATEONLY'', TYPE_UtcDate), (''UTCTIMEONLY'', TYPE_UtcTimeOnly),
      (''NUMINGROUP'', TYPE_NumInGroup), (''PERCENTAGE'', TYPE_Percentage), (''SEQNUM'', TYPE_SeqNum),
      (''LENGTH'', TYPE_Length), (''COUNTRY'', TYPE_Country), (''TIME'', TYPE_UtcTimeStamp)]"

definition XMLTypeToType :: "string \<Rightarrow> data_dictionary \<Rightarrow> field_type" where
  "XMLTypeToType type d =
     (if m_beginString (dd d) < ''FIX.4.2'' \<and> type = ''CHAR'' then TYPE_String
      else case map_of XML_types type of None \<Rightarrow> TYPE_Unknown | Some t \<Rightarrow> t)"

section \<open>The fields\<close>

fun read_values :: "int \<Rightarrow> string \<Rightarrow> dom_node list \<Rightarrow> data_dictionary \<Rightarrow> stop + data_dictionary" where
  "read_values num name [] d = Inr d"
| "read_values num name (x # xs) d =
     (if n_name x = ''value''
      then rbind (attr_or (''<value> does not have enum attribute in field '' @ name) ''enum'' x) (\<lambda>enumeration.
        let d1 = addFieldValue num enumeration d
        in read_values num name xs
             (case attr ''description'' x of None \<Rightarrow> d1 | Some description \<Rightarrow> addValueName num enumeration description d1))
      else read_values num name xs d)"

definition read_field :: "dom_node \<Rightarrow> data_dictionary \<Rightarrow> stop + data_dictionary" where
  "read_field x d =
     rbind (attr_or ''<field> does not have a name attribute'' ''name'' x) (\<lambda>name.
     rbind (attr_or (''<field> '' @ name @ '' does not have a number attribute'') ''number'' x) (\<lambda>number.
     let num = atoi number in
     rbind (attr_or (''<field> '' @ name @ '' does not have a type attribute'') ''type'' x) (\<lambda>type.
     let d1 = dd_addField num d; d2 = addFieldType num (XMLTypeToType type d1) d1 in
     rbind (map_sum Thrown id (addFieldName num name d2)) (\<lambda>d3.
       read_values num name (n_children x) d3))))"

fun read_field_loop :: "dom_node list \<Rightarrow> data_dictionary \<Rightarrow> stop + data_dictionary" where
  "read_field_loop [] d = Inr d"
| "read_field_loop (x # xs) d =
     (if n_name x = ''field'' then rbind (read_field x d) (read_field_loop xs) else read_field_loop xs d)"

section \<open>Components and groups\<close>

text \<open>
  The functions below are members of the dictionary being read and fill a second dictionary
  \<open>DD\<close>, that of a group, or the first one again: the second part of the state is \<^const>\<open>None\<close>
  when \<open>DD\<close> is \<open>*this\<close>.
\<close>

type_synonym reading = "data_dictionary \<times> data_dictionary option"

definition on_this :: "(data_dictionary \<Rightarrow> data_dictionary) \<Rightarrow> reading \<Rightarrow> reading" where
  "on_this f st = (f (fst st), snd st)"

definition on_DD :: "(data_dictionary \<Rightarrow> data_dictionary) \<Rightarrow> reading \<Rightarrow> reading" where
  "on_DD f st = (case snd st of None \<Rightarrow> (f (fst st), None) | Some g \<Rightarrow> (fst st, Some (f g)))"

definition lookup_name :: "string \<Rightarrow> data_dictionary \<Rightarrow> stop + int" where
  "lookup_name name d =
     (case map_of (m_names (dd d)) name of
        None \<Rightarrow> config_error (''Field '' @ name @ '' not defined in fields section'')
      | Some num \<Rightarrow> Inr num)"

definition lookup_node :: "string \<Rightarrow> dom_node \<Rightarrow> data_dictionary \<Rightarrow> stop + int" where
  "lookup_node text x d = rbind (attr_or text ''name'' x) (\<lambda>name. lookup_name name d)"

definition component_path :: "string \<Rightarrow> string" where
  "component_path name = ''/fix/components/component[@name='' @ [CHR 0x27] @ name @ [CHR 0x27] @ '']''"

definition component_field :: "string \<Rightarrow> bool \<Rightarrow> dom_node \<Rightarrow> int \<Rightarrow> reading \<Rightarrow> stop + int \<times> reading" where
  "component_field msgtype componentRequired x firstField st =
     (if n_name x = ''field'' \<or> n_name x = ''group''
      then rbind (lookup_node ''No name given to field'' x (fst st)) (\<lambda>field.
        let st1 = (if is_required x \<and> componentRequired then on_this (addRequiredField msgtype field) st else st)
        in Inr (if firstField = 0 then field else firstField,
                on_DD (\<lambda>d. addMsgField msgtype field (dd_addField field d)) st1))
      else Inr (firstField, st))"

definition group_field :: "string \<Rightarrow> bool \<Rightarrow> dom_node \<Rightarrow> reading \<Rightarrow> stop + int \<times> reading" where
  "group_field msgtype groupRequired x st =
     rbind (lookup_node ''No name given to field'' x (fst st)) (\<lambda>field.
       let st1 = on_DD (dd_addField field) st
       in Inr (field, if is_required x \<and> groupRequired then on_DD (addRequiredField msgtype field) st1 else st1))"

function addXMLComponentFields :: "nat \<Rightarrow> document \<Rightarrow> string \<Rightarrow> bool \<Rightarrow> dom_node \<Rightarrow> reading \<Rightarrow> stop + int \<times> reading"
  and component_loop :: "nat \<Rightarrow> document \<Rightarrow> string \<Rightarrow> bool \<Rightarrow> dom_node list \<Rightarrow> int \<Rightarrow> reading \<Rightarrow> stop + int \<times> reading"
  and addXMLGroup :: "nat \<Rightarrow> document \<Rightarrow> string \<Rightarrow> bool \<Rightarrow> dom_node \<Rightarrow> reading \<Rightarrow> stop + reading"
  and group_loop :: "nat \<Rightarrow> document \<Rightarrow> string \<Rightarrow> bool \<Rightarrow> dom_node list \<Rightarrow> int \<Rightarrow> int \<Rightarrow> reading \<Rightarrow> stop + int \<times> reading" where
  "addXMLComponentFields 0 doc msgtype required node st = Inl NoFuel"
| "addXMLComponentFields (Suc fuel) doc msgtype required node st =
     rbind (attr_or ''No name given to component'' ''name'' node) (\<lambda>name.
     case doc (component_path name) of
       None \<Rightarrow> config_error (''Component not found: '' @ name)
     | Some c \<Rightarrow> component_loop fuel doc msgtype required (n_children c) 0 st)"
| "component_loop fuel doc msgtype required [] firstField st = Inr (firstField, st)"
| "component_loop fuel doc msgtype required (x # xs) firstField st =
     rbind (component_field msgtype required x firstField st) (\<lambda>(first, st1).
     rbind (if n_name x = ''component''
            then rbind (addXMLComponentFields fuel doc msgtype (is_required x) x st1) (\<lambda>(_, st2). Inr st2)
            else if n_name x = ''group'' then addXMLGroup fuel doc msgtype (is_required x) x st1
            else Inr st1) (\<lambda>st2.
       component_loop fuel doc msgtype required xs first st2))"
| "addXMLGroup 0 doc msgtype required node st = Inl NoFuel"
| "addXMLGroup (Suc fuel) doc msgtype required node st =
     rbind (lookup_node ''No name given to group'' node (fst st)) (\<lambda>group.
     rbind (group_loop fuel doc msgtype required (n_children node) 0 0 (fst st, Some DataDictionary_new)) (\<lambda>(delim, this, groupDD).
       let st1 = (this, snd st) in Inr (if delim \<noteq> 0 then on_DD (dd_addGroup msgtype group delim (the groupDD)) st1 else st1)))"
| "group_loop fuel doc msgtype required [] field delim st = Inr (delim, st)"
| "group_loop fuel doc msgtype required (x # xs) field delim st =
     rbind (if n_name x = ''field'' then group_field msgtype required x st
            else if n_name x = ''component'' then addXMLComponentFields fuel doc msgtype False x st
            else if n_name x = ''group''
            then rbind (group_field msgtype required x st) (\<lambda>(f, st1).
                 rbind (addXMLGroup fuel doc msgtype (is_required x) x st1) (\<lambda>st2. Inr (f, st2)))
            else Inr (field, st)) (\<lambda>(field1, st1).
       group_loop fuel doc msgtype required xs field1 (if delim = 0 then field1 else delim) st1)"
  by pat_completeness auto

termination
  by (relation "measures [\<lambda>x. case x of
       Inl (Inl (fuel, _)) \<Rightarrow> fuel | Inl (Inr (fuel, _)) \<Rightarrow> fuel | Inr (Inl (fuel, _)) \<Rightarrow> fuel | Inr (Inr (fuel, _)) \<Rightarrow> fuel,
     \<lambda>x. case x of
       Inl (Inl _) \<Rightarrow> 0 | Inl (Inr (_, _, _, _, xs, _)) \<Rightarrow> Suc (length xs) | Inr (Inl _) \<Rightarrow> 0 | Inr (Inr (_, _, _, _, xs, _)) \<Rightarrow> Suc (length xs)]") auto

section \<open>The sections\<close>

definition children_of :: "string \<Rightarrow> string \<Rightarrow> string \<Rightarrow> document \<Rightarrow> stop + dom_node list" where
  "children_of path missing childless doc =
     (case doc path of
        None \<Rightarrow> config_error missing
      | Some node \<Rightarrow> if n_children node = [] then config_error childless else Inr (n_children node))"

definition group_of_this :: "nat \<Rightarrow> document \<Rightarrow> string \<Rightarrow> dom_node \<Rightarrow> data_dictionary \<Rightarrow> stop + data_dictionary" where
  "group_of_this fuel doc msgtype x d =
     (if n_name x = ''group''
      then rbind (addXMLGroup fuel doc msgtype (is_required x) x (d, None)) (\<lambda>(d1, _). Inr d1)
      else Inr d)"

text \<open>The fields of the header or the trailer, which differ in where they are added.\<close>

fun read_frame_loop :: "(int \<Rightarrow> bool \<Rightarrow> data_dictionary \<Rightarrow> data_dictionary) \<Rightarrow> string \<Rightarrow> nat \<Rightarrow> document \<Rightarrow> dom_node list
    \<Rightarrow> data_dictionary \<Rightarrow> stop + data_dictionary" where
  "read_frame_loop add key fuel doc [] d = Inr d"
| "read_frame_loop add key fuel doc (x # xs) d =
     rbind (if n_name x = ''field'' \<or> n_name x = ''group''
            then rbind (lookup_node ''<field> does not have a name attribute'' x d) (\<lambda>num. Inr (add num (is_required x) d))
            else Inr d) (\<lambda>d1.
     rbind (group_of_this fuel doc key x d1) (read_frame_loop add key fuel doc xs))"

definition read_header :: "nat \<Rightarrow> document \<Rightarrow> data_dictionary \<Rightarrow> stop + data_dictionary" where
  "read_header fuel doc d =
     rbind (children_of ''/fix/header'' ''<header> section not found in data dictionary'' ''No header fields defined'' doc)
       (\<lambda>nodes. read_frame_loop addHeaderField ''_header_'' fuel doc nodes d)"

definition read_trailer :: "nat \<Rightarrow> document \<Rightarrow> data_dictionary \<Rightarrow> stop + data_dictionary" where
  "read_trailer fuel doc d =
     rbind (children_of ''/fix/trailer'' ''<trailer> section not found in data dictionary'' ''No trailer fields defined'' doc)
       (\<lambda>nodes. read_frame_loop addTrailerField ''_trailer_'' fuel doc nodes d)"

fun read_message_loop :: "nat \<Rightarrow> document \<Rightarrow> string \<Rightarrow> dom_node list \<Rightarrow> data_dictionary \<Rightarrow> stop + data_dictionary" where
  "read_message_loop fuel doc msgtype [] d = Inr d"
| "read_message_loop fuel doc msgtype (x # xs) d =
     rbind (if n_name x = ''field'' \<or> n_name x = ''group''
            then rbind (lookup_node ''<field> does not have a name attribute'' x d) (\<lambda>num.
                 let d1 = addMsgField msgtype num d
                 in Inr (if is_required x then addRequiredField msgtype num d1 else d1))
            else if n_name x = ''component''
            then rbind (addXMLComponentFields fuel doc msgtype (is_required x) x (d, None)) (\<lambda>(_, d1, _). Inr d1)
            else Inr d) (\<lambda>d1.
     rbind (group_of_this fuel doc msgtype x d1) (read_message_loop fuel doc msgtype xs))"

fun read_messages_loop :: "nat \<Rightarrow> document \<Rightarrow> dom_node list \<Rightarrow> data_dictionary \<Rightarrow> stop + data_dictionary" where
  "read_messages_loop fuel doc [] d = Inr d"
| "read_messages_loop fuel doc (x # xs) d =
     rbind (if n_name x = ''message''
            then rbind (attr_or ''<message> does not have a msgtype attribute'' ''msgtype'' x) (\<lambda>msgtype.
                 let d1 = addMsgType msgtype d;
                     d2 = (case attr ''name'' x of None \<Rightarrow> d1 | Some name \<Rightarrow> addValueName 35 msgtype name d1)
                 in read_message_loop fuel doc msgtype (n_children x) d2)
            else Inr d)
       (read_messages_loop fuel doc xs)"

definition read_version :: "document \<Rightarrow> data_dictionary \<Rightarrow> stop + (string \<times> string \<times> data_dictionary)" where
  "read_version doc d =
     (case doc ''/fix'' of
        None \<Rightarrow> config_error ''Could not parse data dictionary file, or no <fix> node found at root''
      | Some fix_node \<Rightarrow>
          let type = (case attr ''type'' fix_node of None \<Rightarrow> ''FIX'' | Some t \<Rightarrow> t) in
          if type \<noteq> ''FIX'' \<and> type \<noteq> ''FIXT'' then config_error ''type attribute must be FIX or FIXT''
          else
          rbind (attr_or ''major attribute not found on <fix>'' ''major'' fix_node) (\<lambda>major.
          rbind (attr_or ''minor attribute not found on <fix>'' ''minor'' fix_node) (\<lambda>minor.
            Inr (type, major, setVersion (type @ ''.'' @ major @ ''.'' @ minor) d))))"

definition readFromDocument :: "nat \<Rightarrow> document \<Rightarrow> data_dictionary \<Rightarrow> stop + data_dictionary" where
  "readFromDocument fuel doc d =
     rbind (read_version doc d) (\<lambda>(type, major, d1).
     rbind (children_of ''/fix/fields'' ''<fields> section not found in data dictionary'' ''No fields defined'' doc) (\<lambda>nodes.
     rbind (read_field_loop nodes d1) (\<lambda>d2.
     let framed = (type = ''FIXT'' \<or> type = ''FIX'' \<and> major < ''5'') in
     rbind (if framed then read_header fuel doc d2 else Inr d2) (\<lambda>d3.
     rbind (if framed then read_trailer fuel doc d3 else Inr d3) (\<lambda>d4.
     rbind (children_of ''/fix/messages'' ''<messages> section not found in data dictionary'' ''No messages defined'' doc)
       (\<lambda>messages. read_messages_loop fuel doc messages d4))))))"

text \<open>\<open>load\<close> is what the parser makes of the file; it may fail.\<close>

definition readFromURL :: "(string \<Rightarrow> document option) \<Rightarrow> nat \<Rightarrow> string \<Rightarrow> data_dictionary \<Rightarrow> stop + data_dictionary" where
  "readFromURL load fuel url d =
     (case load url of
        None \<Rightarrow> config_error (url @ '': Could not parse data dictionary file'')
      | Some doc \<Rightarrow>
          (case readFromDocument fuel doc d of
             Inl (Thrown (ConfigError text)) \<Rightarrow> config_error (url @ '': '' @ exn_what (ConfigError text))
           | r \<Rightarrow> r))"

definition DataDictionary_read :: "(string \<Rightarrow> document option) \<Rightarrow> nat \<Rightarrow> string \<Rightarrow> bool \<Rightarrow> stop + data_dictionary" where
  "DataDictionary_read load fuel url preserveMsgFldsOrder =
     readFromURL load fuel url (dd_update (\<lambda>d. d\<lparr>m_storeMsgFieldsOrder := preserveMsgFldsOrder\<rparr>) DataDictionary_new)"

definition readFromStream :: "document option \<Rightarrow> nat \<Rightarrow> data_dictionary \<Rightarrow> stop + data_dictionary" where
  "readFromStream loaded fuel d =
     (case loaded of
        None \<Rightarrow> config_error ''Could not parse data dictionary stream''
      | Some doc \<Rightarrow> readFromDocument fuel doc d)"

section \<open>The numbers a dictionary uses\<close>

text \<open>Every field number that occurs in a dictionary and, at any depth, in its groups.\<close>

fun numbers_used :: "data_dictionary \<Rightarrow> int list" where
  "numbers_used (DataDictionary d gs) =
     m_dd_fields d @ map fst (m_headerFields d) @ map fst (m_trailerFields d) @ concat (map snd (m_messageFields d)) @
     concat (map snd (m_requiredFields d)) @
     concat (map (\<lambda>(field, presence). field # concat (map (\<lambda>(_, (delim, g)). delim # numbers_used g) presence)) gs)"

lemma numbers_used_update: "numbers_used (dd_update f d) = numbers_used (DataDictionary (f (dd d)) (dd_groups d))"
  by (simp add: dd_update_def)

lemma numbers_used_copy: "set (numbers_used (dd_copy d)) \<subseteq> set (numbers_used d)"
proof (induction d rule: dd_copy.induct)
  case (1 d gs)
  have v: "numbers_used (setVersion s x) = numbers_used x" for s x
    by (cases x) (simp add: setVersion_def dd_update_def)
  show ?case using 1 by (fastforce simp: v split: prod.splits)
qed

lemma set_in_map_values: "set (concat (map snd (set_in_map k v m))) \<subseteq> insert v (set (concat (map snd m)))"
proof -
  have "set (map_at k m) \<subseteq> set (concat (map snd m))"
  proof (cases "map_of m k")
    case (Some vs)
    then have "(k, vs) \<in> set m" by (rule map_of_SomeD)
    then show ?thesis using Some by (force simp: map_at_def)
  qed (simp add: map_at_def)
  then have "set (insort_insert v (map_at k m)) \<subseteq> insert v (set (concat (map snd m)))"
    by (auto simp: set_insort_insert_iff)
  moreover have "set (concat (map snd (map_put k vs m))) \<subseteq> set vs \<union> set (concat (map snd m))" for vs
    using set_map_put [of k vs m] by fastforce
  ultimately show ?thesis unfolding set_in_map_def by blast
qed

lemma map_put_fst: "set (map fst (map_put k v m)) = insert k (set (map fst m))"
  using map_put_keys [of k v m] by simp

text \<open>The numbers of the groups of one field.\<close>

definition presence_numbers :: "(string \<times> int \<times> data_dictionary) list \<Rightarrow> int list" where
  "presence_numbers p = concat (map (\<lambda>(_, (delim, g)). delim # numbers_used g) p)"

lemma presence_put:
  "set (presence_numbers (map_put msg (delim, g) p)) \<subseteq> insert delim (set (numbers_used g) \<union> set (presence_numbers p))"
  using set_map_put [of msg "(delim, g)" p] unfolding presence_numbers_def by fastforce

definition groups_numbers :: "(int \<times> (string \<times> int \<times> data_dictionary) list) list \<Rightarrow> int list" where
  "groups_numbers gs = concat (map (\<lambda>(field, p). field # presence_numbers p) gs)"

lemma groups_put: "set (groups_numbers (map_put field p gs)) \<subseteq> insert field (set (presence_numbers p) \<union> set (groups_numbers gs))"
  using set_map_put [of field p gs] unfolding groups_numbers_def by fastforce

lemma groups_at: "set (presence_numbers (map_at field gs)) \<subseteq> set (groups_numbers gs)"
proof (cases "map_of gs field")
  case (Some p)
  then have "(field, p) \<in> set gs" by (rule map_of_SomeD)
  then show ?thesis using Some by (force simp: map_at_def groups_numbers_def)
qed (simp add: map_at_def presence_numbers_def)

lemma numbers_used_parts:
  "numbers_used d = m_dd_fields (dd d) @ map fst (m_headerFields (dd d)) @ map fst (m_trailerFields (dd d)) @
     concat (map snd (m_messageFields (dd d))) @ concat (map snd (m_requiredFields (dd d))) @ groups_numbers (dd_groups d)"
  by (cases d) (simp add: groups_numbers_def presence_numbers_def)

lemma dd_update_parts [simp]: "dd (dd_update f d) = f (dd d)" "dd_groups (dd_update f d) = dd_groups d"
  by (simp_all add: dd_update_def)

lemma group_numbers:
  "set (numbers_used (dd_addGroup msg field delim g d)) \<subseteq>
     insert field (insert delim (set (numbers_used g) \<union> set (numbers_used d)))"
proof -
  let ?g = "setVersion (getVersion d) (dd_copy g)"
  have "numbers_used ?g = numbers_used (dd_copy g)" by (simp add: numbers_used_parts setVersion_def)
  then have "set (groups_numbers (dd_groups (dd_addGroup msg field delim g d))) \<subseteq>
      insert field (insert delim (set (numbers_used g) \<union> set (groups_numbers (dd_groups d))))"
    using groups_put [of field "map_put msg (delim, ?g) (map_at field (dd_groups d))" "dd_groups d"]
      presence_put [of msg delim ?g "map_at field (dd_groups d)"] groups_at [of field "dd_groups d"] numbers_used_copy [of g]
    by (auto simp: dd_addGroup_def)
  moreover have "dd (dd_addGroup msg field delim g d) = dd d" by (simp add: dd_addGroup_def)
  ultimately show ?thesis by (auto simp: numbers_used_parts)
qed

lemma storage_numbers:
  "set (numbers_used (dd_addField f d)) \<subseteq> insert f (set (numbers_used d))"
  "set (numbers_used (addMsgField t f d)) \<subseteq> insert f (set (numbers_used d))"
  "set (numbers_used (addRequiredField t f d)) \<subseteq> insert f (set (numbers_used d))"
  "set (numbers_used (addHeaderField f b d)) \<subseteq> insert f (set (numbers_used d))"
  "set (numbers_used (addTrailerField f b d)) \<subseteq> insert f (set (numbers_used d))"
  using set_in_map_values [of t f "m_messageFields (dd d)"] set_in_map_values [of t f "m_requiredFields (dd d)"]
  by (auto simp: numbers_used_parts dd_addField_def addMsgField_def addRequiredField_def addHeaderField_def
      addTrailerField_def map_put_keys set_insort_insert_iff simp del: set_concat)

lemma storage_no_numbers:
  "numbers_used (addMsgType t d) = numbers_used d" "numbers_used (addFieldValue f v d) = numbers_used d"
  "numbers_used (addValueName f v n d) = numbers_used d" "numbers_used (addFieldType f ty d) = numbers_used d"
  "numbers_used (setVersion v d) = numbers_used d"
  by (simp_all add: numbers_used_parts addMsgType_def addFieldValue_def addValueName_def addFieldType_def setVersion_def)

lemma storage_names:
  "m_names (dd (dd_addField f d)) = m_names (dd d)" "m_names (dd (addMsgField t f d)) = m_names (dd d)"
  "m_names (dd (addRequiredField t f d)) = m_names (dd d)" "m_names (dd (addHeaderField f b d)) = m_names (dd d)"
  "m_names (dd (addTrailerField f b d)) = m_names (dd d)" "m_names (dd (addMsgType t d)) = m_names (dd d)"
  "m_names (dd (addValueName f v n d)) = m_names (dd d)" "m_names (dd (dd_addGroup t f delim g d)) = m_names (dd d)"
  "m_names (dd (addFieldValue f v d)) = m_names (dd d)" "m_names (dd (addFieldType f ty d)) = m_names (dd d)"
  "m_names (dd (setVersion v d)) = m_names (dd d)"
  "m_fieldTypes (dd (dd_addField f d)) = m_fieldTypes (dd d)" "m_fieldTypes (dd (addMsgField t f d)) = m_fieldTypes (dd d)"
  "m_fieldTypes (dd (addRequiredField t f d)) = m_fieldTypes (dd d)" "m_fieldTypes (dd (addHeaderField f b d)) = m_fieldTypes (dd d)"
  "m_fieldTypes (dd (addTrailerField f b d)) = m_fieldTypes (dd d)" "m_fieldTypes (dd (addMsgType t d)) = m_fieldTypes (dd d)"
  "m_fieldTypes (dd (addValueName f v n d)) = m_fieldTypes (dd d)" "m_fieldTypes (dd (dd_addGroup t f delim g d)) = m_fieldTypes (dd d)"
  "m_fieldTypes (dd (addFieldValue f v d)) = m_fieldTypes (dd d)" "m_fieldTypes (dd (setVersion v d)) = m_fieldTypes (dd d)"
  "m_fieldTypes (dd (addFieldType f ty d)) = map_put f ty (m_fieldTypes (dd d))"
  by (simp_all add: dd_storage_defs addValueName_def dd_update_def)

section \<open>What is read is declared\<close>

definition declared :: "data_dictionary \<Rightarrow> int set" where
  "declared d = snd ` set (m_names (dd d))"

definition reading_ok :: "reading \<Rightarrow> bool" where
  "reading_ok st \<longleftrightarrow> dd_wf (fst st) \<and> set (numbers_used (fst st)) \<subseteq> declared (fst st) \<and>
     (\<forall>g. snd st = Some g \<longrightarrow> set (numbers_used g) \<subseteq> declared (fst st))"

definition same_fields :: "data_dictionary \<Rightarrow> data_dictionary \<Rightarrow> bool" where
  "same_fields d d' \<longleftrightarrow> m_names (dd d') = m_names (dd d) \<and> m_fieldTypes (dd d') = m_fieldTypes (dd d)"

definition reads :: "reading \<Rightarrow> reading \<Rightarrow> bool" where
  "reads st st' \<longleftrightarrow> reading_ok st' \<and> same_fields (fst st) (fst st') \<and> (snd st' = None \<longleftrightarrow> snd st = None)"

lemma reads_refl: "reading_ok st \<Longrightarrow> reads st st"
  by (simp add: reads_def same_fields_def)

lemma reads_trans: "reads a b \<Longrightarrow> reads b c \<Longrightarrow> reads a c"
  by (simp add: reads_def same_fields_def)

lemma reads_ok: "reads a b \<Longrightarrow> reading_ok b"
  by (simp add: reads_def)

lemma reads_declared: "reads a b \<Longrightarrow> declared (fst b) = declared (fst a)"
  by (simp add: reads_def same_fields_def declared_def)

lemma reads_on_this:
  assumes "reading_ok st" "f \<in> declared (fst st)"
  shows "reads st (on_this (addRequiredField t f) st)"
  using assms storage_numbers(3) [of t f "fst st"]
  by (auto simp: reads_def reading_ok_def on_this_def same_fields_def storage_names declared_def)

lemma reads_on_DD:
  assumes "reading_ok st" "\<And>d. set (numbers_used (F d)) \<subseteq> declared (fst st) \<union> set (numbers_used d)"
    "\<And>d. same_fields d (F d)" "\<And>d. dd_wf d \<Longrightarrow> dd_wf (F d)"
  shows "reads st (on_DD F st)"
proof (cases "snd st")
  case None
  then show ?thesis using assms(1,3,4) assms(2) [of "fst st"]
    by (auto simp: reads_def reading_ok_def on_DD_def same_fields_def declared_def)
next
  case (Some g)
  then show ?thesis using assms(1) assms(2) [of g]
    by (auto simp: reads_def reading_ok_def on_DD_def same_fields_def declared_def)
qed

lemma lookup_declared: "lookup_node text x d = Inr f \<Longrightarrow> f \<in> declared d"
  by (force simp: lookup_node_def lookup_name_def config_error_def rbind_Inr declared_def dest: map_of_SomeD split: option.splits)

lemma reads_add_field:
  assumes "reading_ok st" "f \<in> declared (fst st)"
  shows "reads st (on_DD (dd_addField f) st)" "reads st (on_DD (addRequiredField t f) st)"
    "reads st (on_DD (\<lambda>d. addMsgField t f (dd_addField f d)) st)"
proof -
  have n: "set (numbers_used (addMsgField t f (dd_addField f d))) \<subseteq> insert f (set (numbers_used d))" for d
    using storage_numbers(1) [of f d] storage_numbers(2) [of t f "dd_addField f d"] by blast
  show "reads st (on_DD (dd_addField f) st)"
    using assms storage_numbers(1) by (intro reads_on_DD) (auto simp: same_fields_def storage_names)
  show "reads st (on_DD (addRequiredField t f) st)"
    using assms storage_numbers(3) [of t f] by (intro reads_on_DD) (auto simp: same_fields_def storage_names)
  show "reads st (on_DD (\<lambda>d. addMsgField t f (dd_addField f d)) st)"
    using assms n by (intro reads_on_DD) (auto simp: same_fields_def storage_names)
qed

lemma component_field_reads:
  assumes "reading_ok st" "first \<in> insert 0 (declared (fst st))" "component_field t r x first st = Inr (f, st')"
  shows "reads st st' \<and> f \<in> insert 0 (declared (fst st'))"
proof (cases "n_name x = ''field'' \<or> n_name x = ''group''")
  case True
  then obtain field where field: "lookup_node ''No name given to field'' x (fst st) = Inr field"
    "f = (if first = 0 then field else first)"
    "st' = on_DD (\<lambda>d. addMsgField t field (dd_addField field d))
       (if is_required x \<and> r then on_this (addRequiredField t field) st else st)"
    using assms(3) by (auto simp: component_field_def rbind_Inr Let_def)
  let ?st = "if is_required x \<and> r then on_this (addRequiredField t field) st else st"
  note d = lookup_declared [OF field(1)]
  have 1: "reads st ?st" using reads_on_this [OF assms(1) d] reads_refl [OF assms(1)] by simp
  have "reads ?st st'" using reads_add_field(3) [OF reads_ok [OF 1]] d reads_declared [OF 1] field(3) by simp
  then have "reads st st'" using 1 reads_trans by blast
  then show ?thesis using field(2) d assms(2) reads_declared by auto
qed (use assms in \<open>auto simp: component_field_def reads_refl\<close>)

lemma group_field_reads:
  assumes "reading_ok st" "group_field t r x st = Inr (f, st')"
  shows "reads st st' \<and> f \<in> declared (fst st')"
proof -
  obtain field where field: "lookup_node ''No name given to field'' x (fst st) = Inr field" "f = field"
    "st' = (if is_required x \<and> r then on_DD (addRequiredField t field) (on_DD (dd_addField field) st) else on_DD (dd_addField field) st)"
    using assms(2) by (auto simp: group_field_def rbind_Inr Let_def)
  note d = lookup_declared [OF field(1)]
  have 1: "reads st (on_DD (dd_addField field) st)" using reads_add_field(1) [OF assms(1) d] .
  have "reads (on_DD (dd_addField field) st) (on_DD (addRequiredField t field) (on_DD (dd_addField field) st))"
    using reads_add_field(2) [OF reads_ok [OF 1]] d reads_declared [OF 1] by simp
  then have "reads st st'" using 1 field(3) reads_trans by auto
  then show ?thesis using d field(2) reads_declared by auto
qed

lemma add_group_reads:
  assumes "reads (fst st, Some DataDictionary_new) (this, Some g)" "reading_ok st" "grp \<in> declared (fst st)" "delim \<in> declared (fst st)"
  shows "reads st (on_DD (dd_addGroup t grp delim g) (this, snd st))"
proof -
  have "reads st (this, snd st)"
    using assms(1,2) by (auto simp: reads_def reading_ok_def same_fields_def declared_def)
  moreover have "set (numbers_used g) \<subseteq> declared this" using assms(1) by (simp add: reads_def reading_ok_def)
  moreover have "declared this = declared (fst st)" using reads_declared [OF assms(1)] by simp
  ultimately have "reads (this, snd st) (on_DD (dd_addGroup t grp delim g) (this, snd st))"
    using assms(3,4) group_numbers [of t grp delim g] reads_ok
    by (intro reads_on_DD) (auto simp: same_fields_def storage_names)
  then show ?thesis using \<open>reads st (this, snd st)\<close> reads_trans by blast
qed

lemma new_group_ok: "reading_ok st \<Longrightarrow> reading_ok (fst st, Some DataDictionary_new)"
  by (simp add: reading_ok_def DataDictionary_new_def)

text \<open>What a step gives when it does not fail.\<close>

definition gives :: "('a \<Rightarrow> bool) \<Rightarrow> 'e + 'a \<Rightarrow> bool" where
  "gives P r \<longleftrightarrow> (\<forall>a. r = Inr a \<longrightarrow> P a)"

lemma gives_rbind: "gives P r \<Longrightarrow> (\<And>a. P a \<Longrightarrow> gives Q (k a)) \<Longrightarrow> gives Q (rbind r k)"
  by (cases r) (auto simp: gives_def)

lemma gives_simps [simp]: "gives P (Inr a) = P a" "gives P (Inl e)"
  by (simp_all add: gives_def)

lemma gives_error [simp]: "gives P (config_error text)"
  by (simp add: gives_def config_error_def)

lemma gives_mono: "gives P r \<Longrightarrow> (\<And>a. P a \<Longrightarrow> Q a) \<Longrightarrow> gives Q r"
  by (auto simp: gives_def)

definition reads_number :: "reading \<Rightarrow> int \<times> reading \<Rightarrow> bool" where
  "reads_number st p \<longleftrightarrow> reads st (snd p) \<and> fst p \<in> insert 0 (declared (fst st))"

lemma reads_number_trans: "reads a b \<Longrightarrow> reads_number b p \<Longrightarrow> reads_number a p"
  using reads_declared reads_trans by (fastforce simp: reads_number_def)

lemma component_field_gives:
  "reading_ok st \<Longrightarrow> first \<in> insert 0 (declared (fst st)) \<Longrightarrow> gives (reads_number st) (component_field t r x first st)"
  using component_field_reads by (fastforce simp: gives_def reads_number_def dest: reads_declared)

lemma group_field_gives: "reading_ok st \<Longrightarrow> gives (reads_number st) (group_field t r x st)"
  using group_field_reads by (fastforce simp: gives_def reads_number_def dest: reads_declared)

lemma reads_number_first: "reads_number st (f, st1) \<Longrightarrow> reads st st1" "reads_number st (f, st1) \<Longrightarrow> f \<in> insert 0 (declared (fst st1))"
  using reads_declared [of st st1] by (auto simp: reads_number_def)

lemma component_loop_reads:
  assumes C: "\<And>r x st. reading_ok st \<Longrightarrow> gives (reads_number st) (addXMLComponentFields fuel doc t r x st)"
    and G: "\<And>r x st. reading_ok st \<Longrightarrow> gives (reads st) (addXMLGroup fuel doc t r x st)"
  shows "reading_ok st \<Longrightarrow> first \<in> insert 0 (declared (fst st)) \<Longrightarrow> gives (reads_number st) (component_loop fuel doc t r xs first st)"
proof (induction xs arbitrary: first st)
  case (Cons x xs)
  have "gives (reads_number st) (component_loop fuel doc t r (x # xs) first st)"
    unfolding component_loop.simps
  proof (rule gives_rbind [OF component_field_gives [OF Cons.prems]], unfold split_beta, rule gives_rbind)
    fix p assume p: "reads_number st p"
    then have st1: "reads st (snd p)" "reading_ok (snd p)" "fst p \<in> insert 0 (declared (fst (snd p)))"
      using reads_number_first [of st "fst p" "snd p"] reads_ok by simp_all
    show "gives (reads (snd p))
       (if n_name x = ''component'' then rbind (addXMLComponentFields fuel doc t (is_required x) x (snd p)) (\<lambda>q. Inr (snd q))
        else if n_name x = ''group'' then addXMLGroup fuel doc t (is_required x) x (snd p) else Inr (snd p))"
      using gives_rbind [OF C [OF st1(2)], where k = "\<lambda>q. Inr (snd q)" and Q = "reads (snd p)"] G [OF st1(2)] reads_refl [OF st1(2)]
      by (simp add: reads_number_def)
    fix st2 assume st2: "reads (snd p) st2"
    then have "gives (reads_number st2) (component_loop fuel doc t r xs (fst p) st2)"
      using st1(3) reads_declared [OF st2] by (intro Cons.IH reads_ok [OF st2]) simp
    then show "gives (reads_number st) (component_loop fuel doc t r xs (fst p) st2)"
      using gives_mono reads_number_trans reads_trans [OF st1(1) st2] by blast
  qed
  then show ?case .
qed (simp add: reads_refl reads_number_def)

lemma group_loop_reads:
  assumes C: "\<And>r x st. reading_ok st \<Longrightarrow> gives (reads_number st) (addXMLComponentFields fuel doc t r x st)"
    and G: "\<And>r x st. reading_ok st \<Longrightarrow> gives (reads st) (addXMLGroup fuel doc t r x st)"
  shows "reading_ok st \<Longrightarrow> field \<in> insert 0 (declared (fst st)) \<Longrightarrow> delim \<in> insert 0 (declared (fst st)) \<Longrightarrow>
     gives (reads_number st) (group_loop fuel doc t r xs field delim st)"
proof (induction xs arbitrary: field delim st)
  case (Cons x xs)
  have g: "gives (reads_number st)
     (rbind (group_field t r x st) (\<lambda>q. rbind (addXMLGroup fuel doc t (is_required x) x (snd q)) (\<lambda>st2. Inr (fst q, st2))))"
  proof (rule gives_rbind [OF group_field_gives [OF Cons.prems(1)]])
    fix q assume q: "reads_number st q"
    then have "reads st (snd q)" "reading_ok (snd q)" "fst q \<in> insert 0 (declared (fst st))"
      using reads_ok [of st "snd q"] by (auto simp: reads_number_def)
    then show "gives (reads_number st) (rbind (addXMLGroup fuel doc t (is_required x) x (snd q)) (\<lambda>st2. Inr (fst q, st2)))"
      by (intro gives_rbind [OF G]) (auto simp: reads_number_def intro: reads_trans)
  qed
  have "gives (reads_number st) (group_loop fuel doc t r (x # xs) field delim st)"
    unfolding group_loop.simps
  proof (unfold split_beta, rule gives_rbind)
    show "gives (reads_number st)
       (if n_name x = ''field'' then group_field t r x st
        else if n_name x = ''component'' then addXMLComponentFields fuel doc t False x st
        else if n_name x = ''group''
        then rbind (group_field t r x st) (\<lambda>q. rbind (addXMLGroup fuel doc t (is_required x) x (snd q)) (\<lambda>st2. Inr (fst q, st2)))
        else Inr (field, st))"
      using group_field_gives [OF Cons.prems(1)] C [OF Cons.prems(1)] g Cons.prems reads_refl
      by (simp add: reads_number_def)
    fix p assume p: "reads_number st p"
    then have st1: "reads st (snd p)" "reading_ok (snd p)" "fst p \<in> insert 0 (declared (fst (snd p)))"
      using reads_number_first [of st "fst p" "snd p"] reads_ok by simp_all
    then have "gives (reads_number (snd p)) (group_loop fuel doc t r xs (fst p) (if delim = 0 then fst p else delim) (snd p))"
      using Cons.prems(3) reads_declared [OF st1(1)] by (intro Cons.IH) auto
    then show "gives (reads_number st) (group_loop fuel doc t r xs (fst p) (if delim = 0 then fst p else delim) (snd p))"
      using gives_mono reads_number_trans [OF st1(1)] by blast
  qed
  then show ?case .
qed (simp add: reads_refl reads_number_def)

lemma xml_reads:
  "(\<forall>r x st. reading_ok st \<longrightarrow> gives (reads_number st) (addXMLComponentFields fuel doc t r x st)) \<and>
   (\<forall>r x st. reading_ok st \<longrightarrow> gives (reads st) (addXMLGroup fuel doc t r x st))"
proof (induction fuel)
  case (Suc fuel)
  note C = Suc [THEN conjunct1, rule_format] and G = Suc [THEN conjunct2, rule_format]
  have "gives (reads_number st) (addXMLComponentFields (Suc fuel) doc t r x st)" if "reading_ok st" for r x st
    using component_loop_reads [OF C G that, where first = 0]
    by (auto intro!: gives_rbind [where P = "\<lambda>_. True"] simp: gives_def [of "\<lambda>_. True"] split: option.split)
  moreover have "gives (reads st) (addXMLGroup (Suc fuel) doc t r x st)" if st: "reading_ok st" for r x st
    unfolding addXMLGroup.simps
  proof (rule gives_rbind [where P = "\<lambda>g. g \<in> declared (fst st)"], simp add: gives_def lookup_declared,
      rule gives_rbind [OF group_loop_reads [OF C G new_group_ok [OF st], where field = 0 and delim = 0]],
      unfold split_beta Let_def)
    fix grp p assume g: "grp \<in> declared (fst st)" and p: "reads_number (fst st, Some DataDictionary_new) p"
    obtain delim this g where d: "p = (delim, this, Some g)"
      using p by (cases p) (auto simp: reads_number_def reads_def)
    have "reads st (this, snd st)"
      using p st by (auto simp: d reads_number_def reads_def reading_ok_def same_fields_def declared_def)
    then show "gives (reads st) (Inr (if fst p \<noteq> 0 then on_DD (dd_addGroup t grp (fst p) (the (snd (snd p)))) (fst (snd p), snd st) else (fst (snd p), snd st)))"
      using add_group_reads [OF _ st g] p by (auto simp: d reads_number_def)
  qed simp_all
  ultimately show ?case by blast
qed simp

end
