(* ===== verification/DictionaryReadings.thy ===== *)
theory DictionaryReadings
  imports DictionaryReaders
begin

text \<open>
  What reading a dictionary gives: a dictionary in order, whose names are those of the fields
  section and which uses no other number, at whatever depth of its groups; and when reading
  ends.
\<close>

section \<open>The fields\<close>

definition fields_ok :: "data_dictionary \<Rightarrow> bool" where
  "fields_ok d \<longleftrightarrow> dd_wf d \<and> set (numbers_used d) \<subseteq> declared d \<and> (\<forall>f\<in>declared d. getFieldType f d \<noteq> None)"

definition declares :: "dom_node list \<Rightarrow> string \<Rightarrow> int \<Rightarrow> bool" where
  "declares nodes name f \<longleftrightarrow>
     (\<exists>x\<in>set nodes. n_name x = ''field'' \<and> attr ''name'' x = Some name \<and> map_option atoi (attr ''number'' x) = Some f)"

lemma dd_wf_addValueName: "dd_wf d \<Longrightarrow> dd_wf (addValueName f v n d)"
  by (simp add: dd_wf_def addValueName_def)

lemma read_values_gives:
  "dd_wf d \<Longrightarrow> gives (\<lambda>d'. dd_wf d' \<and> numbers_used d' = numbers_used d \<and> same_fields d d') (read_values num name xs d)"
proof (induction num name xs d rule: read_values.induct)
  case (2 num name x xs d)
  show ?case
  proof (cases "n_name x = ''value''")
    case True
    let ?next = "\<lambda>e. case attr ''description'' x of None \<Rightarrow> addFieldValue num e d
      | Some description \<Rightarrow> addValueName num e description (addFieldValue num e d)"
    have n: "dd_wf (?next e)" "numbers_used (?next e) = numbers_used d" "same_fields d (?next e)" for e
      using 2(3) by (auto simp: storage_no_numbers same_fields_def storage_names intro!: dd_wf_addValueName split: option.split)
    have "gives (\<lambda>d'. dd_wf d' \<and> numbers_used d' = numbers_used d \<and> same_fields d d') (read_values num name xs (?next e))" for e
      by (rule gives_mono [OF 2(1) [OF True refl n(1)]]) (use n(2,3) in \<open>simp add: same_fields_def\<close>)
    then show ?thesis using True by (auto intro!: gives_rbind [where P = "\<lambda>_. True"] simp: gives_def [of "\<lambda>_. True"] Let_def)
  qed (use 2 in simp)
qed (simp add: same_fields_def)

lemma read_field_gives:
  assumes "fields_ok d"
  shows "gives (\<lambda>d'. fields_ok d' \<and>
    (\<forall>name f. getFieldTag name d' = Some f \<longleftrightarrow> getFieldTag name d = Some f \<or> attr ''name'' x = Some name \<and> map_option atoi (attr ''number'' x) = Some f))
    (read_field x d)"
proof -
  have step: "fields_ok d' \<and> (\<forall>name' f. getFieldTag name' d' = Some f \<longleftrightarrow> getFieldTag name' d = Some f \<or> name' = name \<and> f = num)"
    if d3: "addFieldName num name (addFieldType num ty (dd_addField num d)) = Inr d3"
      and d': "dd_wf d'" "numbers_used d' = numbers_used d3" "same_fields d3 d'" for d3 d' num name ty
  proof -
    let ?d = "addFieldType num ty (dd_addField num d)"
    have wf: "dd_wf ?d" using assms by (auto simp: fields_ok_def)
    have n: "map_of (m_names (dd d)) name = None" "m_names (dd d3) = map_put name num (m_names (dd d))"
      "m_fieldTypes (dd d3) = map_put num ty (m_fieldTypes (dd d))" "numbers_used d3 = numbers_used ?d"
      using d3 by (auto simp: addFieldName_def storage_names numbers_used_parts split: if_splits)
    have s: "map_sorted (m_names (dd d))" "map_sorted (m_fieldTypes (dd d))" using assms by (auto simp: fields_ok_def dd_wf_def)
    have dec: "declared d' \<subseteq> insert num (declared d)" "insert num (declared d) \<subseteq> declared d'"
    proof -
      show "declared d' \<subseteq> insert num (declared d)"
        using set_map_put [of name num "m_names (dd d)"] d'(3) n(2) by (fastforce simp: declared_def same_fields_def)
      have "f \<in> snd ` set (map_put name num (m_names (dd d)))" if f: "f = num \<or> f \<in> declared d" for f
      proof (cases "f = num")
        case True
        then show ?thesis using s(1) by (metis fun_upd_same map_of_SomeD map_of_map_put snd_conv image_eqI)
      next
        case False
        then obtain k where k: "(k, f) \<in> set (m_names (dd d))" using f by (auto simp: declared_def)
        then have "map_of (m_names (dd d)) k = Some f" using s(1) by (simp add: map_sorted_def strict_sorted_iff)
        moreover have "k \<noteq> name" using n(1) calculation by auto
        ultimately have "map_of (map_put name num (m_names (dd d))) k = Some f" using s(1) by simp
        then show ?thesis by (metis map_of_SomeD snd_conv image_eqI)
      qed
      then show "insert num (declared d) \<subseteq> declared d'" using d'(3) n(2) by (auto simp: declared_def same_fields_def)
    qed
    have "set (numbers_used d') \<subseteq> insert num (set (numbers_used d))"
      using d'(2) n(4) storage_numbers(1) [of num d] by (simp add: storage_no_numbers)
    then have "fields_ok d'"
      using d' dec assms s n(3) by (auto simp: fields_ok_def getFieldType_def same_fields_def)
    then show ?thesis using d'(3) n s by (auto simp: getFieldTag_def same_fields_def)
  qed
  show ?thesis
  proof (clarsimp simp: gives_def read_field_def rbind_Inr attr_or_def config_error_def Let_def simp del: split_paired_All
      split: option.splits)
    fix d' name num ty d3
    assume *: "attr ''name'' x = Some name" "attr ''number'' x = Some num" "attr ''type'' x = Some ty"
      "map_sum Thrown id (addFieldName (atoi num) name (addFieldType (atoi num) (XMLTypeToType ty (dd_addField (atoi num) d)) (dd_addField (atoi num) d))) = Inr d3"
      "read_values (atoi num) name (n_children x) d3 = Inr d'"
    then have d3: "addFieldName (atoi num) name (addFieldType (atoi num) (XMLTypeToType ty (dd_addField (atoi num) d)) (dd_addField (atoi num) d)) = Inr d3"
      by (auto simp: map_sum_def split: sum.splits)
    have "dd_wf d3" using dd_wf_addFieldName [OF _ d3] assms by (auto simp: fields_ok_def)
    then have "dd_wf d' \<and> numbers_used d' = numbers_used d3 \<and> same_fields d3 d'"
      using read_values_gives *(5) by (fastforce simp: gives_def)
    then show "fields_ok d' \<and> (\<forall>name' f. (getFieldTag name' d' = Some f) = (getFieldTag name' d = Some f \<or> name = name' \<and> atoi num = f))"
      using step [OF d3] by auto
  qed
qed

lemma read_field_loop_gives:
  "fields_ok d \<Longrightarrow> gives (\<lambda>d'. fields_ok d' \<and> (\<forall>name f. getFieldTag name d' = Some f \<longleftrightarrow> getFieldTag name d = Some f \<or> declares xs name f))
     (read_field_loop xs d)"
proof (induction xs d rule: read_field_loop.induct)
  case (2 x xs d)
  show ?case
  proof (cases "n_name x = ''field''")
    case True
    have "gives (\<lambda>d'. fields_ok d' \<and> (\<forall>name f. getFieldTag name d' = Some f \<longleftrightarrow> getFieldTag name d = Some f \<or> declares (x # xs) name f))
        (rbind (read_field x d) (read_field_loop xs))"
      by (rule gives_rbind [OF read_field_gives [OF 2(3)]], rule gives_mono, rule 2(1) [OF True])
        (use True in \<open>auto simp: declares_def\<close>)
    then show ?thesis using True by simp
  next
    case False
    then show ?thesis using 2 by (simp add: declares_def)
  qed
qed (simp add: declares_def)

section \<open>The other sections\<close>

text \<open>What the later sections keep.\<close>

definition keeps :: "data_dictionary \<Rightarrow> data_dictionary \<Rightarrow> bool" where
  "keeps d d' \<longleftrightarrow> reads (d, None) (d', None)"

lemma keeps_refl: "reading_ok (d, None) \<Longrightarrow> keeps d d"
  by (simp add: keeps_def reads_refl)

lemma keeps_trans: "keeps a b \<Longrightarrow> keeps b c \<Longrightarrow> keeps a c"
  using reads_trans by (auto simp: keeps_def)

lemma keeps_ok: "keeps a b \<Longrightarrow> reading_ok (b, None)"
  using reads_ok by (auto simp: keeps_def)

lemma keeps_declared: "keeps a b \<Longrightarrow> declared b = declared a"
  using reads_declared by (fastforce simp: keeps_def)

lemma keeps_storage:
  assumes "reading_ok (d, None)"
  shows "f \<in> declared d \<Longrightarrow> keeps d (addHeaderField f b d)" "f \<in> declared d \<Longrightarrow> keeps d (addTrailerField f b d)"
    "f \<in> declared d \<Longrightarrow> keeps d (addMsgField t f d)" "f \<in> declared d \<Longrightarrow> keeps d (addRequiredField t f d)"
    "keeps d (addMsgType t d)" "keeps d (addValueName f v n d)"
  using assms storage_numbers(2,3) [of t f d] storage_numbers(4,5) [of f b d]
  by (auto simp: keeps_def reads_def reading_ok_def same_fields_def storage_names storage_no_numbers declared_def
      intro: dd_wf_addValueName)

lemma gives_chain:
  assumes r: "gives (keeps d) r" and k: "\<And>d1. keeps d d1 \<Longrightarrow> reading_ok (d1, None) \<Longrightarrow> gives (keeps d1) (k d1)"
  shows "gives (keeps d) (rbind r k)"
proof (rule gives_rbind [OF r])
  fix d1 assume d1: "keeps d d1"
  show "gives (keeps d) (k d1)" by (rule gives_mono [OF k [OF d1 keeps_ok [OF d1]]]) (rule keeps_trans [OF d1])
qed

lemma group_of_this_gives: "reading_ok (d, None) \<Longrightarrow> gives (keeps d) (group_of_this fuel doc t x d)"
proof -
  assume ok: "reading_ok (d, None)"
  have "gives (reads (d, None)) (addXMLGroup fuel doc t (is_required x) x (d, None))"
    using xml_reads [of fuel doc t] ok by blast
  then have "gives (keeps d) (rbind (addXMLGroup fuel doc t (is_required x) x (d, None)) (\<lambda>(d1, _). Inr d1))"
    by (rule gives_rbind) (auto simp: keeps_def reads_def)
  then show ?thesis using keeps_refl [OF ok] by (simp add: group_of_this_def)
qed

lemma read_frame_loop_gives:
  assumes add: "\<And>d f b. reading_ok (d, None) \<Longrightarrow> f \<in> declared d \<Longrightarrow> keeps d (add f b d)"
  shows "reading_ok (d, None) \<Longrightarrow> gives (keeps d) (read_frame_loop add key fuel doc xs d)"
proof (induction xs arbitrary: d)
  case (Cons x xs)
  have "gives (keeps d) (if n_name x = ''field'' \<or> n_name x = ''group''
      then rbind (lookup_node ''<field> does not have a name attribute'' x d) (\<lambda>num. Inr (add num (is_required x) d)) else Inr d)"
    using add [OF Cons.prems] keeps_refl [OF Cons.prems]
    by (auto intro!: gives_rbind [where P = "\<lambda>f. f \<in> declared d"] simp: gives_def [of "\<lambda>f. f \<in> declared d"] lookup_declared)
  then show ?case unfolding read_frame_loop.simps
    by (intro gives_chain group_of_this_gives Cons.IH)
qed (simp add: keeps_refl)

lemma read_message_loop_gives:
  "reading_ok (d, None) \<Longrightarrow> gives (keeps d) (read_message_loop fuel doc t xs d)"
proof (induction xs arbitrary: d)
  case (Cons x xs)
  note ok = Cons.prems
  have f: "gives (keeps d) (rbind (lookup_node ''<field> does not have a name attribute'' x d) (\<lambda>num.
      Inr (if is_required x then addRequiredField t num (addMsgField t num d) else addMsgField t num d)))"
  proof (rule gives_rbind [where P = "\<lambda>f. f \<in> declared d"])
    fix num assume n: "num \<in> declared d"
    have 1: "keeps d (addMsgField t num d)" using keeps_storage(3) [OF ok n] .
    then have "keeps (addMsgField t num d) (addRequiredField t num (addMsgField t num d))"
      using n keeps_declared [OF 1] by (intro keeps_storage(4) keeps_ok [OF 1]) simp
    then show "gives (keeps d) (Inr (if is_required x then addRequiredField t num (addMsgField t num d) else addMsgField t num d))"
      using 1 keeps_trans by auto
  qed (simp add: gives_def lookup_declared)
  have "gives (reads_number (d, None)) (addXMLComponentFields fuel doc t (is_required x) x (d, None))"
    using xml_reads [of fuel doc t] ok by blast
  then have c: "gives (keeps d) (rbind (addXMLComponentFields fuel doc t (is_required x) x (d, None)) (\<lambda>(_, d1, _). Inr d1))"
    by (rule gives_rbind) (auto simp: keeps_def reads_number_def reads_def)
  show ?case unfolding read_message_loop.simps Let_def
    by (intro gives_chain group_of_this_gives Cons.IH) (use f c keeps_refl [OF ok] in simp)
qed (simp add: keeps_refl)

lemma read_messages_loop_gives:
  "reading_ok (d, None) \<Longrightarrow> gives (keeps d) (read_messages_loop fuel doc xs d)"
proof (induction xs arbitrary: d)
  case (Cons x xs)
  note ok = Cons.prems
  have m: "gives (keeps d) (read_message_loop fuel doc t (n_children x)
      (case attr ''name'' x of None \<Rightarrow> addMsgType t d | Some name \<Rightarrow> addValueName 35 t name (addMsgType t d)))" for t
  proof -
    let ?d = "case attr ''name'' x of None \<Rightarrow> addMsgType t d | Some name \<Rightarrow> addValueName 35 t name (addMsgType t d)"
    have 1: "keeps d (addMsgType t d)" using keeps_storage(5) [OF ok] .
    have "keeps (addMsgType t d) (addValueName 35 t name (addMsgType t d))" for name
      by (intro keeps_storage(6) keeps_ok [OF 1])
    then have 2: "keeps d ?d" using 1 keeps_trans by (auto split: option.split)
    show ?thesis by (rule gives_mono [OF read_message_loop_gives [OF keeps_ok [OF 2]] keeps_trans [OF 2]])
  qed
  have "gives (keeps d) (if n_name x = ''message''
      then rbind (attr_or ''<message> does not have a msgtype attribute'' ''msgtype'' x) (\<lambda>t.
        read_message_loop fuel doc t (n_children x)
          (case attr ''name'' x of None \<Rightarrow> addMsgType t d | Some name \<Rightarrow> addValueName 35 t name (addMsgType t d)))
      else Inr d)"
    using m keeps_refl [OF ok] by (auto intro!: gives_rbind [where P = "\<lambda>_. True"] simp: gives_def [of "\<lambda>_. True"])
  then show ?case unfolding read_messages_loop.simps Let_def by (intro gives_chain Cons.IH)
qed (simp add: keeps_refl)

lemma fields_reading: "fields_ok d \<Longrightarrow> reading_ok (d, None)"
  by (simp add: fields_ok_def reading_ok_def)

lemma keeps_fields:
  assumes "fields_ok d" "keeps d d'"
  shows "fields_ok d' \<and> m_names (dd d') = m_names (dd d)"
proof -
  have "same_fields d d'" "reading_ok (d', None)" using assms(2) keeps_ok by (auto simp: keeps_def reads_def)
  then show ?thesis using assms(1) keeps_declared [OF assms(2)]
    by (auto simp: fields_ok_def reading_ok_def same_fields_def getFieldType_def)
qed

lemma read_sections_gives:
  assumes "reading_ok (d, None)"
  shows "gives (keeps d) (read_header fuel doc d)" "gives (keeps d) (read_trailer fuel doc d)"
proof -
  have "gives (keeps d) (read_frame_loop addHeaderField ''_header_'' fuel doc nodes d)"
    "gives (keeps d) (read_frame_loop addTrailerField ''_trailer_'' fuel doc nodes d)" for nodes
    by (rule read_frame_loop_gives [OF keeps_storage(1) assms] read_frame_loop_gives [OF keeps_storage(2) assms]; assumption)+
  then show "gives (keeps d) (read_header fuel doc d)" "gives (keeps d) (read_trailer fuel doc d)"
    unfolding read_header_def read_trailer_def by (auto intro!: gives_rbind [where P = "\<lambda>_. True"] simp: gives_def [of "\<lambda>_. True"])
qed

lemma readFromDocument_gives:
  assumes "fields_ok d" "m_names (dd d) = []"
  shows "gives (\<lambda>d'. fields_ok d' \<and> (\<exists>fields. doc ''/fix/fields'' = Some fields \<and>
      (\<forall>name f. getFieldTag name d' = Some f \<longleftrightarrow> declares (n_children fields) name f))) (readFromDocument fuel doc d)"
  unfolding gives_def
proof (intro allI impI)
  fix d' assume "readFromDocument fuel doc d = Inr d'"
  then obtain type major d1 nodes d2 d3 d4 ms where v: "read_version doc d = Inr (type, major, d1)"
    and nodes: "children_of ''/fix/fields'' ''<fields> section not found in data dictionary'' ''No fields defined'' doc = Inr nodes"
    and d2: "read_field_loop nodes d1 = Inr d2"
    and d3: "(if type = ''FIXT'' \<or> type = ''FIX'' \<and> major < ''5'' then read_header fuel doc d2 else Inr d2) = Inr d3"
    and d4: "(if type = ''FIXT'' \<or> type = ''FIX'' \<and> major < ''5'' then read_trailer fuel doc d3 else Inr d3) = Inr d4"
    and d': "read_messages_loop fuel doc ms d4 = Inr d'"
    by (auto simp: readFromDocument_def rbind_Inr Let_def)
  have "d1 = setVersion (type @ ''.'' @ major @ ''.'' @ drop (length type + length major + 2) (m_beginString (dd d1))) d"
    using v by (auto simp: read_version_def rbind_Inr config_error_def Let_def setVersion_def split: option.splits if_splits)
  then obtain s where s: "d1 = setVersion s d" by blast
  have 1: "fields_ok d1" using assms(1)
    by (auto simp: s fields_ok_def storage_no_numbers storage_names declared_def getFieldType_def)
  obtain fields where f: "doc ''/fix/fields'' = Some fields" "nodes = n_children fields"
    using nodes by (auto simp: children_of_def config_error_def split: option.splits if_splits)
  have 2: "fields_ok d2" "getFieldTag name d2 = Some num \<longleftrightarrow> declares nodes name num" for name num
    using read_field_loop_gives [OF 1, of nodes] d2 assms(2) by (auto simp: gives_def s getFieldTag_def storage_names)
  have "keeps d2 d3" using read_sections_gives(1) [OF fields_reading [OF 2(1)]] keeps_refl [OF fields_reading [OF 2(1)]] d3
    by (auto simp: gives_def split: if_splits)
  then have 3: "fields_ok d3 \<and> m_names (dd d3) = m_names (dd d2)" by (rule keeps_fields [OF 2(1)])
  have "keeps d3 d4" using read_sections_gives(2) [OF fields_reading] keeps_refl [OF fields_reading] d4 3
    by (auto simp: gives_def split: if_splits)
  then have 4: "fields_ok d4 \<and> m_names (dd d4) = m_names (dd d2)" using keeps_fields 3 by metis
  have "keeps d4 d'" using read_messages_loop_gives [OF fields_reading] 4 d' by (auto simp: gives_def)
  then have "fields_ok d' \<and> m_names (dd d') = m_names (dd d2)" using keeps_fields 4 by metis
  then show "fields_ok d' \<and> (\<exists>fields. doc ''/fix/fields'' = Some fields \<and>
      (\<forall>name f. getFieldTag name d' = Some f \<longleftrightarrow> declares (n_children fields) name f))"
    using 2(2) f by (auto simp: getFieldTag_def)
qed

section \<open>When reading ends\<close>

text \<open>The components that a node refers to, in it or in the groups it contains.\<close>

fun refs :: "dom_node \<Rightarrow> string list" where
  "refs (DomNode name attributes children) =
     (if name = ''component'' then (case map_of attributes ''name'' of None \<Rightarrow> [] | Some n \<Rightarrow> [n])
      else if name = ''group'' then concat (map refs children) else [])"

text \<open>Every component refers only to components of a smaller rank.\<close>

definition ranked :: "(string \<Rightarrow> nat) \<Rightarrow> document \<Rightarrow> bool" where
  "ranked rank doc \<longleftrightarrow>
     (\<forall>name c. doc (component_path name) = Some c \<longrightarrow> (\<forall>x\<in>set (n_children c). \<forall>r\<in>set (refs x). rank r < rank name))"

definition ends :: "stop + 'a \<Rightarrow> bool" where "ends r \<longleftrightarrow> r \<noteq> Inl NoFuel"

lemma ends_simps [simp]: "ends (Inr a)" "ends (config_error text)" "ends (Inl (Thrown e))" "\<not> ends (Inl NoFuel)"
  by (simp_all add: ends_def config_error_def)

lemma ends_rbind: "ends r \<Longrightarrow> (\<And>a. ends (k a)) \<Longrightarrow> ends (rbind r k)"
  by (cases r) (simp_all add: ends_def)

lemma ends_parts [simp]: "ends (attr_or text name x)" "ends (lookup_node text x d)" "ends (component_field t r x first st)"
  "ends (group_field t r x st)" "ends (children_of path a b doc)" "ends (map_sum Thrown id q)"
proof -
  have a: "ends (attr_or msg name x)" for msg name by (simp add: attr_or_def split: option.split)
  have look: "ends (lookup_node msg x d)" for msg d
    unfolding lookup_node_def lookup_name_def by (intro ends_rbind a) (simp split: option.split)
  show "ends (attr_or text name x)" "ends (lookup_node text x d)" by (rule a, rule look)
  show "ends (component_field t r x first st)" "ends (group_field t r x st)"
    unfolding component_field_def group_field_def Let_def by (auto intro: ends_rbind look)
  show "ends (children_of path a b doc)" by (simp add: children_of_def split: option.split)
  show "ends (map_sum Thrown id q)" by (cases q) simp_all
qed

text \<open>A bound from which on a component or group ends, whatever the state.\<close>

definition component_ends :: "document \<Rightarrow> nat \<Rightarrow> dom_node \<Rightarrow> bool" where
  "component_ends doc n x \<longleftrightarrow> (\<forall>m\<ge>n. \<forall>t r st. ends (addXMLComponentFields m doc t r x st))"

definition group_ends :: "document \<Rightarrow> nat \<Rightarrow> dom_node \<Rightarrow> bool" where
  "group_ends doc n x \<longleftrightarrow> (\<forall>m\<ge>n. \<forall>t r st. ends (addXMLGroup m doc t r x st))"

definition node_ends :: "document \<Rightarrow> nat \<Rightarrow> dom_node \<Rightarrow> bool" where
  "node_ends doc n x \<longleftrightarrow>
     (n_name x = ''component'' \<longrightarrow> component_ends doc n x) \<and> (n_name x = ''group'' \<longrightarrow> group_ends doc n x)"

lemma node_ends_mono: "node_ends doc n x \<Longrightarrow> n \<le> m \<Longrightarrow> node_ends doc m x"
  by (auto simp: node_ends_def component_ends_def group_ends_def)

lemma node_endsD:
  "node_ends doc n x \<Longrightarrow> n_name x = ''component'' \<Longrightarrow> n \<le> m \<Longrightarrow> ends (addXMLComponentFields m doc t r x st)"
  "node_ends doc n x \<Longrightarrow> n_name x = ''group'' \<Longrightarrow> n \<le> m \<Longrightarrow> ends (addXMLGroup m doc t r x st)"
  unfolding node_ends_def component_ends_def group_ends_def by blast+

lemma common_bound:
  assumes "\<forall>x\<in>set xs. \<exists>n. node_ends doc n x"
  shows "\<exists>n. \<forall>x\<in>set xs. node_ends doc n x"
  using assms
proof (induction xs)
  case (Cons x xs)
  then obtain a b where "node_ends doc a x" "\<forall>x\<in>set xs. node_ends doc b x" by auto
  then have "\<forall>y\<in>set (x # xs). node_ends doc (max a b) y" by (auto intro: node_ends_mono)
  then show ?case by blast
qed simp

lemma loops_end:
  assumes "\<forall>x\<in>set xs. node_ends doc n x" "n \<le> m"
  shows "ends (component_loop m doc t r xs first st)" "ends (group_loop m doc t r xs field delim st)"
proof -
  have c: "n_name x = ''component'' \<Longrightarrow> ends (addXMLComponentFields m doc t r x st)"
    and g: "n_name x = ''group'' \<Longrightarrow> ends (addXMLGroup m doc t r x st)" if "x \<in> set xs" for x r st
    using that assms node_endsD by blast+
  have "set ys \<subseteq> set xs \<Longrightarrow> ends (component_loop m doc t r ys first st)" for ys first st
    by (induction ys arbitrary: first st) (auto intro!: ends_rbind c g split: prod.split)
  moreover have "set ys \<subseteq> set xs \<Longrightarrow> ends (group_loop m doc t r ys field delim st)" for ys field delim st
    by (induction ys arbitrary: field delim st) (auto intro!: ends_rbind c g split: prod.split)
  ultimately show "ends (component_loop m doc t r xs first st)" "ends (group_loop m doc t r xs field delim st)" by simp_all
qed

definition name_ends :: "document \<Rightarrow> string \<Rightarrow> bool" where
  "name_ends doc name \<longleftrightarrow> (\<exists>n. \<forall>y. attr ''name'' y = Some name \<longrightarrow> component_ends doc n y)"

lemma node_bound: "\<forall>ref\<in>set (refs x). name_ends doc ref \<Longrightarrow> \<exists>n. node_ends doc n x"
proof (induction x)
  case (DomNode name attributes children)
  let ?x = "DomNode name attributes children"
  show ?case
  proof (cases "name = ''component''")
    case True
    show ?thesis
    proof (cases "attr ''name'' ?x")
      case None
      have "ends (addXMLComponentFields m doc t r ?x st)" if "Suc 0 \<le> m" for m t r st
        using that None by (cases m) (simp_all add: attr_or_def config_error_def)
      then have "component_ends doc (Suc 0) ?x" unfolding component_ends_def by blast
      then show ?thesis using True unfolding node_ends_def by auto
    next
      case (Some n)
      then have "name_ends doc n" using DomNode(2) True by (simp add: attr_def)
      then show ?thesis using True Some by (auto simp: node_ends_def name_ends_def)
    qed
  next
    case False
    show ?thesis
    proof (cases "name = ''group''")
      case True
      then have "\<forall>c\<in>set children. \<exists>n. node_ends doc n c" using DomNode by auto
      then obtain n where n: "\<forall>c\<in>set children. node_ends doc n c" using common_bound by blast
      have "ends (addXMLGroup m doc t r ?x st)" if "Suc n \<le> m" for m t r st
        using that by (cases m) (auto intro!: ends_rbind loops_end [OF n] simp: Let_def split: prod.split)
      then have "group_ends doc (Suc n) ?x" unfolding group_ends_def by blast
      then show ?thesis using False True unfolding node_ends_def by auto
    qed (use False in \<open>simp add: node_ends_def\<close>)
  qed
qed

lemma component_bound: "ranked rank doc \<Longrightarrow> name_ends doc name"
proof (induction "rank name" arbitrary: name rule: less_induct)
  case less
  show ?case
  proof (cases "doc (component_path name)")
    case None
    have "ends (addXMLComponentFields m doc t r y st)" if "Suc 0 \<le> m" "attr ''name'' y = Some name" for m t r y st
      using that None by (cases m) (simp_all add: attr_or_def)
    then have "attr ''name'' y = Some name \<Longrightarrow> component_ends doc (Suc 0) y" for y unfolding component_ends_def by blast
    then show ?thesis unfolding name_ends_def by blast
  next
    case (Some c)
    have "\<exists>n. node_ends doc n x" if "x \<in> set (n_children c)" for x
      using less Some that by (intro node_bound) (auto simp: ranked_def)
    then obtain n where n: "\<forall>x\<in>set (n_children c). node_ends doc n x" using common_bound by blast
    have "ends (addXMLComponentFields m doc t r y st)" if "Suc n \<le> m" "attr ''name'' y = Some name" for m t r y st
      using that Some by (cases m) (auto simp: attr_or_def intro!: loops_end [OF n])
    then have "attr ''name'' y = Some name \<Longrightarrow> component_ends doc (Suc n) y" for y unfolding component_ends_def by blast
    then show ?thesis unfolding name_ends_def by blast
  qed
qed

lemma nodes_bound: "ranked rank doc \<Longrightarrow> \<exists>n. \<forall>x\<in>set xs. node_ends doc n x"
  by (rule common_bound) (auto intro: node_bound component_bound)

section \<open>The sections end\<close>

lemma group_of_this_ends: "node_ends doc n x \<Longrightarrow> n \<le> m \<Longrightarrow> ends (group_of_this m doc t x d)"
  unfolding group_of_this_def node_ends_def group_ends_def by (auto intro!: ends_rbind)

lemma read_frame_loop_ends: "\<forall>x\<in>set xs. node_ends doc n x \<Longrightarrow> n \<le> m \<Longrightarrow> ends (read_frame_loop add key m doc xs d)"
  by (induction xs arbitrary: d) (auto intro!: ends_rbind group_of_this_ends)

lemma read_message_loop_ends: "\<forall>x\<in>set xs. node_ends doc n x \<Longrightarrow> n \<le> m \<Longrightarrow> ends (read_message_loop m doc t xs d)"
proof (induction xs arbitrary: d)
  case (Cons x xs)
  then have "n_name x = ''component'' \<Longrightarrow> ends (addXMLComponentFields m doc t r x st)" for r st
    by (intro node_endsD(1) [of doc n]) simp_all
  then show ?case using Cons by (auto intro!: ends_rbind group_of_this_ends simp: Let_def split: prod.split)
qed simp

lemma read_messages_loop_ends:
  "\<forall>y\<in>set ys. \<forall>x\<in>set (n_children y). node_ends doc n x \<Longrightarrow> n \<le> m \<Longrightarrow> ends (read_messages_loop m doc ys d)"
  by (induction ys arbitrary: d) (auto intro!: ends_rbind read_message_loop_ends simp: Let_def)

lemma read_values_ends [simp]: "ends (read_values num name xs d)"
  by (induction num name xs d rule: read_values.induct) (auto intro!: ends_rbind simp: Let_def)

lemma read_field_loop_ends [simp]: "ends (read_field_loop xs d)"
proof -
  have "ends (read_field x d)" for x d
    unfolding read_field_def Let_def by (intro ends_rbind) simp_all
  then show ?thesis by (induction xs d rule: read_field_loop.induct) (auto intro!: ends_rbind)
qed

lemma read_version_ends [simp]: "ends (read_version doc d)"
  unfolding read_version_def Let_def by (auto intro!: ends_rbind split: option.split)

lemma readFromDocument_ends:
  assumes "ranked rank doc"
  shows "\<exists>n. \<forall>m\<ge>n. \<forall>d. ends (readFromDocument m doc d)"
proof -
  let ?under = "\<lambda>path. case doc path of None \<Rightarrow> [] | Some x \<Rightarrow> n_children x"
  obtain n where n: "\<forall>x\<in>set (?under ''/fix/header'' @ ?under ''/fix/trailer'' @ concat (map n_children (?under ''/fix/messages''))). node_ends doc n x"
    using nodes_bound [OF assms] by blast
  have "ends (readFromDocument m doc d)" if m: "n \<le> m" for m d
  proof -
    have s: "ends (rbind (children_of path a b doc) k)" if "\<And>x. doc path = Some x \<Longrightarrow> ends (k (n_children x))" for path a b and k :: "_ \<Rightarrow> stop + data_dictionary"
      using that by (auto simp: children_of_def config_error_def split: option.split)
    have h: "ends (read_header m doc d)" "ends (read_trailer m doc d)" for d
      unfolding read_header_def read_trailer_def by (intro s read_frame_loop_ends [OF _ m]; use n in simp)+
    have ms: "ends (rbind (children_of ''/fix/messages'' a b doc) (\<lambda>nodes. read_messages_loop m doc nodes d))" for a b d
      using n by (intro s read_messages_loop_ends [OF _ m]) fastforce
    show ?thesis unfolding readFromDocument_def split_beta Let_def by (auto intro!: ends_rbind h ms)
  qed
  then show ?thesis by blast
qed

text \<open>A component that refers to itself is never read to its end.\<close>

lemma circular_component_endless:
  assumes "doc (component_path name) = Some c" "n_children c = x # xs" "n_name x = ''component''" "attr ''name'' x = Some name"
  shows "attr ''name'' y = Some name \<Longrightarrow> addXMLComponentFields fuel doc t r y st = Inl NoFuel"
proof (induction fuel arbitrary: y r)
  case (Suc fuel)
  then show ?case using assms by (simp add: attr_or_def component_field_def)
qed simp

lemma DataDictionary_read_document:
  assumes "DataDictionary_read load fuel url preserve = Inr d"
  obtains doc where "load url = Some doc"
    "readFromDocument fuel doc (dd_update (\<lambda>d. d\<lparr>m_storeMsgFieldsOrder := preserve\<rparr>) DataDictionary_new) = Inr d"
  using assms by (auto simp: DataDictionary_read_def readFromURL_def config_error_def split: option.splits sum.splits stop.splits exn.splits)

section \<open>A document\<close>

definition sample_field :: "string \<Rightarrow> string \<Rightarrow> string \<Rightarrow> dom_node" where
  "sample_field name number type = DomNode ''field'' [(''name'', name), (''number'', number), (''type'', type)] []"

definition sample_use :: "string \<Rightarrow> string \<Rightarrow> dom_node list \<Rightarrow> dom_node" where
  "sample_use kind name = DomNode kind [(''name'', name), (''required'', ''Y'')]"

text \<open>A group with a component, and that component refers to another one.\<close>

definition sample_document :: document where
  "sample_document = map_of
     [(''/fix'', DomNode ''fix'' [(''major'', ''4''), (''minor'', ''4'')] []),
      (''/fix/fields'', DomNode ''fields'' []
         [sample_field ''A'' ''1'' ''STRING'', sample_field ''G'' ''2'' ''NUMINGROUP'', sample_field ''B'' ''3'' ''INT'']),
      (''/fix/header'', DomNode ''header'' [] [sample_use ''field'' ''A'' []]),
      (''/fix/trailer'', DomNode ''trailer'' [] [sample_use ''field'' ''A'' []]),
      (''/fix/messages'', DomNode ''messages'' [] [DomNode ''message'' [(''msgtype'', ''D'')]
         [sample_use ''group'' ''G'' [sample_use ''field'' ''A'' [], sample_use ''component'' ''X'' []]]]),
      (component_path ''X'', DomNode ''component'' [] [sample_use ''component'' ''Y'' []]),
      (component_path ''Y'', DomNode ''component'' [] [sample_use ''field'' ''B'' []])]"

definition sample_dictionary :: "stop + data_dictionary" where
  "sample_dictionary = DataDictionary_read (\<lambda>_. Some sample_document) 9 ''FIX44.xml'' False"

text \<open>
  A required field of a component that is a required part of another component becomes a
  required field of the message, also where the outer component belongs to a group: the field
  is required although the message itself does not have it.
\<close>

lemma group_component_required_of_message:
  "case sample_dictionary of Inl _ \<Rightarrow> False | Inr d \<Rightarrow> isRequiredField ''D'' 3 d \<and> \<not> isMsgField ''D'' 3 d"
  unfolding sample_dictionary_def by code_simp

section \<open>Properties\<close>

text \<open>C11: a dictionary that was read is in order; its names are exactly those of the field elements
  of the fields section, each with the number given there; and every number it uses, in the
  header, the trailer, the messages, their required fields, and in the groups at any depth
  with their delimiters, is the number of such a name and has a type.\<close>

theorem dictionary_declares:
  assumes "DataDictionary_read load fuel url preserve = Inr d"
  shows "dd_wf d \<and>
    (\<exists>doc fields. load url = Some doc \<and> doc ''/fix/fields'' = Some fields \<and>
       (\<forall>name f. getFieldTag name d = Some f \<longleftrightarrow> declares (n_children fields) name f)) \<and>
    (\<forall>f\<in>set (numbers_used d). (\<exists>name. getFieldTag name d = Some f) \<and> getFieldType f d \<noteq> None)"
proof -
  let ?d = "dd_update (\<lambda>d. d\<lparr>m_storeMsgFieldsOrder := preserve\<rparr>) DataDictionary_new"
  have "fields_ok ?d" "m_names (dd ?d) = []"
    by (simp_all add: fields_ok_def dd_wf_def numbers_used_parts groups_numbers_def declared_def DataDictionary_new_def dd_update_def)
  note r = readFromDocument_gives [OF this]
  obtain doc where doc: "load url = Some doc" "readFromDocument fuel doc ?d = Inr d"
    using DataDictionary_read_document [OF assms] .
  then have d: "fields_ok d" "\<exists>fields. doc ''/fix/fields'' = Some fields \<and>
      (\<forall>name f. getFieldTag name d = Some f \<longleftrightarrow> declares (n_children fields) name f)"
    using r [of doc fuel] by (auto simp: gives_def)
  have "\<exists>name. getFieldTag name d = Some f" if "f \<in> declared d" for f
    using that d(1) by (force simp: declared_def getFieldTag_def fields_ok_def dd_wf_def map_sorted_def strict_sorted_iff)
  then show ?thesis using d doc(1) by (fastforce simp: fields_ok_def)
qed

theorem dictionary_declares_witness:
  "\<exists>d. sample_dictionary = Inr d \<and> getFieldTag ''B'' d = Some 3 \<and> 3 \<in> set (numbers_used d) \<and> getFieldType 3 d \<noteq> None"
proof -
  have "case sample_dictionary of Inl _ \<Rightarrow> False | Inr d \<Rightarrow> getFieldTag ''B'' d = Some 3 \<and> 3 \<in> set (numbers_used d)"
    unfolding sample_dictionary_def by code_simp
  then obtain d where "sample_dictionary = Inr d" "getFieldTag ''B'' d = Some 3" "3 \<in> set (numbers_used d)"
    by (auto split: sum.splits)
  then show ?thesis using dictionary_declares [of "\<lambda>_. Some sample_document" 9 "''FIX44.xml''" False d]
    by (auto simp: sample_dictionary_def)
qed

text \<open>C16: reading a dictionary ends when its components do not refer to each other in a circle: then there
  is a depth of nesting that is enough for the whole document, and with it and any larger one
  reading returns a dictionary or throws. (A component that refers to itself is never read to
  its end.)\<close>

theorem dictionary_reading_ends:
  assumes "\<And>doc. load url = Some doc \<Longrightarrow> ranked rank doc"
  shows "\<exists>n. \<forall>fuel\<ge>n. \<forall>preserve. DataDictionary_read load fuel url preserve \<noteq> Inl NoFuel"
proof (cases "load url")
  case None
  then show ?thesis by (simp add: DataDictionary_read_def readFromURL_def config_error_def)
next
  case (Some doc)
  then obtain n where "\<forall>m\<ge>n. \<forall>d. ends (readFromDocument m doc d)" using readFromDocument_ends assms by blast
  then have "\<forall>fuel\<ge>n. \<forall>preserve. DataDictionary_read load fuel url preserve \<noteq> Inl NoFuel"
    by (auto simp: DataDictionary_read_def readFromURL_def config_error_def Some ends_def split: sum.splits stop.splits exn.splits)
  then show ?thesis by blast
qed

lemma sample_ranked: "ranked (\<lambda>name. if name = ''X'' then 1 else 0) sample_document"
  by (auto simp: ranked_def sample_document_def component_path_def sample_use_def sample_field_def split: if_splits)

theorem dictionary_reading_ends_witness:
  "\<exists>n. \<forall>fuel\<ge>n. DataDictionary_read (\<lambda>_. Some sample_document) fuel ''FIX44.xml'' False \<noteq> Inl NoFuel"
  using dictionary_reading_ends [of "\<lambda>_. Some sample_document" "''FIX44.xml''"] sample_ranked by blast

end
