(* ===== verification/SessionFactories.thy ===== *)
theory SessionFactories
  imports SessionInvariants Settings DictionaryReaders
begin

text \<open>
  \<open>SessionFactory\<close>: what a section of the settings makes of a session. The dictionaries it
  reads are kept under their paths. The registry of sessions and the environment of the
  outside are those the factory works on; when a session was created they go on in it. The
  store of a session is the memory store, so that destroying a store or a log has no effect. Where
  C++ leaves the order of evaluating arguments open, the model evaluates them from left to right.
\<close>

section \<open>Reading the settings\<close>

text \<open>What the constructor of the factory is given, and the dictionaries it has read.\<close>

record 'e factory =
  f_outside :: "'e outside"
  f_logged :: bool
  f_dictionaries :: "(string \<times> data_dictionary) list"
  f_registry :: "nat session_registry"
  f_environment :: 'e

definition SessionFactory :: "'e outside \<Rightarrow> bool \<Rightarrow> nat session_registry \<Rightarrow> 'e \<Rightarrow> 'e factory" where
  "SessionFactory out logged registry e =
     \<lparr>f_outside = out, f_logged = logged, f_dictionaries = [], f_registry = registry, f_environment = e\<rparr>"

text \<open>\<open>if (settings.has(key)) a(settings.get...(key))\<close>\<close>

definition if_has :: "string \<Rightarrow> (string \<Rightarrow> settings_dictionary \<Rightarrow> 'v result) \<Rightarrow> ('v \<Rightarrow> 'w \<Rightarrow> 'w) \<Rightarrow> settings_dictionary \<Rightarrow> 'w \<Rightarrow> 'w result" where
  "if_has key get a d w = (if dict_has key d then rbind (get key d) (\<lambda>v. Inr (a v w)) else Inr w)"

fun in_order :: "('w \<Rightarrow> 'w result) list \<Rightarrow> 'w \<Rightarrow> 'w result" where
  "in_order [] w = Inr w"
| "in_order (f # fs) w = rbind (f w) (in_order fs)"

definition bool_setting :: "string \<Rightarrow> settings_dictionary \<Rightarrow> bool \<Rightarrow> bool result" where
  "bool_setting key = if_has key dict_getBool (\<lambda>v _. v)"

definition connection_type :: "session_id \<Rightarrow> settings_dictionary \<Rightarrow> string result" where
  "connection_type i d =
     rbind (dict_getString ''ConnectionType'' False d) (\<lambda>connectionType.
     rbind (throw_if (connectionType \<noteq> ''acceptor'' \<and> connectionType \<noteq> ''initiator'') (ConfigError ''Invalid ConnectionType'')) (\<lambda>_.
     rbind (throw_if (connectionType = ''acceptor'' \<and> dict_has ''SessionQualifier'' d)
              (ConfigError ''SessionQualifier cannot be used with acceptor.'')) (\<lambda>_. Inr connectionType)))"

definition default_version :: "session_id \<Rightarrow> settings_dictionary \<Rightarrow> string result" where
  "default_version i d =
     (if id_isFIXT i
      then rbind (throw_if (\<not> dict_has ''DefaultApplVerID'' d) (ConfigError ''ApplVerID is required for FIXT transport'')) (\<lambda>_.
           rbind (dict_getString ''DefaultApplVerID'' False d) (\<lambda>v. Inr (toApplVerID v)))
      else Inr [])"

section \<open>Dictionaries\<close>

text \<open>A step that may read a dictionary keeps what it has read, also when it throws.\<close>

type_synonym 'a loading = "(string \<times> data_dictionary) list \<Rightarrow> (stop + 'a) \<times> (string \<times> data_dictionary) list"

definition lreturn :: "'a result \<Rightarrow> 'a loading" where
  "lreturn r m = (case r of Inl e \<Rightarrow> Inl (Thrown e) | Inr a \<Rightarrow> Inr a, m)"

definition lbind :: "'a loading \<Rightarrow> ('a \<Rightarrow> 'b loading) \<Rightarrow> 'b loading" where
  "lbind l k m = (case l m of (Inl s, m') \<Rightarrow> (Inl s, m') | (Inr a, m') \<Rightarrow> k a m')"

definition read_dictionary :: "(string \<Rightarrow> document option) \<Rightarrow> nat \<Rightarrow> settings_dictionary \<Rightarrow> string \<Rightarrow> data_dictionary loading" where
  "read_dictionary load fuel d path m =
     (case map_of m path of
        Some dictionary \<Rightarrow> (Inr dictionary, m)
      | None \<Rightarrow>
          lbind (lreturn (bool_setting ''PreserveMessageFieldsOrder'' d False)) (\<lambda>preserve m.
            case DataDictionary_read load fuel path preserve of
              Inl s \<Rightarrow> (Inl s, m)
            | Inr dictionary \<Rightarrow> (Inr dictionary, map_put path dictionary m)) m)"

definition validation_settings :: "settings_dictionary \<Rightarrow> dictionary \<Rightarrow> dictionary result" where
  "validation_settings d = in_order
     [if_has ''ValidateFieldsOutOfOrder'' dict_getBool (\<lambda>v x. x\<lparr>m_checkFieldsOutOfOrder := v\<rparr>) d,
      if_has ''ValidateFieldsHaveValues'' dict_getBool (\<lambda>v x. x\<lparr>m_checkFieldsHaveValues := v\<rparr>) d,
      if_has ''ValidateUserDefinedFields'' dict_getBool (\<lambda>v x. x\<lparr>m_checkUserDefinedFields := v\<rparr>) d,
      if_has ''AllowUnknownMsgFields'' dict_getBool (\<lambda>v x. x\<lparr>m_allowUnknownMessageFields := v\<rparr>) d]"

definition createDataDictionary :: "(string \<Rightarrow> document option) \<Rightarrow> nat \<Rightarrow> settings_dictionary \<Rightarrow> string \<Rightarrow> data_dictionary loading" where
  "createDataDictionary load fuel d settingsKey =
     lbind (lreturn (dict_getString settingsKey False d)) (\<lambda>path.
     lbind (read_dictionary load fuel d path) (\<lambda>dictionary.
       let copy = dd_copy dictionary
       in lreturn (rbind (validation_settings d (dd copy)) (\<lambda>x. Inr (DataDictionary x (dd_groups copy))))))"

definition APP_DATA_DICTIONARY :: string where "APP_DATA_DICTIONARY = ''AppDataDictionary''"

text \<open>One key of the settings; the others are passed over.\<close>

definition application_dictionary :: "(string \<Rightarrow> document option) \<Rightarrow> nat \<Rightarrow> settings_dictionary \<Rightarrow> string \<Rightarrow> dictionary_provider \<Rightarrow> dictionary_provider loading" where
  "application_dictionary load fuel d key provider =
     (if take (length APP_DATA_DICTIONARY) key \<noteq> string_toUpper APP_DATA_DICTIONARY then lreturn (Inr provider)
      else if key = string_toUpper APP_DATA_DICTIONARY
      then lbind (lreturn (dict_getString ''DefaultApplVerID'' False d)) (\<lambda>v.
           lbind (createDataDictionary load fuel d APP_DATA_DICTIONARY) (\<lambda>x.
             lreturn (Inr (addApplicationDataDictionary (toApplVerID v) x provider))))
      else if CHR ''.'' \<notin> set key
      then lreturn (Inl (ConfigError (''Malformed '' @ APP_DATA_DICTIONARY @ '': '' @ key)))
      else lbind (createDataDictionary load fuel d key) (\<lambda>x.
             lreturn (Inr (addApplicationDataDictionary
               (toApplVerID (drop 1 (dropWhile (\<lambda>c. c \<noteq> CHR ''.'') key))) x provider))))"

fun application_dictionaries :: "(string \<Rightarrow> document option) \<Rightarrow> nat \<Rightarrow> settings_dictionary \<Rightarrow> string list \<Rightarrow> dictionary_provider \<Rightarrow> dictionary_provider loading" where
  "application_dictionaries load fuel d [] provider = lreturn (Inr provider)"
| "application_dictionaries load fuel d (key # keys) provider =
     lbind (application_dictionary load fuel d key provider) (application_dictionaries load fuel d keys)"

definition processFixtDataDictionaries :: "(string \<Rightarrow> document option) \<Rightarrow> nat \<Rightarrow> session_id \<Rightarrow> settings_dictionary \<Rightarrow> dictionary_provider \<Rightarrow> dictionary_provider loading" where
  "processFixtDataDictionaries load fuel i d provider =
     lbind (createDataDictionary load fuel d ''TransportDataDictionary'') (\<lambda>x.
       application_dictionaries load fuel d (map fst (d_data d)) (addTransportDataDictionary (id_beginString i) x provider))"

definition processFixDataDictionary :: "(string \<Rightarrow> document option) \<Rightarrow> nat \<Rightarrow> session_id \<Rightarrow> settings_dictionary \<Rightarrow> dictionary_provider \<Rightarrow> dictionary_provider loading" where
  "processFixDataDictionary load fuel i d provider =
     lbind (createDataDictionary load fuel d ''DataDictionary'') (\<lambda>x.
       lreturn (Inr (addApplicationDataDictionary (toApplVerID (id_beginString i)) x
                       (addTransportDataDictionary (id_beginString i) x provider))))"

definition has_default_dictionary :: "settings_dictionary \<Rightarrow> string \<Rightarrow> dictionary_provider \<Rightarrow> unit result" where
  "has_default_dictionary d version provider =
     (case getApplicationDataDictionary version provider of
        Inl (DataDictionaryNotFound _ _) \<Rightarrow>
          rbind (dict_getString ''DefaultApplVerID'' False d) (\<lambda>v.
            Inl (ConfigError (''DefaultApplVerID '' @ v @ '' has no configured '' @ APP_DATA_DICTIONARY)))
      | Inl e \<Rightarrow> Inl e
      | Inr _ \<Rightarrow> Inr ())"

definition session_provider :: "(string \<Rightarrow> document option) \<Rightarrow> nat \<Rightarrow> session_id \<Rightarrow> settings_dictionary \<Rightarrow> string \<Rightarrow> bool \<Rightarrow> dictionary_provider loading" where
  "session_provider load fuel i d version useDataDictionary =
     (let none = \<lparr>m_transportDictionaries = [], m_applicationDictionaries = []\<rparr>
      in if \<not> useDataDictionary then lreturn (Inr none)
         else if id_isFIXT i
         then lbind (processFixtDataDictionaries load fuel i d none) (\<lambda>provider.
              lbind (lreturn (has_default_dictionary d version provider)) (\<lambda>_. lreturn (Inr provider)))
         else processFixDataDictionary load fuel i d none)"

section \<open>Hours\<close>

definition midnight :: date_time where "midnight = setHMS 0 0 0 0 3 (DateTime 0 0)"

text \<open>What the handlers after a \<open>try\<close> make of what was thrown; \<open>a\<close> is what has been assigned by then.\<close>

definition config_caught :: "bool \<Rightarrow> 'a \<Rightarrow> exn \<Rightarrow> 'a result" where
  "config_caught swallowed a e =
     (case e of
        ConfigError _ \<Rightarrow> if swallowed then Inr a else Inl e
      | FieldConvertError _ \<Rightarrow> Inl (ConfigError (exn_what e))
      | _ \<Rightarrow> Inl e)"

text \<open>\<open>try { a = get(key1); b = get(key2); } catch ...\<close>\<close>

definition two_settings :: "(string \<Rightarrow> 'a result) \<Rightarrow> string \<Rightarrow> string \<Rightarrow> bool \<Rightarrow> 'a \<times> 'a \<Rightarrow> ('a \<times> 'a) result" where
  "two_settings get key1 key2 swallowed p =
     (case get key1 of
        Inl e \<Rightarrow> config_caught swallowed p e
      | Inr a \<Rightarrow> (case get key2 of Inl e \<Rightarrow> config_caught swallowed (a, snd p) e | Inr b \<Rightarrow> Inr (a, b)))"

definition one_setting :: "(string \<Rightarrow> 'a result) \<Rightarrow> string \<Rightarrow> 'a \<Rightarrow> 'a result" where
  "one_setting get key a = (case get key of Inl e \<Rightarrow> config_caught True a e | Inr b \<Rightarrow> Inr b)"

definition time_setting :: "settings_dictionary \<Rightarrow> string \<Rightarrow> date_time result" where
  "time_setting d key = rbind (dict_getString key False d) UtcTimeOnlyConvertor_from"

definition day_setting :: "settings_dictionary \<Rightarrow> string \<Rightarrow> int result" where
  "day_setting d key = dict_getDay key d"

definition whole_seconds :: "date_time \<Rightarrow> date_time" where
  "whole_seconds t = setHMS (getHour t) (getMinute t) (getSecond t) 0 3 (DateTime 0 0)"

definition range_of :: "bool \<Rightarrow> date_time \<Rightarrow> date_time \<Rightarrow> int \<Rightarrow> int \<Rightarrow> time_range" where
  "range_of useLocalTime startTime endTime startDay endDay =
     (if useLocalTime then TimeRange True (whole_seconds startTime) (whole_seconds endTime) startDay endDay
      else TimeRange False startTime endTime startDay endDay)"

record hours =
  h_useLocalTime :: bool
  h_isNonStopSession :: bool
  h_days :: "int \<times> int"
  h_times :: "date_time \<times> date_time"

definition h_range :: "hours \<Rightarrow> time_range" where
  "h_range h = range_of (h_useLocalTime h) (fst (h_times h)) (snd (h_times h)) (fst (h_days h)) (snd (h_days h))"

definition session_hours_of :: "settings_dictionary \<Rightarrow> hours result" where
  "session_hours_of d =
     rbind (bool_setting ''UseLocalTime'' d False) (\<lambda>useLocalTime.
     rbind (bool_setting ''NonStopSession'' d False) (\<lambda>isNonStopSession.
     rbind (two_settings (day_setting d) ''StartDay'' ''EndDay'' True (- 1, - 1)) (\<lambda>(startDay, endDay).
     rbind (two_settings (time_setting d) ''StartTime'' ''EndTime'' isNonStopSession (midnight, midnight)) (\<lambda>(startTime, endTime).
     rbind (throw_if (startDay \<ge> 0 \<and> endDay < 0) (ConfigError ''StartDay used without EndDay'')) (\<lambda>_.
     rbind (throw_if (endDay \<ge> 0 \<and> startDay < 0) (ConfigError ''EndDay used without StartDay'')) (\<lambda>_.
     rbind (throw_if (isNonStopSession \<and> (startDay \<ge> 0 \<or> endDay \<ge> 0 \<or> startTime \<noteq> midnight \<or> endTime \<noteq> midnight))
              (ConfigError ''NonStopSession used with StartTime/EndTime/StartDay/EndDay'')) (\<lambda>_.
       Inr \<lparr>h_useLocalTime = useLocalTime, h_isNonStopSession = isNonStopSession, h_days = (startDay, endDay),
            h_times = (startTime, endTime)\<rparr>)))))))"

definition heartbeat_of :: "string \<Rightarrow> settings_dictionary \<Rightarrow> int result" where
  "heartbeat_of connectionType d =
     (if connectionType = ''initiator''
      then rbind (dict_getInt ''HeartBtInt'' d) (\<lambda>n.
           rbind (throw_if (n \<le> 0) (ConfigError ''Heartbeat must be greater than zero'')) (\<lambda>_. Inr n))
      else Inr 0)"

definition logon_hours_of :: "hours \<Rightarrow> settings_dictionary \<Rightarrow> time_range result" where
  "logon_hours_of h d =
     rbind (two_settings (day_setting d) ''LogonDay'' ''LogoutDay'' True (h_days h)) (\<lambda>(logonDay, logoutDay).
     rbind (one_setting (time_setting d) ''LogonTime'' (fst (h_times h))) (\<lambda>logonTime.
     rbind (one_setting (time_setting d) ''LogoutTime'' (snd (h_times h))) (\<lambda>logoutTime.
     rbind (throw_if (\<not> isInRange (h_range h) logonTime logonDay)
              (ConfigError ''LogonTime must be between StartTime and EndTime'')) (\<lambda>_.
     rbind (throw_if (\<not> isInRange (h_range h) logoutTime logoutDay)
              (ConfigError ''LogoutTime must be between StartTime and EndTime'')) (\<lambda>_.
       Inr (range_of (h_useLocalTime h) logonTime logoutTime logonDay logoutDay))))))"

section \<open>Creating a session\<close>

definition Session_configure :: "settings_dictionary \<Rightarrow> bool \<Rightarrow> 'e session \<Rightarrow> 'e session result" where
  "Session_configure d isNonStopSession = in_order
     [if_has ''SendRedundantResendRequests'' dict_getBool setSendRedundantResendRequests d,
      if_has ''CheckCompID'' dict_getBool setCheckCompId d,
      if_has ''CheckLatency'' dict_getBool setCheckLatency d,
      if_has ''MaxLatency'' dict_getInt setMaxLatency d,
      if_has ''LogonTimeout'' dict_getInt setLogonTimeout d,
      if_has ''LogoutTimeout'' dict_getInt setLogoutTimeout d,
      if_has ''ResetOnLogon'' dict_getBool setResetOnLogon d,
      if_has ''ResetOnLogout'' dict_getBool setResetOnLogout d,
      if_has ''ResetOnDisconnect'' dict_getBool setResetOnDisconnect d,
      if_has ''RefreshOnLogon'' dict_getBool setRefreshOnLogon d,
      if_has ''MillisecondsInTimeStamp'' dict_getBool setMillisecondsInTimeStamp d,
      if_has ''TimestampPrecision'' dict_getInt setTimestampPrecision d,
      if_has ''PersistMessages'' dict_getBool setPersistMessages d,
      if_has ''ValidateLengthAndChecksum'' dict_getBool setValidateLengthAndChecksum d,
      if_has ''SendNextExpectedMsgSeqNum'' dict_getBool setSendNextExpectedMsgSeqNum d,
      \<lambda>w. Inr (if isNonStopSession then setIsNonStopSession isNonStopSession w else w),
      if_has ''AllowedRemoteAddresses'' (\<lambda>key d. dict_getString key False d)
        (\<lambda>v. setAllowedRemoteAddresses (string_split v (CHR '',''))) d,
      if_has ''CertificateAcceptedPeerName'' (\<lambda>key d. dict_getString key False d) setCertificateAcceptedPeerName d]"

text \<open>\<open>new Session\<close> at the address \<open>me\<close>: the clock is asked for the state and for the store.\<close>

definition Session_new :: "nat \<Rightarrow> session_id \<Rightarrow> dictionary_provider \<Rightarrow> time_range \<Rightarrow> int \<Rightarrow> 'e factory \<Rightarrow> (fault + unit) \<times> 'e session" where
  "Session_new me i provider sessionTimeRange heartBtInt f =
     (let (now, e1) = m_timestamper (f_outside f) (f_environment f);
          (created, e2) = m_timestamper (f_outside f) e1
      in Session_construct me
           (Session_members (f_outside f) i provider sessionTimeRange heartBtInt (f_logged f) False now created (f_registry f) e2))"

text \<open>
  The destructor: it takes the identifier of the session out of the registry, whichever session is
  registered under it. A session that cannot be configured is destroyed again.
\<close>

definition Session_destroy :: "'e session \<Rightarrow> nat session_registry \<Rightarrow> nat session_registry" where
  "Session_destroy w r = (if m_detached w then r else removeSession (m_sessionID w) r)"

definition configured_session :: "settings_dictionary \<Rightarrow> hours \<Rightarrow> string \<Rightarrow> 'e session \<Rightarrow> 'e session result" where
  "configured_session d h version w =
     rbind (logon_hours_of h d) (\<lambda>logonTimeRange.
       Session_configure d (h_isNonStopSession h) (setLogonTime logonTimeRange (setSenderDefaultApplVerID version w)))"

definition create_with :: "nat \<Rightarrow> session_id \<Rightarrow> settings_dictionary \<Rightarrow> string \<Rightarrow> dictionary_provider \<Rightarrow> hours \<Rightarrow> int \<Rightarrow> 'e factory \<Rightarrow> (stop + 'e session) \<times> 'e factory" where
  "create_with me i d version provider h heartBtInt f =
     (case Session_new me i provider (h_range h) heartBtInt f of
        (Inl s, w) \<Rightarrow>
          (Inl (case s of Threw e \<Rightarrow> Thrown e | OutOfFuel \<Rightarrow> NoFuel),
           f\<lparr>f_registry := s_registry w, f_environment := environment w\<rparr>)
      | (Inr _, w) \<Rightarrow>
          (case configured_session d h version w of
             Inl e \<Rightarrow> (Inl (Thrown e), f\<lparr>f_registry := Session_destroy w (s_registry w), f_environment := environment w\<rparr>)
           | Inr w' \<Rightarrow> (Inr w', f\<lparr>f_registry := s_registry w', f_environment := environment w'\<rparr>)))"

text \<open>What is done before there is a session.\<close>

definition create_settings :: "(string \<Rightarrow> document option) \<Rightarrow> nat \<Rightarrow> session_id \<Rightarrow> settings_dictionary \<Rightarrow> (string \<times> dictionary_provider \<times> hours \<times> int) loading" where
  "create_settings load fuel i d =
     lbind (lreturn (connection_type i d)) (\<lambda>connectionType.
     lbind (lreturn (bool_setting ''UseDataDictionary'' d True)) (\<lambda>useDataDictionary.
     lbind (lreturn (default_version i d)) (\<lambda>version.
     lbind (session_provider load fuel i d version useDataDictionary) (\<lambda>provider.
     lbind (lreturn (session_hours_of d)) (\<lambda>h.
     lbind (lreturn (heartbeat_of connectionType d)) (\<lambda>heartBtInt.
       lreturn (Inr (version, provider, h, heartBtInt))))))))"

definition SessionFactory_create :: "(string \<Rightarrow> document option) \<Rightarrow> nat \<Rightarrow> nat \<Rightarrow> session_id \<Rightarrow> settings_dictionary \<Rightarrow> 'e factory \<Rightarrow> (stop + 'e session) \<times> 'e factory" where
  "SessionFactory_create load fuel me i d f =
     (case create_settings load fuel i d (f_dictionaries f) of
        (Inl s, m) \<Rightarrow> (Inl s, f\<lparr>f_dictionaries := m\<rparr>)
      | (Inr (version, provider, h, heartBtInt), m) \<Rightarrow>
          create_with me i d version provider h heartBtInt (f\<lparr>f_dictionaries := m\<rparr>))"

section \<open>What a created session is\<close>

definition preserves :: "('w \<Rightarrow> bool) \<Rightarrow> ('w \<Rightarrow> 'w result) \<Rightarrow> bool" where
  "preserves P f \<longleftrightarrow> (\<forall>w w'. P w \<longrightarrow> f w = Inr w' \<longrightarrow> P w')"

lemma preserves_in_order: "preserves P (in_order [])" "preserves P f \<Longrightarrow> preserves P (in_order fs) \<Longrightarrow> preserves P (in_order (f # fs))"
  by (simp add: preserves_def) (unfold preserves_def in_order.simps rbind_Inr, blast)

lemma preserves_if_has: "(\<And>v w. P w \<Longrightarrow> P (a v w)) \<Longrightarrow> preserves P (if_has key get a d)"
  by (auto simp: preserves_def if_has_def rbind_Inr split: if_splits)

lemma preserves_update: "(\<And>w. P w \<Longrightarrow> P (a w)) \<Longrightarrow> preserves P (\<lambda>w. Inr (a w))"
  by (simp add: preserves_def)

lemma Session_configure_keeps:
  assumes "Session_configure d b w = Inr w'"
  shows "configured w w' \<and> m_senderDefaultApplVerID w' = m_senderDefaultApplVerID w \<and> m_logonTime w' = m_logonTime w"
proof -
  have "preserves (configured w) (Session_configure d b)"
    unfolding Session_configure_def
    by (rule preserves_in_order preserves_if_has preserves_update configured_setters | assumption
        | (split if_split, blast intro: configured_setters))+
  moreover have "preserves (\<lambda>v. m_senderDefaultApplVerID v = m_senderDefaultApplVerID w \<and> m_logonTime v = m_logonTime w)
      (Session_configure d b)"
    unfolding Session_configure_def
    by (intro preserves_in_order preserves_if_has preserves_update) (simp_all add: setter_defs)
  ultimately show ?thesis using assms configured_none [of w] unfolding preserves_def by blast
qed

definition made :: "'e session \<Rightarrow> 'e session \<Rightarrow> bool" where
  "made w w' \<longleftrightarrow> m_outside w' = m_outside w \<and> m_sessionID w' = m_sessionID w \<and> m_sessionTime w' = m_sessionTime w \<and>
     m_dataDictionaryProvider w' = m_dataDictionaryProvider w \<and> m_detached w' = m_detached w \<and>
     m_initiate (m_state w') = m_initiate (m_state w)"

lemma timestamp_value: obtains t e where "timestamp w = (Inr t, w\<lparr>environment := e\<rparr>)"
  by (simp add: timestamp_def outside_call_def split_beta)

definition construct_reset :: "('e, unit) op" where
  "construct_reset = sbind (sget m_detached) (\<lambda>detached.
     if detached then sreturn ()
     else sbind timestamp (\<lambda>t. sbind (sget (checkSessionTime t)) (\<lambda>b. swhen (\<not> b) (sbind timestamp state_reset))))"

lemma construct_reset_value:
  obtains s e where "construct_reset w = (Inr (), w\<lparr>environment := e, m_state := (m_state w)\<lparr>m_pStore := s\<rparr>\<rparr>)"
proof -
  note d = construct_reset_def sbind_def sget_def sreturn_def swhen_def prod.case sum.case
  obtain t e where t: "timestamp w = (Inr t, w\<lparr>environment := e\<rparr>)" using timestamp_value .
  obtain u e' where u: "timestamp (w\<lparr>environment := e\<rparr>) = (Inr u, w\<lparr>environment := e\<rparr>\<lparr>environment := e'\<rparr>)"
    using timestamp_value .
  consider "m_detached w" | "\<not> m_detached w" "checkSessionTime t (w\<lparr>environment := e\<rparr>)"
    | "\<not> m_detached w" "\<not> checkSessionTime t (w\<lparr>environment := e\<rparr>)" by blast
  then show ?thesis
  proof cases
    case 1
    have "construct_reset w = (Inr (), w\<lparr>environment := environment w, m_state := (m_state w)\<lparr>m_pStore := m_pStore (m_state w)\<rparr>\<rparr>)"
      using 1 by (simp add: d)
    then show ?thesis by (rule that)
  next
    case 2
    have "construct_reset w = (Inr (), w\<lparr>environment := e, m_state := (m_state w)\<lparr>m_pStore := m_pStore (m_state w)\<rparr>\<rparr>)"
      using 2 t by (simp add: d)
    then show ?thesis by (rule that)
  next
    case 3
    have "construct_reset w = (Inr (), w\<lparr>environment := e', m_state := (m_state w)\<lparr>m_pStore := ms_reset u (m_pStore (m_state w))\<rparr>\<rparr>)"
      using 3 t u by (simp add: d state_reset_def store_update_def state_update_def)
    then show ?thesis by (rule that)
  qed
qed

lemma onEvent_value: obtains c where "onEvent t w = (Inr (), w\<lparr>calls := c\<rparr>)"
proof -
  have "onEvent t w = (Inr (), w\<lparr>calls := (if m_pLog (m_state w) then calls w @ [LogEvent (redactLogonCredentials t)] else calls w)\<rparr>)"
    by (simp add: onEvent_def log_call_def sbind_def state_get_def sget_def swhen_def sreturn_def outside_call_def)
  then show ?thesis by (rule that)
qed

lemma onCreate_value: obtains r e where "onCreate w = (r, w\<lparr>environment := e, calls := calls w @ [OnCreate]\<rparr>)" "r \<noteq> Inl OutOfFuel"
proof -
  obtain r e where "app_onCreate (m_outside w) (environment w) = (r, e)" by force
  then have "onCreate w = (case r of Inl x \<Rightarrow> Inl (Threw x) | Inr a \<Rightarrow> Inr a, w\<lparr>environment := e, calls := calls w @ [OnCreate]\<rparr>)"
    by (simp add: onCreate_def outside_call_def)
  then show ?thesis by (rule that) (simp split: sum.split)
qed

lemma construct_announce:
  obtains c e r where "steps [onCreate, onEvent ''Created session''] w = (r, w\<lparr>environment := e, calls := c\<rparr>)"
    "r \<noteq> Inl OutOfFuel"
proof -
  obtain r e where c: "onCreate w = (r, w\<lparr>environment := e, calls := calls w @ [OnCreate]\<rparr>)" "r \<noteq> Inl OutOfFuel"
    using onCreate_value .
  let ?w = "w\<lparr>environment := e, calls := calls w @ [OnCreate]\<rparr>"
  obtain c' where e: "onEvent ''Created session'' ?w = (Inr (), ?w\<lparr>calls := c'\<rparr>)" using onEvent_value .
  show ?thesis
  proof (cases r)
    case (Inl x)
    have "steps [onCreate, onEvent ''Created session''] w = (Inl x, ?w)" using c Inl by (simp add: sbind_def)
    then show ?thesis by (rule that) (use c Inl in simp)
  next
    case (Inr x)
    have "steps [onCreate, onEvent ''Created session''] w = (Inr (), ?w\<lparr>calls := c'\<rparr>)" using c Inr e by (simp add: sbind_def sreturn_def)
    then show ?thesis by (intro that [where r = "Inr ()" and e = e and c = c']) simp_all
  qed
qed

text \<open>What the constructor does to the members and to the registry.\<close>

lemma Session_construct_value:
  assumes "\<not> m_detached w"
  shows "made w (snd (Session_construct me w)) \<and> fst (Session_construct me w) \<noteq> Inl OutOfFuel \<and>
    s_registry (snd (Session_construct me w)) =
      (let (registered, r) = addSession (m_sessionID w) me (s_registry w)
       in if isl (fst (Session_construct me w)) \<and> registered then removeSession (m_sessionID w) r else r)"
proof -
  obtain s e where r: "construct_reset w = (Inr (), w\<lparr>environment := e, m_state := (m_state w)\<lparr>m_pStore := s\<rparr>\<rparr>)" (is "_ = (_, ?w)")
    using construct_reset_value .
  obtain registered g where a: "addSession (m_sessionID w) me (s_registry w) = (registered, g)" by force
  obtain c e' x where x: "steps [onCreate, onEvent ''Created session''] (?w\<lparr>s_registry := g\<rparr>) =
      (x, ?w\<lparr>s_registry := g\<rparr>\<lparr>environment := e', calls := c\<rparr>)" "x \<noteq> Inl OutOfFuel"
    using construct_announce .
  note d = sbind_def sget_def sreturn_def scatch_def sthrow_def swhen_def registry_update_def Let_def prod.case sum.case fault.case
  have c: "Session_construct me w = sthen construct_reset (sbind (sget m_detached) (\<lambda>detached.
      sbind (sget m_sessionID) (\<lambda>i.
        if detached then sreturn ()
        else sbind (registry_update (addSession i me)) (\<lambda>registered.
          scatch (steps [onCreate, onEvent ''Created session''])
            (\<lambda>e. sthen (swhen registered (registry_update (\<lambda>r. ((), removeSession i r)))) (sthrow e)))))) w"
    by (simp only: Session_construct_def construct_reset_def)
  consider u where "x = Inr u" | e where "x = Inl (Threw e)" using x(2) by (metis fault.exhaust sumE)
  then show ?thesis
  proof cases
    case 1
    have "Session_construct me w = (Inr u, ?w\<lparr>s_registry := g\<rparr>\<lparr>environment := e', calls := c\<rparr>)"
      using assms r a x 1 unfolding c by (simp add: d del: steps.simps)
    then show ?thesis using a by (simp add: made_def)
  next
    case 2
    have "Session_construct me w = (Inl (Threw e), ?w\<lparr>s_registry := (if registered then removeSession (m_sessionID w) g else g),
        environment := e', calls := c\<rparr>)"
      using assms r a x 2 unfolding c by (simp add: d del: steps.simps)
    then show ?thesis using a by (simp add: made_def)
  qed
qed

text \<open>What precedes the construction.\<close>

lemma lbind_Inr: "lbind l k m = (Inr b, m') \<longleftrightarrow> (\<exists>a m1. l m = (Inr a, m1) \<and> k a m1 = (Inr b, m'))"
  by (auto simp: lbind_def split: prod.split sum.split)

lemma lreturn_Inr: "lreturn r m = (Inr a, m') \<longleftrightarrow> r = Inr a \<and> m' = m"
  by (auto simp: lreturn_def split: sum.split)

lemma throw_if_Inr: "throw_if b e = Inr u \<longleftrightarrow> \<not> b"
  by (auto simp: throw_if_def)

lemma create_settings_value:
  assumes "create_settings load fuel i d m = (Inr (version, provider, h, n), m')"
  obtains t b m1 where "connection_type i d = Inr t" "default_version i d = Inr version"
    "session_provider load fuel i d version b m1 = (Inr provider, m')" "session_hours_of d = Inr h" "heartbeat_of t d = Inr n"
  using assms by (auto simp: create_settings_def lbind_Inr lreturn_Inr)

lemma heartbeat_initiates:
  assumes "connection_type i d = Inr t" "heartbeat_of t d = Inr n"
  shows "n \<noteq> 0 \<longleftrightarrow> dict_getString ''ConnectionType'' False d = Inr ''initiator''"
  using assms by (auto simp: connection_type_def heartbeat_of_def rbind_Inr throw_if_Inr split: if_splits)

lemma session_provider_default:
  assumes "session_provider load fuel i d version b m = (Inr provider, m')" "id_isFIXT i"
  shows "\<not> isl (getApplicationDataDictionary version provider)"
proof (cases b)
  case True
  then show ?thesis
    using assms by (auto simp: session_provider_def Let_def lbind_Inr lreturn_Inr has_default_dictionary_def rbind_def
        split: sum.splits exn.splits)
next
  case False
  then show ?thesis using assms by (auto simp: session_provider_def lreturn_Inr getApplicationDataDictionary_def)
qed

lemma logon_hours_inside:
  assumes "logon_hours_of h d = Inr r" "\<not> h_useLocalTime h"
  shows "isInRange (h_range h) (m_startTime r) (m_startDay r)" "isInRange (h_range h) (m_endTime r) (m_endDay r)"
  using assms by (auto simp: logon_hours_of_def rbind_Inr throw_if_Inr range_of_def TimeRange_def split: prod.splits if_splits)

lemma h_range_local: "m_useLocalTime (h_range h) = h_useLocalTime h"
  by (simp add: h_range_def range_of_def TimeRange_def)

lemma configured_trans: "configured x y \<Longrightarrow> configured y z \<Longrightarrow> configured x z"
proof (rotate_tac, induction rule: configured.induct)
  case (configured_set v v' hours s b i names)
  then show ?case by (intro configured.configured_set [of x v v' hours s b i names])
qed

lemma create_with_value:
  assumes "create_with me i d version provider h n f = (Inr w, f')"
  shows "\<exists>w0 now created e. w0 = Session_members (f_outside f) i provider (h_range h) n (f_logged f) False now created (f_registry f) e \<and>
      session_reachable w0 w \<and> m_initiate (m_state w) = (n \<noteq> 0)"
    and "m_senderDefaultApplVerID w = version" "m_dataDictionaryProvider w = provider" "m_sessionTime w = h_range h"
    "logon_hours_of h d = Inr (m_logonTime w)" "f_registry f' = snd (addSession i me (f_registry f))"
    "s_registry w = f_registry f'" "m_sessionID w = i" "\<not> m_detached w" "m_outside w = f_outside f"
proof -
  obtain now e1 created e2 where e: "m_timestamper (f_outside f) (f_environment f) = (now, e1)"
    "m_timestamper (f_outside f) e1 = (created, e2)" by (metis surj_pair)
  define w0 where "w0 = Session_members (f_outside f) i provider (h_range h) n (f_logged f) False now created (f_registry f) e2"
  have n: "Session_new me i provider (h_range h) n f = Session_construct me w0" by (simp add: Session_new_def e w0_def)
  obtain u v where v: "Session_construct me w0 = (Inr u, v)" "configured_session d h version v = Inr w" "f' = f\<lparr>f_registry := s_registry w, f_environment := environment w\<rparr>"
    using assms by (auto simp: create_with_def n split: prod.splits sum.splits)
  obtain r where r: "logon_hours_of h d = Inr r"
      "Session_configure d (h_isNonStopSession h) (setLogonTime r (setSenderDefaultApplVerID version v)) = Inr w"
    using v(2) by (auto simp: configured_session_def rbind_Inr)
  note k = Session_configure_keeps [OF r(2)]
  have c: "configured v w" by (rule configured_trans [OF configured_setters(1) [OF configured_setters(2) [OF configured_none]]]) (use k in blast)
  note kept = configured_keeps [OF c]
  have w0: "\<not> m_detached w0" "m_sessionTime w0 = h_range h" "m_dataDictionaryProvider w0 = provider" "m_initiate (m_state w0) = (n \<noteq> 0)"
    "m_sessionID w0 = i" "s_registry w0 = f_registry f" "m_outside w0 = f_outside f"
    by (simp_all add: w0_def Session_members_def)
  have m: "made w0 v" "s_registry v = snd (addSession i me (f_registry f))"
    using Session_construct_value [OF w0(1), of me] v(1) w0 by (auto simp: Let_def split_beta)
  have "session_reachable w0 w" using reachable_constructed [of me w0 w] v(1) c by simp
  then show "\<exists>w0 now created e. w0 = Session_members (f_outside f) i provider (h_range h) n (f_logged f) False now created (f_registry f) e \<and>
      session_reachable w0 w \<and> m_initiate (m_state w) = (n \<noteq> 0)"
    using m(1) kept w0(4) unfolding w0_def made_def by metis
  show "m_senderDefaultApplVerID w = version" "logon_hours_of h d = Inr (m_logonTime w)"
    using k r(1) by (simp_all add: setter_defs)
  show "m_dataDictionaryProvider w = provider" "m_sessionTime w = h_range h" "f_registry f' = snd (addSession i me (f_registry f))"
    "s_registry w = f_registry f'" "m_sessionID w = i" "\<not> m_detached w" "m_outside w = f_outside f"
    using kept m w0 v(3) by (simp_all add: made_def)
qed

text \<open>
  A session the engine can have, in the outside \<open>out\<close>: one that can be reached from what the
  constructor starts with. A FIXT session has a dictionary for the messages of its default version
  (the empty one when no application dictionary is configured), and the hours in which it logs on
  begin and end inside its session hours.
\<close>

definition engine_session :: "'e outside \<Rightarrow> bool \<Rightarrow> 'e session \<Rightarrow> bool" where
  "engine_session out logged w \<longleftrightarrow>
     (\<exists>provider r n now created registry e. session_reachable
        (Session_members out (m_sessionID w) provider r n logged False now created registry e) w) \<and>
     (id_isFIXT (m_sessionID w) \<longrightarrow>
        \<not> isl (getApplicationDataDictionary (m_senderDefaultApplVerID w) (m_dataDictionaryProvider w))) \<and>
     (\<not> m_useLocalTime (m_sessionTime w) \<longrightarrow>
        isInRange (m_sessionTime w) (m_startTime (m_logonTime w)) (m_startDay (m_logonTime w)) \<and>
        isInRange (m_sessionTime w) (m_endTime (m_logonTime w)) (m_endDay (m_logonTime w)))"

lemma created_session_facts:
  assumes "SessionFactory_create load fuel me i d f = (Inr w, f')"
  shows "engine_session (f_outside f) (f_logged f) w \<and>
    (m_initiate (m_state w) \<longleftrightarrow> dict_getString ''ConnectionType'' False d = Inr ''initiator'') \<and>
    f_registry f' = snd (addSession i me (f_registry f)) \<and> s_registry w = f_registry f' \<and>
    m_sessionID w = i \<and> \<not> m_detached w"
proof -
  obtain version provider h n m' where s: "create_settings load fuel i d (f_dictionaries f) = (Inr (version, provider, h, n), m')"
    and c: "create_with me i d version provider h n (f\<lparr>f_dictionaries := m'\<rparr>) = (Inr w, f')"
    using assms by (auto simp: SessionFactory_create_def split: prod.splits sum.splits)
  note w = create_with_value [OF c, simplified]
  obtain t b m1 where t: "connection_type i d = Inr t" "session_provider load fuel i d version b m1 = (Inr provider, m')"
      "heartbeat_of t d = Inr n"
    using create_settings_value [OF s] by metis
  have "\<exists>provider r n now created registry e. session_reachable
      (Session_members (f_outside f) (m_sessionID w) provider r n (f_logged f) False now created registry e) w"
    using w(1,8) by blast
  then have "engine_session (f_outside f) (f_logged f) w"
    using w session_provider_default [OF t(2)] logon_hours_inside [OF w(5)] h_range_local [of h] by (simp add: engine_session_def)
  then show ?thesis using w heartbeat_initiates [OF t(1,3)] by blast
qed

text \<open>A session that could not be created leaves no trace in the registry.\<close>

lemma map_erase_absent: "map_of m k = None \<Longrightarrow> map_erase k m = m"
  by (induction m) (auto simp: map_erase_def split: if_splits)

lemma map_erase_put: "map_of m k = None \<Longrightarrow> map_erase k (map_put k v m) = m"
proof (induction k v m rule: map_put.induct)
  case (2 k v k' v' gs)
  then have "k \<noteq> k'" "map_of gs k = None" by (auto split: if_splits)
  then show ?case using 2 map_erase_absent [of gs k] by (auto simp: map_erase_def)
qed (simp add: map_erase_def)

lemma remove_added:
  assumes "registry_inv r" "\<not> doesSessionExist i r"
  shows "removeSession i (snd (addSession i p r)) = r" "fst (addSession i p r)"
proof -
  have n: "map_of (s_sessions r) (id_text i) = None" "map_of (s_sessionIDs r) (id_text i) = None"
    using assms by (auto simp: registry_inv_def doesSessionExist_def)
  have "map_of (s_registered r) (id_text i) = None"
    using assms n by (cases "map_of (s_registered r) (id_text i)") (auto simp: registry_inv_def)
  then have "map_erase (id_text i) (s_registered r) = s_registered r"
    by (rule map_erase_absent)
  then show "removeSession i (snd (addSession i p r)) = r" "fst (addSession i p r)"
    using n by (simp_all add: addSession_def removeSession_def map_erase_put)
qed

lemma Session_new_value:
  obtains w0 where "Session_new me i provider r n f = Session_construct me w0" "\<not> m_detached w0" "m_sessionID w0 = i"
    "s_registry w0 = f_registry f"
  using that by (simp add: Session_new_def split_beta Session_members_def)

lemma creation_failure_clean:
  assumes "SessionFactory_create load fuel me i d f = (Inl s, f')"
    and "registry_inv (f_registry f)" "\<not> doesSessionExist i (f_registry f)"
  shows "f_registry f' = f_registry f"
proof (cases "create_settings load fuel i d (f_dictionaries f)")
  case (Pair x m)
  show ?thesis
  proof (cases x)
    case (Inl _)
    then show ?thesis using assms(1) Pair by (auto simp: SessionFactory_create_def)
  next
    case (Inr y)
    obtain version provider h n where y: "y = (version, provider, h, n)" by (cases y)
    let ?f = "f\<lparr>f_dictionaries := m\<rparr>"
    obtain w0 where w0: "Session_new me i provider (h_range h) n ?f = Session_construct me w0" "\<not> m_detached w0" "m_sessionID w0 = i"
      "s_registry w0 = f_registry f" using Session_new_value [of me i provider "h_range h" n ?f] by auto
    obtain u w where u: "Session_construct me w0 = (u, w)" by force
    have w: "m_detached w = m_detached w0" "m_sessionID w = i"
      "s_registry w = (if isl u then f_registry f else snd (addSession i me (f_registry f)))"
      using Session_construct_value [OF w0(2), of me] u w0(3,4) remove_added [OF assms(2,3), of me]
      by (auto simp: made_def Let_def split_beta)
    show ?thesis
      using assms(1) Pair Inr y u w w0 remove_added(1) [OF assms(2,3)]
      by (auto simp: SessionFactory_create_def create_with_def Session_destroy_def split: sum.splits)
  qed
qed

section \<open>The created session\<close>

text \<open>
  A session that the factory creates from settings is one the engine can have, so that every
  invariant of sessions holds for it. It initiates exactly when its connection type says so, and
  its identifier is in the registry.
\<close>

theorem created_session_sound:
  assumes "SessionFactory_create load fuel me i d f = (Inr w, f')"
  shows "engine_session (f_outside f) (f_logged f) w \<and>
    (m_initiate (m_state w) \<longleftrightarrow> dict_getString ''ConnectionType'' False d = Inr ''initiator'') \<and>
    f_registry f' = snd (addSession i me (f_registry f)) \<and> s_registry w = f_registry f'"
  using created_session_facts [OF assms] by blast

text \<open>The settings of an initiator that is not a FIXT session.\<close>

definition sample_factory :: "nat factory" where
  "sample_factory = SessionFactory sample_outside True registry_empty 0"

definition sample_section :: settings_dictionary where
  "sample_section = (Dictionary ''SESSION'')\<lparr>d_data :=
     [(''BEGINSTRING'', ''FIX.4.2''), (''CHECKCOMPID'', ''N''), (''CONNECTIONTYPE'', ''initiator''), (''ENDTIME'', ''17:00:00''),
      (''HEARTBTINT'', ''30''), (''LOGONTIME'', ''09:00:00''), (''SENDERCOMPID'', ''ME''), (''STARTTIME'', ''08:00:00''),
      (''TARGETCOMPID'', ''YOU''), (''USEDATADICTIONARY'', ''N'')]\<rparr>"

definition sample_hours :: hours where
  "sample_hours = \<lparr>h_useLocalTime = False, h_isNonStopSession = False, h_days = (- 1, - 1),
     h_times = (DateTime 0 28800000000000, DateTime 0 61200000000000)\<rparr>"

definition sample_name :: session_id where "sample_name = SessionID ''FIX.4.2'' ''ME'' ''YOU'' []"

lemma sample_parts:
  "connection_type sample_name sample_section = Inr ''initiator''"
  "bool_setting ''UseDataDictionary'' sample_section True = Inr False"
  "default_version sample_name sample_section = Inr []"
  "session_hours_of sample_section = Inr sample_hours"
  "\<not> isl (logon_hours_of sample_hours sample_section)"
  "dict_getString ''ConnectionType'' False sample_section = Inr ''initiator''"
  by code_simp+

lemma sample_heartbeat: "heartbeat_of ''initiator'' sample_section = Inr 30"
proof -
  have "IntConvertor_from ''30'' = Some 30" unfolding IntConvertor_from_spec by code_simp
  moreover have "dict_getString ''HeartBtInt'' False sample_section = Inr ''30''" by code_simp
  ultimately show ?thesis by (simp add: heartbeat_of_def dict_getInt_def dict_get_def throw_if_def)
qed

lemma sample_settings_read:
  "create_settings (\<lambda>_. None) 0 sample_name sample_section m =
     (Inr ([], \<lparr>m_transportDictionaries = [], m_applicationDictionaries = []\<rparr>, sample_hours, 30), m)"
  by (simp add: sample_heartbeat create_settings_def lbind_def lreturn_def sample_parts session_provider_def)

lemma sample_keys:
  "dict_has ''CheckCompID'' sample_section" "dict_getBool ''CheckCompID'' sample_section = Inr False"
  "list_all (\<lambda>key. \<not> dict_has key sample_section) [''SendRedundantResendRequests'', ''CheckLatency'', ''MaxLatency'', ''LogonTimeout'',
     ''LogoutTimeout'', ''ResetOnLogon'', ''ResetOnLogout'', ''ResetOnDisconnect'', ''RefreshOnLogon'', ''MillisecondsInTimeStamp'',
     ''TimestampPrecision'', ''PersistMessages'', ''ValidateLengthAndChecksum'', ''SendNextExpectedMsgSeqNum'',
     ''AllowedRemoteAddresses'', ''CertificateAcceptedPeerName'']"
  by code_simp+

lemma sample_configured: "\<not> isl (configured_session sample_section sample_hours [] w)"
  using sample_keys(3) sample_parts(5)
  by (cases "logon_hours_of sample_hours sample_section")
    (simp_all add: configured_session_def sample_hours_def Session_configure_def if_has_def sample_keys(1,2))

definition sample_created :: "(stop + nat session) \<times> nat factory" where
  "sample_created = SessionFactory_create (\<lambda>_. None) 0 1 sample_name sample_section sample_factory"

lemma sample_created_value: "\<not> isl (fst sample_created)"
proof -
  have f: "f_dictionaries sample_factory = []" "sample_factory\<lparr>f_dictionaries := []\<rparr> = sample_factory"
    by (simp_all add: sample_factory_def SessionFactory_def)
  let ?new = "Session_new 1 sample_name \<lparr>m_transportDictionaries = [], m_applicationDictionaries = []\<rparr> (h_range sample_hours) 30
      sample_factory"
  have "\<not> isl (fst ?new)" by code_simp
  then obtain w where "?new = (Inr (), w)" by (cases ?new; cases "fst ?new") auto
  then show ?thesis
    using sample_configured [of w]
    by (cases "configured_session sample_section sample_hours [] w")
      (simp_all add: sample_created_def SessionFactory_create_def sample_settings_read f create_with_def)
qed

theorem created_session_sound_witness: "m_initiate (m_state (projr (fst sample_created)))"
proof -
  have "SessionFactory_create (\<lambda>_. None) 0 1 sample_name sample_section sample_factory =
      (Inr (projr (fst sample_created)), snd sample_created)"
    using sample_created_value by (cases "fst sample_created") (simp_all add: sample_created_def prod_eq_iff)
  then show ?thesis using created_session_sound sample_parts(6) by metis
qed

end
