(* ===== verification/Connectors.thy ===== *)
theory Connectors
  imports SessionFactories
begin

text \<open>
  \<open>Initiator\<close> and \<open>Acceptor\<close>, as far as they are not sockets and threads: the sessions they
  create from the settings, all of them or none, and which of its sessions an
  initiator has connected. A session is kept with its address; the addresses are given out
  from \<open>me\<close> on. The registry and the environment are shared, those of the factory are
  the current ones. Starting, polling, stopping and connecting are not
  modelled. Sets and maps of session ids are kept under the texts of the ids, by which
  they are compared.
\<close>

record 'e connector =
  c_sessions :: "(string \<times> nat \<times> 'e session) list"
  c_sessionIDs :: "(string \<times> session_id) list"

record 'e initiator = "'e connector" +
  i_pending :: "(string \<times> session_id) list"
  i_connected :: "(string \<times> session_id) list"
  i_disconnected :: "(string \<times> session_id) list"

definition Initiator :: "'e initiator" where
  "Initiator = \<lparr>c_sessions = [], c_sessionIDs = [], i_pending = [], i_connected = [], i_disconnected = []\<rparr>"

definition Acceptor :: "'e connector" where
  "Acceptor = \<lparr>c_sessions = [], c_sessionIDs = []\<rparr>"

section \<open>The connections of an initiator\<close>

definition setPending :: "session_id \<Rightarrow> 'e initiator \<Rightarrow> 'e initiator" where
  "setPending i c = c\<lparr>i_pending := map_put (id_text i) i (i_pending c), i_connected := map_erase (id_text i) (i_connected c),
     i_disconnected := map_erase (id_text i) (i_disconnected c)\<rparr>"

definition setConnected :: "session_id \<Rightarrow> 'e initiator \<Rightarrow> 'e initiator" where
  "setConnected i c = c\<lparr>i_pending := map_erase (id_text i) (i_pending c), i_connected := map_put (id_text i) i (i_connected c),
     i_disconnected := map_erase (id_text i) (i_disconnected c)\<rparr>"

definition setDisconnected :: "session_id \<Rightarrow> 'e initiator \<Rightarrow> 'e initiator" where
  "setDisconnected i c = c\<lparr>i_pending := map_erase (id_text i) (i_pending c), i_connected := map_erase (id_text i) (i_connected c),
     i_disconnected := map_put (id_text i) i (i_disconnected c)\<rparr>"

definition isPending :: "session_id \<Rightarrow> 'e initiator \<Rightarrow> bool" where
  "isPending i c \<longleftrightarrow> map_of (i_pending c) (id_text i) \<noteq> None"

definition isConnected :: "session_id \<Rightarrow> 'e initiator \<Rightarrow> bool" where
  "isConnected i c \<longleftrightarrow> map_of (i_connected c) (id_text i) \<noteq> None"

definition isDisconnected :: "session_id \<Rightarrow> 'e initiator \<Rightarrow> bool" where
  "isDisconnected i c \<longleftrightarrow> map_of (i_disconnected c) (id_text i) \<noteq> None"

section \<open>Creating the sessions\<close>

definition c_has :: "session_id \<Rightarrow> ('e, 'z) connector_scheme \<Rightarrow> bool" where
  "c_has i c \<longleftrightarrow> map_of (c_sessions c) (id_text i) \<noteq> None"

definition c_getSession :: "session_id \<Rightarrow> ('e, 'z) connector_scheme \<Rightarrow> nat option" where
  "c_getSession i c = map_option fst (map_of (c_sessions c) (id_text i))"

definition c_getSessionSettings :: "session_id \<Rightarrow> session_settings \<Rightarrow> settings_dictionary option" where
  "c_getSessionSettings i settings = (case ss_get i settings of Inl _ \<Rightarrow> None | Inr d \<Rightarrow> Some d)"

text \<open>A session that was created is kept, unless there is one of this id, and then destroyed.\<close>

definition keep_session :: "session_id \<Rightarrow> nat \<Rightarrow> 'e session \<Rightarrow> ('e, 'z) connector_scheme \<Rightarrow> 'e factory \<Rightarrow> ('e, 'z) connector_scheme \<times> 'e factory" where
  "keep_session i me w c f =
     (let c' = c\<lparr>c_sessionIDs := map_put (id_text i) i (c_sessionIDs c)\<rparr>
      in if c_has i c then (c', f\<lparr>f_registry := Session_destroy w (f_registry f)\<rparr>)
         else (c'\<lparr>c_sessions := map_put (id_text i) (me, w) (c_sessions c)\<rparr>, f))"

fun initialize_loop :: "(string \<Rightarrow> document option) \<Rightarrow> nat \<Rightarrow> session_settings \<Rightarrow> string
    \<Rightarrow> (session_id \<Rightarrow> ('e, 'z) connector_scheme \<Rightarrow> ('e, 'z) connector_scheme) \<Rightarrow> session_id list \<Rightarrow> nat \<Rightarrow> ('e, 'z) connector_scheme \<Rightarrow> 'e factory
    \<Rightarrow> (stop + unit) \<times> ('e, 'z) connector_scheme \<times> 'e factory" where
  "initialize_loop load fuel settings wanted also_do [] me c f = (Inr (), c, f)"
| "initialize_loop load fuel settings wanted also_do (i # ids) me c f =
     (case rbind (ss_get i settings) (\<lambda>d. rbind (dict_getString ''ConnectionType'' False d) (\<lambda>t. Inr (d, t))) of
        Inl e \<Rightarrow> (Inl (Thrown e), c, f)
      | Inr (d, t) \<Rightarrow>
          if t = wanted
          then (case SessionFactory_create load fuel me i d f of
                  (Inl s, f') \<Rightarrow> (Inl s, c, f')
                | (Inr w, f') \<Rightarrow>
                    (let (c', f'') = keep_session i me w c f'
                     in initialize_loop load fuel settings wanted also_do ids (Suc me) (also_do i c') f''))
          else initialize_loop load fuel settings wanted also_do ids me c f)"

definition destroy_all :: "(string \<times> nat \<times> 'e session) list \<Rightarrow> 'e factory \<Rightarrow> 'e factory" where
  "destroy_all sessions f = f\<lparr>f_registry := fold (\<lambda>(_, _, w). Session_destroy w) sessions (f_registry f)\<rparr>"

definition initialize :: "(string \<Rightarrow> document option) \<Rightarrow> nat \<Rightarrow> session_settings \<Rightarrow> string
    \<Rightarrow> (session_id \<Rightarrow> ('e, 'z) connector_scheme \<Rightarrow> ('e, 'z) connector_scheme) \<Rightarrow> nat \<Rightarrow> ('e, 'z) connector_scheme \<Rightarrow> 'e factory
    \<Rightarrow> (stop + ('e, 'z) connector_scheme) \<times> 'e factory" where
  "initialize load fuel settings wanted also_do me c f =
     (if ss_getSessions settings = [] then (Inl (Thrown (ConfigError ''No sessions defined'')), f)
      else (case initialize_loop load fuel settings wanted also_do (ss_getSessions settings) me c f of
              (Inl s, c', f') \<Rightarrow> (Inl s, destroy_all (c_sessions c') f')
            | (Inr _, c', f') \<Rightarrow>
                if c_sessions c' = []
                then (Inl (Thrown (ConfigError (''No sessions defined for '' @ wanted))), destroy_all (c_sessions c') f')
                else (Inr c', f')))"

definition Initiator_initialize :: "(string \<Rightarrow> document option) \<Rightarrow> nat \<Rightarrow> session_settings \<Rightarrow> nat \<Rightarrow> 'e outside \<Rightarrow> bool \<Rightarrow> nat session_registry \<Rightarrow> 'e \<Rightarrow> (stop + 'e initiator) \<times> 'e factory" where
  "Initiator_initialize load fuel settings me out logged registry e =
     initialize load fuel settings ''initiator'' setDisconnected me Initiator (SessionFactory out logged registry e)"

definition Acceptor_initialize :: "(string \<Rightarrow> document option) \<Rightarrow> nat \<Rightarrow> session_settings \<Rightarrow> nat \<Rightarrow> 'e outside \<Rightarrow> bool \<Rightarrow> nat session_registry \<Rightarrow> 'e \<Rightarrow> (stop + 'e connector) \<times> 'e factory" where
  "Acceptor_initialize load fuel settings me out logged registry e =
     initialize load fuel settings ''acceptor'' (\<lambda>_ c. c) me Acceptor (SessionFactory out logged registry e)"

text \<open>The destructor of an initiator or acceptor.\<close>

definition c_destroy :: "('e, 'z) connector_scheme \<Rightarrow> 'e factory \<Rightarrow> 'e factory" where
  "c_destroy c f = destroy_all (c_sessions c) f"

section \<open>The registry\<close>

text \<open>The registry \<open>g\<close> is \<open>g0\<close> with the sessions of the connector.\<close>

definition owns :: "string \<Rightarrow> nat session_registry \<Rightarrow> ('e, 'z) connector_scheme \<Rightarrow> nat session_registry \<Rightarrow> bool" where
  "owns wanted g0 c g \<longleftrightarrow> registry_inv g \<and> map_sorted (c_sessions c) \<and> s_registered g = s_registered g0 \<and>
     (\<forall>k. map_of (s_sessions g) k = (case map_of (c_sessions c) k of Some (p, _) \<Rightarrow> Some p | None \<Rightarrow> map_of (s_sessions g0) k)) \<and>
     (\<forall>k. map_of (c_sessions c) k = None \<longrightarrow> map_of (s_sessionIDs g) k = map_of (s_sessionIDs g0) k) \<and>
     (\<forall>k p w. map_of (c_sessions c) k = Some (p, w) \<longrightarrow> k = id_text (m_sessionID w) \<and> \<not> m_detached w \<and>
        map_of (s_sessions g0) k = None \<and> (m_initiate (m_state w) \<longleftrightarrow> wanted = ''initiator''))"

lemma map_sorted_distinct: "map_sorted xs \<Longrightarrow> distinct (map fst xs)"
  by (simp add: map_sorted_def strict_sorted_iff)

lemma remove_many:
  assumes "\<forall>(k, p, w)\<in>set xs. k = id_text (m_sessionID w) \<and> \<not> m_detached w" "registry_inv g"
  shows "registry_inv (fold (\<lambda>(_, _, w). Session_destroy w) xs g) \<and>
    map_of (s_sessions (fold (\<lambda>(_, _, w). Session_destroy w) xs g)) k = (if k \<in> fst ` set xs then None else map_of (s_sessions g) k) \<and>
    map_of (s_sessionIDs (fold (\<lambda>(_, _, w). Session_destroy w) xs g)) k = (if k \<in> fst ` set xs then None else map_of (s_sessionIDs g) k) \<and>
    map_of (s_registered (fold (\<lambda>(_, _, w). Session_destroy w) xs g)) k = (if k \<in> fst ` set xs then None else map_of (s_registered g) k)"
  using assms
proof (induction xs arbitrary: g)
  case (Cons x xs)
  obtain p w where x: "x = (id_text (m_sessionID w), p, w)" "\<not> m_detached w" using Cons.prems(1) by (cases x) auto
  have d: "Session_destroy w g = removeSession (m_sessionID w) g" using x by (simp add: Session_destroy_def)
  have "registry_inv (removeSession (m_sessionID w) g)" using registry_inv_step [OF registry_step.intros(2) Cons.prems(2)] .
  then show ?case using Cons.IH [of "Session_destroy w g"] Cons.prems(1) x d by (auto simp: removeSession_def)
qed simp

lemma registry_eqI:
  assumes "registry_inv g" "registry_inv h" "map_of (s_sessions g) = map_of (s_sessions h)"
    "map_of (s_sessionIDs g) = map_of (s_sessionIDs h)" "map_of (s_registered g) = map_of (s_registered h)"
  shows "g = h"
  using assms map_sorted_ext [of "s_sessions g" "s_sessions h"] map_sorted_ext [of "s_sessionIDs g" "s_sessionIDs h"]
    map_sorted_ext [of "s_registered g" "s_registered h"]
  by (simp add: registry_inv_def)

lemma destroy_all_owned:
  assumes "owns wanted g0 c (f_registry f)" "registry_inv g0"
  shows "f_registry (destroy_all (c_sessions c) f) = g0"
proof -
  let ?g = "fold (\<lambda>(_, _, w). Session_destroy w) (c_sessions c) (f_registry f)"
  have c: "map_of (c_sessions c) k = Some (p, w)" if "(k, p, w) \<in> set (c_sessions c)" for k p w
    using that assms(1) map_sorted_distinct by (auto simp: owns_def intro!: map_of_is_SomeI)
  have e: "\<forall>(k, p, w)\<in>set (c_sessions c). k = id_text (m_sessionID w) \<and> \<not> m_detached w"
    using c assms(1) unfolding owns_def by fast
  have i: "registry_inv (f_registry f)" using assms(1) by (simp add: owns_def)
  note r = remove_many [OF e i]
  have n: "k \<in> fst ` set (c_sessions c) \<longleftrightarrow> map_of (c_sessions c) k \<noteq> None" for k by (auto simp: map_of_eq_None_iff)
  have s: "map_of (s_sessions ?g) k = map_of (s_sessions g0) k" for k
    using r [of k] assms(1) n [of k] by (cases "map_of (c_sessions c) k") (auto simp: owns_def)
  have new: "map_of (s_sessions g0) k = None" if "map_of (c_sessions c) k \<noteq> None" for k
    using that assms(1) by (auto simp: owns_def)
  have "map_of (s_sessionIDs ?g) k = map_of (s_sessionIDs g0) k" for k
    using r [of k] assms n [of k] new [of k] by (cases "map_of (c_sessions c) k") (auto simp: owns_def registry_inv_def)
  moreover have "map_of (s_registered ?g) k = map_of (s_registered g0) k" for k
  proof (cases "map_of (c_sessions c) k")
    case (Some a)
    then have "map_of (s_registered g0) k = None"
      using new [of k] assms(2) by (cases "map_of (s_registered g0) k") (auto simp: registry_inv_def)
    then show ?thesis using r [of k] assms(1) by (simp add: owns_def)
  next
    case None
    then show ?thesis using r [of k] assms(1) n [of k] by (simp add: owns_def)
  qed
  ultimately have "?g = g0" using r s by (intro registry_eqI assms(2)) (auto simp: fun_eq_iff)
  then show ?thesis by (simp add: destroy_all_def)
qed

section \<open>What initializing does\<close>

lemma owns_add:
  assumes o: "owns wanted g0 c (f_registry f)" "registry_inv g0" "map_of (s_sessions g0) (id_text i) = None" "\<not> c_has i c"
    and w: "m_sessionID w = i" "\<not> m_detached w" "m_initiate (m_state w) \<longleftrightarrow> wanted = ''initiator''"
    and g: "f_registry f' = snd (addSession i me (f_registry f))" and k: "keep_session i me w c f' = (c', f'')"
  shows "owns wanted g0 c' (f_registry f'')" "c_sessions c' = map_put (id_text i) (me, w) (c_sessions c)"
proof -
  have n: "map_of (s_sessions (f_registry f)) (id_text i) = None" using o by (cases "map_of (c_sessions c) (id_text i)") (auto simp: owns_def c_has_def)
  have so: "map_sorted (s_sessions (f_registry f))" "map_sorted (s_sessionIDs (f_registry f))"
    using o(1) by (simp_all add: owns_def registry_inv_def)
  have "registry_inv (f_registry f')"
    using registry_inv_step [OF registry_step.intros(1)] o(1) g by (auto simp: owns_def)
  moreover have c': "c_sessions c' = map_put (id_text i) (me, w) (c_sessions c)" "f'' = f'"
    using k o(4) by (auto simp: keep_session_def Let_def)
  ultimately show "owns wanted g0 c' (f_registry f'')" "c_sessions c' = map_put (id_text i) (me, w) (c_sessions c)"
    using o(1,3) w n g so by (auto simp: owns_def addSession_def)
qed

text \<open>The sessions of the wanted type among \<open>ids\<close>.\<close>

definition of_type :: "session_settings \<Rightarrow> string \<Rightarrow> session_id list \<Rightarrow> string set" where
  "of_type settings wanted ids =
     {id_text i |i d. i \<in> set ids \<and> ss_get i settings = Inr d \<and> dict_getString ''ConnectionType'' False d = Inr wanted}"

lemma initialize_loop_owns:
  assumes "initialize_loop load fuel settings wanted also_do ids me c f = (r, c', f')"
    and "owns wanted g0 c (f_registry f)" "registry_inv g0" "P c"
    and "\<And>i c. c_sessions (also_do i c) = c_sessions c"
    and "\<And>i p w c c' f f'. P c \<Longrightarrow> keep_session i p w c f = (c', f') \<Longrightarrow> P (also_do i c')"
    and "\<forall>i\<in>set ids. map_of (s_sessions g0) (id_text i) = None \<and> \<not> c_has i c" "distinct (map id_text ids)"
  shows "owns wanted g0 c' (f_registry f') \<and> P c' \<and>
    (r = Inr () \<longrightarrow> fst ` set (c_sessions c') = fst ` set (c_sessions c) \<union> of_type settings wanted ids)"
  using assms(1,2,4,7,8)
proof (induction ids arbitrary: me c f)
  case Nil
  then show ?case by (simp add: of_type_def)
next
  case (Cons i ids)
  show ?case
  proof (cases "rbind (ss_get i settings) (\<lambda>d. rbind (dict_getString ''ConnectionType'' False d) (\<lambda>t. Inr (d, t)))")
    case (Inl e)
    then show ?thesis using Cons.prems by auto
  next
    case (Inr x)
    obtain d t where x: "x = (d, t)" by force
    have d: "ss_get i settings = Inr d" "dict_getString ''ConnectionType'' False d = Inr t"
      using Inr x by (auto simp: rbind_Inr)
    have skip: "of_type settings wanted (i # ids) = (if t = wanted then {id_text i} else {}) \<union> of_type settings wanted ids"
      using d by (auto simp: of_type_def)
    show ?thesis
    proof (cases "t = wanted")
      case False
      then show ?thesis using Cons.IH [of me c f] Cons.prems Inr x skip by simp
    next
      case True
      obtain s f1 where s: "SessionFactory_create load fuel me i d f = (s, f1)" by force
      have new: "map_of (s_sessions g0) (id_text i) = None" "\<not> c_has i c" using Cons.prems(4) by auto
      show ?thesis
      proof (cases s)
        case (Inl e)
        have "\<not> doesSessionExist i (f_registry f)"
          using Cons.prems(2) new by (cases "map_of (c_sessions c) (id_text i)") (auto simp: owns_def doesSessionExist_def c_has_def)
        moreover have "registry_inv (f_registry f)" using Cons.prems(2) by (simp add: owns_def)
        ultimately have "f_registry f1 = f_registry f" using creation_failure_clean [of load fuel me i d f e f1] s Inl by blast
        then show ?thesis using Cons.prems \<open>rbind _ _ = _\<close> x True s Inl by auto
      next
        case (Inr w)
        obtain c1 f2 where k: "keep_session i me w c f1 = (c1, f2)" by force
        note facts = created_session_facts [of load fuel me i d f w f1]
        have w: "m_sessionID w = i" "\<not> m_detached w" "m_initiate (m_state w) \<longleftrightarrow> wanted = ''initiator''"
          "f_registry f1 = snd (addSession i me (f_registry f))"
          using facts s Inr d True by auto
        note o = owns_add [OF Cons.prems(2) assms(3) new w k]
        have l: "initialize_loop load fuel settings wanted also_do ids (Suc me) (also_do i c1) f2 = (r, c', f')"
          using Cons.prems(1) \<open>rbind _ _ = _\<close> x True s Inr k by simp
        have p: "P (also_do i c1)" using assms(6) [OF Cons.prems(3) k] .
        have own: "owns wanted g0 (also_do i c1) (f_registry f2)" using o(1) by (simp add: owns_def assms(5))
        have more: "\<forall>j\<in>set ids. map_of (s_sessions g0) (id_text j) = None \<and> \<not> c_has j (also_do i c1)"
        proof
          fix j assume j: "j \<in> set ids"
          have "id_text j \<noteq> id_text i" using Cons.prems(5) j by (metis distinct.simps(2) image_eqI list.simps(9) set_map)
          moreover have "map_sorted (c_sessions c)" using Cons.prems(2) by (simp add: owns_def)
          ultimately show "map_of (s_sessions g0) (id_text j) = None \<and> \<not> c_has j (also_do i c1)"
            using Cons.prems(4) j o(2) by (simp add: c_has_def assms(5))
        qed
        have "distinct (map id_text ids)" using Cons.prems(5) by simp
        then show ?thesis using Cons.IH [OF l own p more] True skip o(2) by (simp add: assms(5) map_put_keys insert_commute)
      qed
    qed
  qed
qed

text \<open>What the factory and the keeping of a session leave alone, and the sessions that come of it.\<close>

lemma SessionFactory_create_outside:
  "SessionFactory_create load fuel me i d f = (r, f') \<Longrightarrow> f_outside f' = f_outside f \<and> f_logged f' = f_logged f"
  by (auto simp: SessionFactory_create_def create_with_def split: prod.splits sum.splits)

definition all_sound :: "'e outside \<Rightarrow> bool \<Rightarrow> ('e, 'z) connector_scheme \<Rightarrow> bool" where
  "all_sound out logged c \<longleftrightarrow> (\<forall>(k, p, w)\<in>set (c_sessions c). engine_session out logged w)"

lemma keep_session_sound:
  assumes "keep_session i me w c f = (c', f')" "all_sound out logged c" "engine_session out logged w"
  shows "all_sound out logged c' \<and> f_outside f' = f_outside f \<and> f_logged f' = f_logged f"
proof -
  have "(k, p, v) \<in> set (c_sessions c) \<or> v = w" if "(k, p, v) \<in> set (map_put (id_text i) (me, w) (c_sessions c))" for k p v
    using that set_map_put [of "id_text i" "(me, w)" "c_sessions c"] by auto
  then show ?thesis using assms by (fastforce simp: keep_session_def Let_def all_sound_def split: if_splits)
qed

lemma initialize_loop_sound:
  assumes "initialize_loop load fuel settings wanted also_do ids me c f = (r, c', f')"
    and "f_outside f = out" "f_logged f = logged" "all_sound out logged c"
    and "\<And>i c. c_sessions (also_do i c) = c_sessions c"
  shows "all_sound out logged c'"
  using assms(1-4)
proof (induction ids arbitrary: me c f)
  case (Cons i ids)
  show ?case
  proof (cases "rbind (ss_get i settings) (\<lambda>d. rbind (dict_getString ''ConnectionType'' False d) (\<lambda>t. Inr (d, t)))")
    case (Inl e)
    then show ?thesis using Cons.prems by auto
  next
    case (Inr x)
    obtain d t where x: "x = (d, t)" by force
    obtain s f1 where s: "SessionFactory_create load fuel me i d f = (s, f1)" by force
    note out = SessionFactory_create_outside [OF s]
    show ?thesis
    proof (cases "t = wanted \<and> \<not> isl s")
      case True
      then obtain w where w: "s = Inr w" by (cases s) auto
      obtain c1 f2 where k: "keep_session i me w c f1 = (c1, f2)" by force
      have "engine_session out logged w" using created_session_facts [of load fuel me i d f w f1] s w Cons.prems(2,3) by simp
      note kept = keep_session_sound [OF k Cons.prems(4) this]
      have l: "initialize_loop load fuel settings wanted also_do ids (Suc me) (also_do i c1) f2 = (r, c', f')"
        using Cons.prems(1) Inr x True s w k by simp
      show ?thesis using Cons.IH [OF l] kept out Cons.prems(2,3) by (simp add: all_sound_def assms(5))
    next
      case False
      then show ?thesis
        using Cons.prems Cons.IH [of me c f] Inr x s by (cases s) (auto split: if_splits)
    qed
  qed
qed simp

lemma initialize_sound:
  assumes "initialize load fuel settings wanted also_do me c f = (Inr c', f')"
    and "c_sessions c = []" "\<And>i c. c_sessions (also_do i c) = c_sessions c"
  shows "all_sound (f_outside f) (f_logged f) c'"
proof -
  obtain x c1 f1 where l: "initialize_loop load fuel settings wanted also_do (ss_getSessions settings) me c f = (x, c1, f1)"
    by (metis prod_cases3)
  have "c1 = c'" using assms(1) l by (auto simp: initialize_def split: if_splits sum.splits)
  then show ?thesis using initialize_loop_sound [OF l refl refl _ assms(3)] assms(2) by (simp add: all_sound_def)
qed

section \<open>The settings\<close>

definition ss_keyed :: "session_settings \<Rightarrow> bool" where
  "ss_keyed s \<longleftrightarrow> map_sorted (ss_settings s) \<and> (\<forall>(t, i, d)\<in>set (ss_settings s). t = id_text i)"

lemma ss_set_keyed: "ss_set i d s = Inr s' \<Longrightarrow> ss_keyed s \<Longrightarrow> ss_keyed s'"
  using set_map_put [of "id_text i"] by (fastforce simp: ss_set_def Let_def rbind_Inr ss_keyed_def)

lemma read_sessions_keyed: "read_sessions def ds s = Inr s' \<Longrightarrow> ss_keyed s \<Longrightarrow> ss_keyed s'"
  by (induction def ds s rule: read_sessions.induct) (auto simp: rbind_Inr read_session_def Let_def dest: ss_set_keyed)

lemma ss_read_keyed:
  assumes "ss_read env stream (SessionSettings resolve) = Inr s"
  shows "ss_keyed s"
proof -
  obtain def ds where r: "read_sessions def ds (ss_set_defaults def (SessionSettings resolve)) = Inr s"
    using assms by (auto simp: ss_read_def rbind_Inr Let_def)
  have "ss_keyed (ss_set_defaults def (SessionSettings resolve))"
    by (simp add: ss_keyed_def ss_set_defaults_def SessionSettings_def map_sorted_def)
  then show ?thesis using read_sessions_keyed [OF r] by blast
qed

lemma keyed_sessions:
  assumes "ss_keyed s"
  shows "distinct (map id_text (ss_getSessions s))"
    "id_text i \<in> of_type s wanted (ss_getSessions s) \<longleftrightarrow> (\<exists>d. ss_get i s = Inr d \<and> dict_getString ''ConnectionType'' False d = Inr wanted)"
proof -
  have k: "map id_text (ss_getSessions s) = map fst (ss_settings s)"
    using assms by (auto simp: ss_getSessions_def ss_keyed_def)
  then show "distinct (map id_text (ss_getSessions s))" using assms map_sorted_distinct by (auto simp: ss_keyed_def)
  have "\<exists>j\<in>set (ss_getSessions s). id_text j = id_text i" if "ss_get i s = Inr d" for d
  proof -
    have "id_text i \<in> set (map fst (ss_settings s))" using that by (force simp: ss_get_def dest: map_of_SomeD split: option.splits)
    then show ?thesis unfolding k [symmetric] by auto
  qed
  moreover have "ss_get i s = ss_get j s" if "id_text i = id_text j" for j using that by (simp add: ss_get_def)
  ultimately show "id_text i \<in> of_type s wanted (ss_getSessions s) \<longleftrightarrow>
      (\<exists>d. ss_get i s = Inr d \<and> dict_getString ''ConnectionType'' False d = Inr wanted)"
    unfolding of_type_def by (smt (verit, ccfv_threshold) mem_Collect_eq)
qed

lemma initialize_owns:
  assumes "initialize load fuel settings wanted also_do me c f = (r, f')"
    and "ss_keyed settings" "\<forall>i\<in>set (ss_getSessions settings). \<not> doesSessionExist i (f_registry f)"
    and "registry_inv (f_registry f)" "c_sessions c = []" "P c"
    and "\<And>i c. c_sessions (also_do i c) = c_sessions c"
    and "\<And>i p w c c' f f'. P c \<Longrightarrow> keep_session i p w c f = (c', f') \<Longrightarrow> P (also_do i c')"
  shows "case r of Inl s \<Rightarrow> f_registry f' = f_registry f
    | Inr c' \<Rightarrow> owns wanted (f_registry f) c' (f_registry f') \<and> P c' \<and>
        (\<forall>i. c_has i c' \<longleftrightarrow> (\<exists>d. ss_get i settings = Inr d \<and> dict_getString ''ConnectionType'' False d = Inr wanted))"
proof (cases "ss_getSessions settings = []")
  case True
  then show ?thesis using assms(1) by (auto simp: initialize_def)
next
  case False
  obtain x c1 f1 where l: "initialize_loop load fuel settings wanted also_do (ss_getSessions settings) me c f = (x, c1, f1)"
    by (metis prod_cases3)
  have o: "owns wanted (f_registry f) c (f_registry f)" using assms(4,5) by (simp add: owns_def map_sorted_def)
  have n: "\<forall>i\<in>set (ss_getSessions settings). map_of (s_sessions (f_registry f)) (id_text i) = None \<and> \<not> c_has i c"
    using assms(3,5) by (simp add: doesSessionExist_def c_has_def)
  have v: "owns wanted (f_registry f) c1 (f_registry f1) \<and> P c1 \<and>
      (x = Inr () \<longrightarrow> fst ` set (c_sessions c1) = fst ` set (c_sessions c) \<union> of_type settings wanted (ss_getSessions settings))"
    by (rule initialize_loop_owns [where P = P, OF l o assms(4,6)]) (use assms(7,8) n keyed_sessions(1) [OF assms(2)] in blast)+
  have d: "f_registry (destroy_all (c_sessions c1) f1) = f_registry f"
    using v destroy_all_owned [OF _ assms(4)] by blast
  have "c_has i c1 \<longleftrightarrow> (\<exists>d. ss_get i settings = Inr d \<and> dict_getString ''ConnectionType'' False d = Inr wanted)" if "x = Inr ()" for i
  proof -
    have "c_has i c1 \<longleftrightarrow> id_text i \<in> fst ` set (c_sessions c1)" by (auto simp: c_has_def map_of_eq_None_iff)
    then show ?thesis using v that assms(5) keyed_sessions(2) [OF assms(2)] by simp
  qed
  then show ?thesis using assms(1) False l d v by (auto simp: initialize_def split: sum.splits if_splits)
qed

section \<open>An initiator that was started\<close>

text \<open>Every session is disconnected.\<close>

definition all_disconnected :: "'e initiator \<Rightarrow> bool" where
  "all_disconnected c \<longleftrightarrow>
     i_pending c = [] \<and> i_connected c = [] \<and> fst ` set (i_disconnected c) = fst ` set (c_sessions c)"

lemma keep_session_disconnected:
  assumes "all_disconnected c" "keep_session i p w c g = (c', g')"
  shows "all_disconnected (setDisconnected i c')"
proof -
  have k: "fst ` set (c_sessions c') = insert (id_text i) (fst ` set (c_sessions c))"
  proof (cases "c_has i c")
    case True
    then have "id_text i \<in> fst ` set (c_sessions c)" by (auto simp: c_has_def map_of_eq_None_iff)
    moreover have "c_sessions c' = c_sessions c" using True assms(2) by (auto simp: keep_session_def Let_def)
    ultimately show ?thesis by auto
  next
    case False
    then have "c_sessions c' = map_put (id_text i) (p, w) (c_sessions c)" using assms(2) by (auto simp: keep_session_def Let_def)
    then show ?thesis by (simp add: map_put_keys)
  qed
  have "i_pending c' = i_pending c \<and> i_connected c' = i_connected c \<and> i_disconnected c' = i_disconnected c"
    using assms(2) by (auto simp: keep_session_def Let_def split: if_splits)
  with k show ?thesis using assms(1) by (simp add: all_disconnected_def setDisconnected_def map_put_keys map_erase_def)
qed

lemma Initiator_initialize_owns:
  assumes "ss_keyed settings" "registry_inv registry"
    and "\<forall>i\<in>set (ss_getSessions settings). \<not> doesSessionExist i registry"
    and "Initiator_initialize load fuel settings me out logged registry e = (r, f)"
  shows "case r of Inl s \<Rightarrow> f_registry f = registry
    | Inr c \<Rightarrow> owns ''initiator'' registry c (f_registry f) \<and> all_disconnected c \<and> all_sound out logged c \<and>
        (\<forall>i. c_has i c \<longleftrightarrow> (\<exists>d. ss_get i settings = Inr d \<and> dict_getString ''ConnectionType'' False d = Inr ''initiator''))"
proof -
  let ?f = "SessionFactory out logged registry e"
  have f: "f_registry ?f = registry" "f_outside ?f = out" "f_logged ?f = logged" by (simp_all add: SessionFactory_def)
  have r: "case r of Inl s \<Rightarrow> f_registry f = f_registry ?f
    | Inr c \<Rightarrow> owns ''initiator'' (f_registry ?f) c (f_registry f) \<and> all_disconnected c \<and>
        (\<forall>i. c_has i c \<longleftrightarrow> (\<exists>d. ss_get i settings = Inr d \<and> dict_getString ''ConnectionType'' False d = Inr ''initiator''))"
  proof (rule initialize_owns [where P = all_disconnected and c = Initiator and also_do = setDisconnected,
        OF assms(4) [unfolded Initiator_initialize_def] assms(1)])
    show "\<forall>i\<in>set (ss_getSessions settings). \<not> doesSessionExist i (f_registry ?f)" using assms(3) f by simp
    show "registry_inv (f_registry ?f)" using assms(2) f by simp
    show "c_sessions Initiator = []" "all_disconnected Initiator" by (simp_all add: Initiator_def all_disconnected_def)
    show "c_sessions (setDisconnected i c) = c_sessions c" for i and c :: "'a initiator" by (simp add: setDisconnected_def)
  qed (rule keep_session_disconnected)
  have "all_sound (f_outside ?f) (f_logged ?f) c" if "r = Inr c" for c
    by (rule initialize_sound [OF assms(4) [unfolded Initiator_initialize_def that]]) (simp_all add: Initiator_def setDisconnected_def)
  then show ?thesis using r unfolding f by (cases r) simp_all
qed

section \<open>Properties\<close>

text \<open>C33: an initiator that is started with settings read from a text has all of the sessions it
  should have or does not exist: either it throws, and the registry of sessions is as it was, the
  sessions created before the failure being destroyed; or it has a session exactly for the settings
  whose connection type is that of an initiator. Each of these initiates, is one the engine can have
  in the outside that was given (so that the invariants of sessions hold for it), is found in the
  registry under its identifier and is disconnected, and nothing else in the registry has changed.
  The settings name no session that is in the registry already.\<close>

theorem initiator_all_or_nothing:
  assumes "ss_read env stream (SessionSettings resolve) = Inr settings" "registry_reachable registry"
    and "\<forall>i\<in>set (ss_getSessions settings). \<not> doesSessionExist i registry"
    and "Initiator_initialize load fuel settings me out logged registry e = (r, f)"
  shows "case r of Inl s \<Rightarrow> f_registry f = registry
    | Inr c \<Rightarrow> \<forall>i. (c_has i c \<longleftrightarrow> (\<exists>d. ss_get i settings = Inr d \<and> dict_getString ''ConnectionType'' False d = Inr ''initiator'')) \<and>
        (isDisconnected i c \<longleftrightarrow> c_has i c) \<and> \<not> isPending i c \<and> \<not> isConnected i c \<and>
        lookupSession i (f_registry f) = (if c_has i c then c_getSession i c else lookupSession i registry) \<and>
        (\<forall>p w. map_of (c_sessions c) (id_text i) = Some (p, w) \<longrightarrow> id_text (m_sessionID w) = id_text i \<and> m_initiate (m_state w) \<and>
           engine_session out logged w)"
proof -
  note r = Initiator_initialize_owns [OF ss_read_keyed [OF assms(1)] registry_inv_reachable [OF assms(2)] assms(3,4)]
  show ?thesis
  proof (cases r)
    case (Inl s)
    then show ?thesis using r by simp
  next
    case (Inr c)
    have o: "owns ''initiator'' registry c (f_registry f)" "all_disconnected c" "all_sound out logged c" using r Inr by auto
    have k: "isDisconnected i c \<longleftrightarrow> c_has i c" for i
      using o(2) by (simp add: all_disconnected_def isDisconnected_def c_has_def map_of_eq_None_iff)
    have l: "lookupSession i (f_registry f) = (if c_has i c then c_getSession i c else lookupSession i registry)" for i
      using o(1) by (cases "map_of (c_sessions c) (id_text i)") (auto simp: owns_def lookupSession_def c_has_def c_getSession_def)
    have w: "id_text (m_sessionID w) = id_text i \<and> m_initiate (m_state w) \<and> engine_session out logged w"
      if "map_of (c_sessions c) (id_text i) = Some (p, w)" for i p w
    proof -
      have "engine_session out logged w" using o(3) map_of_SomeD [OF that] by (auto simp: all_sound_def)
      moreover have "id_text (m_sessionID w) = id_text i \<and> m_initiate (m_state w)" using o(1) that unfolding owns_def by metis
      ultimately show ?thesis by blast
    qed
    show ?thesis using r Inr k l w o(2) by (simp add: all_disconnected_def isPending_def isConnected_def)
  qed
qed

text \<open>The text of the settings of one initiator.\<close>

definition started_text :: string where
  "started_text = ''[SESSION]'' @ [CHR 0x0A] @ concat (map (\<lambda>l. l @ [CHR 0x0A])
     [''BeginString=FIX.4.2'', ''CheckCompID=N'', ''ConnectionType=initiator'', ''EndTime=17:00:00'', ''HeartBtInt=30'',
      ''LogonTime=09:00:00'', ''SenderCompID=ME'', ''StartTime=08:00:00'', ''TargetCompID=YOU'', ''UseDataDictionary=N''])"

definition started_settings :: session_settings where
  "started_settings = (SessionSettings False)\<lparr>ss_settings := [(id_text sample_name, sample_name, sample_section)]\<rparr>"

lemma started_settings_of_text: "ss_read (\<lambda>_. None) started_text (SessionSettings False) = Inr started_settings"
  by code_simp

definition sample_started :: "(stop + nat initiator) \<times> nat factory" where
  "sample_started = Initiator_initialize (\<lambda>_. None) 0 started_settings 1 sample_outside True registry_empty 0"

lemma started_settings_one: "ss_getSessions started_settings = [sample_name]" "ss_get sample_name started_settings = Inr sample_section"
  by (simp_all add: started_settings_def ss_getSessions_def ss_get_def)

lemma sample_started_value:
  obtains c where "fst sample_started = Inr c" "c_getSession sample_name c = Some 1"
proof -
  obtain w where "fst sample_created = Inr w" using sample_created_value by (cases "fst sample_created") auto
  then have "sample_created = (Inr w, snd sample_created)" by (simp add: prod_eq_iff)
  then obtain f where w: "sample_created = (Inr w, f)" by blast
  obtain c g where k: "keep_session sample_name 1 w Initiator f = (c, g)" by force
  have c: "c_sessions (setDisconnected sample_name c) = [(id_text sample_name, 1, w)]"
    using k by (auto simp: keep_session_def Let_def c_has_def Initiator_def setDisconnected_def)
  have "SessionFactory_create (\<lambda>_. None) 0 1 sample_name sample_section (SessionFactory sample_outside True registry_empty 0) = (Inr w, f)"
    using w by (simp add: sample_created_def sample_factory_def)
  then have "sample_started = (Inr (setDisconnected sample_name c), g)"
    using c k by (simp add: sample_started_def Initiator_initialize_def initialize_def started_settings_one sample_parts(6))
  then have v: "sample_started = (Inr (setDisconnected sample_name c), g)" .
  have "fst sample_started = Inr (setDisconnected sample_name c)"
    unfolding v by (rule fst_conv)
  moreover have "c_getSession sample_name (setDisconnected sample_name c) = Some 1" using c by (simp add: c_getSession_def)
  ultimately show ?thesis by (rule that)
qed

theorem initiator_all_or_nothing_witness:
  "lookupSession sample_name (f_registry (snd sample_started)) = Some 1"
proof -
  obtain c where c: "fst sample_started = Inr c" "c_getSession sample_name c = Some 1" by (rule sample_started_value)
  have "\<forall>i\<in>set (ss_getSessions started_settings). \<not> doesSessionExist i registry_empty"
    by (simp add: doesSessionExist_def registry_empty_def)
  moreover have "Initiator_initialize (\<lambda>_. None) 0 started_settings 1 sample_outside True registry_empty 0 = (Inr c, snd sample_started)"
    using c by (simp add: sample_started_def prod_eq_iff)
  ultimately have "lookupSession sample_name (f_registry (snd sample_started)) =
      (if c_has sample_name c then c_getSession sample_name c else lookupSession sample_name registry_empty)"
    using initiator_all_or_nothing [OF started_settings_of_text reachable_empty] by fastforce
  moreover have "c_has sample_name c" using c(2) by (auto simp: c_has_def c_getSession_def)
  ultimately show ?thesis using c(2) by simp
qed
end
