(* ===== verification/Spec2Isabelle.thy ===== *)
theory Spec2Isabelle
  imports Validations SessionRegistries FrameDispatchers TimeRanges MessageStores LogRedactions
    SessionNumbers SessionDeadlines SessionAdmissions SessionTerminations SettingsTexts DictionaryReadings
    Connectors
begin

text \<open>
  A model of the core of the FIX engine under \<open>src/src/C++\<close>: from the bytes of a connection to
  messages, from messages to what a session does with them, and back to bytes.

  How the parts interact. Bytes of a connection are cut into frames, either by the text
  parser (\<open>Parser.cpp\<close>) or by the scanner of declared frames and its dispatcher
  (\<open>InfiniteCompleteFrame.cpp\<close>). A frame is parsed into a
  \<open>Message\<close> of three field maps, with the help of a data dictionary, which was read from an XML
  document and which also validates the message. A \<open>Session\<close>, found by its identifier in the
  registry, handles the message: it checks its version, names, time and sequence number, answers
  administrative messages, gives the others to the application, keeps early ones in a queue, and
  sends, stores and replays its own messages under consecutive numbers. The settings say which
  sessions exist and how they are configured.

  Which theory models what (names of files under \<open>src/src/C++\<close>):

  \<^item> \<open>Prelude\<close>: bytes, byte strings, \<open>size_t\<close>, results, sorted association lists for \<open>std::map\<close>, and
    the named collections the other theories add to.
  \<^item> \<open>Exceptions\<close> (\<open>Exceptions.h\<close>): the exceptions as a datatype; a function that can throw returns
    \<open>exn + 'a\<close>. \<open>FieldNumbers\<close>: the tags the engine itself uses.
  \<^item> \<open>Convertors\<close> (\<open>FieldConvertors.h\<close>) and \<open>DateTimes\<close> (\<open>FieldTypes.h\<close>, \<open>FieldConvertors.h\<close>): texts of
    integers, checksums, characters, booleans and timestamps in both directions; Julian days.
  \<^item> \<open>FieldBases\<close> (\<open>Field.h\<close>), \<open>Sorters\<close> (\<open>MessageSorters.h\<close>), \<open>FieldMaps\<close> (\<open>FieldMap.h\<close>, \<open>FieldMap.cpp\<close>):
    fields, their orders, and the sorted vector of fields with its groups.
  \<^item> \<open>DataDicts\<close> (\<open>DataDictionary.h\<close>, \<open>DataDictionaryProvider.h\<close>), \<open>DictionaryReaders\<close> and
    \<open>DictionaryReadings\<close> (\<open>DataDictionary.cpp\<close>): what a dictionary stores, and reading it.
  \<^item> \<open>Messages\<close> and \<open>MessageParsers\<close> (\<open>Message.h\<close>, \<open>Message.cpp\<close>): printing, parsing with dictionaries
    and groups, routing. \<open>Validations\<close>: \<open>DataDictionary::validate\<close>.
  \<^item> \<open>StreamParsers\<close> (\<open>Parser.cpp\<close>, \<open>SocketConnection.cpp\<close>), \<open>DeclaredFrames\<close>, \<open>FrameScans\<close> and
    \<open>FrameDispatchers\<close>: the buffers of a connection and how frames come out of them.
  \<^item> \<open>SessionIDs\<close> (\<open>SessionID.h\<close>), \<open>SessionRegistries\<close> (the static members of \<open>Session\<close>).
  \<^item> \<open>TimeRanges\<close> (\<open>TimeRange.cpp\<close>), \<open>MessageStores\<close> (\<open>MessageStore.cpp\<close> and the planning store of
    \<open>InfiniteSessionClassification.cpp\<close>),
    \<open>LogRedactions\<close> (\<open>Log.cpp\<close>).
  \<^item> \<open>SessionStates\<close> (\<open>SessionState.h\<close>): the members of the state, its queue and its deadlines.
    \<open>SessionOps\<close>: the record \<open>session\<close> and the operations on it, \<open>('e, 'a) op\<close>, which return a value or an
    exception together with the session afterwards; what a session asks of the application, the
    connection, the clock and the log is recorded in \<open>calls\<close>. \<open>SessionSends\<close>, \<open>SessionReceives\<close>,
    \<open>SessionSteps\<close> and \<open>SessionLives\<close> (\<open>Session.h\<close>, \<open>Session.cpp\<close>): its methods, from \<open>sendRaw\<close> over
    \<open>verify\<close> and the handlers to \<open>next\<close>, \<open>acceptLogon\<close>, the constructor and the setters.
  \<^item> \<open>Dictionaries\<close> (\<open>Dictionary.cpp\<close>, \<open>Utility.cpp\<close>), \<open>Settings\<close> and \<open>SettingsTexts\<close> (\<open>Settings.cpp\<close>,
    \<open>SessionSettings.cpp\<close>): the settings.
  \<^item> \<open>SessionFactories\<close> (\<open>SessionFactory.cpp\<close>, the destructor of \<open>Session\<close>) and \<open>Connectors\<close>
    (\<open>Initiator.cpp\<close>, \<open>Acceptor.cpp\<close>): from the settings to the sessions of a process and the registry.

  What the lemmas show. The convertors accept exactly the numerals of their type and invert the
  printers. A field map stays sorted under every operation and is a map. A printed message has the
  prescribed frame and is read back as itself; parsing any string ends; validation accepts exactly
  the messages that conform to the dictionary, and throws the documented exceptions (of the fields
  inside groups it looks only for the required ones, and not always for these). A
  dictionary that was read uses only declared numbers, and reading it ends unless components refer
  to each other in a circle. Every way of cutting a stream of messages into pieces gives the same
  messages, and the incremental scanner and the dispatcher implement one abstract specification
  within their limits. At most one session of an identifier is registered. Session hours are what
  the days and times say. For sessions, the locales of \<open>SessionRelations\<close> state what a relation must
  satisfy so that every method keeps it: that it composes, and that it holds for the elementary
  changes. Each invariant is an interpretation: the containers are well formed, the log is redacted,
  the stored numbers have no gaps, nothing is delivered before a Logon was accepted. They hold in
  every state that a session can reach after it was constructed and configured in any way.
  \<open>SessionTriples\<close> adds conditions before and after a method, with which \<open>SessionTerminations\<close> shows that
  the recursion through the queue ends. Settings are written as a text that reads back as they are.
  A session the factory creates from them is one the sessions' invariants speak of, and an initiator
  has all of the sessions of its settings or leaves nothing in the registry.

  Bounds. Integers of the sessions are words of 64 bits (\<open>seqnum\<close>); tags and lengths are \<open>int\<close> values
  that are narrowed where the code narrows them; positions of the scanner are natural numbers with
  the bound of \<open>size_t\<close> written out; products of doubles are rounded to 53 bits. The
  arithmetic on dates wraps at 32 bits as the code's does; what is shown of dates has bounds that
  keep it from wrapping (the year 1465000 for the conversion of day numbers, day numbers up to
  \<open>2 ^ 31 - 2 ^ 15\<close> for adding seconds). The loops of the message
  parser and of the stream parser take fuel that is enough because each round consumes a byte. Handling
  a message takes a bound on the recursion through the queue; more than the length of the queue
  plus one is enough, and larger bounds change nothing (\<open>handling_ends\<close>). Reading a dictionary takes
  a bound on the depth; there is one that is enough for every dictionary whose components do not refer
  to each other in a circle (\<open>dictionary_reading_ends\<close>).

  Parameters. The application, the transport and the clock are functions of an environment of any
  type that each of them may change, and every one may fail (\<open>outside\<close>); local time; printing and
  reading the value of a double (the vendored double-conversion library); the XML document as the lookup
  of its nodes by path (the vendored pugixml library); the environment variables.

  Not modelled. The vendored libraries and the generated files (\<open>FixFields.h\<close>, the message classes of
  \<open>fix40\<close> to \<open>fixt11\<close>, the Python and Ruby wrappers), which are the larger part of the lines. Sockets,
  TLS, threads and locks, files and databases, the HTTP monitor: they are calls of the operating system
  and of libraries. Of the acceptors and initiators, the starting, polling, stopping and connecting. The frame adapter
  and the session classification, which run detached sessions for a C interface; of them only the
  planning store is here. In the session: a store other than the memory store, a log that throws,
  callbacks that call the session again, setting the stored numbers from outside and changing the
  configuration while the session runs. In the convertors: the digits of a double. In fields: the cache
  of the printed text, and overflow of the sums of lengths and bytes; a cached length and byte sum is part of the
  field.
\<close>

end
